(* ===== verification/Prelude.thy ===== *)
theory Prelude
  imports Main "HOL-Library.Word"
begin

unbundle bit_operations_syntax

text \<open>
  The shared layer of the development: the C integer types as words, C character literals as
  bytes, the proof-method collections, and the generic facts on words and lists that several
  components use.  A C array of bytes is the list of its elements; a pointer and a length that
  a function receives together are the list of the bytes they delimit.  A function whose C
  original may read or write outside an array returns \<open>None\<close> in that case.
\<close>

section \<open>C integer types\<close>

type_synonym u8 = "8 word"
type_synonym u16 = "16 word"
type_synonym u32 = "32 word"

type_synonym bytes = "u8 list"

text \<open>\<open>asc\<close> turns a C string literal into its bytes, without the terminating 0.\<close>

definition asc :: "string \<Rightarrow> bytes" where
  "asc s = map (\<lambda>c. of_nat (of_char c)) s"

lemma length_asc [simp]: "length (asc s) = length s"
  by (simp add: asc_def)

text \<open>\<open>store xs i v\<close> is \<open>xs[i] = v\<close>, \<open>fetch xs i\<close> the value of \<open>xs[i]\<close>; both fail outside the array.\<close>

definition store :: "'a list \<Rightarrow> nat \<Rightarrow> 'a \<Rightarrow> 'a list option" where
  "store xs i v = (if i < length xs then Some (xs[i := v]) else None)"

definition fetch :: "'a list \<Rightarrow> nat \<Rightarrow> 'a option" where
  "fetch xs i = (if i < length xs then Some (xs ! i) else None)"

lemma store_in [simp]: "i < length xs \<Longrightarrow> store xs i v = Some (xs[i := v])"
  by (simp add: store_def)

lemma fetch_in [simp]: "i < length xs \<Longrightarrow> fetch xs i = Some (xs ! i)"
  by (simp add: fetch_def)

lemma fetch_out [simp]: "length xs \<le> i \<Longrightarrow> fetch xs i = None"
  by (simp add: fetch_def)

lemma fetch_last: "length xs = n \<Longrightarrow> 0 < n \<Longrightarrow> fetch (xs @ ys) (n - 1) = Some (last xs)"
  by (cases xs rule: rev_cases) (auto simp: fetch_def nth_append)

lemma store_eq_None_iff [simp]: "store xs i v = None \<longleftrightarrow> length xs \<le> i"
  by (simp add: store_def linorder_not_less)

lemma length_store: "store xs i v = Some ys \<Longrightarrow> length ys = length xs"
  by (auto simp: store_def split: if_splits)

text \<open>
  \<open>blit dst off src\<close> is \<open>memcpy(&dst[off], src, length src)\<close>.  It keeps the length of \<open>dst\<close> exactly
  when the copy stays inside, so that an invariant on the length of a buffer shows that no copy
  leaves it.
\<close>

definition blit :: "'a list \<Rightarrow> nat \<Rightarrow> 'a list \<Rightarrow> 'a list" where
  "blit dst off src = take off dst @ src @ drop (off + length src) dst"

lemma length_blit [simp]: "off + length src \<le> length dst \<Longrightarrow> length (blit dst off src) = length dst"
  by (simp add: blit_def)

lemma take_blit: "off \<le> length dst \<Longrightarrow> take (off + length src) (blit dst off src) = take off dst @ src"
  by (simp add: blit_def)

section \<open>Collections\<close>

named_theorems xor_simps \<open>exclusive or as an Abelian group of exponent two\<close>
named_theorems kernel_eval \<open>definitions to unfold when a closed term is evaluated\<close>

named_theorems opt_intro \<open>rules for what holds of every result of a computation that may fail\<close>

section \<open>Computations that may fail\<close>

text \<open>\<open>pred_option P x\<close>: if \<open>x\<close> has a result, it satisfies \<open>P\<close>.  One rule per construct the models use.\<close>

lemma opt_None [opt_intro]: "pred_option P None"
  by simp

lemma opt_Some [opt_intro]: "P x \<Longrightarrow> pred_option P (Some x)"
  by simp

lemma opt_bind [opt_intro]: "(\<And>y. x = Some y \<Longrightarrow> pred_option P (f y)) \<Longrightarrow> pred_option P (Option.bind x f)"
  by (cases x) simp_all

lemma opt_map [opt_intro]: "(\<And>y. x = Some y \<Longrightarrow> P (f y)) \<Longrightarrow> pred_option P (map_option f x)"
  by (cases x) simp_all

lemma opt_if [opt_intro]:
  "(b \<Longrightarrow> pred_option P x) \<Longrightarrow> (\<not> b \<Longrightarrow> pred_option P y) \<Longrightarrow> pred_option P (if b then x else y)"
  by simp

lemma opt_case [opt_intro]:
  "(x = None \<Longrightarrow> pred_option P a) \<Longrightarrow> (\<And>y. x = Some y \<Longrightarrow> pred_option P (f y)) \<Longrightarrow>
    pred_option P (case x of None \<Rightarrow> a | Some y \<Rightarrow> f y)"
  by (cases x) simp_all

lemma opt_prod [opt_intro]: "(\<And>a b. p = (a, b) \<Longrightarrow> pred_option P (f a b)) \<Longrightarrow> pred_option P (case p of (a, b) \<Rightarrow> f a b)"
  by (cases p) simp

lemma opt_let [opt_intro]: "pred_option P (f x) \<Longrightarrow> pred_option P (let y = x in f y)"
  by simp

lemma pred_optionD: "pred_option P x \<Longrightarrow> x = Some y \<Longrightarrow> P y"
  by simp

section \<open>Words\<close>

lemma word_xor_left_self [simp]: "(x :: 'a::len word) XOR (x XOR y) = y"
  by (simp flip: xor.assoc)

lemmas xor_group [xor_simps] = xor.assoc xor.commute xor.left_commute

lemma word_xor_cancel_left [simp]: "(x :: 'a::len word) XOR y = x XOR z \<longleftrightarrow> y = z"
  by (metis word_xor_left_self)

lemma word_xor_cancel_right [simp]: "(x :: 'a::len word) XOR y = z XOR y \<longleftrightarrow> x = z"
  by (metis word_xor_cancel_left xor.commute)

lemma unat_u8_less [simp]: "unat (x :: u8) < 256"
  using unsigned_less [of x] by simp

lemma unat_of_nat_u8: "k < 256 \<Longrightarrow> unat (of_nat k :: u8) = k"
  by (simp add: unat_of_nat take_bit_nat_eq_self)

lemma of_nat_unat_word: "of_nat (unat (x :: 'a::len word)) = x"
  by simp

lemma of_nat_Suc_word: "of_nat k + 1 = (of_nat (Suc k) :: 'a::len word)"
  by simp

lemma unat_u8_div_16 [simp]: "unat (x :: u8) div 16 < 16"
  using unat_u8_less [of x] by linarith

lemma u8_bit_high [simp]: "8 \<le> n \<Longrightarrow> \<not> bit (x :: u8) n"
  by (auto dest: bit_imp_le_length)

lemma u8_eq_iff: "(x :: u8) = y \<longleftrightarrow> (bit x 0 = bit y 0 \<and> bit x 1 = bit y 1 \<and> bit x 2 = bit y 2 \<and>
    bit x 3 = bit y 3 \<and> bit x 4 = bit y 4 \<and> bit x 5 = bit y 5 \<and> bit x 6 = bit y 6 \<and> bit x 7 = bit y 7)"
  (is "_ \<longleftrightarrow> ?bits")
proof
  assume ?bits
  then have "n < 8 \<Longrightarrow> bit x n = bit y n" for n by (auto simp: less_Suc_eq numeral_eq_Suc)
  then show "x = y" by (intro bit_word_eqI) simp
qed simp

text \<open>A property of all bytes is a property of the 256 numbers below 256.\<close>

lemma all_u8_iff: "(\<forall>x::u8. P x) \<longleftrightarrow> list_all (\<lambda>i. P (of_nat i)) [0..<256]"
proof
  assume "\<forall>x::u8. P x"
  then show "list_all (\<lambda>i. P (of_nat i)) [0..<256]" by (simp add: list_all_iff)
next
  assume *: "list_all (\<lambda>i. P (of_nat i)) [0..<256]"
  show "\<forall>x::u8. P x"
  proof
    fix x :: u8
    from * have "\<forall>i<256. P (of_nat i)" by (simp add: list_all_iff)
    then have "P (of_nat (unat x))" using unat_u8_less by blast
    then show "P x" by simp
  qed
qed

text \<open>
  The table of a function that is linear for exclusive or is built by doubling from its values
  at the powers of two.
\<close>

lemma of_nat_add_power_xor:
  assumes "j < 2 ^ k"
  shows "(of_nat (2 ^ k + j) :: 'a::len word) = of_nat j XOR 2 ^ k"
proof -
  have "take_bit k j = j" using assms by (simp add: take_bit_nat_eq_self)
  then have j: "bit j i \<Longrightarrow> i < k" for i by (metis bit_take_bit_iff)
  then have "(2 ^ k :: nat) AND j = 0" by (intro bit_eqI) (auto simp: bit_simps)
  then have sum: "2 ^ k + j = 2 ^ k XOR j" by (rule disjunctive_add_eq_xor)
  show ?thesis
    by (rule bit_word_eqI) (auto simp: bit_simps sum simp del: of_nat_add of_nat_power dest: j)
qed

lemma linear_map_upt_double:
  fixes f :: "'a::len word \<Rightarrow> 'b::len word"
  assumes "\<And>x y. f (x XOR y) = f x XOR f y"
  shows "map (\<lambda>i. f (of_nat i)) [0..<2 ^ Suc k]
    = map (\<lambda>i. f (of_nat i)) [0..<2 ^ k] @ map (\<lambda>i. f (of_nat i) XOR f (2 ^ k)) [0..<2 ^ k]"
proof -
  have "map (\<lambda>i. f (of_nat i)) [2 ^ k..<2 ^ k + 2 ^ k]
      = map (\<lambda>j. f (of_nat (2 ^ k + j))) [0..<2 ^ k]"
    by (rule nth_equalityI) simp_all
  also have "\<dots> = map (\<lambda>j. f (of_nat j) XOR f (2 ^ k)) [0..<2 ^ k]"
    by (rule map_cong) (simp_all add: of_nat_add_power_xor assms del: of_nat_add of_nat_power)
  finally show ?thesis by (simp add: upt_add_eq_append [of 0 "2 ^ k" "2 ^ k"] mult_2)
qed

fun doubled :: "(nat \<Rightarrow> 'a::len word) \<Rightarrow> nat \<Rightarrow> 'a word list" where
  "doubled u 0 = [0]"
| "doubled u (Suc k) = (let t = doubled u k in t @ map (\<lambda>x. x XOR u k) t)"

lemma linear_table_doubled:
  fixes f :: "'a::len word \<Rightarrow> 'b::len word"
  assumes "\<And>x y. f (x XOR y) = f x XOR f y"
  shows "map (\<lambda>i. f (of_nat i)) [0..<2 ^ k] = doubled (\<lambda>k. f (2 ^ k)) k"
proof (induction k)
  case 0
  have "f 0 = 0" using assms [of 0 0] by simp
  then show ?case by simp
next
  case (Suc k)
  have "map (\<lambda>i. f (of_nat i)) [0..<2 ^ Suc k]
      = map (\<lambda>i. f (of_nat i)) [0..<2 ^ k] @ map (\<lambda>i. f (of_nat i) XOR f (2 ^ k)) [0..<2 ^ k]"
    by (rule linear_map_upt_double [OF assms])
  then show ?case by (simp add: Let_def comp_def flip: Suc)
qed

lemma doubled_8:
  "doubled u 8 = doubled u (Suc (Suc (Suc (Suc (Suc (Suc (Suc (Suc 0))))))))"
  by (simp add: eval_nat_numeral)

lemma u8_table_lookup:
  assumes "tab = map f [0..<256]"
  shows "tab ! unat (x :: u8) = f (unat x)"
  using assms by simp

section \<open>Lists\<close>

lemma foldl_append_chunks: "foldl f s (xs @ ys) = foldl f (foldl f s xs) ys"
  by simp

lemma foldl_inj_state:
  assumes "\<And>x s t. f s x = f t x \<Longrightarrow> s = t"
  shows "foldl f s xs = foldl f t xs \<longleftrightarrow> s = t"
proof (induction xs arbitrary: s t)
  case Nil
  show ?case by simp
next
  case (Cons x xs)
  then show ?case using assms by auto
qed

lemma length_takeWhile_less: "x \<in> set xs \<Longrightarrow> \<not> P x \<Longrightarrow> length (takeWhile P xs) < length xs"
  by (induction xs) auto

lemma length_16_cases:
  assumes "length xs = 16"
  obtains a0 a1 a2 a3 a4 a5 a6 a7 a8 a9 a10 a11 a12 a13 a14 a15
  where "xs = [a0, a1, a2, a3, a4, a5, a6, a7, a8, a9, a10, a11, a12, a13, a14, a15]"
  using assms by (auto simp: length_Suc_conv eval_nat_numeral)

end
