(* ===== verification/Crc.thy ===== *)
theory Crc
  imports Prelude
begin

text \<open>
  The checksums of \<^verbatim>\<open>src/ql_application/App_XD/secrypto/app_crc.c\<close>: the table-driven CRC-32 of
  the firmware image (\<^verbatim>\<open>crc32\<close>) and of the data link (\<^verbatim>\<open>crc32_com\<close>), and the bitwise CRC-16 that
  guards the frames of the slave bus (\<^verbatim>\<open>CRC16_Modbus_check\<close>).  The constant table is proved to be
  the bit-serial division by \<^verbatim>\<open>POLYNOMIAL\<close>; both CRCs are proved to tell apart any two messages
  that differ in one byte, which is what the receivers rely on.
\<close>

section \<open>Model\<close>

definition POLYNOMIAL :: u32 where
  "POLYNOMIAL = 0xEDB88320"

definition crc_table :: "u32 list" where
  "crc_table = [
     0x00000000, 0x77073096, 0xee0e612c, 0x990951ba, 0x076dc419, 0x706af48f,
     0xe963a535, 0x9e6495a3, 0x0edb8832, 0x79dcb8a4, 0xe0d5e91e, 0x97d2d988,
     0x09b64c2b, 0x7eb17cbd, 0xe7b82d07, 0x90bf1d91, 0x1db71064, 0x6ab020f2,
     0xf3b97148, 0x84be41de, 0x1adad47d, 0x6ddde4eb, 0xf4d4b551, 0x83d385c7,
     0x136c9856, 0x646ba8c0, 0xfd62f97a, 0x8a65c9ec, 0x14015c4f, 0x63066cd9,
     0xfa0f3d63, 0x8d080df5, 0x3b6e20c8, 0x4c69105e, 0xd56041e4, 0xa2677172,
     0x3c03e4d1, 0x4b04d447, 0xd20d85fd, 0xa50ab56b, 0x35b5a8fa, 0x42b2986c,
     0xdbbbc9d6, 0xacbcf940, 0x32d86ce3, 0x45df5c75, 0xdcd60dcf, 0xabd13d59,
     0x26d930ac, 0x51de003a, 0xc8d75180, 0xbfd06116, 0x21b4f4b5, 0x56b3c423,
     0xcfba9599, 0xb8bda50f, 0x2802b89e, 0x5f058808, 0xc60cd9b2, 0xb10be924,
     0x2f6f7c87, 0x58684c11, 0xc1611dab, 0xb6662d3d, 0x76dc4190, 0x01db7106,
     0x98d220bc, 0xefd5102a, 0x71b18589, 0x06b6b51f, 0x9fbfe4a5, 0xe8b8d433,
     0x7807c9a2, 0x0f00f934, 0x9609a88e, 0xe10e9818, 0x7f6a0dbb, 0x086d3d2d,
     0x91646c97, 0xe6635c01, 0x6b6b51f4, 0x1c6c6162, 0x856530d8, 0xf262004e,
     0x6c0695ed, 0x1b01a57b, 0x8208f4c1, 0xf50fc457, 0x65b0d9c6, 0x12b7e950,
     0x8bbeb8ea, 0xfcb9887c, 0x62dd1ddf, 0x15da2d49, 0x8cd37cf3, 0xfbd44c65,
     0x4db26158, 0x3ab551ce, 0xa3bc0074, 0xd4bb30e2, 0x4adfa541, 0x3dd895d7,
     0xa4d1c46d, 0xd3d6f4fb, 0x4369e96a, 0x346ed9fc, 0xad678846, 0xda60b8d0,
     0x44042d73, 0x33031de5, 0xaa0a4c5f, 0xdd0d7cc9, 0x5005713c, 0x270241aa,
     0xbe0b1010, 0xc90c2086, 0x5768b525, 0x206f85b3, 0xb966d409, 0xce61e49f,
     0x5edef90e, 0x29d9c998, 0xb0d09822, 0xc7d7a8b4, 0x59b33d17, 0x2eb40d81,
     0xb7bd5c3b, 0xc0ba6cad, 0xedb88320, 0x9abfb3b6, 0x03b6e20c, 0x74b1d29a,
     0xead54739, 0x9dd277af, 0x04db2615, 0x73dc1683, 0xe3630b12, 0x94643b84,
     0x0d6d6a3e, 0x7a6a5aa8, 0xe40ecf0b, 0x9309ff9d, 0x0a00ae27, 0x7d079eb1,
     0xf00f9344, 0x8708a3d2, 0x1e01f268, 0x6906c2fe, 0xf762575d, 0x806567cb,
     0x196c3671, 0x6e6b06e7, 0xfed41b76, 0x89d32be0, 0x10da7a5a, 0x67dd4acc,
     0xf9b9df6f, 0x8ebeeff9, 0x17b7be43, 0x60b08ed5, 0xd6d6a3e8, 0xa1d1937e,
     0x38d8c2c4, 0x4fdff252, 0xd1bb67f1, 0xa6bc5767, 0x3fb506dd, 0x48b2364b,
     0xd80d2bda, 0xaf0a1b4c, 0x36034af6, 0x41047a60, 0xdf60efc3, 0xa867df55,
     0x316e8eef, 0x4669be79, 0xcb61b38c, 0xbc66831a, 0x256fd2a0, 0x5268e236,
     0xcc0c7795, 0xbb0b4703, 0x220216b9, 0x5505262f, 0xc5ba3bbe, 0xb2bd0b28,
     0x2bb45a92, 0x5cb36a04, 0xc2d7ffa7, 0xb5d0cf31, 0x2cd99e8b, 0x5bdeae1d,
     0x9b64c2b0, 0xec63f226, 0x756aa39c, 0x026d930a, 0x9c0906a9, 0xeb0e363f,
     0x72076785, 0x05005713, 0x95bf4a82, 0xe2b87a14, 0x7bb12bae, 0x0cb61b38,
     0x92d28e9b, 0xe5d5be0d, 0x7cdcefb7, 0x0bdbdf21, 0x86d3d2d4, 0xf1d4e242,
     0x68ddb3f8, 0x1fda836e, 0x81be16cd, 0xf6b9265b, 0x6fb077e1, 0x18b74777,
     0x88085ae6, 0xff0f6a70, 0x66063bca, 0x11010b5c, 0x8f659eff, 0xf862ae69,
     0x616bffd3, 0x166ccf45, 0xa00ae278, 0xd70dd2ee, 0x4e048354, 0x3903b3c2,
     0xa7672661, 0xd06016f7, 0x4969474d, 0x3e6e77db, 0xaed16a4a, 0xd9d65adc,
     0x40df0b66, 0x37d83bf0, 0xa9bcae53, 0xdebb9ec5, 0x47b2cf7f, 0x30b5ffe9,
     0xbdbdf21c, 0xcabac28a, 0x53b39330, 0x24b4a3a6, 0xbad03605, 0xcdd70693,
     0x54de5729, 0x23d967bf, 0xb3667a2e, 0xc4614ab8, 0x5d681b02, 0x2a6f2b94,
     0xb40bbe37, 0xc30c8ea1, 0x5a05df1b, 0x2d02ef8d]"

text \<open>One round of the loops; \<open>crc32\<close> reads a signed \<open>char\<close>, hence \<open>scast\<close>.\<close>

definition crc32_round :: "u32 \<Rightarrow> u8 \<Rightarrow> u32" where
  "crc32_round crc b = drop_bit 8 crc XOR crc_table ! unat ((crc XOR scast b) AND 0xff)"

definition crc32 :: "bytes \<Rightarrow> u32 \<Rightarrow> u32" where
  "crc32 buff crc = NOT (foldl crc32_round (NOT crc) buff)"

definition crc32_com_round :: "u32 \<Rightarrow> u8 \<Rightarrow> u32" where
  "crc32_com_round crc b = crc_table ! unat ((crc XOR ucast b) AND 0xff) XOR drop_bit 8 crc"

definition crc32_com :: "bytes \<Rightarrow> u32" where
  "crc32_com buff = foldl crc32_com_round 0xFFFFFFFF buff XOR 0xFFFFFFFF"

text \<open>
  \<open>CRC16_Modbus_check data flag\<close>: the loop runs over all but the last two bytes (\<open>len - 2\<close> is
  computed in \<open>int\<close>, so it does not run when \<open>len < 2\<close>); with \<open>flag = 0\<close> the last two bytes are
  then read, which is outside the buffer when it has fewer than two.
\<close>

definition crc16_bit :: "u16 \<Rightarrow> u16" where
  "crc16_bit crc = (if crc AND 0x01 \<noteq> 0 then drop_bit 1 crc XOR 0xA001 else drop_bit 1 crc)"

definition crc16_byte :: "u16 \<Rightarrow> u8 \<Rightarrow> u16" where
  "crc16_byte crc b = (crc16_bit ^^ 8) (crc XOR ucast b)"

definition CRC16_Modbus_check :: "bytes \<Rightarrow> u8 \<Rightarrow> u16 option" where
  "CRC16_Modbus_check data flag =
     (let len = length data; crcCal = foldl crc16_byte 0xFFFF (take (len - 2) data)
      in if flag = 0
         then if len < 2 then None
              else let crcData = push_bit 8 (ucast (data ! (len - 2))) OR ucast (data ! (len - 1))
                   in Some (if crcCal \<noteq> crcData then 0x00
                            else if crcCal = crcData \<and> crcCal = 0 then 0x01
                            else crcCal)
         else Some crcCal)"

section \<open>Bit-serial division\<close>

text \<open>
  One bit of the division of a reflected CRC with polynomial \<open>p\<close>: the linear feedback shift
  register that both checksums of the file implement, at widths 32 and 16.
\<close>

definition lfsr :: "'a::len word \<Rightarrow> 'a word \<Rightarrow> 'a word" where
  "lfsr p c = (if bit c 0 then drop_bit 1 c XOR p else drop_bit 1 c)"

text \<open>\<open>le_word bs\<close> reads bytes as a number, the first byte the lowest.\<close>

fun le_word :: "bytes \<Rightarrow> 'a::len word" where
  "le_word [] = 0"
| "le_word (b # bs) = ucast b XOR push_bit 8 (le_word bs)"

lemma funpow_8: "(f ^^ 8) x = f (f (f (f (f (f (f (f x)))))))"
  by (simp add: eval_nat_numeral)

lemma lfsr_drop: "\<not> bit c n \<Longrightarrow> lfsr p (drop_bit n c) = drop_bit (Suc n) c"
  by (simp add: lfsr_def bit_drop_bit_eq drop_bit_drop_bit)

lemma lfsr_xor: "lfsr p (x XOR y) = lfsr p x XOR lfsr p y"
  by (simp add: lfsr_def bit_xor_iff drop_bit_xor xor_simps)

lemma lfsr_steps_xor: "(lfsr p ^^ n) (x XOR y) = (lfsr p ^^ n) x XOR (lfsr p ^^ n) y"
  by (induction n) (simp_all add: lfsr_xor)

lemma lfsr_steps_shift:
  assumes "\<And>i. i < n \<Longrightarrow> \<not> bit c i"
  shows "(lfsr p ^^ n) c = drop_bit n c"
  using assms
proof (induction n)
  case 0
  show ?case by simp
next
  case (Suc n)
  then have "(lfsr p ^^ n) c = drop_bit n c" and "\<not> bit c n" by auto
  then show ?case by (simp add: lfsr_drop)
qed

lemma lfsr_inj:
  fixes p :: "'a::len word"
  assumes top: "bit p (LENGTH('a) - 1)"
  shows "lfsr p c = lfsr p d \<longleftrightarrow> c = d"
proof
  have msb: "bit (lfsr p x) (LENGTH('a) - 1) = bit x 0" for x
    using top by (auto simp: lfsr_def bit_simps dest: bit_imp_le_length)
  assume eq: "lfsr p c = lfsr p d"
  then have b0: "bit c 0 = bit d 0" by (metis msb)
  with eq have "drop_bit 1 c = drop_bit 1 d" by (simp add: lfsr_def split: if_splits)
  then have "bit c (Suc n) = bit d (Suc n)" for n by (metis bit_drop_bit_eq plus_1_eq_Suc comp_apply)
  with b0 show "c = d" by (intro bit_word_eqI) (metis not0_implies_Suc)
qed simp

lemma le_word_bound: "bit (le_word bs :: 'a::len word) i \<Longrightarrow> i < 8 * length bs"
proof (induction bs arbitrary: i)
  case Nil
  then show ?case by simp
next
  case (Cons b bs)
  then show ?case by (fastforce simp: bit_simps dest: bit_imp_le_length)
qed

lemma drop_push_le_word:
  assumes "8 * Suc (length bs) \<le> LENGTH('a)"
  shows "drop_bit 8 (push_bit 8 (le_word bs)) = (le_word bs :: 'a::len word)"
proof (rule bit_word_eqI)
  fix n
  assume "n < LENGTH('a)"
  show "bit (drop_bit 8 (push_bit 8 (le_word bs :: 'a word))) n = bit (le_word bs :: 'a word) n"
    using assms le_word_bound [of bs n, where 'a = 'a] by (auto simp: bit_simps)
qed

lemma le_word_inj:
  assumes "length as = length bs" and "8 * length as \<le> LENGTH('a)"
  shows "(le_word as :: 'a::len word) = le_word bs \<longleftrightarrow> as = bs"
  using assms
proof (induction as bs rule: list_induct2)
  case Nil
  show ?case by simp
next
  case (Cons a as b bs)
  have bit: "bit (le_word (c # cs) :: 'a word) n \<longleftrightarrow>
      (if n < 8 then bit c n else n < LENGTH('a) \<and> bit (le_word cs :: 'a word) (n - 8))"
    if "8 \<le> LENGTH('a)" for c cs n
    using that by (auto simp: bit_simps dest: bit_imp_le_length)
  have 8: "8 \<le> LENGTH('a)" using Cons.prems by simp
  show ?case
  proof
    assume eq: "(le_word (a # as) :: 'a word) = le_word (b # bs)"
    have head: "a = b"
    proof (rule bit_word_eqI)
      fix n
      assume "n < LENGTH(8)"
      then have "n < 8" by simp
      have "bit (le_word (a # as) :: 'a word) n = bit (le_word (b # bs) :: 'a word) n"
        by (simp only: eq)
      then show "bit a n = bit b n" using \<open>n < 8\<close> by (simp only: bit [OF 8] if_True)
    qed
    have "(le_word as :: 'a word) = le_word bs"
      using eq head arg_cong [of _ _ "drop_bit 8"] drop_push_le_word [of as, where 'a = 'a]
        drop_push_le_word [of bs, where 'a = 'a] Cons.hyps Cons.prems
      by (metis (no_types, lifting) le_word.simps(2) length_Cons word_xor_cancel_left)
    then show "a # as = b # bs" using Cons head by simp
  qed simp
qed

section \<open>The contract of a byte-wise CRC\<close>

text \<open>
  \<open>round\<close> absorbs one byte into the register.  The only promise is that it is eight bits of the
  division by \<open>poly\<close>; everything the receivers rely on follows from it.
\<close>

locale reflected_crc =
  fixes round :: "'a::len word \<Rightarrow> u8 \<Rightarrow> 'a word"
    and poly :: "'a word"
  assumes round_serial: "round c b = (lfsr poly ^^ 8) (c XOR ucast b)"
    and poly_top: "bit poly (LENGTH('a) - 1)"
begin

lemma steps_inj: "(lfsr poly ^^ n) c = (lfsr poly ^^ n) d \<longleftrightarrow> c = d"
  by (induction n) (simp_all add: lfsr_inj [OF poly_top])

lemma round_inj_state: "round c b = round d b \<Longrightarrow> c = d"
  by (simp add: round_serial steps_inj)

lemma fold_inj_state: "foldl round c bs = foldl round d bs \<longleftrightarrow> c = d"
  by (rule foldl_inj_state) (rule round_inj_state)

text \<open>Up to a register's width of message is one number, added before the division.\<close>

lemma fold_window:
  assumes "8 * length bs \<le> LENGTH('a)"
  shows "foldl round c bs = (lfsr poly ^^ (8 * length bs)) (c XOR le_word bs)"
  using assms
proof (induction bs arbitrary: c)
  case Nil
  show ?case by simp
next
  case (Cons b bs)
  have "(lfsr poly ^^ 8) (push_bit 8 (le_word bs)) = le_word bs"
    using Cons.prems by (subst lfsr_steps_shift) (auto simp: bit_simps drop_push_le_word)
  then have "(lfsr poly ^^ 8) (c XOR le_word (b # bs)) = round c b XOR le_word bs"
    by (simp add: round_serial lfsr_steps_xor flip: xor.assoc)
  moreover have "8 * length (b # bs) = 8 * length bs + 8" by simp
  ultimately show ?case using Cons by (simp only: funpow_add comp_apply foldl.simps)
qed

lemma fold_burst:
  assumes "length as = length bs" and "8 * length as \<le> LENGTH('a)"
  shows "foldl round c (p @ as @ s) = foldl round c (p @ bs @ s) \<longleftrightarrow> as = bs"
  using assms by (simp add: fold_inj_state fold_window steps_inj le_word_inj)

end

section \<open>The constant table\<close>

lemma crc32_units:
  "(lfsr POLYNOMIAL ^^ 8) 1 = 0x77073096" "(lfsr POLYNOMIAL ^^ 8) 2 = 0xee0e612c"
  "(lfsr POLYNOMIAL ^^ 8) 4 = 0x076dc419" "(lfsr POLYNOMIAL ^^ 8) 8 = 0x0edb8832"
  "(lfsr POLYNOMIAL ^^ 8) 16 = 0x1db71064" "(lfsr POLYNOMIAL ^^ 8) 32 = 0x3b6e20c8"
  "(lfsr POLYNOMIAL ^^ 8) 64 = 0x76dc4190" "(lfsr POLYNOMIAL ^^ 8) 128 = 0xedb88320"
  by (simp_all add: funpow_8 lfsr_def POLYNOMIAL_def)

lemma crc_table_eq: "crc_table = map (\<lambda>i. (lfsr POLYNOMIAL ^^ 8) (of_nat i)) [0..<256]"
proof -
  have "doubled (\<lambda>k. (lfsr POLYNOMIAL ^^ 8) (2 ^ k)) 8 = crc_table"
    by (simp add: doubled_8 crc32_units crc_table_def)
  then show ?thesis
    using linear_table_doubled [of "lfsr POLYNOMIAL ^^ 8" 8, OF lfsr_steps_xor] by simp
qed

lemma mask_8_u32: "(0xff :: u32) = mask 8"
  by (simp add: mask_eq_exp_minus_1)

lemma crc_table_nth:
  "crc_table ! unat (x AND 0xff :: u32) = (lfsr POLYNOMIAL ^^ 8) (x AND 0xff)"
proof -
  have "unat (x AND 0xff) \<le> unat (0xff :: u32)"
    by (rule word_le_nat_alt [THEN iffD1]) (rule word_and_le1)
  then have "unat (x AND 0xff) < 256" by simp
  then show ?thesis by (simp add: crc_table_eq)
qed

lemma crc32_table_step:
  "(lfsr POLYNOMIAL ^^ 8) c = crc_table ! unat (c AND 0xff) XOR drop_bit 8 c"
proof -
  have split: "c = (c AND 0xff) XOR (c AND NOT 0xff)"
    by (rule bit_word_eqI) (auto simp: bit_simps)
  have low: "\<not> bit (c AND NOT 0xff) i" if "i < 8" for i
    using that by (simp add: bit_simps mask_8_u32)
  have high: "drop_bit 8 (c AND NOT 0xff) = drop_bit 8 c"
    by (rule bit_word_eqI) (auto simp: bit_simps mask_8_u32 dest: bit_imp_le_length)
  have "(lfsr POLYNOMIAL ^^ 8) c
      = (lfsr POLYNOMIAL ^^ 8) (c AND 0xff) XOR (lfsr POLYNOMIAL ^^ 8) (c AND NOT 0xff)"
    by (subst split) (rule lfsr_steps_xor)
  then show ?thesis using low high by (simp add: crc_table_nth lfsr_steps_shift)
qed

lemma scast_low_byte: "(c XOR scast (b :: u8)) AND 0xff = (c XOR ucast b) AND (0xff :: u32)"
  by (rule bit_word_eqI) (auto simp: bit_simps mask_8_u32)

lemma drop_byte_ucast [simp]: "drop_bit 8 (ucast (b :: u8) :: u32) = 0"
  by (rule bit_word_eqI) (auto simp: bit_simps dest: bit_imp_le_length)

lemma crc32_com_round_serial: "crc32_com_round c b = (lfsr POLYNOMIAL ^^ 8) (c XOR ucast b)"
  by (simp add: crc32_com_round_def crc32_table_step drop_bit_xor)

lemma crc32_round_serial: "crc32_round c b = (lfsr POLYNOMIAL ^^ 8) (c XOR ucast b)"
  by (simp add: crc32_round_def crc32_table_step drop_bit_xor scast_low_byte xor.commute)

lemma crc16_bit_lfsr: "crc16_bit = lfsr 0xA001"
  by (intro ext) (simp add: crc16_bit_def lfsr_def bit_0 and_one_eq odd_iff_mod_2_eq_one)

lemma POLYNOMIAL_top: "bit POLYNOMIAL 31"
  by (simp add: POLYNOMIAL_def bit_numeral_rec)

interpretation firmware: reflected_crc crc32_round POLYNOMIAL
  by unfold_locales (simp_all add: crc32_round_serial POLYNOMIAL_top)

interpretation link: reflected_crc crc32_com_round POLYNOMIAL
  by unfold_locales (simp_all add: crc32_com_round_serial POLYNOMIAL_top)

interpretation modbus: reflected_crc crc16_byte "0xA001"
  by unfold_locales (simp_all add: crc16_byte_def crc16_bit_lfsr bit_numeral_rec)

section \<open>Properties\<close>

text \<open>The firmware image is downloaded in pieces and \<open>crc32\<close> is resumed on each with the
  value of the one before: whatever the pieces, the result is the data-link checksum
  \<open>crc32_com\<close> of the whole image.\<close>

lemma crc32_resumed: "foldl (\<lambda>crc piece. crc32 piece crc) 0 pieces = crc32_com (concat pieces)"
proof -
  have round: "crc32_round = crc32_com_round"
    by (intro ext) (simp add: crc32_round_serial crc32_com_round_serial)
  have "foldl (\<lambda>crc piece. crc32 piece crc) c pieces
      = NOT (foldl crc32_com_round (NOT c) (concat pieces))" for c
    by (induction pieces arbitrary: c) (simp_all add: crc32_def round)
  moreover have "(0xFFFFFFFF :: u32) = - 1" by simp
  ultimately show ?thesis unfolding crc32_com_def by (simp only: bit.xor_one_right bit.compl_zero)
qed

text \<open>The 256-entry table is right: the table-driven loop of \<open>crc32\<close> is the bit-serial division
  of the message by the reflected \<open>POLYNOMIAL\<close>, eight steps of the shift register per byte.\<close>

lemma crc32_bit_serial:
  "crc32 buff crc = NOT (foldl (\<lambda>c b. (lfsr POLYNOMIAL ^^ 8) (c XOR ucast b)) (NOT crc) buff)"
  by (simp add: crc32_def crc32_round_serial [abs_def])

text \<open>The data-link checksum detects every corruption confined to four consecutive bytes,
  wherever they are and whatever surrounds them.\<close>

lemma crc32_com_burst:
  assumes "length as = length bs" and "length as \<le> 4"
  shows "crc32_com (p @ as @ s) = crc32_com (p @ bs @ s) \<longleftrightarrow> as = bs"
  using link.fold_burst [of as bs] assms unfolding crc32_com_def by simp

theorem crc32_com_burst_witness:
  "crc32_com ([1, 2] @ [3, 4, 5] @ [6]) \<noteq> crc32_com ([1, 2] @ [3, 4, 9] @ [6])"
  using crc32_com_burst [of "[3, 4, 5]" "[3, 4, 9]" "[1, 2]" "[6]"] by simp

lemma CRC16_Modbus_check_frame:
  "CRC16_Modbus_check (d @ [hi, lo]) flag
     = Some (let crc = foldl crc16_byte 0xFFFF d
             in if flag \<noteq> 0 then crc
                else if crc \<noteq> word_cat hi lo then 0 else if crc = 0 then 1 else crc)"
proof -
  have "push_bit 8 (ucast hi) OR ucast lo = (word_cat hi lo :: u16)"
    by (rule bit_word_eqI) (auto simp: bit_simps dest: bit_imp_le_length)
  then show ?thesis by (simp add: CRC16_Modbus_check_def Let_def nth_append)
qed

text \<open>The check of a received frame accepts it (answers other than 0) exactly when its last
  two bytes, the high one first, are the CRC that the same routine calculates for the sender with
  a flag other than 0; in particular a CRC that happens to be 0 is not taken for a rejection.\<close>

lemma modbus_accepts:
  "CRC16_Modbus_check (d @ [hi, lo]) 0 \<noteq> Some 0
     \<longleftrightarrow> CRC16_Modbus_check (d @ [hi, lo]) 1 = Some (word_cat hi lo)"
  by (auto simp: CRC16_Modbus_check_frame Let_def)

text \<open>The check rejects an accepted frame after any corruption of up to two consecutive bytes
  of its data.\<close>

lemma modbus_burst:
  assumes "CRC16_Modbus_check (p @ as @ s @ [hi, lo]) 0 \<noteq> Some 0"
    and "length as = length bs" and "length as \<le> 2" and "as \<noteq> bs"
  shows "CRC16_Modbus_check (p @ bs @ s @ [hi, lo]) 0 = Some 0"
  using assms modbus.fold_burst [of as bs "0xFFFF" p s]
    CRC16_Modbus_check_frame [of "p @ as @ s" hi lo 0]
    CRC16_Modbus_check_frame [of "p @ bs @ s" hi lo 0]
  by (auto simp: Let_def split: if_splits)

lemma crc16_example: "crc16_byte (crc16_byte 0xFFFF 1) 3 = 0x2140"
  by (simp add: crc16_byte_def funpow_8 crc16_bit_def)

theorem modbus_burst_witness:
  "CRC16_Modbus_check ([1] @ [3] @ [] @ [0x21, 0x40]) 0 = Some 0x2140
   \<and> CRC16_Modbus_check ([1] @ [7] @ [] @ [0x21, 0x40]) 0 = Some 0"
proof -
  have "word_cat (0x21 :: u8) (0x40 :: u8) = (0x2140 :: u16)"
    by (simp add: word_cat_eq)
  then have ok: "CRC16_Modbus_check ([1] @ [3] @ [] @ [0x21, 0x40]) 0 = Some 0x2140"
    using CRC16_Modbus_check_frame [of "[1, 3]" "0x21" "0x40" 0] by (simp add: crc16_example)
  then show ?thesis using modbus_burst [of "[1]" "[3]" "[]" "0x21" "0x40" "[7]"] by simp
qed

text \<open>A frame of fewer than two bytes is checked against bytes outside the buffer.\<close>

lemma modbus_short_frame: "CRC16_Modbus_check data flag = None \<longleftrightarrow> flag = 0 \<and> length data < 2"
  by (simp add: CRC16_Modbus_check_def Let_def)

end
