(* ===== verification/Base64.thy ===== *)
theory Base64
  imports Prelude
begin

text \<open>
  The base64 codec of \<^verbatim>\<open>src/ql_application/App_XD/secrypto/app_security_base64.c\<close>.  The encoder's
  result is the list of the characters written, with the terminating 0.  The decoder is given the
  memory from the string's first character on; it stops at the first 0 at a multiple of four, so a
  string without one there makes it read past the memory it was given, which is \<open>None\<close>.
\<close>

section \<open>Model\<close>

definition base64char :: bytes where
  "base64char = asc ''ABCDEFGHIJKLMNOPQRSTUVWXYZabcdefghijklmnopqrstuvwxyz0123456789+/''"

abbreviation (input) equal_sign :: u8 where "equal_sign \<equiv> 61"

definition base64_digit :: "u8 \<Rightarrow> u8" where
  "base64_digit current = base64char ! unat current"

fun base64_encode_loop :: "bytes \<Rightarrow> bytes" where
  "base64_encode_loop [] = []"
| "base64_encode_loop [b0] =
     [base64_digit (drop_bit 2 b0 AND 0x3F), base64_digit (push_bit 4 b0 AND 0x30),
      equal_sign, equal_sign]"
| "base64_encode_loop [b0, b1] =
     [base64_digit (drop_bit 2 b0 AND 0x3F),
      base64_digit (push_bit 4 b0 AND 0x30 OR drop_bit 4 b1 AND 0x0F),
      base64_digit (push_bit 2 b1 AND 0x3C), equal_sign]"
| "base64_encode_loop (b0 # b1 # b2 # rest) =
     [base64_digit (drop_bit 2 b0 AND 0x3F),
      base64_digit (push_bit 4 b0 AND 0x30 OR drop_bit 4 b1 AND 0x0F),
      base64_digit (push_bit 2 b1 AND 0x3C OR drop_bit 6 b2 AND 0x03),
      base64_digit (b2 AND 0x3F)] @ base64_encode_loop rest"

definition base64_encode :: "bytes \<Rightarrow> bytes" where
  "base64_encode bindata = base64_encode_loop bindata @ [0]"

text \<open>\<open>base64_find c\<close> is one of the decoder's searches: the last \<open>k\<close> that matches, else 0xFF.\<close>

definition base64_find :: "u8 \<Rightarrow> u8" where
  "base64_find c = fold (\<lambda>k temp. if base64char ! k = c then of_nat k else temp) [0..<64] 0xFF"

fun base64_decode :: "bytes \<Rightarrow> bytes option" where
  "base64_decode (c0 # c1 # c2 # c3 # rest) =
     (if c0 = 0 then Some []
      else let t0 = base64_find c0; t1 = base64_find c1; t2 = base64_find c2; t3 = base64_find c3;
               d0 = (push_bit 2 t0 AND 0xFC) OR (drop_bit 4 t1 AND 0x03);
               d1 = (push_bit 4 t1 AND 0xF0) OR (drop_bit 2 t2 AND 0x0F);
               d2 = (push_bit 6 t2 AND 0xF0) OR (t3 AND 0x3F)
           in if c2 = equal_sign then Some [d0]
              else if c3 = equal_sign then Some [d0, d1]
              else map_option (\<lambda>bindata. d0 # d1 # d2 # bindata) (base64_decode rest))"
| "base64_decode (c0 # c1) = (if c0 = 0 then Some [] else None)"
| "base64_decode [] = None"

section \<open>The alphabet\<close>

lemma length_base64char [simp]: "length base64char = 64"
  by (simp add: base64char_def)

lemma distinct_base64char: "distinct base64char"
  by (simp add: base64char_def asc_def)

lemma fold_last_match:
  assumes "distinct xs" and "i < length xs" and "n \<le> length xs"
  shows "fold (\<lambda>k t. if xs ! k = xs ! i then f k else t) [0..<n] z = (if i < n then f i else z)"
  using assms by (induction n) (auto simp: nth_eq_iff_index_eq)

lemma fold_no_match:
  assumes "c \<notin> set xs" and "n \<le> length xs"
  shows "fold (\<lambda>k t. if xs ! k = c then f k else t) [0..<n] z = z"
  using assms by (induction n) auto

lemma base64_find_digit [simp]: "unat x < 64 \<Longrightarrow> base64_find (base64_digit x) = x"
  by (simp add: base64_find_def base64_digit_def fold_last_match distinct_base64char)

lemma base64_digit_plain:
  assumes "unat x < 64"
  shows "base64_digit x \<noteq> 0" and "base64_digit x \<noteq> equal_sign"
proof -
  have "base64_digit x \<in> set base64char" using assms by (simp add: base64_digit_def)
  moreover have "0 \<notin> set base64char" "equal_sign \<notin> set base64char"
    by (simp_all add: base64char_def asc_def)
  ultimately show "base64_digit x \<noteq> 0" "base64_digit x \<noteq> equal_sign" by metis+
qed

lemma six_bits: "unat (x :: u8) < 64 \<longleftrightarrow> \<not> bit x 6 \<and> \<not> bit x 7"
proof -
  have "unat x < 64 \<longleftrightarrow> take_bit 6 (unat x) = unat x"
    using take_bit_nat_eq_self_iff [of 6 "unat x"] by simp
  also have "\<dots> \<longleftrightarrow> take_bit 6 x = x"
    by (metis unsigned_take_bit_eq word_unat_eq_iff)
  also have "\<dots> \<longleftrightarrow> \<not> bit x 6 \<and> \<not> bit x 7"
    by (simp only: u8_eq_iff bit_take_bit_iff) auto
  finally show ?thesis .
qed

lemma base64_fields [simp]:
  "unat (drop_bit 2 b0 AND 0x3F :: u8) < 64" "unat (push_bit 4 b0 AND 0x30 :: u8) < 64"
  "unat (push_bit 2 b1 AND 0x3C :: u8) < 64" "unat (b2 AND 0x3F :: u8) < 64"
  "unat (push_bit 4 b0 AND 0x30 OR drop_bit 4 b1 AND 0x0F :: u8) < 64"
  "unat (push_bit 2 b1 AND 0x3C OR drop_bit 6 b2 AND 0x03 :: u8) < 64"
  by (simp_all only: six_bits) (simp_all add: bit_simps bit_numeral_rec)

lemmas base64_plain = base64_digit_plain [OF base64_fields(1)] base64_digit_plain [OF base64_fields(2)]
  base64_digit_plain [OF base64_fields(3)] base64_digit_plain [OF base64_fields(4)]
  base64_digit_plain [OF base64_fields(5)] base64_digit_plain [OF base64_fields(6)]

lemmas base64_found = base64_find_digit [OF base64_fields(1)] base64_find_digit [OF base64_fields(2)]
  base64_find_digit [OF base64_fields(3)] base64_find_digit [OF base64_fields(4)]
  base64_find_digit [OF base64_fields(5)] base64_find_digit [OF base64_fields(6)]

text \<open>The three output bytes are put together again from the four fields.\<close>

lemma base64_join:
  "(push_bit 2 (drop_bit 2 b0 AND 0x3F) AND 0xFC)
     OR (drop_bit 4 (push_bit 4 b0 AND 0x30 OR drop_bit 4 b1 AND 0x0F) AND 0x03) = (b0 :: u8)"
  "(push_bit 2 (drop_bit 2 b0 AND 0x3F) AND 0xFC)
     OR (drop_bit 4 (push_bit 4 b0 AND 0x30) AND 0x03) = (b0 :: u8)"
  "(push_bit 4 (push_bit 4 b0 AND 0x30 OR drop_bit 4 b1 AND 0x0F) AND 0xF0)
     OR (drop_bit 2 (push_bit 2 b1 AND 0x3C OR drop_bit 6 b2 AND 0x03) AND 0x0F) = (b1 :: u8)"
  "(push_bit 4 (push_bit 4 b0 AND 0x30 OR drop_bit 4 b1 AND 0x0F) AND 0xF0)
     OR (drop_bit 2 (push_bit 2 b1 AND 0x3C) AND 0x0F) = (b1 :: u8)"
  "(push_bit 6 (push_bit 2 b1 AND 0x3C OR drop_bit 6 b2 AND 0x03) AND 0xF0)
     OR ((b2 AND 0x3F) AND 0x3F) = (b2 :: u8)"
  by (simp_all add: u8_eq_iff bit_simps bit_numeral_rec)

lemma base64_decode_end [simp]: "base64_decode (0 # after) = Some []"
  by (rule base64_decode.cases [of "0 # after"]) auto

lemma base64_decode_encode_loop:
  "base64_decode (base64_encode_loop bindata @ 0 # after) = Some bindata"
proof (induction bindata rule: base64_encode_loop.induct)
  case 1
  show ?case by simp
next
  case (2 b0)
  show ?case
    by (simp only: base64_encode_loop.simps append_Cons append_Nil base64_decode.simps Let_def
        base64_plain base64_found base64_join if_False if_True refl)
next
  case (3 b0 b1)
  show ?case
    by (simp only: base64_encode_loop.simps append_Cons append_Nil base64_decode.simps Let_def
        base64_plain base64_found base64_join if_False if_True refl)
next
  case (4 b0 b1 b2 rest)
  then show ?case
    by (simp only: base64_encode_loop.simps append_Cons append_Nil base64_decode.simps Let_def
        base64_plain base64_found base64_join if_False option.map)
qed

lemma length_base64_encode_loop:
  "length (base64_encode_loop bindata) = 4 * ((length bindata + 2) div 3)"
proof (induction bindata rule: base64_encode_loop.induct)
  case (4 b0 b1 b2 rest)
  have "(length (b0 # b1 # b2 # rest) + 2) div 3 = Suc ((length rest + 2) div 3)" by simp
  with 4 show ?case by simp
qed auto

lemma length_base64_decode:
  "base64_decode base64 = Some out \<Longrightarrow> length out \<le> 3 * (length base64 div 4)"
proof (induction base64 arbitrary: out rule: base64_decode.induct)
  case (1 c0 c1 c2 c3 rest)
  have "length (c0 # c1 # c2 # c3 # rest) div 4 = Suc (length rest div 4)" by simp
  moreover have "length out \<le> 3 \<or> (\<exists>tail. base64_decode rest = Some tail \<and> length out = 3 + length tail
      \<and> c0 \<noteq> 0 \<and> c2 \<noteq> equal_sign \<and> c3 \<noteq> equal_sign)"
    using 1(2) by (auto simp: Let_def split: if_splits)
  moreover have "length tail \<le> 3 * (length rest div 4)"
    if "base64_decode rest = Some tail" "c0 \<noteq> 0" "c2 \<noteq> equal_sign" "c3 \<noteq> equal_sign" for tail
    using 1(1) [OF _ refl refl refl refl refl refl refl] that by simp
  ultimately show ?case by auto
qed (auto split: if_splits)

section \<open>Properties\<close>

text \<open>C38. Decoding an encoded message gives the message back, whatever follows the terminator in
  memory.\<close>

theorem base64_roundtrip: "base64_decode (base64_encode bindata @ after) = Some bindata"
  by (simp add: base64_encode_def base64_decode_encode_loop)

text \<open>The buffers are large enough: the encoder writes four characters for every three bytes
  begun, and the terminator; the decoder, on any memory at all, never writes more than three bytes
  for every four characters it is given.\<close>

lemma base64_bounds:
  "length (base64_encode bindata) = 4 * ((length bindata + 2) div 3) + 1
   \<and> (case base64_decode base64 of None \<Rightarrow> True | Some out \<Rightarrow> length out \<le> 3 * (length base64 div 4))"
proof
  show "length (base64_encode bindata) = 4 * ((length bindata + 2) div 3) + 1"
    by (simp add: base64_encode_def length_base64_encode_loop)
  show "case base64_decode base64 of None \<Rightarrow> True | Some out \<Rightarrow> length out \<le> 3 * (length base64 div 4)"
    by (auto dest: length_base64_decode split: option.split)
qed

text \<open>A string cut inside a group of four makes the decoder read past its terminator.\<close>

lemma base64_decode_reads_past:
  "base64_decode (asc ''QUI'' @ 0 # after)
     = map_option (\<lambda>bindata. 0x41 # 0x42 # 0x3F # bindata) (base64_decode after)"
  by (simp add: asc_def Let_def base64_find_def base64char_def upt_rec)

end
