(* ===== verification/HexTool.thy ===== *)
theory HexTool
  imports Prelude
begin

text \<open>
  The hexadecimal printers of
  \<^verbatim>\<open>src/ql_application/App_XD/secrypto/app_security_string_tool.c\<close>.  \<open>ascii2hex\<close> writes into the
  caller's buffer at a 16-bit index, which wraps, so the model threads the buffer and the index;
  \<open>HexToAscii\<close> writes through a pointer that only moves forward, so its result is the list of the
  bytes written.
\<close>

section \<open>Model\<close>

definition hex_str_lower :: bytes where
  "hex_str_lower = asc ''0123456789abcdef''"

definition hex_str_upper :: bytes where
  "hex_str_upper = asc ''0123456789ABCDEF''"

fun ascii2hex_loop :: "bytes \<Rightarrow> int \<Rightarrow> u16 \<Rightarrow> bytes \<Rightarrow> bytes option" where
  "ascii2hex_loop [] flag hex_index result = Some result"
| "ascii2hex_loop (c # ascii) flag hex_index result =
     (let digits = (if flag = 0 then hex_str_lower else hex_str_upper);
          high = digits ! unat (drop_bit 4 (c AND 0xf0));
          low = digits ! unat (c AND 0x0f)
      in Option.bind (store result (unat hex_index) high) (\<lambda>result.
         Option.bind (store result (unat (hex_index + 1)) low) (\<lambda>result.
         ascii2hex_loop ascii flag (hex_index + 2) result)))"

definition ascii2hex :: "bytes \<Rightarrow> int \<Rightarrow> bytes \<Rightarrow> bytes option" where
  "ascii2hex ascii flag result = ascii2hex_loop ascii flag 0 result"

definition nibble_to_ascii :: "u8 \<Rightarrow> u8" where
  "nibble_to_ascii n = (if n < 10 then n + 0x30 else if n < 16 then n - 10 + 65 else n)"

definition HexToAscii :: "bytes \<Rightarrow> bytes" where
  "HexToAscii pHex =
     concat (map (\<lambda>h. map nibble_to_ascii [drop_bit 4 (h AND 0xF0), h AND 0x0F]) pHex)"

section \<open>Digits\<close>

definition hex_value :: "u8 \<Rightarrow> u8" where
  "hex_value d = (if d < 0x3A then d - 0x30 else if d < 0x47 then d - 0x37 else d - 0x57)"

fun hex_read :: "bytes \<Rightarrow> bytes" where
  "hex_read (h # l # ds) = (push_bit 4 (hex_value h) OR hex_value l) # hex_read ds"
| "hex_read ds = []"

text \<open>\<open>hex_digits flag\<close> is what the printers are meant to write.\<close>

definition hex_digits :: "int \<Rightarrow> bytes \<Rightarrow> bytes" where
  "hex_digits flag bs = (let digits = (if flag = 0 then hex_str_lower else hex_str_upper)
     in concat (map (\<lambda>b. [digits ! (unat b div 16), digits ! (unat b mod 16)]) bs))"

lemma unat_high_nibble [simp]: "unat (drop_bit 4 (c AND 0xf0) :: u8) = unat c div 16"
proof -
  have "drop_bit 4 (c AND 0xf0) = drop_bit 4 c"
    by (simp add: u8_eq_iff bit_simps bit_numeral_rec)
  then show ?thesis by (simp add: drop_bit_eq_div unat_div)
qed

lemma unat_low_nibble [simp]: "unat (c AND 0x0f :: u8) = unat c mod 16"
proof -
  have "c AND 0x0f = take_bit 4 c"
    by (simp add: u8_eq_iff bit_simps bit_numeral_rec)
  then show ?thesis by (simp add: take_bit_eq_mod unat_mod)
qed

lemma nibbles:
  "list_all (\<lambda>n. nibble_to_ascii (of_nat n) = hex_str_upper ! n
     \<and> hex_value (hex_str_upper ! n) = of_nat n \<and> hex_value (hex_str_lower ! n) = of_nat n) [0..<16]"
  by (simp add: upt_rec numeral_eq_Suc) (simp add: nibble_to_ascii_def hex_str_upper_def hex_str_lower_def hex_value_def asc_def)

lemma nibble_facts:
  assumes "n < 16"
  shows "nibble_to_ascii (of_nat n) = hex_str_upper ! n"
    and "hex_value (hex_str_upper ! n) = of_nat n" and "hex_value (hex_str_lower ! n) = of_nat n"
  using nibbles assms by (auto simp: list_all_iff)

lemma nibble_join: "push_bit 4 (of_nat (unat b div 16)) OR of_nat (unat b mod 16) = (b :: u8)"
proof -
  have "push_bit 4 (drop_bit 4 (b AND 0xf0)) OR (b AND 0x0f) = b"
    by (simp add: u8_eq_iff bit_simps bit_numeral_rec)
  then show ?thesis by (metis unat_high_nibble unat_low_nibble of_nat_unat_word)
qed

lemma length_hex_digits [simp]: "length (hex_digits flag bs) = 2 * length bs"
  by (induction bs) (simp_all add: hex_digits_def Let_def)

lemma hex_digits_simps [simp]:
  "hex_digits flag [] = []"
  "hex_digits flag (b # bs) = (let digits = (if flag = 0 then hex_str_lower else hex_str_upper)
     in digits ! (unat b div 16) # digits ! (unat b mod 16) # hex_digits flag bs)"
  by (simp_all add: hex_digits_def Let_def)

lemma hex_read_digits: "hex_read (hex_digits flag bs) = bs"
proof (induction bs)
  case Nil
  show ?case by simp
next
  case (Cons b bs)
  have "unat b div 16 < 16" and "unat b mod 16 < 16" by simp_all
  then show ?case using Cons by (cases "flag = 0") (simp_all add: nibble_facts nibble_join)
qed

lemma nibble_to_ascii_digit: "unat x < 16 \<Longrightarrow> nibble_to_ascii x = hex_str_upper ! unat x"
  using nibble_facts(1) [of "unat x"] by simp

lemma nibble_to_ascii_digits:
  "nibble_to_ascii (drop_bit 4 (h AND 0xF0)) = hex_str_upper ! (unat h div 16)"
  "nibble_to_ascii (h AND 0x0F) = hex_str_upper ! (unat h mod 16)"
  using nibble_to_ascii_digit [of "drop_bit 4 (h AND 0xF0)"] nibble_to_ascii_digit [of "h AND 0x0F"]
  by (simp_all only: unat_high_nibble unat_low_nibble unat_u8_div_16 simp_thms)

lemma HexToAscii_digits: "HexToAscii bs = hex_digits 1 bs"
  unfolding HexToAscii_def list.map nibble_to_ascii_digits by (simp add: hex_digits_def)

section \<open>The buffer\<close>

lemma ascii2hex_loop_Cons:
  "ascii2hex_loop (c # ascii) flag k result =
     (let digits = (if flag = 0 then hex_str_lower else hex_str_upper)
      in Option.bind (store result (unat k) (digits ! (unat c div 16))) (\<lambda>result.
         Option.bind (store result (unat (k + 1)) (digits ! (unat c mod 16))) (\<lambda>result.
         ascii2hex_loop ascii flag (k + 2) result)))"
  by (simp only: ascii2hex_loop.simps Let_def unat_high_nibble unat_low_nibble)

declare ascii2hex_loop.simps(2) [simp del]
declare ascii2hex_loop_Cons [simp]

lemma ascii2hex_loop_append:
  "ascii2hex_loop (as @ bs) flag k result = Option.bind (ascii2hex_loop as flag k result)
     (\<lambda>result. ascii2hex_loop bs flag (k + 2 * of_nat (length as)) result)"
proof (induction as arbitrary: k result)
  case Nil
  show ?case by simp
next
  case (Cons a as)
  have k: "k + 2 + 2 * of_nat (length as) = k + 2 * of_nat (length (a # as))" by simp
  show ?case by (simp only: append_Cons ascii2hex_loop_Cons Let_def Cons.IH Option.bind_assoc k)
qed

lemma ascii2hex_loop_digits:
  assumes "k + 2 * length ascii \<le> length result" and "k + 2 * length ascii \<le> 2 ^ 16"
  shows "ascii2hex_loop ascii flag (of_nat k) result
    = Some (take k result @ hex_digits flag ascii @ drop (k + 2 * length ascii) result)"
  using assms
proof (induction ascii arbitrary: k result)
  case Nil
  show ?case by simp
next
  case (Cons c ascii)
  define h where "h = (if flag = 0 then hex_str_lower else hex_str_upper) ! (unat c div 16)"
  define l where "l = (if flag = 0 then hex_str_lower else hex_str_upper) ! (unat c mod 16)"
  have k: "k < length result" "Suc k < length result" "k < 2 ^ 16" "Suc k < 2 ^ 16"
    using Cons.prems by auto
  have "unat (of_nat j :: u16) = j" if "j < 2 ^ 16" for j using that by (simp add: unat_of_nat)
  from this [OF k(3)] this [OF k(4)]
  have "unat (of_nat k :: u16) = k" "unat (of_nat k + 1 :: u16) = Suc k"
    by (simp_all only: of_nat_Suc_word)
  then have "ascii2hex_loop (c # ascii) flag (of_nat k) result
      = ascii2hex_loop ascii flag (of_nat (k + 2)) (result[k := h, Suc k := l])"
    using k by (simp add: h_def l_def Let_def add.commute)
  also have "\<dots> = Some (take (k + 2) (result[k := h, Suc k := l]) @ hex_digits flag ascii @
      drop (k + 2 + 2 * length ascii) (result[k := h, Suc k := l]))"
    using Cons.prems by (intro Cons.IH) auto
  also have "take (k + 2) (result[k := h, Suc k := l]) = take k result @ [h, l]"
    using k by (intro nth_equalityI) (auto simp: nth_append nth_list_update less_Suc_eq)
  finally show ?case by (simp add: h_def l_def Let_def)
qed

section \<open>Properties\<close>

text \<open>Up to 32768 bytes, \<open>ascii2hex\<close> writes exactly the digits of its input at the start of the
  caller's buffer and nothing else, and the digits read back as the input.\<close>

lemma ascii2hex_writes:
  assumes "length ascii \<le> 2 ^ 15" and "2 * length ascii \<le> length result"
  shows "ascii2hex ascii flag result
      = Some (hex_digits flag ascii @ drop (2 * length ascii) result)
    \<and> hex_read (hex_digits flag ascii) = ascii"
  using ascii2hex_loop_digits [of 0 ascii result flag] assms
  by (simp add: ascii2hex_def hex_read_digits)

theorem ascii2hex_writes_witness:
  "ascii2hex [0x3F, 0xA0] 0 [1, 2, 3, 4, 5] = Some (asc ''3fa0'' @ [5])"
  using ascii2hex_writes [of "[0x3F, 0xA0]" "[1, 2, 3, 4, 5]" 0]
  by (simp add: hex_str_lower_def asc_def)

text \<open>The two printers agree: \<open>HexToAscii\<close> writes what \<open>ascii2hex\<close> writes with a flag other
  than 0, and its output read back is its input.\<close>

lemma HexToAscii_ascii2hex:
  assumes "flag \<noteq> 0" and "length pHex \<le> 2 ^ 15" and "length result = 2 * length pHex"
  shows "ascii2hex pHex flag result = Some (HexToAscii pHex) \<and> hex_read (HexToAscii pHex) = pHex"
proof -
  have "hex_digits flag pHex = hex_digits 1 pHex" using assms(1) by (simp add: hex_digits_def)
  then show ?thesis
    using ascii2hex_loop_digits [of 0 pHex result flag] assms
    by (simp add: ascii2hex_def hex_read_digits HexToAscii_digits)
qed

theorem HexToAscii_ascii2hex_witness: "ascii2hex [0x3F, 0xA0] 1 [1, 2, 3, 4] = Some (HexToAscii [0x3F, 0xA0])"
  using HexToAscii_ascii2hex [of 1 "[0x3F, 0xA0]" "[1, 2, 3, 4]"] by simp

text \<open>The index wraps: what comes after 32768 bytes overwrites the start of the buffer.\<close>

lemma ascii2hex_wraps:
  assumes "length as = 2 ^ 15"
  shows "ascii2hex (as @ bs) flag result
    = Option.bind (ascii2hex as flag result) (ascii2hex bs flag)"
proof -
  have "2 * of_nat (length as) = (0 :: u16)" by (simp add: assms)
  then show ?thesis by (simp add: ascii2hex_def [abs_def] ascii2hex_loop_append)
qed

end
