(* ===== verification/Md5.thy ===== *)
theory Md5
  imports Base64 HexTool
begin

text \<open>
  The MD5 of \<^verbatim>\<open>src/ql_application/App_XD/secrypto/app_security_md5.c\<close>.  The context of the
  incremental interface keeps a 64-bit length in two words, the chaining state and a partly filled
  block.  The abstract view of a context is the message absorbed so far; initialising, updating
  and finishing are shown to implement RFC 1321 on it.  Lengths are those of C arrays on a 32-bit
  machine: an \<open>unsigned int\<close> holds them.
\<close>

section \<open>Model\<close>

record MD5_CTX =
  count0 :: u32
  count1 :: u32
  chain :: "u32 \<times> u32 \<times> u32 \<times> u32"
  buffer :: bytes

definition PADDING :: bytes where
  "PADDING = 0x80 # replicate 63 0"

definition ROTATE_LEFT :: "u32 \<Rightarrow> nat \<Rightarrow> u32" where
  "ROTATE_LEFT x n = (push_bit n x OR drop_bit (32 - n) x)"

text \<open>The four macros \<open>FF\<close>, \<open>GG\<close>, \<open>HH\<close>, \<open>II\<close> differ in the function they mix with.\<close>

datatype md5_macro = FF | GG | HH | II

fun md5_mix :: "md5_macro \<Rightarrow> u32 \<Rightarrow> u32 \<Rightarrow> u32 \<Rightarrow> u32" where
  "md5_mix FF x y z = (x AND y) OR (NOT x AND z)"
| "md5_mix GG x y z = (x AND z) OR (y AND NOT z)"
| "md5_mix HH x y z = x XOR y XOR z"
| "md5_mix II x y z = y XOR (x OR NOT z)"

text \<open>
  The 64 macro calls of \<open>xd_MD5Transform\<close>: macro, index into the decoded block, rotation,
  constant.  Successive calls update \<open>a\<close>, \<open>d\<close>, \<open>c\<close>, \<open>b\<close> in turn; \<open>md5_step\<close> receives the four
  in the order of the call's arguments and hands them on in the order of the next call.
\<close>

definition md5_calls :: "(md5_macro \<times> nat \<times> nat \<times> u32) list" where
  "md5_calls = [
     (FF, 0, 7, 0xd76aa478), (FF, 1, 12, 0xe8c7b756),
     (FF, 2, 17, 0x242070db), (FF, 3, 22, 0xc1bdceee),
     (FF, 4, 7, 0xf57c0faf), (FF, 5, 12, 0x4787c62a),
     (FF, 6, 17, 0xa8304613), (FF, 7, 22, 0xfd469501),
     (FF, 8, 7, 0x698098d8), (FF, 9, 12, 0x8b44f7af),
     (FF, 10, 17, 0xffff5bb1), (FF, 11, 22, 0x895cd7be),
     (FF, 12, 7, 0x6b901122), (FF, 13, 12, 0xfd987193),
     (FF, 14, 17, 0xa679438e), (FF, 15, 22, 0x49b40821),
     (GG, 1, 5, 0xf61e2562), (GG, 6, 9, 0xc040b340),
     (GG, 11, 14, 0x265e5a51), (GG, 0, 20, 0xe9b6c7aa),
     (GG, 5, 5, 0xd62f105d), (GG, 10, 9, 0x02441453),
     (GG, 15, 14, 0xd8a1e681), (GG, 4, 20, 0xe7d3fbc8),
     (GG, 9, 5, 0x21e1cde6), (GG, 14, 9, 0xc33707d6),
     (GG, 3, 14, 0xf4d50d87), (GG, 8, 20, 0x455a14ed),
     (GG, 13, 5, 0xa9e3e905), (GG, 2, 9, 0xfcefa3f8),
     (GG, 7, 14, 0x676f02d9), (GG, 12, 20, 0x8d2a4c8a),
     (HH, 5, 4, 0xfffa3942), (HH, 8, 11, 0x8771f681),
     (HH, 11, 16, 0x6d9d6122), (HH, 14, 23, 0xfde5380c),
     (HH, 1, 4, 0xa4beea44), (HH, 4, 11, 0x4bdecfa9),
     (HH, 7, 16, 0xf6bb4b60), (HH, 10, 23, 0xbebfbc70),
     (HH, 13, 4, 0x289b7ec6), (HH, 0, 11, 0xeaa127fa),
     (HH, 3, 16, 0xd4ef3085), (HH, 6, 23, 0x04881d05),
     (HH, 9, 4, 0xd9d4d039), (HH, 12, 11, 0xe6db99e5),
     (HH, 15, 16, 0x1fa27cf8), (HH, 2, 23, 0xc4ac5665),
     (II, 0, 6, 0xf4292244), (II, 7, 10, 0x432aff97),
     (II, 14, 15, 0xab9423a7), (II, 5, 21, 0xfc93a039),
     (II, 12, 6, 0x655b59c3), (II, 3, 10, 0x8f0ccc92),
     (II, 10, 15, 0xffeff47d), (II, 1, 21, 0x85845dd1),
     (II, 8, 6, 0x6fa87e4f), (II, 15, 10, 0xfe2ce6e0),
     (II, 6, 15, 0xa3014314), (II, 13, 21, 0x4e0811a1),
     (II, 4, 6, 0xf7537e82), (II, 11, 10, 0xbd3af235),
     (II, 2, 15, 0x2ad7d2bb), (II, 9, 21, 0xeb86d391)]"

fun md5_step :: "u32 list \<Rightarrow> u32 \<times> u32 \<times> u32 \<times> u32 \<Rightarrow> md5_macro \<times> nat \<times> nat \<times> u32
    \<Rightarrow> u32 \<times> u32 \<times> u32 \<times> u32" where
  "md5_step x (a, b, c, d) (m, k, s, ac) =
     (let a1 = a + (md5_mix m b c d + x ! k + ac); a2 = ROTATE_LEFT a1 s; a3 = a2 + b
      in (d, a3, b, c))"

fun xd_MD5Encode :: "u32 list \<Rightarrow> bytes" where
  "xd_MD5Encode [] = []"
| "xd_MD5Encode (w # input) =
     [ucast (w AND 0xFF), ucast (drop_bit 8 w AND 0xFF), ucast (drop_bit 16 w AND 0xFF),
      ucast (drop_bit 24 w AND 0xFF)] @ xd_MD5Encode input"

fun xd_MD5Decode :: "bytes \<Rightarrow> u32 list" where
  "xd_MD5Decode (b0 # b1 # b2 # b3 # input) =
     (ucast b0 OR push_bit 8 (ucast b1) OR push_bit 16 (ucast b2) OR push_bit 24 (ucast b3))
     # xd_MD5Decode input"
| "xd_MD5Decode input = []"

definition xd_MD5Transform :: "u32 \<times> u32 \<times> u32 \<times> u32 \<Rightarrow> bytes \<Rightarrow> u32 \<times> u32 \<times> u32 \<times> u32" where
  "xd_MD5Transform state block =
     (case (state, foldl (md5_step (xd_MD5Decode block)) state md5_calls) of
        ((s0, s1, s2, s3), (a, b, c, d)) \<Rightarrow> (s0 + a, s1 + b, s2 + c, s3 + d))"

definition xd_MD5Init :: "MD5_CTX \<Rightarrow> MD5_CTX" where
  "xd_MD5Init context = context\<lparr>count0 := 0, count1 := 0,
     chain := (0x67452301, 0xEFCDAB89, 0x98BADCFE, 0x10325476)\<rparr>"

text \<open>The loop over the whole blocks of the input: the new state and what is left.\<close>

function md5_whole_blocks :: "u32 \<times> u32 \<times> u32 \<times> u32 \<Rightarrow> bytes \<Rightarrow> (u32 \<times> u32 \<times> u32 \<times> u32) \<times> bytes" where
  "md5_whole_blocks state input =
     (if 64 \<le> length input
      then md5_whole_blocks (xd_MD5Transform state (take 64 input)) (drop 64 input)
      else (state, input))"
  by pat_completeness auto
termination by (relation "measure (length o snd)") auto

declare md5_whole_blocks.simps [simp del]

definition xd_MD5Update :: "MD5_CTX \<Rightarrow> bytes \<Rightarrow> MD5_CTX" where
  "xd_MD5Update context input =
     (let inputlen = of_nat (length input) :: u32;
          index = unat (drop_bit 3 (count0 context) AND 0x3F);
          partlen = 64 - index;
          c0 = count0 context + push_bit 3 inputlen;
          c1 = (if c0 < push_bit 3 inputlen then count1 context + 1 else count1 context)
               + drop_bit 29 inputlen;
          context = context\<lparr>count0 := c0, count1 := c1\<rparr>
      in if partlen \<le> length input
         then let block = blit (buffer context) index (take partlen input);
                  (state, rest) = md5_whole_blocks (xd_MD5Transform (chain context) block)
                                    (drop partlen input)
              in context\<lparr>chain := state, buffer := blit block 0 rest\<rparr>
         else context\<lparr>buffer := blit (buffer context) index input\<rparr>)"

definition xd_MD5Final :: "MD5_CTX \<Rightarrow> MD5_CTX \<times> bytes" where
  "xd_MD5Final context =
     (let index = unat (drop_bit 3 (count0 context) AND 0x3F);
          padlen = (if index < 56 then 56 - index else 120 - index);
          bits = xd_MD5Encode [count0 context, count1 context];
          context = xd_MD5Update context (take padlen PADDING);
          context = xd_MD5Update context bits
      in (context, case chain context of (s0, s1, s2, s3) \<Rightarrow> xd_MD5Encode [s0, s1, s2, s3]))"

definition HEX_STR :: bytes where
  "HEX_STR = asc ''0123456789abcdef''"

text \<open>\<open>md5\<close> is the uninitialised local context of the two entry points.\<close>

definition get_md5_32_str :: "MD5_CTX \<Rightarrow> bytes \<Rightarrow> bytes" where
  "get_md5_32_str md5 encrypt =
     (let decrypt = snd (xd_MD5Final (xd_MD5Update (xd_MD5Init md5) encrypt))
      in concat (map (\<lambda>d. [HEX_STR ! unat (drop_bit 4 (d AND 0xf0)), HEX_STR ! unat (d AND 0x0f)])
           decrypt))"

definition get_md5_32_base64_str :: "MD5_CTX \<Rightarrow> bytes \<Rightarrow> bytes" where
  "get_md5_32_base64_str md5 encrypt =
     base64_encode (snd (xd_MD5Final (xd_MD5Update (xd_MD5Init md5) encrypt)))"


section \<open>Specification\<close>

definition md5_iv :: "u32 \<times> u32 \<times> u32 \<times> u32" where
  "md5_iv = (0x67452301, 0xEFCDAB89, 0x98BADCFE, 0x10325476)"

text \<open>The padding of RFC 1321: one bit, zeros up to 8 bytes short of a block, the length in bits.\<close>

definition md5_padded :: "bytes \<Rightarrow> bytes" where
  "md5_padded msg = msg @ 0x80 # replicate ((119 - length msg mod 64) mod 64) 0
     @ xd_MD5Encode [of_nat (8 * length msg), of_nat (8 * length msg div 2 ^ 32)]"

definition md5_spec :: "bytes \<Rightarrow> bytes" where
  "md5_spec msg = (case fst (md5_whole_blocks md5_iv (md5_padded msg)) of
     (a, b, c, d) \<Rightarrow> xd_MD5Encode [a, b, c, d])"

text \<open>The message a context has absorbed.\<close>

definition md5_absorbed :: "bytes \<Rightarrow> MD5_CTX \<Rightarrow> bool" where
  "md5_absorbed msg ctx \<longleftrightarrow>
     length (buffer ctx) = 64
     \<and> count0 ctx = of_nat (8 * length msg) \<and> count1 ctx = of_nat (8 * length msg div 2 ^ 32)
     \<and> md5_whole_blocks md5_iv msg = (chain ctx, take (length msg mod 64) (buffer ctx))"

lemma md5_whole_blocks_short [simp]: "length m < 64 \<Longrightarrow> md5_whole_blocks st m = (st, m)"
  by (subst md5_whole_blocks.simps) simp

lemma md5_whole_blocks_block:
  "length b = 64 \<Longrightarrow> md5_whole_blocks st (b @ m) = md5_whole_blocks (xd_MD5Transform st b) m"
  by (subst md5_whole_blocks.simps) simp

text \<open>Absorbing in two parts: what the first left over is put in front of the second.\<close>

lemma md5_whole_blocks_append:
  "md5_whole_blocks st (a @ b) =
     (case md5_whole_blocks st a of (st', rest) \<Rightarrow> md5_whole_blocks st' (rest @ b))"
proof (induction st a rule: md5_whole_blocks.induct)
  case (1 st a)
  show ?case
  proof (cases "64 \<le> length a")
    case True
    have "md5_whole_blocks st (a @ b) = md5_whole_blocks (xd_MD5Transform st (take 64 a)) (drop 64 a @ b)"
      using True by (subst md5_whole_blocks.simps) simp
    also have "\<dots> = (case md5_whole_blocks (xd_MD5Transform st (take 64 a)) (drop 64 a) of
        (st', rest) \<Rightarrow> md5_whole_blocks st' (rest @ b))"
      using True by (rule 1)
    also have "md5_whole_blocks (xd_MD5Transform st (take 64 a)) (drop 64 a) = md5_whole_blocks st a"
      using True by (simp add: md5_whole_blocks.simps [of st a])
    finally show ?thesis .
  qed simp
qed

lemma md5_whole_blocks_rest: "length (snd (md5_whole_blocks st m)) = length m mod 64"
proof (induction st m rule: md5_whole_blocks.induct)
  case (1 st m)
  then show ?case
    by (subst md5_whole_blocks.simps) (auto simp: le_mod_geq)
qed

lemma md5_index:
  assumes "count0 ctx = of_nat (8 * n)"
  shows "unat (drop_bit 3 (count0 ctx) AND 0x3F) = n mod 64"
proof -
  have mask: "w AND 0x3F = take_bit 6 w" for w :: u32
    using take_bit_eq_mask [of 6 w] by (simp add: mask_eq_exp_minus_1)
  have "unat (count0 ctx) = 8 * n mod (8 * 2 ^ 29)" by (simp only: assms unat_of_nat) simp
  then have "unat (count0 ctx) div 8 = n mod 2 ^ 29"
    by (simp only: mult_mod_right [symmetric] nonzero_mult_div_cancel_left)
  moreover have "unat (take_bit 6 (drop_bit 3 w)) = unat w div 8 mod 64" for w :: u32
    by (simp only: take_bit_eq_mod drop_bit_eq_div unat_mod unat_div) simp
  moreover have "n mod 2 ^ 29 mod 64 = n mod 64" by (rule mod_mod_cancel) simp
  ultimately show ?thesis unfolding mask by metis
qed

lemma carry_nat:
  fixes m x y :: nat
  assumes "0 < m"
  shows "(x + y) div m = x div m + y div m + (if (x + y) mod m < y mod m then 1 else 0)"
proof -
  have "x mod m < m" "y mod m < m" using assms by simp_all
  then have small: "x mod m + y mod m - m < m" by linarith
  then have sum: "(x + y) mod m
      = (if x mod m + y mod m < m then x mod m + y mod m else x mod m + y mod m - m)"
    by (simp add: le_mod_geq mod_add_eq [of x m y, symmetric] del: mod_add_eq)
  have "(x + y) div m = x div m + y div m + (x mod m + y mod m) div m"
    by (rule div_add1_eq)
  also from small assms have "(x mod m + y mod m) div m = (if x mod m + y mod m < m then 0 else 1)"
    by (simp add: le_div_geq)
  finally have div: "(x + y) div m = x div m + y div m + (if x mod m + y mod m < m then 0 else 1)" .
  have "(x + y) mod m < y mod m \<longleftrightarrow> \<not> x mod m + y mod m < m"
    unfolding sum using \<open>x mod m < m\<close> by (split if_split) linarith
  then show ?thesis unfolding div by simp
qed

lemma md5_count:
  fixes n k :: nat
  assumes k: "k < 2 ^ 32"
  defines "c0 \<equiv> of_nat (8 * n) + push_bit 3 (of_nat k) :: u32"
  shows "c0 = of_nat (8 * (n + k))"
    and "(if c0 < push_bit 3 (of_nat k) then of_nat (8 * n div 2 ^ 32) + 1 else of_nat (8 * n div 2 ^ 32))
      + drop_bit 29 (of_nat k) = (of_nat (8 * (n + k) div 2 ^ 32) :: u32)"
proof -
  have push: "push_bit 3 (of_nat k) = (of_nat (8 * k) :: u32)"
    by (simp add: push_bit_eq_mult)
  have sum: "8 * (n + k) = 8 * n + 8 * k" by simp
  show c0: "c0 = of_nat (8 * (n + k))" unfolding c0_def push sum of_nat_add ..
  have "unat (drop_bit 29 (of_nat k :: u32)) = k div 2 ^ 29"
    using k by (simp only: drop_bit_eq_div unat_div unat_of_nat) simp
  moreover have eq: "8 * k div 2 ^ 32 = k div 2 ^ 29" by simp
  ultimately have drop: "drop_bit 29 (of_nat k :: u32) = of_nat (8 * k div 2 ^ 32)"
    using of_nat_unat_word [of "drop_bit 29 (of_nat k :: u32)"] by (simp only: eq)
  have less: "c0 < push_bit 3 (of_nat k) \<longleftrightarrow> (8 * n + 8 * k) mod 2 ^ 32 < 8 * k mod 2 ^ 32"
    unfolding c0 push word_less_nat_alt unat_of_nat sum by simp
  have carry: "(8 * n + 8 * k) div 2 ^ 32 = 8 * n div 2 ^ 32 + 8 * k div 2 ^ 32
      + (if (8 * n + 8 * k) mod 2 ^ 32 < 8 * k mod 2 ^ 32 then 1 else 0)"
    by (rule carry_nat) simp
  show "(if c0 < push_bit 3 (of_nat k) then of_nat (8 * n div 2 ^ 32) + 1
        else of_nat (8 * n div 2 ^ 32)) + drop_bit 29 (of_nat k)
      = (of_nat (8 * (n + k) div 2 ^ 32) :: u32)"
    unfolding less drop sum carry of_nat_add
    by (cases "(8 * n + 8 * k) mod 2 ^ 32 < 8 * k mod 2 ^ 32")
      (simp_all only: if_True if_False of_nat_1 semiring_1_class.of_nat_0 add_0_right add_0_left ac_simps)
qed
text \<open>One call of \<open>xd_MD5Update\<close>.\<close>

lemma md5_absorbed_init:
  "length (buffer ctx) = 64 \<Longrightarrow> md5_absorbed [] (xd_MD5Init ctx)"
  by (simp add: md5_absorbed_def xd_MD5Init_def md5_iv_def)

lemma md5_update_simps:
  fixes ctx input
  defines "index \<equiv> unat (drop_bit 3 (count0 ctx) AND 0x3F)"
  shows "64 - index \<le> length input \<Longrightarrow>
      chain (xd_MD5Update ctx input) = fst (md5_whole_blocks (xd_MD5Transform (chain ctx)
        (blit (buffer ctx) index (take (64 - index) input))) (drop (64 - index) input))"
    and "64 - index \<le> length input \<Longrightarrow>
      buffer (xd_MD5Update ctx input) = blit (blit (buffer ctx) index (take (64 - index) input)) 0
        (snd (md5_whole_blocks (xd_MD5Transform (chain ctx)
          (blit (buffer ctx) index (take (64 - index) input))) (drop (64 - index) input)))"
    and "\<not> 64 - index \<le> length input \<Longrightarrow> chain (xd_MD5Update ctx input) = chain ctx"
    and "\<not> 64 - index \<le> length input \<Longrightarrow>
      buffer (xd_MD5Update ctx input) = blit (buffer ctx) index input"
    and "count0 (xd_MD5Update ctx input) = count0 ctx + push_bit 3 (of_nat (length input))"
    and "count1 (xd_MD5Update ctx input) =
      (if count0 ctx + push_bit 3 (of_nat (length input)) < push_bit 3 (of_nat (length input))
       then count1 ctx + 1 else count1 ctx) + drop_bit 29 (of_nat (length input))"
  unfolding xd_MD5Update_def Let_def index_def
  by (simp_all only: if_True if_False split_beta MD5_CTX.simps MD5_CTX.surjective MD5_CTX.update_convs MD5_CTX.select_convs split: if_split) simp_all

lemma md5_absorbed_update:
  assumes abs: "md5_absorbed msg ctx" and len: "length input < 2 ^ 32"
  shows "md5_absorbed (msg @ input) (xd_MD5Update ctx input)"
proof -
  define index where "index = length msg mod 64"
  have index: "unat (drop_bit 3 (count0 ctx) AND 0x3F) = index"
    using abs md5_index [of ctx "length msg"] by (simp only: md5_absorbed_def index_def)
  have buf: "length (buffer ctx) = 64" and "index < 64"
    and msg: "md5_whole_blocks md5_iv msg = (chain ctx, take index (buffer ctx))"
    using abs by (auto simp: md5_absorbed_def index_def)
  have whole: "md5_whole_blocks md5_iv (msg @ input) = md5_whole_blocks (chain ctx) (take index (buffer ctx) @ input)"
    by (simp only: md5_whole_blocks_append [of md5_iv msg] msg prod.case)
  have mod: "length (msg @ input) mod 64 = (index + length input) mod 64"
    by (simp add: index_def mod_add_left_eq)
  let ?c = "xd_MD5Update ctx input"
  have "length (buffer ?c) = 64 \<and> md5_whole_blocks md5_iv (msg @ input)
      = (chain ?c, take (length (msg @ input) mod 64) (buffer ?c))"
  proof (cases "64 - index \<le> length input")
    case True
    define rest where "rest = drop (64 - index) input"
    define block where "block = take index (buffer ctx) @ take (64 - index) input"
    obtain st left where loop: "md5_whole_blocks (xd_MD5Transform (chain ctx) block) rest = (st, left)"
      by (rule prod.exhaust)
    have "length block = 64" using True \<open>index < 64\<close> buf by (simp add: block_def)
    moreover have "take index (buffer ctx) @ input = block @ rest" by (simp add: block_def rest_def)
    ultimately have all: "md5_whole_blocks md5_iv (msg @ input) = (st, left)"
      by (simp add: whole md5_whole_blocks_block loop)
    then have left: "length left = length (msg @ input) mod 64"
      using md5_whole_blocks_rest [of md5_iv "msg @ input"] by simp
    have "blit (buffer ctx) index (take (64 - index) input) = block"
      using True \<open>index < 64\<close> buf by (simp add: blit_def block_def)
    then have "chain ?c = st" "buffer ?c = blit block 0 left"
      using True by (simp_all add: md5_update_simps index loop flip: rest_def)
    moreover have "length left < 64" using left by simp
    ultimately show ?thesis using all left \<open>length block = 64\<close> by (simp add: blit_def)
  next
    case False
    then have "chain ?c = chain ctx" "buffer ?c = blit (buffer ctx) index input"
      by (simp_all add: md5_update_simps index)
    moreover have "md5_whole_blocks md5_iv (msg @ input) = (chain ctx, take index (buffer ctx) @ input)"
      using False buf by (simp add: whole)
    moreover have "length (msg @ input) mod 64 = index + length input" using False mod by simp
    ultimately show ?thesis using False buf \<open>index < 64\<close> by (simp add: take_blit)
  qed
  moreover have "count0 ?c = of_nat (8 * length (msg @ input))
      \<and> count1 ?c = of_nat (8 * length (msg @ input) div 2 ^ 32)"
    using abs md5_count [OF len, of "length msg"]
    by (simp only: md5_update_simps md5_absorbed_def length_append)
  ultimately show ?thesis by (simp only: md5_absorbed_def simp_thms)
qed

lemma length_xd_MD5Encode [simp]: "length (xd_MD5Encode ws) = 4 * length ws"
  by (induction ws) simp_all

lemma md5_padding_take:
  assumes "n \<le> 63"
  shows "take (Suc n) PADDING = 0x80 # replicate n 0"
  using assms by (simp add: PADDING_def)

lemma mod_63: "n mod 64 \<le> (63 :: nat)"
  by (simp add: less_Suc_eq_le [symmetric])

lemma pad_64:
  assumes "n < (64 :: nat)"
  shows "(119 - n) mod 64 = (if n < 56 then 55 - n else 119 - n)"
proof (cases "n < 56")
  case True
  then have "(119 - n) mod 64 = (119 - n - 64) mod 64" by (intro le_mod_geq) linarith
  also have "119 - n - 64 = 55 - n" by simp
  finally show ?thesis using True by simp
next
  case False
  then show ?thesis using assms by (simp add: less_diff_conv2)
qed

lemma md5_padlen:
  "(if n mod 64 < 56 then 56 - n mod 64 else 120 - n mod 64) = Suc ((119 - n mod 64) mod 64)"
proof -
  have "(if k < 56 then 56 - k else 120 - k) = Suc ((119 - k) mod 64)" if "k < 64" for k :: nat
    using that by (simp only: pad_64) arith
  then show ?thesis by simp
qed

lemma length_md5_padded: "length (md5_padded msg) mod 64 = 0"
proof -
  define n where "n = length msg mod 64"
  then have "n < 64" by simp
  then have pad: "n + (1 + (119 - n) mod 64 + 8) = (if n < 56 then 64 else 128)"
    by (simp only: pad_64) simp
  have "length (md5_padded msg) mod 64 = (length msg + (1 + (119 - n) mod 64 + 8)) mod 64"
    by (simp add: md5_padded_def n_def ac_simps)
  also have "\<dots> = (n + (1 + (119 - n) mod 64 + 8)) mod 64"
    unfolding n_def by (simp only: mod_add_left_eq)
  finally show ?thesis using pad by (simp split: if_splits)
qed

lemma xd_MD5Final_spec:
  assumes abs: "md5_absorbed msg ctx"
  shows "snd (xd_MD5Final ctx) = md5_spec msg"
proof -
  define n where "n = length msg mod 64"
  define pad where "pad = 0x80 # replicate ((119 - n) mod 64) (0 :: u8)"
  define bits where "bits = xd_MD5Encode [count0 ctx, count1 ctx]"
  have "unat (drop_bit 3 (count0 ctx) AND 0x3F) = n"
    using abs md5_index [of ctx "length msg"] by (simp only: md5_absorbed_def n_def)
  then have final: "snd (xd_MD5Final ctx) = (case chain (xd_MD5Update (xd_MD5Update ctx pad) bits) of
      (s0, s1, s2, s3) \<Rightarrow> xd_MD5Encode [s0, s1, s2, s3])"
    using md5_padlen [of "length msg"] md5_padding_take [OF mod_63, of "119 - n"]
    by (simp only: xd_MD5Final_def Let_def n_def pad_def bits_def snd_conv)
  have "md5_absorbed (msg @ pad @ bits) (xd_MD5Update (xd_MD5Update ctx pad) bits)"
  proof -
    have "length pad \<le> 64" "length bits = 8"
      unfolding pad_def bits_def by (simp_all add: less_Suc_eq_le [symmetric])
    then have "length pad < 2 ^ 32" "length bits < 2 ^ 32" by (auto intro: le_less_trans)
    then show ?thesis using abs md5_absorbed_update by (metis append_assoc)
  qed
  moreover have "msg @ pad @ bits = md5_padded msg"
    using abs unfolding md5_absorbed_def md5_padded_def pad_def bits_def n_def by simp
  ultimately show ?thesis
    by (simp only: final md5_absorbed_def md5_spec_def fst_conv)
qed

section \<open>Properties\<close>

text \<open>A context as it may be found on the stack, for the witnesses.\<close>

definition md5_dirty :: MD5_CTX where
  "md5_dirty = \<lparr>count0 = 7, count1 = 9, chain = (1, 2, 3, 4), buffer = replicate 64 0xAA\<rparr>"


lemma md5_digest:
  assumes "length (buffer md5) = 64" and "length encrypt < 2 ^ 32"
  shows "snd (xd_MD5Final (xd_MD5Update (xd_MD5Init md5) encrypt)) = md5_spec encrypt"
  using xd_MD5Final_spec [OF md5_absorbed_update [OF md5_absorbed_init]] assms by simp


text \<open>The hexadecimal entry point, called with any uninitialised context on the stack, returns
  the 32 lower-case digits of the RFC 1321 digest.\<close>

lemma get_md5_32_str_correct:
  assumes "length (buffer md5) = 64" and "length encrypt < 2 ^ 32"
  shows "get_md5_32_str md5 encrypt = hex_digits 0 (md5_spec encrypt)
    \<and> length (get_md5_32_str md5 encrypt) = 32"
proof -
  have "length (md5_spec encrypt) = 16" by (simp add: md5_spec_def split: prod.split)
  moreover have "get_md5_32_str md5 encrypt = hex_digits 0 (md5_spec encrypt)"
    unfolding get_md5_32_str_def md5_digest [OF assms] Let_def unat_high_nibble unat_low_nibble
    by (simp add: hex_digits_def HEX_STR_def hex_str_lower_def Let_def)
  ultimately show ?thesis by simp
qed

theorem get_md5_32_str_witness: "get_md5_32_str md5_dirty [0x61] = hex_digits 0 (md5_spec [0x61])"
  using get_md5_32_str_correct [of md5_dirty "[0x61]"] by (simp add: md5_dirty_def)

text \<open>The base64 entry point returns 24 characters and the terminator, which decode to the
  RFC 1321 digest.\<close>

lemma get_md5_32_base64_str_correct:
  assumes "length (buffer md5) = 64" and "length encrypt < 2 ^ 32"
  shows "length (get_md5_32_base64_str md5 encrypt) = 25
    \<and> base64_decode (get_md5_32_base64_str md5 encrypt) = Some (md5_spec encrypt)"
proof -
  have "length (md5_spec encrypt) = 16" by (simp add: md5_spec_def split: prod.split)
  then show ?thesis
    using base64_decode_encode_loop [of "md5_spec encrypt" "[]"]
    by (simp add: get_md5_32_base64_str_def md5_digest [OF assms] base64_encode_def
        length_base64_encode_loop)
qed

theorem get_md5_32_base64_str_witness:
  "base64_decode (get_md5_32_base64_str md5_dirty [0x61]) = Some (md5_spec [0x61])"
  using get_md5_32_base64_str_correct [of md5_dirty "[0x61]"] by (simp add: md5_dirty_def)

end
