(* ===== verification/Aes.thy ===== *)
theory Aes
  imports Prelude
begin

text \<open>
  AES-128 as \<^verbatim>\<open>src/ql_application/App_XD/secrypto/app_security_aes.c\<close> computes it: the tables, the
  key schedule, the two ciphers.  The 4 x 4 state of the C code lies over the 16 bytes of the output
  buffer, so the model's state is that list, \<open>state[i][j]\<close> at index \<open>4 * i + j\<close>.  The round keys, which
  the C code keeps in two static arrays, are an argument.
\<close>

section \<open>Model\<close>

definition sbox :: bytes where
  "sbox = concat [
     [0x63, 0x7c, 0x77, 0x7b, 0xf2, 0x6b, 0x6f, 0xc5, 0x30, 0x01, 0x67, 0x2b, 0xfe, 0xd7, 0xab, 0x76],
     [0xca, 0x82, 0xc9, 0x7d, 0xfa, 0x59, 0x47, 0xf0, 0xad, 0xd4, 0xa2, 0xaf, 0x9c, 0xa4, 0x72, 0xc0],
     [0xb7, 0xfd, 0x93, 0x26, 0x36, 0x3f, 0xf7, 0xcc, 0x34, 0xa5, 0xe5, 0xf1, 0x71, 0xd8, 0x31, 0x15],
     [0x04, 0xc7, 0x23, 0xc3, 0x18, 0x96, 0x05, 0x9a, 0x07, 0x12, 0x80, 0xe2, 0xeb, 0x27, 0xb2, 0x75],
     [0x09, 0x83, 0x2c, 0x1a, 0x1b, 0x6e, 0x5a, 0xa0, 0x52, 0x3b, 0xd6, 0xb3, 0x29, 0xe3, 0x2f, 0x84],
     [0x53, 0xd1, 0x00, 0xed, 0x20, 0xfc, 0xb1, 0x5b, 0x6a, 0xcb, 0xbe, 0x39, 0x4a, 0x4c, 0x58, 0xcf],
     [0xd0, 0xef, 0xaa, 0xfb, 0x43, 0x4d, 0x33, 0x85, 0x45, 0xf9, 0x02, 0x7f, 0x50, 0x3c, 0x9f, 0xa8],
     [0x51, 0xa3, 0x40, 0x8f, 0x92, 0x9d, 0x38, 0xf5, 0xbc, 0xb6, 0xda, 0x21, 0x10, 0xff, 0xf3, 0xd2],
     [0xcd, 0x0c, 0x13, 0xec, 0x5f, 0x97, 0x44, 0x17, 0xc4, 0xa7, 0x7e, 0x3d, 0x64, 0x5d, 0x19, 0x73],
     [0x60, 0x81, 0x4f, 0xdc, 0x22, 0x2a, 0x90, 0x88, 0x46, 0xee, 0xb8, 0x14, 0xde, 0x5e, 0x0b, 0xdb],
     [0xe0, 0x32, 0x3a, 0x0a, 0x49, 0x06, 0x24, 0x5c, 0xc2, 0xd3, 0xac, 0x62, 0x91, 0x95, 0xe4, 0x79],
     [0xe7, 0xc8, 0x37, 0x6d, 0x8d, 0xd5, 0x4e, 0xa9, 0x6c, 0x56, 0xf4, 0xea, 0x65, 0x7a, 0xae, 0x08],
     [0xba, 0x78, 0x25, 0x2e, 0x1c, 0xa6, 0xb4, 0xc6, 0xe8, 0xdd, 0x74, 0x1f, 0x4b, 0xbd, 0x8b, 0x8a],
     [0x70, 0x3e, 0xb5, 0x66, 0x48, 0x03, 0xf6, 0x0e, 0x61, 0x35, 0x57, 0xb9, 0x86, 0xc1, 0x1d, 0x9e],
     [0xe1, 0xf8, 0x98, 0x11, 0x69, 0xd9, 0x8e, 0x94, 0x9b, 0x1e, 0x87, 0xe9, 0xce, 0x55, 0x28, 0xdf],
     [0x8c, 0xa1, 0x89, 0x0d, 0xbf, 0xe6, 0x42, 0x68, 0x41, 0x99, 0x2d, 0x0f, 0xb0, 0x54, 0xbb, 0x16]]"

definition rsbox :: bytes where
  "rsbox = concat [
     [0x52, 0x09, 0x6a, 0xd5, 0x30, 0x36, 0xa5, 0x38, 0xbf, 0x40, 0xa3, 0x9e, 0x81, 0xf3, 0xd7, 0xfb],
     [0x7c, 0xe3, 0x39, 0x82, 0x9b, 0x2f, 0xff, 0x87, 0x34, 0x8e, 0x43, 0x44, 0xc4, 0xde, 0xe9, 0xcb],
     [0x54, 0x7b, 0x94, 0x32, 0xa6, 0xc2, 0x23, 0x3d, 0xee, 0x4c, 0x95, 0x0b, 0x42, 0xfa, 0xc3, 0x4e],
     [0x08, 0x2e, 0xa1, 0x66, 0x28, 0xd9, 0x24, 0xb2, 0x76, 0x5b, 0xa2, 0x49, 0x6d, 0x8b, 0xd1, 0x25],
     [0x72, 0xf8, 0xf6, 0x64, 0x86, 0x68, 0x98, 0x16, 0xd4, 0xa4, 0x5c, 0xcc, 0x5d, 0x65, 0xb6, 0x92],
     [0x6c, 0x70, 0x48, 0x50, 0xfd, 0xed, 0xb9, 0xda, 0x5e, 0x15, 0x46, 0x57, 0xa7, 0x8d, 0x9d, 0x84],
     [0x90, 0xd8, 0xab, 0x00, 0x8c, 0xbc, 0xd3, 0x0a, 0xf7, 0xe4, 0x58, 0x05, 0xb8, 0xb3, 0x45, 0x06],
     [0xd0, 0x2c, 0x1e, 0x8f, 0xca, 0x3f, 0x0f, 0x02, 0xc1, 0xaf, 0xbd, 0x03, 0x01, 0x13, 0x8a, 0x6b],
     [0x3a, 0x91, 0x11, 0x41, 0x4f, 0x67, 0xdc, 0xea, 0x97, 0xf2, 0xcf, 0xce, 0xf0, 0xb4, 0xe6, 0x73],
     [0x96, 0xac, 0x74, 0x22, 0xe7, 0xad, 0x35, 0x85, 0xe2, 0xf9, 0x37, 0xe8, 0x1c, 0x75, 0xdf, 0x6e],
     [0x47, 0xf1, 0x1a, 0x71, 0x1d, 0x29, 0xc5, 0x89, 0x6f, 0xb7, 0x62, 0x0e, 0xaa, 0x18, 0xbe, 0x1b],
     [0xfc, 0x56, 0x3e, 0x4b, 0xc6, 0xd2, 0x79, 0x20, 0x9a, 0xdb, 0xc0, 0xfe, 0x78, 0xcd, 0x5a, 0xf4],
     [0x1f, 0xdd, 0xa8, 0x33, 0x88, 0x07, 0xc7, 0x31, 0xb1, 0x12, 0x10, 0x59, 0x27, 0x80, 0xec, 0x5f],
     [0x60, 0x51, 0x7f, 0xa9, 0x19, 0xb5, 0x4a, 0x0d, 0x2d, 0xe5, 0x7a, 0x9f, 0x93, 0xc9, 0x9c, 0xef],
     [0xa0, 0xe0, 0x3b, 0x4d, 0xae, 0x2a, 0xf5, 0xb0, 0xc8, 0xeb, 0xbb, 0x3c, 0x83, 0x53, 0x99, 0x61],
     [0x17, 0x2b, 0x04, 0x7e, 0xba, 0x77, 0xd6, 0x26, 0xe1, 0x69, 0x14, 0x63, 0x55, 0x21, 0x0c, 0x7d]]"

definition Rcon :: bytes where
  "Rcon = [
     0x8d, 0x01, 0x02, 0x04, 0x08, 0x10, 0x20, 0x40, 0x80, 0x1b, 0x36, 0x6c, 0xd8, 0xab, 0x4d, 0x9a,
     0x2f, 0x5e, 0xbc, 0x63, 0xc6, 0x97, 0x35, 0x6a, 0xd4, 0xb3, 0x7d, 0xfa, 0xef, 0xc5, 0x91, 0x39,
     0x72, 0xe4, 0xd3, 0xbd, 0x61, 0xc2, 0x9f, 0x25, 0x4a, 0x94, 0x33, 0x66, 0xcc, 0x83, 0x1d, 0x3a,
     0x74, 0xe8, 0xcb, 0x8d, 0x01, 0x02, 0x04, 0x08, 0x10, 0x20, 0x40, 0x80, 0x1b, 0x36, 0x6c, 0xd8,
     0xab, 0x4d, 0x9a, 0x2f, 0x5e, 0xbc, 0x63, 0xc6, 0x97, 0x35, 0x6a, 0xd4, 0xb3, 0x7d, 0xfa, 0xef,
     0xc5, 0x91, 0x39, 0x72, 0xe4, 0xd3, 0xbd, 0x61, 0xc2, 0x9f, 0x25, 0x4a, 0x94, 0x33, 0x66, 0xcc,
     0x83, 0x1d, 0x3a, 0x74, 0xe8, 0xcb, 0x8d, 0x01, 0x02, 0x04, 0x08, 0x10, 0x20, 0x40, 0x80, 0x1b,
     0x36, 0x6c, 0xd8, 0xab, 0x4d, 0x9a, 0x2f, 0x5e, 0xbc, 0x63, 0xc6, 0x97, 0x35, 0x6a, 0xd4, 0xb3,
     0x7d, 0xfa, 0xef, 0xc5, 0x91, 0x39, 0x72, 0xe4, 0xd3, 0xbd, 0x61, 0xc2, 0x9f, 0x25, 0x4a, 0x94,
     0x33, 0x66, 0xcc, 0x83, 0x1d, 0x3a, 0x74, 0xe8, 0xcb, 0x8d, 0x01, 0x02, 0x04, 0x08, 0x10, 0x20,
     0x40, 0x80, 0x1b, 0x36, 0x6c, 0xd8, 0xab, 0x4d, 0x9a, 0x2f, 0x5e, 0xbc, 0x63, 0xc6, 0x97, 0x35,
     0x6a, 0xd4, 0xb3, 0x7d, 0xfa, 0xef, 0xc5, 0x91, 0x39, 0x72, 0xe4, 0xd3, 0xbd, 0x61, 0xc2, 0x9f,
     0x25, 0x4a, 0x94, 0x33, 0x66, 0xcc, 0x83, 0x1d, 0x3a, 0x74, 0xe8, 0xcb, 0x8d, 0x01, 0x02, 0x04,
     0x08, 0x10, 0x20, 0x40, 0x80, 0x1b, 0x36, 0x6c, 0xd8, 0xab, 0x4d, 0x9a, 0x2f, 0x5e, 0xbc, 0x63,
     0xc6, 0x97, 0x35, 0x6a, 0xd4, 0xb3, 0x7d, 0xfa, 0xef, 0xc5, 0x91, 0x39, 0x72, 0xe4, 0xd3, 0xbd,
     0x61, 0xc2, 0x9f, 0x25, 0x4a, 0x94, 0x33, 0x66, 0xcc, 0x83, 0x1d, 0x3a, 0x74, 0xe8, 0xcb]"

definition getSBoxValue :: "u8 \<Rightarrow> u8" where
  "getSBoxValue num = sbox ! unat num"

definition getSBoxInvert :: "u8 \<Rightarrow> u8" where
  "getSBoxInvert num = rsbox ! unat num"

text \<open>
  The key schedule.  Iteration \<open>i\<close> of the second loop appends word \<open>i\<close> to the words before it;
  its branch for \<open>Nk > 6\<close> is dead, as \<open>Nk\<close> is 4.
\<close>

definition KeyExpansion_word :: "nat \<Rightarrow> bytes \<Rightarrow> bytes" where
  "KeyExpansion_word i RoundKey =
     (let tempa = take 4 (drop ((i - 1) * 4) RoundKey);
          tempa = (if i mod 4 = 0
                   then let rotated = [tempa ! 1, tempa ! 2, tempa ! 3, tempa ! 0];
                            subst = map getSBoxValue rotated
                        in subst[0 := subst ! 0 XOR Rcon ! (i div 4)]
                   else tempa)
      in RoundKey @ map2 (XOR) (take 4 (drop ((i - 4) * 4) RoundKey)) tempa)"

definition KeyExpansion_encrypt :: "bytes \<Rightarrow> bytes" where
  "KeyExpansion_encrypt Key = fold KeyExpansion_word [4..<44] (take 16 Key)"

definition KeyExpansion_decrypt :: "bytes \<Rightarrow> bytes" where
  "KeyExpansion_decrypt Key = fold KeyExpansion_word [4..<44] (take 16 Key)"

definition AddRoundKey_encrypt :: "bytes \<Rightarrow> nat \<Rightarrow> bytes \<Rightarrow> bytes" where
  "AddRoundKey_encrypt RoundKey round s = map2 (XOR) s (take 16 (drop (round * 4 * 4) RoundKey))"

definition AddRoundKey_decrypt :: "bytes \<Rightarrow> nat \<Rightarrow> bytes \<Rightarrow> bytes" where
  "AddRoundKey_decrypt RoundKey round s = map2 (XOR) s (take 16 (drop (round * 4 * 4) RoundKey))"

definition SubBytes :: "bytes \<Rightarrow> bytes" where
  "SubBytes s = map getSBoxValue s"

definition InvSubBytes :: "bytes \<Rightarrow> bytes" where
  "InvSubBytes s = map getSBoxInvert s"

fun ShiftRows :: "bytes \<Rightarrow> bytes" where
  "ShiftRows [s00, s01, s02, s03, s10, s11, s12, s13, s20, s21, s22, s23, s30, s31, s32, s33] =
     [s00, s11, s22, s33, s10, s21, s32, s03, s20, s31, s02, s13, s30, s01, s12, s23]"
| "ShiftRows s = s"

fun InvShiftRows :: "bytes \<Rightarrow> bytes" where
  "InvShiftRows [s00, s01, s02, s03, s10, s11, s12, s13, s20, s21, s22, s23, s30, s31, s32, s33] =
     [s00, s31, s22, s13, s10, s01, s32, s23, s20, s11, s02, s33, s30, s21, s12, s03]"
| "InvShiftRows s = s"

definition xtime :: "u8 \<Rightarrow> u8" where
  "xtime x = push_bit 1 x XOR ((drop_bit 7 x AND 1) * 0x1b)"

fun MixColumns :: "bytes \<Rightarrow> bytes" where
  "MixColumns (s0 # s1 # s2 # s3 # rest) =
     (let t = s0; Tmp = s0 XOR s1 XOR s2 XOR s3;
          n0 = s0 XOR (xtime (s0 XOR s1) XOR Tmp);
          n1 = s1 XOR (xtime (s1 XOR s2) XOR Tmp);
          n2 = s2 XOR (xtime (s2 XOR s3) XOR Tmp);
          n3 = s3 XOR (xtime (s3 XOR t) XOR Tmp)
      in n0 # n1 # n2 # n3 # MixColumns rest)"
| "MixColumns s = s"

definition Multiply :: "u8 \<Rightarrow> u8 \<Rightarrow> u8" where
  "Multiply x y =
     ((y AND 1) * x) XOR
     ((drop_bit 1 y AND 1) * xtime x) XOR
     ((drop_bit 2 y AND 1) * xtime (xtime x)) XOR
     ((drop_bit 3 y AND 1) * xtime (xtime (xtime x))) XOR
     ((drop_bit 4 y AND 1) * xtime (xtime (xtime (xtime x))))"

fun InvMixColumns :: "bytes \<Rightarrow> bytes" where
  "InvMixColumns (a # b # c # d # rest) =
     (Multiply a 0x0e XOR Multiply b 0x0b XOR Multiply c 0x0d XOR Multiply d 0x09) #
     (Multiply a 0x09 XOR Multiply b 0x0e XOR Multiply c 0x0b XOR Multiply d 0x0d) #
     (Multiply a 0x0d XOR Multiply b 0x09 XOR Multiply c 0x0e XOR Multiply d 0x0b) #
     (Multiply a 0x0b XOR Multiply b 0x0d XOR Multiply c 0x09 XOR Multiply d 0x0e) #
     InvMixColumns rest"
| "InvMixColumns s = s"

definition Cipher :: "bytes \<Rightarrow> bytes \<Rightarrow> bytes" where
  "Cipher RoundKey s =
     (let s = AddRoundKey_encrypt RoundKey 0 s;
          s = fold (\<lambda>round s. AddRoundKey_encrypt RoundKey round (MixColumns (ShiftRows (SubBytes s))))
                [1..<10] s
      in AddRoundKey_encrypt RoundKey 10 (ShiftRows (SubBytes s)))"

definition InvCipher :: "bytes \<Rightarrow> bytes \<Rightarrow> bytes" where
  "InvCipher RoundKey s =
     (let s = AddRoundKey_decrypt RoundKey 10 s;
          s = fold (\<lambda>round s. InvMixColumns (AddRoundKey_decrypt RoundKey round (InvSubBytes (InvShiftRows s))))
                (rev [1..<10]) s
      in AddRoundKey_decrypt RoundKey 0 (InvSubBytes (InvShiftRows s)))"

section \<open>The layers are inverses\<close>

text \<open>A row of a table is looked up without unfolding the others.\<close>

definition rsbox_row :: "nat \<Rightarrow> bytes" where
  "rsbox_row k = take 16 (drop (16 * k) rsbox)"

lemmas rsbox_rows =
  rsbox_row_def [of 0, unfolded rsbox_def, simplified]
  rsbox_row_def [of 1, unfolded rsbox_def, simplified]
  rsbox_row_def [of 2, unfolded rsbox_def, simplified]
  rsbox_row_def [of 3, unfolded rsbox_def, simplified]
  rsbox_row_def [of 4, unfolded rsbox_def, simplified]
  rsbox_row_def [of 5, unfolded rsbox_def, simplified]
  rsbox_row_def [of 6, unfolded rsbox_def, simplified]
  rsbox_row_def [of 7, unfolded rsbox_def, simplified]
  rsbox_row_def [of 8, unfolded rsbox_def, simplified]
  rsbox_row_def [of 9, unfolded rsbox_def, simplified]
  rsbox_row_def [of 10, unfolded rsbox_def, simplified]
  rsbox_row_def [of 11, unfolded rsbox_def, simplified]
  rsbox_row_def [of 12, unfolded rsbox_def, simplified]
  rsbox_row_def [of 13, unfolded rsbox_def, simplified]
  rsbox_row_def [of 14, unfolded rsbox_def, simplified]
  rsbox_row_def [of 15, unfolded rsbox_def, simplified]

lemma length_rsbox [simp]: "length rsbox = 256"
  by (simp add: rsbox_def)

lemma rsbox_nth: "n < 256 \<Longrightarrow> rsbox ! n = rsbox_row (n div 16) ! (n mod 16)"
  by (simp add: rsbox_row_def)

lemma sbox_check_rows:
  "map (\<lambda>x. rsbox_row (unat x div 16) ! (unat x mod 16)) sbox = map of_nat [0..<256]"
  by (simp add: sbox_def upt_rec rsbox_rows)

lemma length_sbox [simp]: "length sbox = 256"
  by (simp add: sbox_def)

lemma InvSubBytes_SubBytes [simp]: "InvSubBytes (SubBytes s) = s"
proof -
  have "getSBoxInvert (getSBoxValue x) = x" for x
    using arg_cong [OF sbox_check_rows, of "\<lambda>xs. xs ! unat x"]
    by (simp add: getSBoxInvert_def getSBoxValue_def rsbox_nth)
  then show ?thesis by (simp add: InvSubBytes_def SubBytes_def comp_def)
qed

lemma xtime_xor: "xtime (x XOR y) = xtime x XOR xtime y"
proof -
  have "drop_bit 7 z AND 1 = (if bit z 7 then 1 else 0)" for z :: u8
    by (simp add: u8_eq_iff bit_simps bit_1_iff)
  then have eq: "xtime z = push_bit 1 z XOR (if bit z 7 then 0x1b else 0)" for z
    by (simp add: xtime_def)
  show ?thesis by (simp add: eq bit_xor_iff xor_simps)
qed

lemma Multiply_const:
  "Multiply x 0x0e = xtime x XOR xtime (xtime x) XOR xtime (xtime (xtime x))"
  "Multiply x 0x0b = x XOR xtime x XOR xtime (xtime (xtime x))"
  "Multiply x 0x0d = x XOR xtime (xtime x) XOR xtime (xtime (xtime x))"
  "Multiply x 0x09 = x XOR xtime (xtime (xtime x))"
  by (simp_all add: Multiply_def)

lemma InvMixColumns_MixColumns [simp]: "InvMixColumns (MixColumns s) = s"
  by (induction s rule: MixColumns.induct)
    (simp_all add: Let_def Multiply_const xtime_xor xor_simps)

lemma InvShiftRows_ShiftRows [simp]: "InvShiftRows (ShiftRows s) = s"
  by (cases s rule: ShiftRows.cases) simp_all

lemma length_ShiftRows [simp]: "length (ShiftRows s) = length s"
  by (cases s rule: ShiftRows.cases) simp_all

lemma length_InvShiftRows [simp]: "length (InvShiftRows s) = length s"
  by (cases s rule: InvShiftRows.cases) simp_all

lemma length_MixColumns [simp]: "length (MixColumns s) = length s"
  by (induction s rule: MixColumns.induct) (simp_all add: Let_def)

lemma length_InvMixColumns [simp]: "length (InvMixColumns s) = length s"
  by (induction s rule: InvMixColumns.induct) simp_all

lemma length_SubBytes [simp]: "length (SubBytes s) = length s"
  by (simp add: SubBytes_def)

lemma length_InvSubBytes [simp]: "length (InvSubBytes s) = length s"
  by (simp add: InvSubBytes_def)

lemma map2_xor_involutive:
  "length s \<le> length k \<Longrightarrow> map2 (XOR) (map2 (XOR) s k) k = (s :: 'a::len word list)"
  by (rule nth_equalityI) (simp_all add: xor.assoc)

lemma AddRoundKey_decrypt_encrypt: "AddRoundKey_decrypt = AddRoundKey_encrypt"
  by (intro ext) (simp add: AddRoundKey_decrypt_def AddRoundKey_encrypt_def)

lemma length_AddRoundKey [simp]:
  "length RoundKey = 176 \<Longrightarrow> round \<le> 10 \<Longrightarrow> length s = 16 \<Longrightarrow>
    length (AddRoundKey_encrypt RoundKey round s) = 16"
  by (simp add: AddRoundKey_encrypt_def)

lemma AddRoundKey_involutive [simp]:
  "length RoundKey = 176 \<Longrightarrow> round \<le> 10 \<Longrightarrow> length s = 16 \<Longrightarrow>
    AddRoundKey_encrypt RoundKey round (AddRoundKey_encrypt RoundKey round s) = s"
  unfolding AddRoundKey_encrypt_def by (intro map2_xor_involutive) simp

lemma length_KeyExpansion_word:
  "4 \<le> i \<Longrightarrow> length RoundKey = 4 * i \<Longrightarrow> length (KeyExpansion_word i RoundKey) = 4 * i + 4"
  by (simp add: KeyExpansion_word_def Let_def)

lemma length_KeyExpansion:
  assumes "16 \<le> length Key"
  shows "length (KeyExpansion_encrypt Key) = 176"
proof -
  have "length (fold KeyExpansion_word [4..<4 + n] (take 16 Key)) = 16 + 4 * n" for n
  proof (induction n)
    case 0
    show ?case using assms by simp
  next
    case (Suc n)
    have "[4..<4 + Suc n] = [4..<4 + n] @ [4 + n]" by (simp only: add_Suc_right upt_Suc) simp
    then show ?case using Suc
      by (simp only: fold_append fold.simps comp_apply id_apply) (simp add: length_KeyExpansion_word)
  qed
  from this [of 40] show ?thesis by (simp add: KeyExpansion_encrypt_def)
qed

lemma KeyExpansion_decrypt_encrypt: "KeyExpansion_decrypt = KeyExpansion_encrypt"
  by (intro ext) (simp add: KeyExpansion_decrypt_def KeyExpansion_encrypt_def)

definition cipher_round :: "bytes \<Rightarrow> nat \<Rightarrow> bytes \<Rightarrow> bytes" where
  "cipher_round RoundKey round s =
     AddRoundKey_encrypt RoundKey round (MixColumns (ShiftRows (SubBytes s)))"

definition inv_cipher_round :: "bytes \<Rightarrow> nat \<Rightarrow> bytes \<Rightarrow> bytes" where
  "inv_cipher_round RoundKey round s =
     InvMixColumns (AddRoundKey_encrypt RoundKey round (InvSubBytes (InvShiftRows s)))"

lemma Cipher_rounds: "Cipher RoundKey s = AddRoundKey_encrypt RoundKey 10 (ShiftRows (SubBytes
    (fold (cipher_round RoundKey) [1..<10] (AddRoundKey_encrypt RoundKey 0 s))))"
  by (simp add: Cipher_def cipher_round_def [abs_def] Let_def)

lemma InvCipher_rounds: "InvCipher RoundKey s = AddRoundKey_encrypt RoundKey 0 (InvSubBytes (InvShiftRows
    (fold (inv_cipher_round RoundKey) (rev [1..<10]) (AddRoundKey_encrypt RoundKey 10 s))))"
  by (simp add: InvCipher_def inv_cipher_round_def [abs_def] AddRoundKey_decrypt_encrypt Let_def)

lemma length_rounds:
  assumes "length RoundKey = 176" and "length s = 16" and "n \<le> 10"
  shows "length (fold (cipher_round RoundKey) [Suc 0..<n] s) = 16"
  using assms(3) by (induction n) (simp_all add: cipher_round_def assms)

lemma length_inv_rounds:
  assumes "length RoundKey = 176" and "list_all (\<lambda>n. n \<le> 10) ns"
  shows "length s = 16 \<Longrightarrow> length (fold (inv_cipher_round RoundKey) ns s) = 16"
  using assms(2) by (induction ns arbitrary: s) (simp_all add: inv_cipher_round_def assms)

lemma length_Cipher: "length RoundKey = 176 \<Longrightarrow> length s = 16 \<Longrightarrow> length (Cipher RoundKey s) = 16"
  by (simp add: Cipher_rounds length_rounds)

lemma length_InvCipher: "length RoundKey = 176 \<Longrightarrow> length s = 16 \<Longrightarrow> length (InvCipher RoundKey s) = 16"
  by (simp add: InvCipher_rounds length_inv_rounds list_all_iff)

text \<open>The inverse rounds, in the opposite order, peel the rounds off one by one.\<close>

lemma inv_rounds_rounds:
  assumes "length RoundKey = 176" and "length s = 16" and "n \<le> 9"
  shows "fold (inv_cipher_round RoundKey) (rev [1..<Suc n])
      (ShiftRows (SubBytes (fold (cipher_round RoundKey) [1..<Suc n] s))) = ShiftRows (SubBytes s)"
  using assms(3)
proof (induction n)
  case 0
  show ?case by simp
next
  case (Suc n)
  let ?t = "fold (cipher_round RoundKey) [1..<Suc n] s"
  have "length ?t = 16" using Suc.prems by (simp add: length_rounds assms del: upt_Suc)
  then have "inv_cipher_round RoundKey (Suc n) (ShiftRows (SubBytes (cipher_round RoundKey (Suc n) ?t)))
      = ShiftRows (SubBytes ?t)"
    using Suc.prems by (simp add: inv_cipher_round_def cipher_round_def assms)
  then show ?case using Suc by simp
qed

lemma InvCipher_Cipher_rounds:
  assumes "length RoundKey = 176" and "length s = 16"
  shows "InvCipher RoundKey (Cipher RoundKey s) = s"
proof -
  have len: "length (fold (cipher_round RoundKey) [1..<10] (AddRoundKey_encrypt RoundKey 0 s)) = 16"
    by (simp add: length_rounds assms)
  show ?thesis
    using inv_rounds_rounds [of RoundKey "AddRoundKey_encrypt RoundKey 0 s" 9] len
    by (simp add: InvCipher_rounds Cipher_rounds assms)
qed

section \<open>The contract of a block cipher\<close>

text \<open>What the modes of operation rely on, and what they make of it.\<close>

locale block_cipher =
  fixes enc dec :: "'k \<Rightarrow> bytes \<Rightarrow> bytes"
    and key_ok :: "'k \<Rightarrow> bool"
  assumes enc_length: "key_ok k \<Longrightarrow> length b = 16 \<Longrightarrow> length (enc k b) = 16"
    and dec_length: "key_ok k \<Longrightarrow> length b = 16 \<Longrightarrow> length (dec k b) = 16"
    and dec_enc: "key_ok k \<Longrightarrow> length b = 16 \<Longrightarrow> dec k (enc k b) = b"
begin

lemma enc_inj:
  "key_ok k \<Longrightarrow> length a = 16 \<Longrightarrow> length b = 16 \<Longrightarrow> enc k a = enc k b \<longleftrightarrow> a = b"
  by (metis dec_enc)

lemma ecb_roundtrip:
  "key_ok k \<Longrightarrow> list_all (\<lambda>b. length b = 16) blocks \<Longrightarrow> map (dec k) (map (enc k) blocks) = blocks"
  by (induction blocks) (simp_all add: dec_enc)

end

text \<open>Cipher block chaining over a list of blocks: the reference for the buffer routines.\<close>

fun cbc_enc :: "('k \<Rightarrow> bytes \<Rightarrow> bytes) \<Rightarrow> 'k \<Rightarrow> bytes \<Rightarrow> bytes list \<Rightarrow> bytes list" where
  "cbc_enc enc k iv [] = []"
| "cbc_enc enc k iv (b # bs) = (let c = enc k (map2 (XOR) b iv) in c # cbc_enc enc k c bs)"

fun cbc_dec :: "('k \<Rightarrow> bytes \<Rightarrow> bytes) \<Rightarrow> 'k \<Rightarrow> bytes \<Rightarrow> bytes list \<Rightarrow> bytes list" where
  "cbc_dec dec k iv [] = []"
| "cbc_dec dec k iv (c # cs) = map2 (XOR) (dec k c) iv # cbc_dec dec k c cs"

context block_cipher
begin

lemma cbc_roundtrip:
  "key_ok k \<Longrightarrow> length iv = 16 \<Longrightarrow> list_all (\<lambda>b. length b = 16) blocks \<Longrightarrow>
    cbc_dec dec k iv (cbc_enc enc k iv blocks) = blocks"
  by (induction blocks arbitrary: iv)
    (simp_all add: Let_def dec_enc enc_length map2_xor_involutive)

lemma cbc_lengths:
  "key_ok k \<Longrightarrow> length iv = 16 \<Longrightarrow> list_all (\<lambda>b. length b = 16) blocks \<Longrightarrow>
    list_all (\<lambda>b. length b = 16) (cbc_enc enc k iv blocks)"
  by (induction blocks arbitrary: iv) (simp_all add: Let_def enc_length)

end

interpretation aes_rounds: block_cipher Cipher InvCipher "\<lambda>RoundKey. length RoundKey = 176"
  by unfold_locales (simp_all add: length_Cipher length_InvCipher InvCipher_Cipher_rounds)

section \<open>Properties\<close>

text \<open>Deciphering with the decryption key schedule inverts enciphering with the encryption key
  schedule, for every key and every block.\<close>

lemma InvCipher_Cipher:
  assumes "16 \<le> length Key" and "length s = 16"
  shows "InvCipher (KeyExpansion_decrypt Key) (Cipher (KeyExpansion_encrypt Key) s) = s"
  using assms by (simp add: KeyExpansion_decrypt_encrypt aes_rounds.dec_enc length_KeyExpansion)

theorem InvCipher_Cipher_witness:
  "InvCipher (KeyExpansion_decrypt (replicate 16 3)) (Cipher (KeyExpansion_encrypt (replicate 16 3))
     (replicate 16 7)) = replicate 16 7"
  using InvCipher_Cipher [of "replicate 16 3" "replicate 16 7"] by simp

end
