(* ===== verification/AesModes.thy ===== *)
theory AesModes
  imports Aes HexTool
begin

text \<open>
  The modes of operation of \<^verbatim>\<open>src/ql_application/App_XD/secrypto/app_security_aes.c\<close>: ECB with PKCS#7
  padding, its hexadecimal printer, and CBC over buffers.  The static variables are a record; the
  caller's buffers are lists, input and output distinct, and an access outside one is \<open>None\<close>.
  \<open>Iv\<close> holds the block the C pointer of that name points to.
\<close>

section \<open>Model\<close>

record aes =
  RoundKey_encrypt :: bytes
  RoundKey_decrypt :: bytes
  Iv :: bytes

text \<open>\<open>block_at mem i\<close> and \<open>put_block mem i b\<close> are the two ends of \<open>BlockCopy\<close>, at block \<open>i\<close> of a buffer.\<close>

definition block_at :: "bytes \<Rightarrow> nat \<Rightarrow> bytes option" where
  "block_at mem i = (if 16 * i + 16 \<le> length mem then Some (take 16 (drop (16 * i) mem)) else None)"

definition put_block :: "bytes \<Rightarrow> nat \<Rightarrow> bytes \<Rightarrow> bytes option" where
  "put_block mem i b = (if 16 * i + 16 \<le> length mem then Some (blit mem (16 * i) b) else None)"

definition AES128_ECB_encrypt :: "aes \<Rightarrow> bytes \<Rightarrow> bytes \<Rightarrow> aes \<times> bytes" where
  "AES128_ECB_encrypt a key block =
     (let a = a\<lparr>RoundKey_encrypt := KeyExpansion_encrypt key\<rparr> in (a, Cipher (RoundKey_encrypt a) block))"

definition AES128_ECB_decrypt :: "aes \<Rightarrow> bytes \<Rightarrow> bytes \<Rightarrow> aes \<times> bytes" where
  "AES128_ECB_decrypt a key block =
     (let a = a\<lparr>RoundKey_decrypt := KeyExpansion_decrypt key\<rparr> in (a, InvCipher (RoundKey_decrypt a) block))"

definition Add_Pkcs :: "bytes \<Rightarrow> nat \<Rightarrow> (bytes \<times> nat) option" where
  "Add_Pkcs p len =
     (let cz = 16 - len mod 16; pkcs = replicate cz (of_nat cz)
      in if len + cz \<le> length p then Some (blit p len pkcs, len + cz) else None)"

text \<open>\<open>n\<close> blocks from block \<open>index\<close> on go through \<open>f\<close>, one of the two single-block routines.\<close>

fun ecb_loop :: "(aes \<Rightarrow> bytes \<Rightarrow> aes \<times> bytes) \<Rightarrow> nat \<Rightarrow> nat \<Rightarrow> aes \<Rightarrow> bytes \<Rightarrow> bytes \<Rightarrow> (aes \<times> bytes) option" where
  "ecb_loop f 0 index a input output = Some (a, output)"
| "ecb_loop f (Suc n) index a input output =
     Option.bind (block_at input index) (\<lambda>b.
     Option.bind (put_block output index (snd (f a b))) (\<lambda>output.
     ecb_loop f n (Suc index) (fst (f a b)) input output))"

text \<open>The results: the new statics, input buffer, output buffer and the returned length.\<close>

definition aes128_ecb_encrypt ::
    "aes \<Rightarrow> bytes \<Rightarrow> nat \<Rightarrow> bytes \<Rightarrow> bytes \<Rightarrow> (aes \<times> bytes \<times> bytes \<times> nat) option" where
  "aes128_ecb_encrypt a input inputLen key output =
     Option.bind (Add_Pkcs input inputLen) (\<lambda>(input, len).
     Option.bind (ecb_loop (\<lambda>a. AES128_ECB_encrypt a key) (inputLen div 16 + 1) 0 a input output)
       (\<lambda>(a, output). Some (a, input, output, len)))"

definition aes128_ecb_encrypt1 ::
    "aes \<Rightarrow> bytes \<Rightarrow> bytes \<Rightarrow> bytes \<Rightarrow> nat \<Rightarrow> (aes \<times> bytes \<times> bytes \<times> nat) option" where
  "aes128_ecb_encrypt1 a input key output len =
     Option.bind (Add_Pkcs input len) (\<lambda>(input, ret).
     Option.bind (ecb_loop (\<lambda>a. AES128_ECB_encrypt a key) (len div 16 + 1) 0 a input output)
       (\<lambda>(a, output). Some (a, input, output, ret)))"

definition aes128_ecb_decrypt ::
    "aes \<Rightarrow> bytes \<Rightarrow> nat \<Rightarrow> bytes \<Rightarrow> bytes \<Rightarrow> (aes \<times> bytes \<times> u8) option" where
  "aes128_ecb_decrypt a input base_len key output =
     Option.bind (ecb_loop (\<lambda>a. AES128_ECB_decrypt a key) (base_len div 16) 0 a input output)
       (\<lambda>(a, output). if base_len = 0 then None
         else Option.bind (fetch output (base_len - 1)) (\<lambda>pad. Some (a, output, pad)))"

text \<open>\<open>strlen\<close>: the index of the first 0, which has to be inside the buffer.\<close>

fun c_strlen :: "bytes \<Rightarrow> nat option" where
  "c_strlen [] = None"
| "c_strlen (c # cs) = (if c = 0 then Some 0 else map_option Suc (c_strlen cs))"

definition aes128_ecb_encrypt_hex :: "aes \<Rightarrow> bytes \<Rightarrow> bytes \<Rightarrow> int \<Rightarrow> bytes \<Rightarrow> (aes \<times> bytes \<times> bytes) option" where
  "aes128_ecb_encrypt_hex a input key flag output =
     Option.bind (c_strlen input) (\<lambda>len.
     Option.bind (aes128_ecb_encrypt a input (len mod 2 ^ 16) key (replicate 256 0)) (\<lambda>(a, input, mid_str_hex, n).
     Option.bind (ascii2hex (take n mid_str_hex) flag output) (\<lambda>output.
     Some (a, input, output))))"

definition XorWithIv :: "aes \<Rightarrow> bytes \<Rightarrow> bytes" where
  "XorWithIv a buf = map2 (XOR) buf (Iv a)"

fun cbc_encrypt_loop :: "nat \<Rightarrow> nat \<Rightarrow> aes \<Rightarrow> bytes \<Rightarrow> bytes \<Rightarrow> (aes \<times> bytes \<times> bytes) option" where
  "cbc_encrypt_loop 0 i a output input = Some (a, output, input)"
| "cbc_encrypt_loop (Suc n) i a output input =
     Option.bind (block_at input i) (\<lambda>b.
     let b = XorWithIv a b; c = Cipher (RoundKey_encrypt a) b in
     Option.bind (put_block input i b) (\<lambda>input.
     Option.bind (put_block output i c) (\<lambda>output.
     cbc_encrypt_loop n (Suc i) (a\<lparr>Iv := c\<rparr>) output input)))"

fun cbc_decrypt_loop :: "nat \<Rightarrow> nat \<Rightarrow> aes \<Rightarrow> bytes \<Rightarrow> bytes \<Rightarrow> (aes \<times> bytes) option" where
  "cbc_decrypt_loop 0 i a output input = Some (a, output)"
| "cbc_decrypt_loop (Suc n) i a output input =
     Option.bind (block_at input i) (\<lambda>c.
     Option.bind (put_block output i (XorWithIv a (InvCipher (RoundKey_decrypt a) c))) (\<lambda>output.
     cbc_decrypt_loop n (Suc i) (a\<lparr>Iv := c\<rparr>) output input))"

text \<open>The key and the vector are set when their pointers are not null.\<close>

definition cbc_start_encrypt :: "aes \<Rightarrow> bytes option \<Rightarrow> bytes option \<Rightarrow> aes" where
  "cbc_start_encrypt a key iv =
     (let a = (case key of None \<Rightarrow> a | Some k \<Rightarrow> a\<lparr>RoundKey_encrypt := KeyExpansion_encrypt k\<rparr>)
      in case iv of None \<Rightarrow> a | Some v \<Rightarrow> a\<lparr>Iv := take 16 v\<rparr>)"

definition cbc_start_decrypt :: "aes \<Rightarrow> bytes option \<Rightarrow> bytes option \<Rightarrow> aes" where
  "cbc_start_decrypt a key iv =
     (let a = (case key of None \<Rightarrow> a | Some k \<Rightarrow> a\<lparr>RoundKey_decrypt := KeyExpansion_decrypt k\<rparr>)
      in case iv of None \<Rightarrow> a | Some v \<Rightarrow> a\<lparr>Iv := take 16 v\<rparr>)"

text \<open>
  \<open>key\<close> and \<open>iv\<close> are \<open>None\<close> for a null pointer.  The block copied before the loop and the extra
  block for a length that is not a multiple of 16 are as the code has them.
\<close>

definition AES128_CBC_encrypt_buffer ::
    "aes \<Rightarrow> bytes \<Rightarrow> bytes \<Rightarrow> nat \<Rightarrow> bytes option \<Rightarrow> bytes option \<Rightarrow> (aes \<times> bytes \<times> bytes) option" where
  "AES128_CBC_encrypt_buffer a output input len key iv =
     Option.bind (block_at input 0) (\<lambda>b.
     Option.bind (put_block output 0 b) (\<lambda>output.
     let remainders = len mod 16;
         a = cbc_start_encrypt a key iv;
         n = (len + 15) div 16
     in Option.bind (cbc_encrypt_loop n 0 a output input) (\<lambda>(a, output, input).
        if remainders = 0 then Some (a, output, input)
        else Option.bind (block_at input n) (\<lambda>b.
             Option.bind (put_block output n
                 (Cipher (RoundKey_encrypt a) (take remainders b @ replicate (16 - remainders) 0))) (\<lambda>output.
             Some (a, output, input))))))"

definition AES128_CBC_decrypt_buffer ::
    "aes \<Rightarrow> bytes \<Rightarrow> bytes \<Rightarrow> nat \<Rightarrow> bytes option \<Rightarrow> bytes option \<Rightarrow> (aes \<times> bytes) option" where
  "AES128_CBC_decrypt_buffer a output input len key iv =
     Option.bind (block_at input 0) (\<lambda>b.
     Option.bind (put_block output 0 b) (\<lambda>output.
     let remainders = len mod 16;
         a = cbc_start_decrypt a key iv;
         n = (len + 15) div 16
     in Option.bind (cbc_decrypt_loop n 0 a output input) (\<lambda>(a, output).
        if remainders = 0 then Some (a, output)
        else Option.bind (block_at input n) (\<lambda>b.
             Option.bind (put_block output n
                 (InvCipher (RoundKey_decrypt a) (take remainders b @ replicate (16 - remainders) 0))) (\<lambda>output.
             Some (a, output))))))"

section \<open>Buffers\<close>

lemma block_at_append [simp]: "length p = 16 * i \<Longrightarrow> length b = 16 \<Longrightarrow> block_at (p @ b @ q) i = Some b"
  by (simp add: block_at_def)

lemma put_block_append [simp]:
  "length p = 16 * i \<Longrightarrow> length c = 16 \<Longrightarrow> length b = 16 \<Longrightarrow> put_block (p @ c @ q) i b = Some (p @ b @ q)"
  by (simp add: put_block_def blit_def)

lemma length_concat_blocks: "list_all (\<lambda>b. length b = 16) blocks \<Longrightarrow> length (concat blocks) = 16 * length blocks"
  by (induction blocks) simp_all

lemma split_block: "16 \<le> length m \<Longrightarrow> \<exists>c r. m = c @ r \<and> length c = 16"
  by (rule exI [of _ "take 16 m"], rule exI [of _ "drop 16 m"]) simp

lemma list_to_blocks:
  assumes "length m = 16 * n"
  obtains blocks where "m = concat blocks" "list_all (\<lambda>b. length b = 16) blocks" "length blocks = n"
proof -
  have "\<exists>blocks. m = concat blocks \<and> list_all (\<lambda>b. length b = 16) blocks \<and> length blocks = n"
    using assms
  proof (induction n arbitrary: m)
    case 0
    then show ?case by simp
  next
    case (Suc n)
    then obtain c r where "m = c @ r" "length c = 16" "length r = 16 * n"
      using split_block [of m] by fastforce
    then obtain bs where "r = concat bs" "list_all (\<lambda>b. length b = 16) bs" "length bs = n"
      using Suc.IH [of r] by blast
    then have "m = concat (c # bs) \<and> list_all (\<lambda>b. length b = 16) (c # bs) \<and> length (c # bs) = Suc n"
      using \<open>m = c @ r\<close> \<open>length c = 16\<close> by simp
    then show ?case by blast
  qed
  then show ?thesis using that by blast
qed

text \<open>The ECB loop maps the blocks.\<close>

lemma ecb_loop_blocks:
  assumes step: "\<And>a b. length b = 16 \<Longrightarrow> snd (f a b) = g b \<and> length (g b) = 16"
    and "list_all (\<lambda>b. length b = 16) blocks"
    and "length p = 16 * index" "length po = 16 * index" "length m = 16 * length blocks"
  shows "\<exists>a'. ecb_loop f (length blocks) index a (p @ concat blocks @ q) (po @ m @ qo)
    = Some (a', po @ concat (map g blocks) @ qo)"
  using assms(2-)
proof (induction blocks arbitrary: index a p po m)
  case Nil
  then show ?case by simp
next
  case (Cons b blocks)
  obtain c r where m: "m = c @ r" "length c = 16" using split_block [of m] Cons.prems by auto
  have g: "snd (f a b) = g b" "length (g b) = 16" using step [of b a] Cons.prems by auto
  have "\<exists>a'. ecb_loop f (length blocks) (Suc index) (fst (f a b)) ((p @ b) @ concat blocks @ q) ((po @ g b) @ r @ qo)
      = Some (a', (po @ g b) @ concat (map g blocks) @ qo)"
    using Cons.prems m g by (intro Cons.IH) auto
  then show ?case using Cons.prems m g by simp
qed

lemma AES128_ECB_steps:
  assumes "16 \<le> length key" and "length b = 16"
  shows "snd (AES128_ECB_encrypt a key b) = Cipher (KeyExpansion_encrypt key) b"
    and "snd (AES128_ECB_decrypt a key b) = InvCipher (KeyExpansion_encrypt key) b"
    and "length (Cipher (KeyExpansion_encrypt key) b) = 16"
    and "length (InvCipher (KeyExpansion_encrypt key) b) = 16"
  using assms
  by (simp_all add: AES128_ECB_encrypt_def AES128_ECB_decrypt_def KeyExpansion_decrypt_encrypt
      length_Cipher length_InvCipher length_KeyExpansion)

definition pkcs7 :: "bytes \<Rightarrow> bytes" where
  "pkcs7 msg = msg @ replicate (16 - length msg mod 16) (of_nat (16 - length msg mod 16))"

lemma length_pkcs7: "length (pkcs7 msg) = 16 * (length msg div 16 + 1)"
proof -
  have "n + (16 - n mod 16) = 16 * (n div 16 + 1)" for n :: nat by presburger
  then show ?thesis by (simp add: pkcs7_def)
qed

lemma Add_Pkcs_pkcs7:
  assumes "16 - length msg mod 16 \<le> length spare"
  shows "Add_Pkcs (msg @ spare) (length msg)
    = Some (pkcs7 msg @ drop (16 - length msg mod 16) spare, length (pkcs7 msg))"
  using assms by (simp add: Add_Pkcs_def Let_def pkcs7_def blit_def)

lemma ecb_encrypt_blocks:
  assumes "16 - length msg mod 16 \<le> length spare" and "16 \<le> length key"
    and "length (pkcs7 msg) \<le> length output"
    and "pkcs7 msg = concat blocks" and "list_all (\<lambda>b. length b = 16) blocks"
    and "length blocks = length msg div 16 + 1"
  shows "\<exists>a' input. aes128_ecb_encrypt a (msg @ spare) (length msg) key output
    = Some (a', input, concat (map (Cipher (KeyExpansion_encrypt key)) blocks) @ drop (length (pkcs7 msg)) output,
        length (pkcs7 msg))"
proof -
  let ?n = "length (pkcs7 msg)" and ?q = "drop (16 - length msg mod 16) spare"
  have "\<exists>a'. ecb_loop (\<lambda>a. AES128_ECB_encrypt a key) (length blocks) 0 a ([] @ concat blocks @ ?q)
        ([] @ take ?n output @ drop ?n output)
      = Some (a', [] @ concat (map (Cipher (KeyExpansion_encrypt key)) blocks) @ drop ?n output)"
    by (rule ecb_loop_blocks)
      (use assms length_concat_blocks [of blocks] in \<open>simp_all add: AES128_ECB_steps\<close>)
  then obtain a' where "ecb_loop (\<lambda>a. AES128_ECB_encrypt a key) (length msg div 16 + 1) 0 a
        (pkcs7 msg @ ?q) output
      = Some (a', concat (map (Cipher (KeyExpansion_encrypt key)) blocks) @ drop ?n output)"
    using assms by auto
  then show ?thesis
    by (simp add: aes128_ecb_encrypt_def Add_Pkcs_pkcs7 [OF assms(1)] del: ecb_loop.simps)
qed

lemma ecb_decrypt_blocks:
  assumes "16 \<le> length key" and "list_all (\<lambda>b. length b = 16) blocks" and "blocks \<noteq> []"
    and "16 * length blocks \<le> length output"
  shows "\<exists>a'. aes128_ecb_decrypt a (concat blocks @ after) (16 * length blocks) key output
    = (let plain = concat (map (InvCipher (KeyExpansion_encrypt key)) blocks)
       in Some (a', plain @ drop (16 * length blocks) output, last plain))"
proof -
  let ?n = "16 * length blocks" and ?g = "InvCipher (KeyExpansion_encrypt key)"
  have "\<exists>a'. ecb_loop (\<lambda>a. AES128_ECB_decrypt a key) (length blocks) 0 a ([] @ concat blocks @ after)
        ([] @ take ?n output @ drop ?n output)
      = Some (a', [] @ concat (map ?g blocks) @ drop ?n output)"
    by (rule ecb_loop_blocks) (use assms in \<open>simp_all add: AES128_ECB_steps\<close>)
  moreover have len: "length (concat (map ?g blocks)) = ?n"
    using assms length_concat_blocks [of "map ?g blocks"]
    by (simp add: list_all_iff AES128_ECB_steps)
  moreover have "0 < ?n" using assms(3) by simp
  then have "fetch (concat (map ?g blocks) @ drop ?n output) (?n - 1) = Some (last (concat (map ?g blocks)))"
    using len by (rule fetch_last [rotated])
  ultimately show ?thesis
    using assms(3) by (auto simp: aes128_ecb_decrypt_def Let_def simp del: ecb_loop.simps)
qed

section \<open>Properties\<close>

text \<open>What is written decrypts to the padded message, in whatever state the module is and whatever stands behind it.\<close>

lemma ecb_encrypt_decrypt:
  assumes "16 - length msg mod 16 \<le> length spare" and "16 \<le> length key" and "length msg + 16 \<le> length output"
  obtains a1 input1 c where "length c = length (pkcs7 msg)"
    and "aes128_ecb_encrypt a (msg @ spare) (length msg) key output = Some (a1, input1, c @ drop (length c) output, length c)"
    and "\<And>b rest output2. length msg + 16 \<le> length output2 \<Longrightarrow> \<exists>a2. aes128_ecb_decrypt b (c @ rest) (length c) key output2
      = Some (a2, pkcs7 msg @ drop (length c) output2, of_nat (16 - length msg mod 16))"
proof -
  let ?E = "Cipher (KeyExpansion_encrypt key)" and ?D = "InvCipher (KeyExpansion_encrypt key)"
  obtain blocks where blocks: "pkcs7 msg = concat blocks" "list_all (\<lambda>b. length b = 16) blocks"
      "length blocks = length msg div 16 + 1"
    using list_to_blocks [OF length_pkcs7] by blast
  have n: "length (pkcs7 msg) = 16 * length blocks" by (simp add: blocks(3) length_pkcs7)
  have le: "length (pkcs7 msg) \<le> length msg + 16" by (simp add: pkcs7_def)
  have E: "list_all (\<lambda>b. length b = 16) (map ?E blocks)"
    using blocks(2) assms(2) by (simp add: list_all_iff AES128_ECB_steps)
  have "map ?D (map ?E blocks) = blocks"
    using aes_rounds.ecb_roundtrip [of "KeyExpansion_encrypt key"] blocks(2) assms(2) length_KeyExpansion
    by simp
  then have D: "concat (map ?D (map ?E blocks)) = pkcs7 msg" by (simp only: blocks(1))
  have last: "last (pkcs7 msg) = of_nat (16 - length msg mod 16)" by (simp add: pkcs7_def)
  obtain a1 input1 where enc: "aes128_ecb_encrypt a (msg @ spare) (length msg) key output
      = Some (a1, input1, concat (map ?E blocks) @ drop (length (pkcs7 msg)) output, length (pkcs7 msg))"
    using ecb_encrypt_blocks [OF assms(1,2) _ blocks] le assms(3) by fastforce
  have dec: "\<exists>a2. aes128_ecb_decrypt b (concat (map ?E blocks) @ rest) (16 * length (map ?E blocks)) key output2
      = Some (a2, pkcs7 msg @ drop (16 * length (map ?E blocks)) output2, of_nat (16 - length msg mod 16))"
    if "length msg + 16 \<le> length output2" for b rest output2
    using ecb_decrypt_blocks [OF assms(2) E, of output2 b rest] blocks(3) le n that D last
    by (fastforce simp: Let_def)
  have len: "length (concat (map ?E blocks)) = length (pkcs7 msg)"
    using length_concat_blocks [OF E] n by simp
  show thesis
  proof (rule that [OF len])
    show "aes128_ecb_encrypt a (msg @ spare) (length msg) key output
        = Some (a1, input1, concat (map ?E blocks) @ drop (length (concat (map ?E blocks))) output, length (concat (map ?E blocks)))"
      using enc len by simp
    show "\<exists>a2. aes128_ecb_decrypt b (concat (map ?E blocks) @ rest) (length (concat (map ?E blocks))) key output2
        = Some (a2, pkcs7 msg @ drop (length (concat (map ?E blocks))) output2, of_nat (16 - length msg mod 16))"
      if "length msg + 16 \<le> length output2" for b rest output2
      using dec [OF that] len n by simp
  qed
qed


lemma AES128_ECB_encrypt_length:
  "16 \<le> length key \<Longrightarrow> length b = 16 \<Longrightarrow> length (snd (AES128_ECB_encrypt a key b)) = 16"
  by (simp add: AES128_ECB_steps)


text \<open>The CBC loops compute the chaining of the reference on the blocks of the buffer.\<close>

lemma cbc_encrypt_loop_blocks:
  assumes "length (RoundKey_encrypt a) = 176"
  shows "list_all (\<lambda>b. length b = 16) blocks \<Longrightarrow> length p = 16 * i \<Longrightarrow> length po = 16 * i \<Longrightarrow>
    length m = 16 * length blocks \<Longrightarrow> length (Iv a) = 16 \<Longrightarrow>
    \<exists>input. cbc_encrypt_loop (length blocks) i a (po @ m @ qo) (p @ concat blocks @ q)
      = Some (a\<lparr>Iv := last (Iv a # cbc_enc Cipher (RoundKey_encrypt a) (Iv a) blocks)\<rparr>,
          po @ concat (cbc_enc Cipher (RoundKey_encrypt a) (Iv a) blocks) @ qo, input)"
  using assms
proof (induction blocks arbitrary: i a p po m)
  case Nil
  then show ?case by simp
next
  case (Cons b blocks)
  obtain c r where m: "m = c @ r" "length c = 16" using split_block [of m] Cons.prems by auto
  define x where "x = XorWithIv a b"
  define y where "y = Cipher (RoundKey_encrypt a) x"
  have x: "length x = 16" "length y = 16"
    using Cons.prems length_Cipher by (simp_all add: x_def y_def XorWithIv_def)
  have "\<exists>input. cbc_encrypt_loop (length blocks) (Suc i) (a\<lparr>Iv := y\<rparr>) ((po @ y) @ r @ qo)
        ((p @ x) @ concat blocks @ q)
      = Some ((a\<lparr>Iv := y\<rparr>)\<lparr>Iv := last (Iv (a\<lparr>Iv := y\<rparr>) # cbc_enc Cipher (RoundKey_encrypt (a\<lparr>Iv := y\<rparr>)) (Iv (a\<lparr>Iv := y\<rparr>)) blocks)\<rparr>,
          (po @ y) @ concat (cbc_enc Cipher (RoundKey_encrypt (a\<lparr>Iv := y\<rparr>)) (Iv (a\<lparr>Iv := y\<rparr>)) blocks) @ qo, input)"
    using Cons.prems m x by (intro Cons.IH) auto
  moreover have "cbc_enc Cipher (RoundKey_encrypt a) (Iv a) (b # blocks)
      = y # cbc_enc Cipher (RoundKey_encrypt a) y blocks"
    by (simp add: Let_def x_def y_def XorWithIv_def)
  ultimately show ?case
    using Cons.prems m x
    by (simp add: x_def [symmetric] y_def [symmetric] Let_def del: cbc_enc.simps last.simps)
      (simp add: last_ConsR)
qed

lemma length_cbc_enc [simp]: "length (cbc_enc enc k iv blocks) = length blocks"
  by (induction blocks arbitrary: iv) (simp_all add: Let_def)

lemma cbc_decrypt_loop_blocks:
  assumes "length (RoundKey_decrypt a) = 176"
  shows "list_all (\<lambda>b. length b = 16) blocks \<Longrightarrow> length p = 16 * i \<Longrightarrow> length po = 16 * i \<Longrightarrow>
    length m = 16 * length blocks \<Longrightarrow> length (Iv a) = 16 \<Longrightarrow>
    cbc_decrypt_loop (length blocks) i a (po @ m @ qo) (p @ concat blocks @ q)
      = Some (a\<lparr>Iv := last (Iv a # blocks)\<rparr>,
          po @ concat (cbc_dec InvCipher (RoundKey_decrypt a) (Iv a) blocks) @ qo)"
  using assms
proof (induction blocks arbitrary: i a p po m)
  case Nil
  then show ?case by simp
next
  case (Cons b blocks)
  obtain c r where m: "m = c @ r" "length c = 16" using split_block [of m] Cons.prems by auto
  define y where "y = XorWithIv a (InvCipher (RoundKey_decrypt a) b)"
  have y: "length y = 16"
    using Cons.prems length_InvCipher by (simp add: y_def XorWithIv_def)
  have "cbc_decrypt_loop (length blocks) (Suc i) (a\<lparr>Iv := b\<rparr>) ((po @ y) @ r @ qo)
        ((p @ b) @ concat blocks @ q)
      = Some ((a\<lparr>Iv := b\<rparr>)\<lparr>Iv := last (Iv (a\<lparr>Iv := b\<rparr>) # blocks)\<rparr>,
          (po @ y) @ concat (cbc_dec InvCipher (RoundKey_decrypt (a\<lparr>Iv := b\<rparr>)) (Iv (a\<lparr>Iv := b\<rparr>)) blocks) @ qo)"
    using Cons.prems m y by (intro Cons.IH) auto
  moreover have "cbc_dec InvCipher (RoundKey_decrypt a) (Iv a) (b # blocks)
      = y # cbc_dec InvCipher (RoundKey_decrypt a) b blocks"
    by (simp add: y_def XorWithIv_def)
  ultimately show ?case
    using Cons.prems m y
    by (simp add: y_def [symmetric] Let_def del: cbc_dec.simps last.simps) (simp add: last_ConsR)
qed

text \<open>A whole call, on a positive number of whole blocks.\<close>

lemma cbc_block_0:
  assumes "0 < n" and "16 * n \<le> length (mem :: bytes)" and "length b = 16"
  shows "\<exists>m. put_block mem 0 b = Some (m @ drop (16 * n) mem) \<and> length m = 16 * n"
proof (intro exI conjI)
  show "put_block mem 0 b = Some ((b @ drop 16 (take (16 * n) mem)) @ drop (16 * n) mem)"
    using assms drop_append [of 16 "take (16 * n) mem" "drop (16 * n) mem"]
    by (simp add: put_block_def blit_def)
  show "length (b @ drop 16 (take (16 * n) mem)) = 16 * n" using assms by simp
qed

lemma cbc_encrypt_call:
  assumes "blocks \<noteq> []" and "list_all (\<lambda>b. length b = 16) blocks"
    and "16 * length blocks \<le> length output"
    and start: "a0 = cbc_start_encrypt a key iv" "length (RoundKey_encrypt a0) = 176" "length (Iv a0) = 16"
  shows "\<exists>input. AES128_CBC_encrypt_buffer a output (concat blocks @ q) (16 * length blocks) key iv
    = Some (a0\<lparr>Iv := last (Iv a0 # cbc_enc Cipher (RoundKey_encrypt a0) (Iv a0) blocks)\<rparr>,
        concat (cbc_enc Cipher (RoundKey_encrypt a0) (Iv a0) blocks) @ drop (16 * length blocks) output, input)"
proof -
  obtain b bs where b: "blocks = b # bs" "length b = 16" using assms(1,2) by (cases blocks) auto
  obtain m where m: "put_block output 0 b = Some (m @ drop (16 * length blocks) output)"
      "length m = 16 * length blocks"
    using cbc_block_0 [of "length blocks" "output" b] assms(1,3) b(2) by auto
  obtain input where "cbc_encrypt_loop (length blocks) 0 a0 ([] @ m @ drop (16 * length blocks) output)
        ([] @ concat blocks @ q)
      = Some (a0\<lparr>Iv := last (Iv a0 # cbc_enc Cipher (RoundKey_encrypt a0) (Iv a0) blocks)\<rparr>,
          [] @ concat (cbc_enc Cipher (RoundKey_encrypt a0) (Iv a0) blocks) @ drop (16 * length blocks) output, input)"
    using cbc_encrypt_loop_blocks [OF start(2) assms(2), of "[]" 0 "[]" m] m(2) start(3) by fastforce
  moreover have "block_at (concat blocks @ q) 0 = Some b" using b by (simp add: block_at_def)
  moreover have "(16 * length blocks + 15) div 16 = length blocks" by simp
  ultimately show ?thesis
    using m(1) start(1)
    by (simp add: AES128_CBC_encrypt_buffer_def Let_def)
qed

lemma cbc_decrypt_call:
  assumes "blocks \<noteq> []" and "list_all (\<lambda>b. length b = 16) blocks"
    and "16 * length blocks \<le> length output"
    and start: "a0 = cbc_start_decrypt a key iv" "length (RoundKey_decrypt a0) = 176" "length (Iv a0) = 16"
  shows "AES128_CBC_decrypt_buffer a output (concat blocks @ q) (16 * length blocks) key iv
    = Some (a0\<lparr>Iv := last (Iv a0 # blocks)\<rparr>,
        concat (cbc_dec InvCipher (RoundKey_decrypt a0) (Iv a0) blocks) @ drop (16 * length blocks) output)"
proof -
  obtain b bs where b: "blocks = b # bs" "length b = 16" using assms(1,2) by (cases blocks) auto
  obtain m where m: "put_block output 0 b = Some (m @ drop (16 * length blocks) output)"
      "length m = 16 * length blocks"
    using cbc_block_0 [of "length blocks" "output" b] assms(1,3) b(2) by auto
  have "cbc_decrypt_loop (length blocks) 0 a0 (m @ drop (16 * length blocks) output) (concat blocks @ q)
      = Some (a0\<lparr>Iv := last (Iv a0 # blocks)\<rparr>,
          concat (cbc_dec InvCipher (RoundKey_decrypt a0) (Iv a0) blocks) @ drop (16 * length blocks) output)"
    using cbc_decrypt_loop_blocks [OF start(2) assms(2), of "[]" 0 "[]" m] m(2) start(3) by simp
  moreover have "block_at (concat blocks @ q) 0 = Some b" using b by (simp add: block_at_def)
  moreover have "(16 * length blocks + 15) div 16 = length blocks" by simp
  ultimately show ?thesis
    using m(1) start(1)
    by (simp add: AES128_CBC_decrypt_buffer_def Let_def)
qed

text \<open>C33. CBC is a round trip on a positive number of whole blocks: decrypting, under the same key and
  vector, what encrypting wrote gives the message back, and nothing beyond it is written.\<close>

theorem AES128_CBC_roundtrip:
  assumes "length msg = 16 * n" and "0 < n" and "16 * n \<le> length output" and "16 * n \<le> length output2"
    and "16 \<le> length k" and "16 \<le> length v"
  shows "\<exists>a1 output1 input1 a2.
      AES128_CBC_encrypt_buffer a output (msg @ q) (16 * n) (Some k) (Some v) = Some (a1, output1, input1)
    \<and> AES128_CBC_decrypt_buffer a1 output2 output1 (16 * n) (Some k) (Some v)
        = Some (a2, msg @ drop (16 * n) output2)
    \<and> drop (16 * n) output1 = drop (16 * n) output"
proof -
  obtain blocks where blocks: "msg = concat blocks" "list_all (\<lambda>b. length b = 16) blocks" "length blocks = n"
    using list_to_blocks [OF assms(1)] by blast
  let ?rk = "KeyExpansion_encrypt k" and ?iv = "take 16 v"
  let ?cs = "cbc_enc Cipher ?rk ?iv blocks"
  have rk: "length ?rk = 176" "length ?iv = 16" using assms(5,6) by (simp_all add: length_KeyExpansion)
  have cs: "list_all (\<lambda>b. length b = 16) ?cs"
    using aes_rounds.cbc_lengths rk blocks(2) by simp
  have n: "length ?cs = n" by (simp add: blocks(3))
  define a0 where "a0 = cbc_start_encrypt a (Some k) (Some v)"
  have a0: "RoundKey_encrypt a0 = ?rk" "Iv a0 = ?iv"
    by (simp_all add: a0_def cbc_start_encrypt_def)
  have "blocks \<noteq> []" "?cs \<noteq> []" using assms(2) blocks(3) by (cases blocks; auto simp: Let_def)+
  then obtain a1 input1 where enc: "AES128_CBC_encrypt_buffer a output (msg @ q) (16 * n) (Some k) (Some v)
      = Some (a1, concat ?cs @ drop (16 * n) output, input1)"
    using cbc_encrypt_call [of blocks "output" a0 a "Some k" "Some v" q] blocks assms(3) rk a0 a0_def
    by auto
  define a2 where "a2 = cbc_start_decrypt a1 (Some k) (Some v)"
  have a2: "RoundKey_decrypt a2 = ?rk" "Iv a2 = ?iv"
    by (simp_all add: a2_def cbc_start_decrypt_def KeyExpansion_decrypt_encrypt)
  have "cbc_dec InvCipher ?rk ?iv ?cs = blocks"
    using aes_rounds.cbc_roundtrip rk blocks(2) by simp
  then have dec: "AES128_CBC_decrypt_buffer a1 output2 (concat ?cs @ drop (16 * n) output) (16 * n) (Some k) (Some v)
      = Some (a2\<lparr>Iv := last (Iv a2 # ?cs)\<rparr>, msg @ drop (16 * n) output2)"
    using cbc_decrypt_call [of ?cs output2 a2 a1 "Some k" "Some v" "drop (16 * n) output"]
      \<open>?cs \<noteq> []\<close> cs n blocks(1) assms(4) rk a2 a2_def by simp
  have "length (concat ?cs) = 16 * n" using length_concat_blocks [OF cs] n by simp
  then show ?thesis using enc dec by auto
qed

theorem AES128_CBC_roundtrip_witness:
  "\<exists>a1 output1 input1 a2.
      AES128_CBC_encrypt_buffer \<lparr>RoundKey_encrypt = [], RoundKey_decrypt = [], Iv = []\<rparr> (replicate 16 0)
        (replicate 16 1 @ []) (16 * 1) (Some (replicate 16 2)) (Some (replicate 16 3)) = Some (a1, output1, input1)
    \<and> AES128_CBC_decrypt_buffer a1 (replicate 16 0) output1 (16 * 1) (Some (replicate 16 2)) (Some (replicate 16 3))
        = Some (a2, replicate 16 1)"
  using AES128_CBC_roundtrip [of "replicate 16 1" 1 "replicate 16 0" "replicate 16 0" "replicate 16 2"
      "replicate 16 3" "\<lparr>RoundKey_encrypt = [], RoundKey_decrypt = [], Iv = []\<rparr>" "[]"] by auto

lemma put_block_length: "put_block mem i b = Some mem' \<Longrightarrow> length b = 16 \<Longrightarrow> length mem' = length mem"
  by (auto simp: put_block_def split: if_splits)

lemma block_at_length: "block_at mem i = Some b \<Longrightarrow> length b = 16 \<and> 16 * i + 16 \<le> length mem"
  by (auto simp: block_at_def split: if_splits)

text \<open>Whatever the state, a call with a length of whole blocks and one byte touches two blocks more.\<close>

lemma cbc_encrypt_loop_length:
  "cbc_encrypt_loop n i a output input = Some (a', output', input') \<Longrightarrow> length (Iv a) = 16 \<Longrightarrow>
    length (RoundKey_encrypt a) = 176 \<Longrightarrow> length output' = length output"
proof (induction n i a "output" input rule: cbc_encrypt_loop.induct)
  case (2 n i a "output" input)
  from 2(2) obtain b input1 output1
    where step: "block_at input i = Some b"
      "put_block input i (XorWithIv a b) = Some input1"
      "put_block output i (Cipher (RoundKey_encrypt a) (XorWithIv a b)) = Some output1"
      "cbc_encrypt_loop n (Suc i) (a\<lparr>Iv := Cipher (RoundKey_encrypt a) (XorWithIv a b)\<rparr>) output1 input1
        = Some (a', output', input')"
    by (auto simp: Let_def bind_eq_Some_conv)
  have len: "length (Cipher (RoundKey_encrypt a) (XorWithIv a b)) = 16"
    using block_at_length [OF step(1)] 2(3,4) length_Cipher by (simp add: XorWithIv_def)
  then have "length output' = length output1"
    using 2(1) [OF step(1) refl refl step(2,3)] step(4) 2(4) by simp
  then show ?case using put_block_length [OF step(3) len] by simp
qed simp

text \<open>A length that is not a multiple of 16 makes \<open>AES128_CBC_encrypt_buffer\<close> write one block
  more than the message begins: an output buffer of just the begun blocks is overrun.\<close>

lemma AES128_CBC_encrypt_overrun:
  assumes "len mod 16 \<noteq> 0" and "length output = 16 * ((len + 15) div 16)"
    and "16 \<le> length k" and "16 \<le> length v"
  shows "AES128_CBC_encrypt_buffer a output input len (Some k) (Some v) = None"
proof (rule ccontr)
  assume "AES128_CBC_encrypt_buffer a output input len (Some k) (Some v) \<noteq> None"
  then obtain b output1 a2 output2 input2 b2 output3
    where step: "block_at input 0 = Some b" "put_block output 0 b = Some output1"
      "cbc_encrypt_loop ((len + 15) div 16) 0 (cbc_start_encrypt a (Some k) (Some v)) output1 input
        = Some (a2, output2, input2)"
      "put_block output2 ((len + 15) div 16) b2 = Some output3"
    using assms(1) by (auto simp: AES128_CBC_encrypt_buffer_def Let_def bind_eq_Some_conv)
  have "length output2 = length output1"
    using assms(3,4) by (intro cbc_encrypt_loop_length [OF step(3)])
      (simp_all add: cbc_start_encrypt_def length_KeyExpansion)
  moreover have "length output1 = length output"
    using put_block_length [OF step(2)] block_at_length [OF step(1)] by simp
  ultimately show False using step(4) assms(2) by (simp add: put_block_def)
qed

theorem AES128_CBC_encrypt_overrun_witness:
  "AES128_CBC_encrypt_buffer \<lparr>RoundKey_encrypt = [], RoundKey_decrypt = [], Iv = []\<rparr> (replicate 32 0)
     (replicate 64 0) 17 (Some (replicate 16 2)) (Some (replicate 16 3)) = None"
  using AES128_CBC_encrypt_overrun [of 17 "replicate 32 0" "replicate 16 2" "replicate 16 3"] by simp

lemma ecb_loop_bound:
  assumes f: "\<And>a b. length b = 16 \<Longrightarrow> length (snd (f a b)) = 16"
  shows "ecb_loop f n index a input output = Some r \<Longrightarrow> n = 0 \<or> 16 * (index + n) \<le> length output"
proof (induction n arbitrary: index a "output")
  case (Suc n)
  then obtain b output1 where step: "block_at input index = Some b"
      "put_block output index (snd (f a b)) = Some output1"
      "ecb_loop f n (Suc index) (fst (f a b)) input output1 = Some r"
    by (auto simp: bind_eq_Some_conv)
  have "length output1 = length output"
    using put_block_length [OF step(2)] f [of b a] block_at_length [OF step(1)] by simp
  then show ?case using Suc.IH [OF step(3)] step(2) by (auto simp: put_block_def split: if_splits)
qed simp

text \<open>The comment of \<open>aes128_ecb_encrypt_hex\<close> allows strings of up to 256 bytes, but its local
  buffer of 256 bytes has no room for the padding of any string of 256 bytes or more (short of the
  65536 at which the 16-bit length wraps): every such call overruns it.\<close>

lemma aes128_ecb_encrypt_hex_overrun:
  assumes "c_strlen input = Some len" and "256 \<le> len" and "len < 2 ^ 16" and "16 \<le> length key"
  shows "aes128_ecb_encrypt_hex a input key flag output = None"
proof (rule ccontr)
  assume "aes128_ecb_encrypt_hex a input key flag output \<noteq> None"
  then obtain input' r where "ecb_loop (\<lambda>a. AES128_ECB_encrypt a key) (len div 16 + 1) 0 a input' (replicate 256 0)
      = Some r"
    using assms(1,3) by (auto simp: aes128_ecb_encrypt_hex_def aes128_ecb_encrypt_def bind_eq_Some_conv
        simp del: ecb_loop.simps)
  from ecb_loop_bound [OF AES128_ECB_encrypt_length [OF assms(4)] this]
  show False using div_le_mono [OF assms(2), of 16] by simp
qed

lemma c_strlen_replicate: "c \<noteq> 0 \<Longrightarrow> c_strlen (replicate n c @ [0]) = Some n"
  by (induction n) simp_all

theorem aes128_ecb_encrypt_hex_overrun_witness:
  "aes128_ecb_encrypt_hex \<lparr>RoundKey_encrypt = [], RoundKey_decrypt = [], Iv = []\<rparr>
     (replicate 256 0x41 @ [0]) (replicate 16 2) 0 (replicate 600 0) = None"
  using aes128_ecb_encrypt_hex_overrun [of "replicate 256 0x41 @ [0]" 256] c_strlen_replicate [of "0x41" 256]
  by simp

end
