(* ===== verification/SimUart.thy ===== *)
theory SimUart
  imports Prelude
begin

text \<open>
  The UART simulated on two GPIO pins, \<^verbatim>\<open>src/ql_application/App_XD/system/xd_simulate_485_uart.c\<close>, and
  the task of \<^verbatim>\<open>slave_serial/app_task_slave_uart.c\<close> that uses it.  The control structure, the
  receive buffer and the level of the transmit pin are one record.  A call of a timer callback is one
  step; the level that the driver reads from the receive pin is an argument of the receive callback
  (\<open>None\<close> when the driver fails).  Counters are natural numbers: the invariant proved here keeps them
  far below the widths of their C types, so that they cannot wrap.
\<close>

section \<open>Model\<close>

abbreviation (input) SIM_UART_BUFFER_SIZE :: nat where "SIM_UART_BUFFER_SIZE \<equiv> 200"
abbreviation (input) START_BIT :: nat where "START_BIT \<equiv> 1"
abbreviation (input) DATA_BITS :: nat where "DATA_BITS \<equiv> 8"
abbreviation (input) STOP_BIT :: nat where "STOP_BIT \<equiv> 1"

record sim_uart =
  tx_buf :: bytes
  tx_index :: nat
  tx_bit_pos :: nat
  tx_length :: nat
  tx_busy :: bool
  tx_enable :: bool
  rx_enable :: bool
  rx_bit_count :: nat
  rx_byte :: u8
  rx_start :: bool
  rx_buffer :: bytes
  rx_buffer_index :: nat
  tx_pin :: bool

datatype sim_uart_status = SIM_UART_OK | SIM_UART_BUSY | SIM_UART_INVALID_PARAM

text \<open>The static initialisers, and \<open>sim_uart_init\<close>, which only sets the pins up and starts the timers.\<close>

definition sim_ctrl :: sim_uart where
  "sim_ctrl = \<lparr>tx_buf = replicate SIM_UART_BUFFER_SIZE 0, tx_index = 0, tx_bit_pos = 0, tx_length = 0,
     tx_busy = False, tx_enable = False, rx_enable = True, rx_bit_count = 0, rx_byte = 0,
     rx_start = False, rx_buffer = replicate SIM_UART_BUFFER_SIZE 0, rx_buffer_index = 0, tx_pin = False\<rparr>"

definition sim_uart_init :: "sim_uart \<Rightarrow> sim_uart" where
  "sim_uart_init s = s\<lparr>tx_pin := True\<rparr>"

definition tx_timer_cb :: "sim_uart \<Rightarrow> sim_uart" where
  "tx_timer_cb s =
     (if \<not> tx_enable s then s
      else if tx_bit_pos s < START_BIT + DATA_BITS + STOP_BIT
      then let level = (if tx_bit_pos s < START_BIT then 0
                        else if tx_bit_pos s < START_BIT + DATA_BITS
                        then drop_bit (tx_bit_pos s - START_BIT) (tx_buf s ! tx_index s) AND 0x01
                        else 1)
           in s\<lparr>tx_pin := (level \<noteq> 0), tx_bit_pos := tx_bit_pos s + 1\<rparr>
      else let s = s\<lparr>tx_bit_pos := 0, tx_index := tx_index s + 1\<rparr>
           in if tx_length s \<le> tx_index s
              then s\<lparr>tx_busy := False, tx_enable := False, tx_pin := True\<rparr>
              else s)"

definition rx_timer_cb :: "u32 option \<Rightarrow> sim_uart \<Rightarrow> sim_uart" where
  "rx_timer_cb gpio s =
     (if \<not> rx_enable s then s
      else case gpio of None \<Rightarrow> s
      | Some level \<Rightarrow>
          let bit = ucast level :: u8
          in if \<not> rx_start s
             then (if bit = 0 then s\<lparr>rx_start := True, rx_bit_count := 0, rx_byte := 0\<rparr> else s)
             else if rx_bit_count s < DATA_BITS
             then s\<lparr>rx_byte := rx_byte s OR push_bit (rx_bit_count s) bit,
                    rx_bit_count := rx_bit_count s + 1\<rparr>
             else if rx_bit_count s = DATA_BITS
             then (if bit = 1
                   then (if rx_buffer_index s < SIM_UART_BUFFER_SIZE
                         then s\<lparr>rx_buffer := (rx_buffer s)[rx_buffer_index s := rx_byte s],
                                rx_buffer_index := rx_buffer_index s + 1, rx_start := False\<rparr>
                         else s\<lparr>rx_start := False\<rparr>)
                   else s\<lparr>rx_start := False\<rparr>)
             else s)"

text \<open>\<open>data\<close> is \<open>None\<close> for a null pointer, else the \<open>length\<close> bytes at it.\<close>

definition sim_uart_send :: "bytes option \<Rightarrow> sim_uart \<Rightarrow> sim_uart_status \<times> sim_uart" where
  "sim_uart_send data s =
     (if tx_busy s then (SIM_UART_BUSY, s)
      else case data of None \<Rightarrow> (SIM_UART_INVALID_PARAM, s)
      | Some d \<Rightarrow>
          if length d = 0 \<or> SIM_UART_BUFFER_SIZE < length d then (SIM_UART_INVALID_PARAM, s)
          else (SIM_UART_OK, s\<lparr>tx_buf := blit (tx_buf s) 0 d, tx_length := length d, tx_index := 0,
                  tx_bit_pos := 0, tx_busy := True, tx_enable := True\<rparr>))"

definition sim_uart_receive :: "nat \<Rightarrow> sim_uart \<Rightarrow> bytes \<times> sim_uart" where
  "sim_uart_receive max_length s =
     (if \<not> rx_enable s then ([], s)
      else let copied_length = (if rx_buffer_index s < max_length then rx_buffer_index s else max_length)
           in (take copied_length (rx_buffer s), s\<lparr>rx_buffer_index := 0\<rparr>))"

definition sim_uart_enable_rx :: "u8 \<Rightarrow> sim_uart \<Rightarrow> sim_uart" where
  "sim_uart_enable_rx enable s = s\<lparr>rx_enable := (enable \<noteq> 0)\<rparr>"

definition sim_uart_abort_tx :: "sim_uart \<Rightarrow> sim_uart" where
  "sim_uart_abort_tx s = s\<lparr>tx_enable := False, tx_busy := False, tx_pin := True\<rparr>"

text \<open>One iteration of \<open>uart_task\<close> at time \<open>now\<close>: the periodic message, then the echo.\<close>

record uart_task_vars =
  last_send :: u32
  init_flag :: bool

definition test_data :: bytes where
  "test_data = asc ''UART Test'' @ [10]"

definition uart_task_step :: "u32 \<Rightarrow> uart_task_vars \<times> sim_uart \<Rightarrow> uart_task_vars \<times> sim_uart" where
  "uart_task_step now = (\<lambda>(v, s).
     let (v, s) = (if init_flag v \<or> 5000 \<le> now - last_send v
                   then case sim_uart_send (Some test_data) s of
                          (SIM_UART_OK, s) \<Rightarrow> (v\<lparr>last_send := now, init_flag := False\<rparr>, s)
                        | (_, s) \<Rightarrow> (v, s)
                   else (v, s));
         (rx_buf, s) = sim_uart_receive SIM_UART_BUFFER_SIZE s
     in (v, if 0 < length rx_buf then snd (sim_uart_send (Some rx_buf) s) else s))"

section \<open>Reachable states\<close>

text \<open>The task's calls and the two timer interrupts, in any order.\<close>

inductive uart_step :: "sim_uart \<Rightarrow> sim_uart \<Rightarrow> bool" where
  step_init: "uart_step s (sim_uart_init s)"
| step_tx: "uart_step s (tx_timer_cb s)"
| step_rx: "uart_step s (rx_timer_cb gpio s)"
| step_send: "uart_step s (snd (sim_uart_send data s))"
| step_receive: "uart_step s (snd (sim_uart_receive max_length s))"
| step_enable: "uart_step s (sim_uart_enable_rx enable s)"
| step_abort: "uart_step s (sim_uart_abort_tx s)"

inductive_cases uart_stepE: "uart_step s s'"

inductive uart_reachable :: "sim_uart \<Rightarrow> bool" where
  reach_start: "uart_reachable sim_ctrl"
| reach_step: "uart_reachable s \<Longrightarrow> uart_step s s' \<Longrightarrow> uart_reachable s'"

definition uart_inv :: "sim_uart \<Rightarrow> bool" where
  "uart_inv s \<longleftrightarrow>
     length (tx_buf s) = SIM_UART_BUFFER_SIZE \<and> length (rx_buffer s) = SIM_UART_BUFFER_SIZE
     \<and> tx_busy s = tx_enable s \<and> tx_length s \<le> SIM_UART_BUFFER_SIZE \<and> tx_index s \<le> tx_length s
     \<and> (tx_enable s \<longrightarrow> tx_index s < tx_length s)
     \<and> tx_bit_pos s \<le> 10 \<and> rx_bit_count s \<le> DATA_BITS \<and> rx_buffer_index s \<le> SIM_UART_BUFFER_SIZE"

lemma uart_inv_step:
  assumes "uart_inv s" and "uart_step s s'"
  shows "uart_inv s'"
  using assms(2,1)
proof cases
  case step_tx
  then show ?thesis using assms(1) by (auto simp: uart_inv_def tx_timer_cb_def Let_def)
next
  case (step_rx gpio)
  then show ?thesis using assms(1) by (auto simp: uart_inv_def rx_timer_cb_def Let_def split: option.split)
next
  case (step_send data)
  then show ?thesis using assms(1) by (auto simp: uart_inv_def sim_uart_send_def split: option.split)
next
  case (step_receive max_length)
  then show ?thesis using assms(1) by (auto simp: uart_inv_def sim_uart_receive_def Let_def)
qed (auto simp: uart_inv_def sim_uart_init_def sim_uart_enable_rx_def sim_uart_abort_tx_def)

text \<open>Whatever the interleaving of the two interrupts with the task's calls, the transmitter reads
  only bytes of the message it was given and every index and bit counter stays in its range: no
  access leaves a buffer and no counter wraps.\<close>

lemma uart_reachable_inv: "uart_reachable s \<Longrightarrow> uart_inv s"
proof (induction rule: uart_reachable.induct)
  case reach_start
  show ?case by (simp add: uart_inv_def sim_ctrl_def)
next
  case (reach_step s s')
  then show ?case by (blast intro: uart_inv_step)
qed

theorem uart_reachable_inv_witness: "uart_inv (tx_timer_cb (sim_uart_init sim_ctrl))"
  by (rule uart_reachable_inv [OF reach_step [OF reach_step [OF reach_start step_init] step_tx]])

section \<open>The line\<close>

text \<open>Two such UARTs, or one whose pins are connected: each transmit tick is followed by a sample.\<close>

definition line_tick :: "sim_uart \<Rightarrow> sim_uart" where
  "line_tick s = (let s = tx_timer_cb s in rx_timer_cb (Some (if tx_pin s then 1 else 0)) s)"

lemma take_bit_Suc_or:
  "take_bit k b OR push_bit k (if bit b k then 1 else 0) = (take_bit (Suc k) b :: u8)"
proof (rule bit_word_eqI)
  fix n
  assume "n < LENGTH(8)"
  then show "bit (take_bit k b OR push_bit k (if bit b k then 1 else 0)) n = bit (take_bit (Suc k) b) n"
    by (cases n k rule: linorder_cases) (simp_all add: bit_simps bit_1_iff)
qed

lemma line_start:
  assumes "tx_enable s" and "tx_bit_pos s = 0" and "rx_enable s" and "\<not> rx_start s"
  shows "line_tick s = s\<lparr>tx_pin := False, tx_bit_pos := 1, rx_start := True, rx_bit_count := 0, rx_byte := 0\<rparr>"
  using assms by (simp add: line_tick_def tx_timer_cb_def rx_timer_cb_def Let_def)

lemma line_data:
  assumes "tx_enable s" and "tx_bit_pos s = Suc k" and "k < 8" and "rx_enable s" and "rx_start s"
    and "rx_bit_count s = k" and "tx_buf s ! tx_index s = b" and "rx_byte s = take_bit k b"
  shows "line_tick s = s\<lparr>tx_pin := bit b k, tx_bit_pos := k + 2, rx_byte := take_bit (Suc k) b,
    rx_bit_count := Suc k\<rparr>"
proof -
  have "drop_bit k b AND 1 = (if bit b k then 1 else 0)"
  proof (rule bit_word_eqI)
    fix n
    show "bit (drop_bit k b AND 1) n = bit (if bit b k then 1 else 0 :: u8) n"
      by (cases n) (auto simp: bit_simps bit_1_iff)
  qed
  then show ?thesis
    using assms take_bit_Suc_or [of k b]
    by (auto simp: line_tick_def tx_timer_cb_def rx_timer_cb_def Let_def)
qed

lemma line_stop:
  assumes "tx_enable s" and "tx_bit_pos s = 9" and "rx_enable s" and "rx_start s" and "rx_bit_count s = 8"
    and "rx_buffer_index s < 200"
  shows "line_tick s = s\<lparr>tx_pin := True, tx_bit_pos := 10, rx_start := False,
    rx_buffer := (rx_buffer s)[rx_buffer_index s := rx_byte s], rx_buffer_index := Suc (rx_buffer_index s)\<rparr>"
  using assms by (simp add: line_tick_def tx_timer_cb_def rx_timer_cb_def Let_def)

lemma line_gap:
  assumes "tx_enable s" and "tx_bit_pos s = 10" and "tx_pin s" and "rx_enable s" and "\<not> rx_start s"
  shows "line_tick s = (let s' = s\<lparr>tx_bit_pos := 0, tx_index := Suc (tx_index s)\<rparr>
    in if tx_length s \<le> Suc (tx_index s) then s'\<lparr>tx_busy := False, tx_enable := False\<rparr> else s')"
  using assms by (simp add: line_tick_def tx_timer_cb_def rx_timer_cb_def Let_def)

lemma line_data_bits:
  assumes "tx_enable s" and "tx_bit_pos s = 1" and "rx_enable s" and "rx_start s"
    and "rx_bit_count s = 0" and "tx_buf s ! tx_index s = b" and "rx_byte s = 0" and "k < 8"
  shows "(line_tick ^^ Suc k) s = s\<lparr>tx_pin := bit b k, tx_bit_pos := k + 2,
    rx_byte := take_bit (Suc k) b, rx_bit_count := Suc k\<rparr>"
  using assms(8)
proof (induction k)
  case 0
  then show ?case using assms by (simp add: line_data [where k = 0 and b = b])
next
  case (Suc k)
  then show ?case using assms by (simp add: line_data [where k = "Suc k" and b = b])
qed

text \<open>Eleven ticks carry one byte: start bit, eight data bits, stop bit, and the tick that moves on.\<close>

lemma line_byte:
  assumes "tx_enable s" and "tx_bit_pos s = 0" and "rx_enable s" and "\<not> rx_start s"
    and "rx_buffer_index s < 200" and "tx_buf s ! tx_index s = b"
  shows "(line_tick ^^ 11) s = (let s' = s\<lparr>tx_pin := True, tx_bit_pos := 0, tx_index := Suc (tx_index s),
      rx_byte := b, rx_bit_count := 8, rx_start := False,
      rx_buffer := (rx_buffer s)[rx_buffer_index s := b], rx_buffer_index := Suc (rx_buffer_index s)\<rparr>
    in if tx_length s \<le> Suc (tx_index s) then s'\<lparr>tx_busy := False, tx_enable := False\<rparr> else s')"
proof -
  let ?s1 = "s\<lparr>tx_pin := False, tx_bit_pos := 1, rx_start := True, rx_bit_count := 0, rx_byte := 0\<rparr>"
  have split: "(line_tick ^^ 11) s = line_tick (line_tick ((line_tick ^^ Suc 7) (line_tick s)))"
    by (simp add: eval_nat_numeral funpow_swap1)
  have bits: "(line_tick ^^ Suc 7) ?s1
      = ?s1\<lparr>tx_pin := bit b 7, tx_bit_pos := 9, rx_byte := b, rx_bit_count := 8\<rparr>"
    using line_data_bits [of ?s1 b 7] assms take_bit_word_eq_self [of 8 b] by simp
  show ?thesis
    unfolding split line_start [OF assms(1-4)] bits
    using assms by (simp add: line_stop line_gap Let_def)
qed

text \<open>A message: the bytes already sent are in the receive buffer, the others follow.\<close>

lemma line_message:
  assumes "uart_inv s" and "tx_enable s" and "tx_bit_pos s = 0" and "rx_enable s" and "\<not> rx_start s"
    and "drop (tx_index s) (take (tx_length s) (tx_buf s)) = d" and "rx_buffer_index s + length d \<le> 200"
  shows "\<exists>s'. (line_tick ^^ (11 * length d)) s = s' \<and> \<not> tx_busy s' \<and> tx_pin s' \<and> rx_enable s'
    \<and> rx_buffer_index s' = rx_buffer_index s + length d
    \<and> take (rx_buffer_index s + length d) (rx_buffer s') = take (rx_buffer_index s) (rx_buffer s) @ d
    \<and> length (rx_buffer s') = 200"
  using assms
proof (induction d arbitrary: s)
  case Nil
  then show ?case by (auto simp: uart_inv_def)
next
  case (Cons b d)
  have idx: "tx_index s < tx_length s" "tx_length s \<le> 200" "length (tx_buf s) = 200"
      "length (rx_buffer s) = 200" using Cons.prems by (auto simp: uart_inv_def)
  then have b: "tx_buf s ! tx_index s = b"
    using nth_via_drop [OF Cons.prems(6)] by simp
  have d: "drop (Suc (tx_index s)) (take (tx_length s) (tx_buf s)) = d"
    using Cons.prems(6) by (metis drop_Suc tl_drop list.sel(3))
  let ?t = "(line_tick ^^ 11) s"
  let ?s' = "s\<lparr>tx_pin := True, tx_bit_pos := 0, tx_index := Suc (tx_index s), rx_byte := b, rx_bit_count := 8,
      rx_start := False, rx_buffer := (rx_buffer s)[rx_buffer_index s := b],
      rx_buffer_index := Suc (rx_buffer_index s)\<rparr>"
  have t: "?t = (if tx_length s \<le> Suc (tx_index s) then ?s'\<lparr>tx_busy := False, tx_enable := False\<rparr> else ?s')"
    using line_byte [of s b] Cons.prems b by (simp add: Let_def)
  have buf: "take (Suc (rx_buffer_index s)) ((rx_buffer s)[rx_buffer_index s := b])
      = take (rx_buffer_index s) (rx_buffer s) @ [b]"
    using Cons.prems(7) idx by (simp add: take_Suc_conv_app_nth)
  have funpow: "(line_tick ^^ (11 * length (b # d))) s = (line_tick ^^ (11 * length d)) ?t"
    by (simp add: funpow_add mult_Suc_right add.commute [of 11])
  show ?case
  proof (cases "d = []")
    case True
    then have "tx_length s \<le> Suc (tx_index s)" using d idx by simp
    then show ?thesis using True t funpow buf idx Cons.prems(4) by simp
  next
    case False
    then have "Suc (tx_index s) < tx_length s" using d idx by (auto simp: not_le dest: sym)
    then have t': "?t = ?s'" using t by simp
    have "uart_inv ?s'" using Cons.prems(1,2,7) \<open>Suc (tx_index s) < tx_length s\<close> by (auto simp: uart_inv_def)
    from Cons.IH [OF this] show ?thesis
      using Cons.prems(2,4,7) d buf unfolding funpow t' by simp
  qed
qed

section \<open>Properties of the line\<close>

text \<open>C39. A message of 1 to 200 bytes handed to the idle transmitter is transmitted in eleven bit times
  per byte, after which the transmitter is idle again and the receiver on the same line returns exactly
  the message.\<close>

theorem sim_uart_loopback:
  assumes "uart_reachable s" and "\<not> tx_busy s" and "rx_enable s" and "\<not> rx_start s"
    and "rx_buffer_index s = 0" and "0 < length d" and "length d \<le> 200"
  shows "\<exists>s1 s2. sim_uart_send (Some d) s = (SIM_UART_OK, s1) \<and> s2 = (line_tick ^^ (11 * length d)) s1
    \<and> \<not> tx_busy s2 \<and> fst (sim_uart_receive 200 s2) = d"
proof -
  have inv: "uart_inv s" using assms(1) by (rule uart_reachable_inv)
  define s1 where "s1 = snd (sim_uart_send (Some d) s)"
  have send: "sim_uart_send (Some d) s = (SIM_UART_OK, s1)"
    using assms by (simp add: s1_def sim_uart_send_def)
  have "uart_inv s1" using uart_inv_step [OF inv step_send] by (simp add: s1_def)
  moreover have "drop (tx_index s1) (take (tx_length s1) (tx_buf s1)) = d" "tx_enable s1" "tx_bit_pos s1 = 0"
      "rx_enable s1" "\<not> rx_start s1" "rx_buffer_index s1 = 0"
    using assms inv by (auto simp: s1_def sim_uart_send_def blit_def uart_inv_def)
  ultimately show ?thesis
    using line_message [of s1 d] send assms(7) by (auto simp: sim_uart_receive_def Let_def)
qed

theorem sim_uart_loopback_witness:
  "\<exists>s1 s2. sim_uart_send (Some [0xA5, 0]) sim_ctrl = (SIM_UART_OK, s1) \<and> s2 = (line_tick ^^ (11 * length [0xA5, 0 :: u8])) s1
    \<and> \<not> tx_busy s2 \<and> fst (sim_uart_receive 200 s2) = [0xA5, 0]"
  by (rule sim_uart_loopback) (simp_all add: reach_start, simp_all add: sim_ctrl_def)

text \<open>A second message is refused, with nothing changed, until the first has been sent or aborted, and
  so is a null pointer or a length that is 0 or more than the buffer; everything else is accepted.\<close>

lemma sim_uart_send_accepts:
  "(fst (sim_uart_send data s) = SIM_UART_OK
     \<longleftrightarrow> \<not> tx_busy s \<and> (\<exists>d. data = Some d \<and> 0 < length d \<and> length d \<le> 200))
   \<and> (fst (sim_uart_send data s) = SIM_UART_OK \<or> snd (sim_uart_send data s) = s)
   \<and> (tx_busy s \<longleftrightarrow> fst (sim_uart_send data s) = SIM_UART_BUSY)"
  by (auto simp: sim_uart_send_def split: option.split)

text \<open>The echo of \<open>uart_task\<close> is dropped when the periodic message has just occupied the transmitter.\<close>

lemma uart_task_drops_echo:
  assumes "init_flag v" and "\<not> tx_busy s" and "rx_enable s"
  shows "fst (sim_uart_receive 200 (snd (uart_task_step now (v, s)))) = []
    \<and> tx_length (snd (uart_task_step now (v, s))) = length test_data"
  using assms
  by (simp add: uart_task_step_def sim_uart_send_def sim_uart_receive_def test_data_def Let_def)

end
