(* ===== verification/AtTables.thy ===== *)
theory AtTables
  imports Prelude
begin

text \<open>
  The command and step tables of \<^verbatim>\<open>src/ql_application/App_XD/netlink/app_net4g.c\<close> and the command
  identifiers of \<^verbatim>\<open>app_net4g.h\<close>.  The preprocessor selects one of two sets by the module type, so the
  module is an argument here; the identifiers of both sets are one datatype, and \<open>cmd_enum m\<close> lists
  those of a module in the order of its C enumeration, whose values are the positions in that list.
  The driver looks a command up by using its enumeration value as an index into the command
  table; that this finds the row of the command is proved for all modules.
\<close>

section \<open>Model\<close>

datatype module_type = NT26E | NT26K | CE109 | EC800 | EC801 | EG800GEU

definition lierda :: "module_type \<Rightarrow> bool" where
  "lierda m \<longleftrightarrow> m = NT26E \<or> m = NT26K \<or> m = CE109"

datatype (plugins only: size) net4g_cmd_id =
  CMD_ID_NONE | CMD_ID_HANDSHAKE | CMD_ID_GET_MODULE_INFO | CMD_ID_GET_IMEI | CMD_ID_GET_SN_NO
  | CMD_ID_GET_IP | CMD_ID_IS_SIM_OK | CMD_ID_GET_SIM_NO | CMD_ID_GET_SIM_STATE
  | CMD_ID_GET_NET_STATE | CMD_ID_GET_RSSI | CMD_ID_SET_CLOSE_ATE | CMD_ID_SET_OPEN_ATE
  | CMD_ID_SET_BAUD_RATE | CMD_ID_GET_LOCATION_PARA | CMD_ID_SET_LOCATION_PARA
  | CMD_ID_GET_LOCATION_ADDR | CMD_ID_GET_CELL | CMD_ID_ACTIVE_HTTP_CONFIG_CACHE
  | CMD_ID_ACTIVE_SET_URL_CMD | CMD_ID_ACTIVE_SET_URL_DATA | CMD_ID_ACTIVE_SET_CONNECT_URL
  | CMD_ID_ACTIVE_GET_HTTP_RSP | CMD_ID_ACTIVE_CONFIRM_SET_URL_CMD
  | CMD_ID_ACTIVE_CONFIRM_SET_URL_DATA | CMD_ID_ACTIVE_CONFIRM_CONNECT_URL
  | CMD_ID_ACTIVE_CONFIRM_GET_HTTP_RSP | CMD_ID_ROUTE_HTTP_CONFIG_CACHE
  | CMD_ID_ROUTE_HTTP_CONFIG_SSL_CTX_ID | CMD_ID_ROUTE_SET_URL_CMD | CMD_ID_ROUTE_SET_URL_DATA
  | CMD_ID_ROUTE_CONNECT_URL | CMD_ID_ROUTE_GET_HTTP_RSP | CMD_ID_HTTP_CLOSE
  | CMD_ID_MQTT_DISCONNECT | CMD_ID_MQTT_NET_CLOSE | CMD_ID_MQTT_OPEN
  | CMD_ID_MQTT_CONFIG_SESSION | CMD_ID_MQTT_TCONFIG_VERSION | CMD_ID_MQTT_CONFIG_TIMEOUT
  | CMD_ID_MQTT_CONFIG_KEEPALIVE | CMD_ID_MQTT_CONFIG_SENDMODE | CMD_ID_MQTT_CONFIG_RECMODE
  | CMD_ID_MQTT_CONNECT | CMD_ID_MQTT_SUB_TOPIC | CMD_ID_OTA_HTTP_CONFIG_NO_CACHE
  | CMD_ID_OTA_SET_URL_CMD | CMD_ID_OTA_SET_URL_DATA | CMD_ID_OTA_DOWNLOAD_RANGE
  | CMD_ID_OTA_GET_HTTP_RSP | CMD_ID_OTA_HTTP_CLOSE | CMD_SIM_TEST | CMD_SIM_CHECK
  | CMD_SIM_CHANGE_1 | CMD_SIM_CHANGE_2 | CMD_ID_RF_ON | CMD_ID_RF_OFF | CMD_SIM_AUTO_SELECT_ON
  | CMD_SIM_AUTO_SELECT_OFF | CMD_SIM_AUTO_SELECT_CHECK | CMD_ID_SUCCESS | CMD_ID_ERROR
  | CMD_ID_MIN_LEV | CMD_ID_SET_FENCE | CMD_ID_SET_APN | CMD_ID_GET_QCELL
  | CMD_ID_GET_QENG_SERVINGCELL | CMD_ID_GET_QENG_NEIGHBOURCELL | CMD_ID_SET_PDP
  | CMD_ID_SET_DNS | CMD_ID_MQTT_CONFIG_PDP | CMD_ID_OTA_HTTP_CONFIG

definition nt_cmd_enum :: "net4g_cmd_id list" where
  "nt_cmd_enum = [
     CMD_ID_NONE, CMD_ID_HANDSHAKE, CMD_ID_GET_MODULE_INFO, CMD_ID_GET_IMEI, CMD_ID_GET_SN_NO,
     CMD_ID_GET_IP, CMD_ID_IS_SIM_OK, CMD_ID_GET_SIM_NO, CMD_ID_GET_SIM_STATE,
     CMD_ID_GET_NET_STATE, CMD_ID_GET_RSSI, CMD_ID_SET_CLOSE_ATE, CMD_ID_SET_OPEN_ATE,
     CMD_ID_SET_BAUD_RATE, CMD_ID_GET_LOCATION_PARA, CMD_ID_SET_LOCATION_PARA,
     CMD_ID_GET_LOCATION_ADDR, CMD_ID_GET_CELL, CMD_ID_ACTIVE_HTTP_CONFIG_CACHE,
     CMD_ID_ACTIVE_SET_URL_CMD, CMD_ID_ACTIVE_SET_URL_DATA, CMD_ID_ACTIVE_SET_CONNECT_URL,
     CMD_ID_ACTIVE_GET_HTTP_RSP, CMD_ID_ACTIVE_CONFIRM_SET_URL_CMD,
     CMD_ID_ACTIVE_CONFIRM_SET_URL_DATA, CMD_ID_ACTIVE_CONFIRM_CONNECT_URL,
     CMD_ID_ACTIVE_CONFIRM_GET_HTTP_RSP, CMD_ID_ROUTE_HTTP_CONFIG_CACHE,
     CMD_ID_ROUTE_HTTP_CONFIG_SSL_CTX_ID, CMD_ID_ROUTE_SET_URL_CMD, CMD_ID_ROUTE_SET_URL_DATA,
     CMD_ID_ROUTE_CONNECT_URL, CMD_ID_ROUTE_GET_HTTP_RSP, CMD_ID_HTTP_CLOSE,
     CMD_ID_MQTT_DISCONNECT, CMD_ID_MQTT_NET_CLOSE, CMD_ID_MQTT_OPEN, CMD_ID_MQTT_CONFIG_SESSION,
     CMD_ID_MQTT_TCONFIG_VERSION, CMD_ID_MQTT_CONFIG_TIMEOUT, CMD_ID_MQTT_CONFIG_KEEPALIVE,
     CMD_ID_MQTT_CONFIG_SENDMODE, CMD_ID_MQTT_CONFIG_RECMODE, CMD_ID_MQTT_CONNECT,
     CMD_ID_MQTT_SUB_TOPIC, CMD_ID_OTA_HTTP_CONFIG_NO_CACHE, CMD_ID_OTA_SET_URL_CMD,
     CMD_ID_OTA_SET_URL_DATA, CMD_ID_OTA_DOWNLOAD_RANGE, CMD_ID_OTA_GET_HTTP_RSP,
     CMD_ID_OTA_HTTP_CLOSE, CMD_SIM_TEST, CMD_SIM_CHECK, CMD_SIM_CHANGE_1, CMD_SIM_CHANGE_2,
     CMD_ID_RF_ON, CMD_ID_RF_OFF, CMD_SIM_AUTO_SELECT_ON, CMD_SIM_AUTO_SELECT_OFF,
     CMD_SIM_AUTO_SELECT_CHECK, CMD_ID_SUCCESS, CMD_ID_ERROR]"

definition ec_cmd_enum :: "net4g_cmd_id list" where
  "ec_cmd_enum = [
     CMD_ID_NONE, CMD_ID_HANDSHAKE, CMD_ID_RF_OFF, CMD_ID_MIN_LEV, CMD_ID_SET_FENCE,
     CMD_ID_RF_ON, CMD_ID_GET_MODULE_INFO, CMD_ID_GET_IMEI, CMD_ID_GET_SN_NO, CMD_ID_GET_IP,
     CMD_ID_IS_SIM_OK, CMD_ID_GET_SIM_NO, CMD_ID_GET_SIM_STATE, CMD_ID_GET_NET_STATE,
     CMD_ID_GET_RSSI, CMD_ID_SET_CLOSE_ATE, CMD_ID_SET_OPEN_ATE, CMD_ID_SET_BAUD_RATE,
     CMD_ID_GET_LOCATION_PARA, CMD_ID_SET_LOCATION_PARA, CMD_ID_GET_LOCATION_ADDR,
     CMD_ID_SET_APN, CMD_ID_GET_QCELL, CMD_ID_GET_QENG_SERVINGCELL,
     CMD_ID_GET_QENG_NEIGHBOURCELL, CMD_ID_SET_PDP, CMD_ID_SET_DNS, CMD_ID_ACTIVE_SET_URL_CMD,
     CMD_ID_ACTIVE_SET_URL_DATA, CMD_ID_ACTIVE_SET_CONNECT_URL, CMD_ID_ACTIVE_GET_HTTP_RSP,
     CMD_ID_ACTIVE_CONFIRM_SET_URL_CMD, CMD_ID_ACTIVE_CONFIRM_SET_URL_DATA,
     CMD_ID_ACTIVE_CONFIRM_CONNECT_URL, CMD_ID_ACTIVE_CONFIRM_GET_HTTP_RSP,
     CMD_ID_ROUTE_SET_URL_CMD, CMD_ID_ROUTE_SET_URL_DATA, CMD_ID_ROUTE_CONNECT_URL,
     CMD_ID_ROUTE_GET_HTTP_RSP, CMD_ID_HTTP_CLOSE, CMD_ID_MQTT_DISCONNECT, CMD_ID_MQTT_NET_CLOSE,
     CMD_ID_MQTT_OPEN, CMD_ID_MQTT_CONFIG_PDP, CMD_ID_MQTT_CONFIG_SESSION,
     CMD_ID_MQTT_TCONFIG_VERSION, CMD_ID_MQTT_CONFIG_TIMEOUT, CMD_ID_MQTT_CONFIG_KEEPALIVE,
     CMD_ID_MQTT_CONFIG_RECMODE, CMD_ID_MQTT_CONNECT, CMD_ID_MQTT_SUB_TOPIC,
     CMD_ID_OTA_HTTP_CONFIG, CMD_ID_OTA_SET_URL_CMD, CMD_ID_OTA_SET_URL_DATA,
     CMD_ID_OTA_DOWNLOAD_RANGE, CMD_ID_OTA_GET_HTTP_RSP, CMD_ID_OTA_HTTP_CLOSE, CMD_SIM_CHECK,
     CMD_SIM_CHANGE_1, CMD_SIM_CHANGE_2, CMD_ID_SUCCESS, CMD_ID_ERROR]"

definition cmd_enum :: "module_type \<Rightarrow> net4g_cmd_id list" where
  "cmd_enum m = (if lierda m then nt_cmd_enum else ec_cmd_enum)"

record at_cmd_t =
  cmd_state :: net4g_cmd_id
  interval_ms :: nat
  retry_times :: nat
  p_cmd :: "bytes option"
  p_ack :: "bytes option"

record net4g_at_step_t =
  step_no :: nat
  step_id :: net4g_cmd_id
  s_jump :: nat
  f_jump :: nat

text \<open>One row of each kind of table; the strings are as the macros of the header spell them.\<close>

abbreviation (input) at_cmd :: "net4g_cmd_id \<Rightarrow> nat \<Rightarrow> nat \<Rightarrow> bytes option \<Rightarrow> bytes option \<Rightarrow> at_cmd_t" where
  "at_cmd i ms n c a \<equiv> \<lparr>cmd_state = i, interval_ms = ms, retry_times = n, p_cmd = c, p_ack = a\<rparr>"

abbreviation (input) at_step :: "nat \<Rightarrow> net4g_cmd_id \<Rightarrow> nat \<Rightarrow> nat \<Rightarrow> net4g_at_step_t" where
  "at_step n i s f \<equiv> \<lparr>step_no = n, step_id = i, s_jump = s, f_jump = f\<rparr>"

definition crlf :: bytes where
  "crlf = [13, 10]"

definition NET_CMD_ACK_OK :: bytes where
  "NET_CMD_ACK_OK = asc ''OK'' @ crlf"

definition nt_module_4g_cmds :: "at_cmd_t list" where
  "nt_module_4g_cmds = [
     at_cmd CMD_ID_NONE 0 0 None None,
     at_cmd CMD_ID_HANDSHAKE 500 30 (Some (asc ''AT'' @ crlf)) (Some NET_CMD_ACK_OK),
     at_cmd CMD_ID_GET_MODULE_INFO 100 3 (Some (asc ''AT+LGMR'' @ crlf)) (Some NET_CMD_ACK_OK),
     at_cmd CMD_ID_GET_IMEI 100 3 (Some (asc ''AT+CGSN=1'' @ crlf)) (Some NET_CMD_ACK_OK),
     at_cmd CMD_ID_GET_SN_NO 100 3 (Some (asc ''AT+CGSN=0'' @ crlf)) (Some NET_CMD_ACK_OK),
     at_cmd CMD_ID_GET_IP 100 30 (Some (asc ''AT+CGPADDR'' @ crlf)) (Some NET_CMD_ACK_OK),
     at_cmd CMD_ID_IS_SIM_OK 100 30 (Some (asc ''AT+CPIN?'' @ crlf)) (Some NET_CMD_ACK_OK),
     at_cmd CMD_ID_GET_SIM_NO 100 30 (Some (asc ''AT+LCCID'' @ crlf)) (Some NET_CMD_ACK_OK),
     at_cmd CMD_ID_GET_SIM_STATE 100 30 (Some (asc ''AT+CEREG?'' @ crlf)) (Some NET_CMD_ACK_OK),
     at_cmd CMD_ID_GET_NET_STATE 100 30 (Some (asc ''AT+CGATT?'' @ crlf)) (Some NET_CMD_ACK_OK),
     at_cmd CMD_ID_GET_RSSI 100 3 (Some (asc ''AT+CSQ'' @ crlf)) (Some NET_CMD_ACK_OK),
     at_cmd CMD_ID_SET_CLOSE_ATE 100 3 (Some (asc ''ATE0'' @ crlf)) (Some NET_CMD_ACK_OK),
     at_cmd CMD_ID_SET_OPEN_ATE 100 3 (Some (asc ''ATE1'' @ crlf)) (Some NET_CMD_ACK_OK),
     at_cmd CMD_ID_SET_BAUD_RATE 100 3 (Some (asc ''AT+IPR=115200'' @ crlf)) (Some NET_CMD_ACK_OK),
     at_cmd CMD_ID_GET_LOCATION_PARA 100 1 (Some (asc ''AT+LBSPARA?'' @ crlf)) (Some NET_CMD_ACK_OK),
     at_cmd CMD_ID_SET_LOCATION_PARA 100 1 (Some (asc ''AT+LBSPARA=%s,%s'' @ crlf)) (Some NET_CMD_ACK_OK),
     at_cmd CMD_ID_GET_LOCATION_ADDR 1000 1 (Some (asc ''AT+LBS=0'' @ crlf)) (Some NET_CMD_ACK_OK),
     at_cmd CMD_ID_GET_CELL 1000 1 (Some (asc ''AT+LCELL?'' @ crlf)) (Some NET_CMD_ACK_OK),
     at_cmd CMD_ID_ACTIVE_HTTP_CONFIG_CACHE 100 3 (Some (asc ''AT+LHTTPCFG=cachetype,0'' @ crlf)) (Some NET_CMD_ACK_OK),
     at_cmd CMD_ID_ACTIVE_SET_URL_CMD 500 3 (Some (asc ''AT+LHTTPURL=%d,30'' @ crlf)) (Some (asc ''CONNECT'')),
     at_cmd CMD_ID_ACTIVE_SET_URL_DATA 500 3 (Some (asc ''%s'')) (Some NET_CMD_ACK_OK),
     at_cmd CMD_ID_ACTIVE_SET_CONNECT_URL 1000 3 (Some (asc ''%s'')) (Some (asc ''+LHTTPGET: '')),
     at_cmd CMD_ID_ACTIVE_GET_HTTP_RSP 500 3 (Some (asc ''AT+LHTTPREAD=60'' @ crlf)) (Some NET_CMD_ACK_OK),
     at_cmd CMD_ID_ACTIVE_CONFIRM_SET_URL_CMD 500 3 (Some (asc ''AT+LHTTPURL=%d,30'' @ crlf)) (Some (asc ''CONNECT'')),
     at_cmd CMD_ID_ACTIVE_CONFIRM_SET_URL_DATA 500 3 (Some (asc ''%s'')) (Some NET_CMD_ACK_OK),
     at_cmd CMD_ID_ACTIVE_CONFIRM_CONNECT_URL 500 3 (Some (asc ''AT+LHTTPGET=60'' @ crlf)) (Some (asc ''+LHTTPGET: '')),
     at_cmd CMD_ID_ACTIVE_CONFIRM_GET_HTTP_RSP 500 3 (Some (asc ''AT+LHTTPREAD=60'' @ crlf)) (Some NET_CMD_ACK_OK),
     at_cmd CMD_ID_ROUTE_HTTP_CONFIG_CACHE 100 3 (Some (asc ''AT+LHTTPCFG=cachetype,0'' @ crlf)) (Some NET_CMD_ACK_OK),
     at_cmd CMD_ID_ROUTE_HTTP_CONFIG_SSL_CTX_ID 1000 3 (Some (asc ''AT+LHTTPCFG=sslctxid,0'' @ crlf)) (Some NET_CMD_ACK_OK),
     at_cmd CMD_ID_ROUTE_SET_URL_CMD 500 3 (Some (asc ''AT+LHTTPURL=%d,30'' @ crlf)) (Some (asc ''CONNECT'')),
     at_cmd CMD_ID_ROUTE_SET_URL_DATA 500 3 (Some (asc ''%s'')) (Some NET_CMD_ACK_OK),
     at_cmd CMD_ID_ROUTE_CONNECT_URL 3000 3 (Some (asc ''AT+LHTTPGET=60'' @ crlf)) (Some (asc ''+LHTTPGET: '')),
     at_cmd CMD_ID_ROUTE_GET_HTTP_RSP 1000 3 (Some (asc ''AT+LHTTPREAD=60'' @ crlf)) (Some NET_CMD_ACK_OK),
     at_cmd CMD_ID_HTTP_CLOSE 500 3 (Some (asc ''AT+LHTTPSTOP'' @ crlf)) (Some NET_CMD_ACK_OK),
     at_cmd CMD_ID_MQTT_DISCONNECT 500 2 (Some (asc ''AT+LMQTTDISC=0'' @ crlf)) (Some NET_CMD_ACK_OK),
     at_cmd CMD_ID_MQTT_NET_CLOSE 100 1 (Some (asc ''AT+LMQTTCLOSE=0'' @ crlf)) (Some NET_CMD_ACK_OK),
     at_cmd CMD_ID_MQTT_OPEN 500 3 (Some (asc ''AT+LMQTTOPEN=0,\"%s\",%d'' @ crlf)) (Some (asc ''+LMQTTOPEN: '')),
     at_cmd CMD_ID_MQTT_CONFIG_SESSION 100 3 (Some (asc ''AT+LMQTTCFG=\"session\",0,1'' @ crlf)) (Some NET_CMD_ACK_OK),
     at_cmd CMD_ID_MQTT_TCONFIG_VERSION 100 3 (Some (asc ''AT+LMQTTCFG=\"version\",0,4'' @ crlf)) (Some NET_CMD_ACK_OK),
     at_cmd CMD_ID_MQTT_CONFIG_TIMEOUT 100 3 (Some (asc ''AT+LMQTTCFG=\"timeout\",0,%d,%d,0'' @ crlf)) (Some NET_CMD_ACK_OK),
     at_cmd CMD_ID_MQTT_CONFIG_KEEPALIVE 100 3 (Some (asc ''AT+LMQTTCFG=\"keepalive\",0,%d'' @ crlf)) (Some NET_CMD_ACK_OK),
     at_cmd CMD_ID_MQTT_CONFIG_SENDMODE 100 3 (Some (asc ''AT+LMQTTCFG=\"send/mode\",0,0'' @ crlf)) (Some NET_CMD_ACK_OK),
     at_cmd CMD_ID_MQTT_CONFIG_RECMODE 100 3 (Some (asc ''AT+LMQTTCFG=\"recv/mode\",0,0,1'' @ crlf)) (Some NET_CMD_ACK_OK),
     at_cmd CMD_ID_MQTT_CONNECT 3000 3 (Some (asc ''AT+LMQTTCONN=0,\"%s\",\"%s\",\"%s\"'' @ crlf)) (Some (asc ''+LMQTTCONN: '')),
     at_cmd CMD_ID_MQTT_SUB_TOPIC 1000 3 (Some (asc ''AT+LMQTTSUBUNSUB=0,0,1,\"/device/%s/%s/#\",%d'' @ crlf)) (Some (asc ''+LMQTTSUBUNSUB: 0,1,0,1'')),
     at_cmd CMD_ID_OTA_HTTP_CONFIG_NO_CACHE 100 3 (Some (asc ''AT+LHTTPCFG=cachetype,1'' @ crlf)) (Some NET_CMD_ACK_OK),
     at_cmd CMD_ID_OTA_SET_URL_CMD 200 10 (Some (asc ''AT+LHTTPURL=%d,30'' @ crlf)) (Some (asc ''CONNECT'')),
     at_cmd CMD_ID_OTA_SET_URL_DATA 200 10 (Some (asc ''%s'')) (Some NET_CMD_ACK_OK),
     at_cmd CMD_ID_OTA_DOWNLOAD_RANGE 1000 1 (Some (asc ''AT+LHTTPGETEX=60,%d,%d'' @ crlf)) (Some NET_CMD_ACK_OK),
     at_cmd CMD_ID_OTA_GET_HTTP_RSP 1000 1 (Some (asc ''AT+LHTTPREAD=60'' @ crlf)) (Some NET_CMD_ACK_OK),
     at_cmd CMD_ID_OTA_HTTP_CLOSE 500 3 (Some (asc ''AT+LHTTPSTOP'' @ crlf)) (Some NET_CMD_ACK_OK),
     at_cmd CMD_SIM_TEST 1000 3 (Some (asc ''AT+LUIMSLOT=?'' @ crlf)) (Some NET_CMD_ACK_OK),
     at_cmd CMD_SIM_CHECK 1000 3 (Some (asc ''AT+LUIMSLOT?'' @ crlf)) (Some NET_CMD_ACK_OK),
     at_cmd CMD_SIM_CHANGE_1 1000 3 (Some (asc ''AT+LUIMSLOT=1'' @ crlf)) (Some NET_CMD_ACK_OK),
     at_cmd CMD_SIM_CHANGE_2 1000 3 (Some (asc ''AT+LUIMSLOT=2'' @ crlf)) (Some NET_CMD_ACK_OK),
     at_cmd CMD_ID_RF_ON 1000 3 (Some (asc ''AT+CFUN=1'' @ crlf)) (Some NET_CMD_ACK_OK),
     at_cmd CMD_ID_RF_OFF 1000 3 (Some (asc ''AT+CFUN=0'' @ crlf)) (Some NET_CMD_ACK_OK),
     at_cmd CMD_SIM_AUTO_SELECT_ON 1000 3 (Some (asc ''AT+LUIMDUAL=1'' @ crlf)) (Some NET_CMD_ACK_OK),
     at_cmd CMD_SIM_AUTO_SELECT_OFF 1000 3 (Some (asc ''AT+LUIMDUAL=0'' @ crlf)) (Some NET_CMD_ACK_OK),
     at_cmd CMD_SIM_AUTO_SELECT_CHECK 1000 3 (Some (asc ''AT+LUIMDUAL?'' @ crlf)) (Some NET_CMD_ACK_OK)]"

definition ec_module_4g_cmds :: "at_cmd_t list" where
  "ec_module_4g_cmds = [
     at_cmd CMD_ID_NONE 0 0 None None,
     at_cmd CMD_ID_HANDSHAKE 500 30 (Some (asc ''AT'' @ crlf)) (Some NET_CMD_ACK_OK),
     at_cmd CMD_ID_RF_OFF 500 1 (Some (asc ''AT+CFUN=0'' @ crlf)) (Some NET_CMD_ACK_OK),
     at_cmd CMD_ID_MIN_LEV 500 1 (Some (asc ''AT+ECCFG=\"qrxlevmin\",-105'' @ crlf)) (Some NET_CMD_ACK_OK),
     at_cmd CMD_ID_SET_FENCE 500 1 (Some (asc ''AT+QBLACKCELLCFGEX=1,65535,1,600,1,5,5,600'' @ crlf)) (Some NET_CMD_ACK_OK),
     at_cmd CMD_ID_RF_ON 500 1 (Some (asc ''AT+CFUN=1'' @ crlf)) (Some NET_CMD_ACK_OK),
     at_cmd CMD_ID_GET_MODULE_INFO 100 3 (Some (asc ''AT+CGMR'' @ crlf)) (Some NET_CMD_ACK_OK),
     at_cmd CMD_ID_GET_IMEI 100 3 (Some (asc ''AT+CGSN'' @ crlf)) (Some NET_CMD_ACK_OK),
     at_cmd CMD_ID_GET_SN_NO 100 3 (Some (asc ''AT+EGMR=0,5'' @ crlf)) (Some NET_CMD_ACK_OK),
     at_cmd CMD_ID_GET_IP 100 30 (Some (asc ''AT+CGPADDR'' @ crlf)) (Some NET_CMD_ACK_OK),
     at_cmd CMD_ID_IS_SIM_OK 100 2 (Some (asc ''AT+CPIN?'' @ crlf)) (Some NET_CMD_ACK_OK),
     at_cmd CMD_ID_GET_SIM_NO 100 30 (Some (asc ''AT+QCCID'' @ crlf)) (Some NET_CMD_ACK_OK),
     at_cmd CMD_ID_GET_SIM_STATE 100 30 (Some (asc ''AT+CEREG?'' @ crlf)) (Some NET_CMD_ACK_OK),
     at_cmd CMD_ID_GET_NET_STATE 100 30 (Some (asc ''AT+CGATT?'' @ crlf)) (Some NET_CMD_ACK_OK),
     at_cmd CMD_ID_GET_RSSI 2000 3 (Some (asc ''AT+CSQ'' @ crlf)) (Some NET_CMD_ACK_OK),
     at_cmd CMD_ID_SET_CLOSE_ATE 100 3 (Some (asc ''ATE0'' @ crlf)) (Some NET_CMD_ACK_OK),
     at_cmd CMD_ID_SET_OPEN_ATE 100 3 (Some (asc ''ATE1'' @ crlf)) (Some NET_CMD_ACK_OK),
     at_cmd CMD_ID_SET_BAUD_RATE 100 3 (Some (asc ''AT+IPR=115200'' @ crlf)) (Some NET_CMD_ACK_OK),
     at_cmd CMD_ID_GET_LOCATION_PARA 100 1 (Some (asc ''AT+QLBSCFG=\"token\"'' @ crlf)) (Some NET_CMD_ACK_OK),
     at_cmd CMD_ID_SET_LOCATION_PARA 300 1 (Some (asc ''AT+QLBSCFG=\"token\",\"%s\"'' @ crlf)) (Some NET_CMD_ACK_OK),
     at_cmd CMD_ID_GET_LOCATION_ADDR 1000 1 (Some (asc ''AT+QLBS'' @ crlf)) (Some (asc ''+QLBS: '')),
     at_cmd CMD_ID_SET_APN 3000 1 (Some (asc ''AT+QICSGP=1,1,\"orange.m2m.spec\",\"\",\"\",1'' @ crlf)) (Some NET_CMD_ACK_OK),
     at_cmd CMD_ID_GET_QCELL 2000 1 (Some (asc ''AT+QCELL?'' @ crlf)) (Some NET_CMD_ACK_OK),
     at_cmd CMD_ID_GET_QENG_SERVINGCELL 2000 1 (Some (asc ''AT+QENG=\"servingcell\"'' @ crlf)) (Some NET_CMD_ACK_OK),
     at_cmd CMD_ID_GET_QENG_NEIGHBOURCELL 2000 1 (Some (asc ''AT+QENG=\"neighbourcell\"'' @ crlf)) (Some NET_CMD_ACK_OK),
     at_cmd CMD_ID_SET_PDP 1000 1 (Some (asc ''AT+QIACT=1'' @ crlf)) (Some NET_CMD_ACK_OK),
     at_cmd CMD_ID_SET_DNS 1000 1 (Some (asc ''AT+QIDNSCFG=1,\"114.114.114.114\",\"8.8.8.8\"'' @ crlf)) (Some NET_CMD_ACK_OK),
     at_cmd CMD_ID_ACTIVE_SET_URL_CMD 500 3 (Some (asc ''AT+QHTTPURL=%d,30'' @ crlf)) (Some (asc ''CONNECT'')),
     at_cmd CMD_ID_ACTIVE_SET_URL_DATA 500 3 (Some (asc ''%s'')) (Some NET_CMD_ACK_OK),
     at_cmd CMD_ID_ACTIVE_SET_CONNECT_URL 500 3 (Some (asc ''%s'')) (Some NET_CMD_ACK_OK),
     at_cmd CMD_ID_ACTIVE_GET_HTTP_RSP 500 3 (Some (asc ''AT+QHTTPREAD=60'' @ crlf)) (Some NET_CMD_ACK_OK),
     at_cmd CMD_ID_ACTIVE_CONFIRM_SET_URL_CMD 500 3 (Some (asc ''AT+QHTTPURL=%d,30'' @ crlf)) (Some (asc ''CONNECT'')),
     at_cmd CMD_ID_ACTIVE_CONFIRM_SET_URL_DATA 500 3 (Some (asc ''%s'')) (Some NET_CMD_ACK_OK),
     at_cmd CMD_ID_ACTIVE_CONFIRM_CONNECT_URL 500 3 (Some (asc ''AT+QHTTPGET=60'' @ crlf)) (Some NET_CMD_ACK_OK),
     at_cmd CMD_ID_ACTIVE_CONFIRM_GET_HTTP_RSP 500 3 (Some (asc ''AT+QHTTPREAD=60'' @ crlf)) (Some NET_CMD_ACK_OK),
     at_cmd CMD_ID_ROUTE_SET_URL_CMD 500 3 (Some (asc ''AT+QHTTPURL=%d,30'' @ crlf)) (Some (asc ''CONNECT'')),
     at_cmd CMD_ID_ROUTE_SET_URL_DATA 500 3 (Some (asc ''%s'')) (Some NET_CMD_ACK_OK),
     at_cmd CMD_ID_ROUTE_CONNECT_URL 1000 3 (Some (asc ''AT+QHTTPGET=60'' @ crlf)) (Some NET_CMD_ACK_OK),
     at_cmd CMD_ID_ROUTE_GET_HTTP_RSP 1000 5 (Some (asc ''AT+QHTTPREAD=60'' @ crlf)) (Some NET_CMD_ACK_OK),
     at_cmd CMD_ID_HTTP_CLOSE 500 3 (Some (asc ''AT+HTTPCLOSE'' @ crlf)) (Some NET_CMD_ACK_OK),
     at_cmd CMD_ID_MQTT_DISCONNECT 500 1 (Some (asc ''AT+QMTDISC=0'' @ crlf)) (Some NET_CMD_ACK_OK),
     at_cmd CMD_ID_MQTT_NET_CLOSE 100 1 (Some (asc ''AT+QMTCLOSE=0'' @ crlf)) (Some NET_CMD_ACK_OK),
     at_cmd CMD_ID_MQTT_OPEN 500 3 (Some (asc ''AT+QMTOPEN=0,\"%s\",%d'' @ crlf)) (Some (asc ''+QMTOPEN: 0,0'')),
     at_cmd CMD_ID_MQTT_CONFIG_PDP 100 3 (Some (asc ''AT+QMTCFG=\"pdpcid\",0,1'' @ crlf)) (Some NET_CMD_ACK_OK),
     at_cmd CMD_ID_MQTT_CONFIG_SESSION 100 3 (Some (asc ''AT+QMTCFG=\"session\",0,1'' @ crlf)) (Some NET_CMD_ACK_OK),
     at_cmd CMD_ID_MQTT_TCONFIG_VERSION 100 3 (Some (asc ''AT+QMTCFG=\"version\",0,4'' @ crlf)) (Some NET_CMD_ACK_OK),
     at_cmd CMD_ID_MQTT_CONFIG_TIMEOUT 100 3 (Some (asc ''AT+QMTCFG=\"timeout\",0,%d,%d,0'' @ crlf)) (Some NET_CMD_ACK_OK),
     at_cmd CMD_ID_MQTT_CONFIG_KEEPALIVE 100 3 (Some (asc ''AT+QMTCFG=\"keepalive\",0,%d'' @ crlf)) (Some NET_CMD_ACK_OK),
     at_cmd CMD_ID_MQTT_CONFIG_RECMODE 100 3 (Some (asc ''AT+QMTCFG=\"recv/mode\",0,0,1'' @ crlf)) (Some NET_CMD_ACK_OK),
     at_cmd CMD_ID_MQTT_CONNECT 1000 3 (Some (asc ''AT+QMTCONN=0,\"%s\",\"%s\",\"%s\"'' @ crlf)) (Some (asc ''+QMTCONN: 0,0'')),
     at_cmd CMD_ID_MQTT_SUB_TOPIC 500 3 (Some (asc ''AT+QMTSUB=0,1,\"/device/%s/%s/#\",%d'' @ crlf)) (Some (asc ''+QMTSUB: 0,1,0'')),
     at_cmd CMD_ID_OTA_HTTP_CONFIG 100 3 (Some (asc ''AT+QHTTPCFG=\"rspout/auto\",1'' @ crlf)) (Some NET_CMD_ACK_OK),
     at_cmd CMD_ID_OTA_SET_URL_CMD 200 10 (Some (asc ''AT+QHTTPURL=%d,30'' @ crlf)) (Some (asc ''CONNECT'')),
     at_cmd CMD_ID_OTA_SET_URL_DATA 200 10 (Some (asc ''%s'')) (Some NET_CMD_ACK_OK),
     at_cmd CMD_ID_OTA_DOWNLOAD_RANGE 1000 1 (Some (asc ''AT+QHTTPGETEX=60,%d,%d'' @ crlf)) (Some NET_CMD_ACK_OK),
     at_cmd CMD_ID_OTA_GET_HTTP_RSP 1000 1 (Some (asc ''AT+QHTTPREAD=60'' @ crlf)) (Some NET_CMD_ACK_OK),
     at_cmd CMD_ID_OTA_HTTP_CLOSE 500 3 (Some (asc ''AT+HTTPCLOSE'' @ crlf)) (Some NET_CMD_ACK_OK),
     at_cmd CMD_SIM_CHECK 3000 1 (Some (asc ''AT+QDSIM?'' @ crlf)) (Some NET_CMD_ACK_OK),
     at_cmd CMD_SIM_CHANGE_1 3000 3 (Some (asc ''AT+QDSIM=0'' @ crlf)) (Some NET_CMD_ACK_OK),
     at_cmd CMD_SIM_CHANGE_2 3000 3 (Some (asc ''AT+QDSIM=1'' @ crlf)) (Some NET_CMD_ACK_OK)]"

definition module_4g_cmds :: "module_type \<Rightarrow> at_cmd_t list" where
  "module_4g_cmds m = (if lierda m then nt_module_4g_cmds else ec_module_4g_cmds)"

definition nt_config_steps :: "net4g_at_step_t list" where
  "nt_config_steps = [
     at_step 0 CMD_ID_HANDSHAKE 1 0,
     at_step 1 CMD_ID_SET_CLOSE_ATE 2 2,
     at_step 2 CMD_ID_GET_MODULE_INFO 3 33,
     at_step 3 CMD_ID_GET_IMEI 4 33,
     at_step 4 CMD_ID_GET_SN_NO 5 33,
     at_step 5 CMD_ID_RF_OFF 6 33,
     at_step 6 CMD_SIM_CHANGE_2 7 7,
     at_step 7 CMD_ID_RF_ON 8 33,
     at_step 8 CMD_SIM_CHECK 9 12,
     at_step 9 CMD_ID_GET_SIM_NO 10 12,
     at_step 10 CMD_ID_GET_SIM_STATE 11 12,
     at_step 11 CMD_ID_GET_NET_STATE 12 12,
     at_step 12 CMD_ID_RF_OFF 13 33,
     at_step 13 CMD_SIM_CHANGE_1 14 14,
     at_step 14 CMD_ID_RF_ON 15 33,
     at_step 15 CMD_SIM_CHECK 16 19,
     at_step 16 CMD_ID_GET_SIM_NO 17 19,
     at_step 17 CMD_ID_GET_SIM_STATE 18 19,
     at_step 18 CMD_ID_GET_NET_STATE 26 19,
     at_step 19 CMD_ID_RF_OFF 20 33,
     at_step 20 CMD_SIM_CHANGE_2 21 21,
     at_step 21 CMD_ID_RF_ON 22 33,
     at_step 22 CMD_SIM_CHECK 23 33,
     at_step 23 CMD_ID_GET_SIM_NO 24 33,
     at_step 24 CMD_ID_GET_SIM_STATE 25 33,
     at_step 25 CMD_ID_GET_NET_STATE 26 33,
     at_step 26 CMD_ID_MQTT_DISCONNECT 30 30,
     at_step 27 CMD_ID_GET_LOCATION_PARA 29 28,
     at_step 28 CMD_ID_SET_LOCATION_PARA 29 29,
     at_step 29 CMD_ID_GET_LOCATION_ADDR 30 30,
     at_step 30 CMD_ID_GET_CELL 31 31,
     at_step 31 CMD_ID_GET_RSSI 32 33,
     at_step 32 CMD_ID_SUCCESS 32 32,
     at_step 33 CMD_ID_ERROR 33 33]"

definition ec_config_steps :: "net4g_at_step_t list" where
  "ec_config_steps = [
     at_step 0 CMD_ID_HANDSHAKE 1 0,
     at_step 1 CMD_ID_SET_CLOSE_ATE 2 2,
     at_step 2 CMD_ID_RF_OFF 3 3,
     at_step 3 CMD_ID_MIN_LEV 4 4,
     at_step 4 CMD_ID_SET_FENCE 5 5,
     at_step 5 CMD_ID_RF_ON 6 6,
     at_step 6 CMD_ID_GET_MODULE_INFO 7 38,
     at_step 7 CMD_ID_GET_IMEI 8 38,
     at_step 8 CMD_ID_GET_SN_NO 9 38,
     at_step 9 CMD_SIM_CHANGE_2 10 15,
     at_step 10 CMD_SIM_CHECK 11 15,
     at_step 11 CMD_ID_IS_SIM_OK 12 15,
     at_step 12 CMD_ID_GET_SIM_NO 13 15,
     at_step 13 CMD_ID_GET_SIM_STATE 14 15,
     at_step 14 CMD_ID_GET_NET_STATE 15 15,
     at_step 15 CMD_SIM_CHANGE_1 16 21,
     at_step 16 CMD_SIM_CHECK 17 21,
     at_step 17 CMD_ID_IS_SIM_OK 18 21,
     at_step 18 CMD_ID_GET_SIM_NO 19 21,
     at_step 19 CMD_ID_GET_SIM_STATE 20 21,
     at_step 20 CMD_ID_GET_NET_STATE 27 21,
     at_step 21 CMD_SIM_CHANGE_2 22 38,
     at_step 22 CMD_SIM_CHECK 23 38,
     at_step 23 CMD_ID_IS_SIM_OK 24 38,
     at_step 24 CMD_ID_GET_SIM_NO 25 38,
     at_step 25 CMD_ID_GET_SIM_STATE 26 38,
     at_step 26 CMD_ID_GET_NET_STATE 27 38,
     at_step 27 CMD_ID_SET_PDP 28 28,
     at_step 28 CMD_ID_SET_DNS 29 29,
     at_step 29 CMD_ID_MQTT_DISCONNECT 34 34,
     at_step 30 CMD_ID_GET_LOCATION_PARA 32 31,
     at_step 31 CMD_ID_SET_LOCATION_PARA 32 32,
     at_step 32 CMD_ID_GET_LOCATION_ADDR 33 33,
     at_step 33 CMD_ID_GET_QCELL 34 34,
     at_step 34 CMD_ID_GET_QENG_SERVINGCELL 35 35,
     at_step 35 CMD_ID_GET_QENG_NEIGHBOURCELL 36 36,
     at_step 36 CMD_ID_GET_RSSI 37 37,
     at_step 37 CMD_ID_SUCCESS 37 37,
     at_step 38 CMD_ID_ERROR 38 38]"

definition eg_config_steps :: "net4g_at_step_t list" where
  "eg_config_steps = [
     at_step 0 CMD_ID_HANDSHAKE 1 0,
     at_step 1 CMD_ID_SET_CLOSE_ATE 2 2,
     at_step 2 CMD_ID_GET_MODULE_INFO 3 19,
     at_step 3 CMD_ID_GET_IMEI 4 19,
     at_step 4 CMD_ID_GET_SN_NO 5 19,
     at_step 5 CMD_ID_IS_SIM_OK 6 19,
     at_step 6 CMD_ID_GET_SIM_NO 7 19,
     at_step 7 CMD_ID_SET_APN 8 19,
     at_step 8 CMD_ID_GET_SIM_STATE 9 19,
     at_step 9 CMD_ID_GET_NET_STATE 10 19,
     at_step 10 CMD_ID_MQTT_DISCONNECT 11 11,
     at_step 11 CMD_ID_GET_LOCATION_PARA 13 12,
     at_step 12 CMD_ID_SET_LOCATION_PARA 13 14,
     at_step 13 CMD_ID_GET_LOCATION_ADDR 14 14,
     at_step 14 CMD_ID_GET_QCELL 15 15,
     at_step 15 CMD_ID_GET_QENG_SERVINGCELL 16 16,
     at_step 16 CMD_ID_GET_QENG_NEIGHBOURCELL 17 17,
     at_step 17 CMD_ID_GET_RSSI 18 19,
     at_step 18 CMD_ID_SUCCESS 18 18,
     at_step 19 CMD_ID_ERROR 19 19]"

definition net4g_config_command_steps :: "module_type \<Rightarrow> net4g_at_step_t list" where
  "net4g_config_command_steps m = (if lierda m then nt_config_steps else if m = EG800GEU then eg_config_steps else ec_config_steps)"

definition nt_cell_steps :: "net4g_at_step_t list" where
  "nt_cell_steps = [
     at_step 0 CMD_ID_GET_CELL 1 1,
     at_step 1 CMD_ID_GET_RSSI 2 3,
     at_step 2 CMD_ID_SUCCESS 2 2,
     at_step 3 CMD_ID_ERROR 3 3]"

definition ec_cell_steps :: "net4g_at_step_t list" where
  "ec_cell_steps = [
     at_step 0 CMD_ID_GET_QENG_SERVINGCELL 1 1,
     at_step 1 CMD_ID_GET_RSSI 2 3,
     at_step 2 CMD_ID_SUCCESS 2 2,
     at_step 3 CMD_ID_ERROR 3 3]"

definition net4g_get_cell_info_config_command_steps :: "module_type \<Rightarrow> net4g_at_step_t list" where
  "net4g_get_cell_info_config_command_steps m = (if lierda m then nt_cell_steps else ec_cell_steps)"

definition nt_active_steps :: "net4g_at_step_t list" where
  "nt_active_steps = [
     at_step 0 CMD_ID_ACTIVE_HTTP_CONFIG_CACHE 1 11,
     at_step 1 CMD_ID_ROUTE_HTTP_CONFIG_SSL_CTX_ID 2 11,
     at_step 2 CMD_ID_ACTIVE_SET_URL_CMD 3 11,
     at_step 3 CMD_ID_ACTIVE_SET_URL_DATA 4 11,
     at_step 4 CMD_ID_ACTIVE_SET_CONNECT_URL 5 11,
     at_step 5 CMD_ID_ACTIVE_GET_HTTP_RSP 6 11,
     at_step 6 CMD_ID_ACTIVE_CONFIRM_SET_URL_CMD 7 11,
     at_step 7 CMD_ID_ACTIVE_CONFIRM_SET_URL_DATA 8 11,
     at_step 8 CMD_ID_ACTIVE_CONFIRM_CONNECT_URL 9 11,
     at_step 9 CMD_ID_ACTIVE_CONFIRM_GET_HTTP_RSP 10 11,
     at_step 10 CMD_ID_SUCCESS 10 10,
     at_step 11 CMD_ID_ERROR 11 11]"

definition ec_active_steps :: "net4g_at_step_t list" where
  "ec_active_steps = [
     at_step 0 CMD_ID_ACTIVE_SET_URL_CMD 1 0,
     at_step 1 CMD_ID_ACTIVE_SET_URL_DATA 2 9,
     at_step 2 CMD_ID_ACTIVE_SET_CONNECT_URL 3 9,
     at_step 3 CMD_ID_ACTIVE_GET_HTTP_RSP 4 9,
     at_step 4 CMD_ID_ACTIVE_CONFIRM_SET_URL_CMD 5 9,
     at_step 5 CMD_ID_ACTIVE_CONFIRM_SET_URL_DATA 6 9,
     at_step 6 CMD_ID_ACTIVE_CONFIRM_CONNECT_URL 7 9,
     at_step 7 CMD_ID_ACTIVE_CONFIRM_GET_HTTP_RSP 8 9,
     at_step 8 CMD_ID_SUCCESS 8 8,
     at_step 9 CMD_ID_ERROR 9 9]"

definition device_active_steps :: "module_type \<Rightarrow> net4g_at_step_t list" where
  "device_active_steps m = (if lierda m then nt_active_steps else ec_active_steps)"

definition nt_route_steps :: "net4g_at_step_t list" where
  "nt_route_steps = [
     at_step 0 CMD_ID_ROUTE_HTTP_CONFIG_CACHE 1 6,
     at_step 1 CMD_ID_ROUTE_SET_URL_CMD 2 6,
     at_step 2 CMD_ID_ROUTE_SET_URL_DATA 3 6,
     at_step 3 CMD_ID_ROUTE_CONNECT_URL 4 6,
     at_step 4 CMD_ID_ROUTE_GET_HTTP_RSP 5 6,
     at_step 5 CMD_ID_SUCCESS 5 5,
     at_step 6 CMD_ID_ERROR 6 6]"

definition ec_route_steps :: "net4g_at_step_t list" where
  "ec_route_steps = [
     at_step 0 CMD_ID_ROUTE_SET_URL_CMD 1 5,
     at_step 1 CMD_ID_ROUTE_SET_URL_DATA 2 5,
     at_step 2 CMD_ID_ROUTE_CONNECT_URL 3 5,
     at_step 3 CMD_ID_ROUTE_GET_HTTP_RSP 4 5,
     at_step 4 CMD_ID_SUCCESS 4 4,
     at_step 5 CMD_ID_ERROR 5 5]"

definition device_route_steps :: "module_type \<Rightarrow> net4g_at_step_t list" where
  "device_route_steps m = (if lierda m then nt_route_steps else ec_route_steps)"

definition nt_signIn_steps :: "net4g_at_step_t list" where
  "nt_signIn_steps = [
     at_step 0 CMD_ID_MQTT_DISCONNECT 1 1,
     at_step 1 CMD_ID_MQTT_NET_CLOSE 2 2,
     at_step 2 CMD_ID_MQTT_CONFIG_SENDMODE 3 12,
     at_step 3 CMD_ID_MQTT_CONFIG_SESSION 4 12,
     at_step 4 CMD_ID_MQTT_TCONFIG_VERSION 5 12,
     at_step 5 CMD_ID_MQTT_CONFIG_TIMEOUT 6 12,
     at_step 6 CMD_ID_MQTT_CONFIG_KEEPALIVE 7 12,
     at_step 7 CMD_ID_MQTT_CONFIG_RECMODE 8 12,
     at_step 8 CMD_ID_MQTT_OPEN 9 12,
     at_step 9 CMD_ID_MQTT_CONNECT 10 12,
     at_step 10 CMD_ID_MQTT_SUB_TOPIC 11 12,
     at_step 11 CMD_ID_SUCCESS 11 11,
     at_step 12 CMD_ID_ERROR 12 12]"

definition ec_signIn_steps :: "net4g_at_step_t list" where
  "ec_signIn_steps = [
     at_step 0 CMD_ID_MQTT_DISCONNECT 1 1,
     at_step 1 CMD_ID_MQTT_NET_CLOSE 2 2,
     at_step 2 CMD_ID_MQTT_CONFIG_PDP 3 12,
     at_step 3 CMD_ID_MQTT_CONFIG_SESSION 4 12,
     at_step 4 CMD_ID_MQTT_TCONFIG_VERSION 5 12,
     at_step 5 CMD_ID_MQTT_CONFIG_TIMEOUT 6 12,
     at_step 6 CMD_ID_MQTT_CONFIG_KEEPALIVE 7 12,
     at_step 7 CMD_ID_MQTT_CONFIG_RECMODE 8 12,
     at_step 8 CMD_ID_MQTT_OPEN 9 12,
     at_step 9 CMD_ID_MQTT_CONNECT 10 12,
     at_step 10 CMD_ID_MQTT_SUB_TOPIC 11 12,
     at_step 11 CMD_ID_SUCCESS 11 11,
     at_step 12 CMD_ID_ERROR 12 12]"

definition device_signIn_steps :: "module_type \<Rightarrow> net4g_at_step_t list" where
  "device_signIn_steps m = (if lierda m then nt_signIn_steps else ec_signIn_steps)"

definition nt_ota_steps :: "net4g_at_step_t list" where
  "nt_ota_steps = [
     at_step 0 CMD_ID_OTA_HTTP_CONFIG_NO_CACHE 1 6,
     at_step 1 CMD_ID_OTA_SET_URL_CMD 2 6,
     at_step 2 CMD_ID_OTA_SET_URL_DATA 5 6,
     at_step 3 CMD_ID_OTA_DOWNLOAD_RANGE 5 6,
     at_step 4 CMD_ID_OTA_GET_HTTP_RSP 5 6,
     at_step 5 CMD_ID_SUCCESS 5 5,
     at_step 6 CMD_ID_ERROR 6 6]"

definition ec_ota_steps :: "net4g_at_step_t list" where
  "ec_ota_steps = [
     at_step 0 CMD_ID_OTA_HTTP_CONFIG 1 6,
     at_step 1 CMD_ID_OTA_SET_URL_CMD 2 6,
     at_step 2 CMD_ID_OTA_SET_URL_DATA 5 6,
     at_step 3 CMD_ID_OTA_DOWNLOAD_RANGE 5 6,
     at_step 4 CMD_ID_OTA_GET_HTTP_RSP 5 6,
     at_step 5 CMD_ID_SUCCESS 5 5,
     at_step 6 CMD_ID_ERROR 6 6]"

definition device_ota_steps :: "module_type \<Rightarrow> net4g_at_step_t list" where
  "device_ota_steps m = (if lierda m then nt_ota_steps else ec_ota_steps)"

text \<open>The value of an enumeration constant, and the lookup \<open>module_4g_cmds[id]\<close>.\<close>

definition enum_val :: "module_type \<Rightarrow> net4g_cmd_id \<Rightarrow> nat" where
  "enum_val m i = length (takeWhile (\<lambda>j. j \<noteq> i) (cmd_enum m))"

definition cmd_lookup :: "module_type \<Rightarrow> net4g_cmd_id \<Rightarrow> at_cmd_t option" where
  "cmd_lookup m i = fetch (module_4g_cmds m) (enum_val m i)"

section \<open>The command tables follow the enumerations\<close>

lemma cmd_table_order: "map cmd_state (module_4g_cmds m) @ [CMD_ID_SUCCESS, CMD_ID_ERROR] = cmd_enum m"
  by (simp add: module_4g_cmds_def cmd_enum_def nt_module_4g_cmds_def ec_module_4g_cmds_def
      nt_cmd_enum_def ec_cmd_enum_def)

lemma distinct_nt_cmd_enum: "distinct nt_cmd_enum"
  unfolding nt_cmd_enum_def by simp

lemma distinct_ec_cmd_enum: "distinct ec_cmd_enum"
  unfolding ec_cmd_enum_def by simp

end
