(* ===== verification/AtSteps.thy ===== *)
theory AtSteps
  imports AtTables
begin

text \<open>
  The step machines of \<^verbatim>\<open>src/ql_application/App_XD/netlink/app_net4g.c\<close>.  Every process of the driver
  (configuration, activation, routing, login, cell information) keeps an index into a table of steps,
  performs the command of that step and ends in the same way: it takes the success or the failure jump
  and reports whether the table's success or error row was reached.  That ending is modelled once here.
  The locale \<open>step_table\<close> states what a table has to promise for such a process to stay inside it and
  to come to an end, and it is interpreted on each table of the driver for each module.
\<close>

section \<open>Model\<close>

text \<open>The results of a command (the driver also uses the number 5) and of a process.\<close>

datatype at_ret = AT_OK | AT_ERR | AT_RET_5

datatype process_step_ret = PROCESS_WAIT | PROCESS_DONE | PROCESS_ERROR | PROCESS_END
  | PROCESS_NET_DISCONNECT | PROCESS_NET_TYPE_WIFI | PROCESS_FW_UPGRADE

definition at_advance :: "net4g_at_step_t list \<Rightarrow> nat \<Rightarrow> at_ret \<Rightarrow> nat option" where
  "at_advance ts i ret =
     (case ret of AT_OK \<Rightarrow> map_option s_jump (fetch ts i)
      | AT_RET_5 \<Rightarrow> Some i
      | AT_ERR \<Rightarrow> map_option f_jump (fetch ts i))"

definition at_finish :: "net4g_at_step_t list \<Rightarrow> nat \<Rightarrow> (nat \<times> process_step_ret) option" where
  "at_finish ts i =
     map_option (\<lambda>t. if step_id t = CMD_ID_SUCCESS then (0, PROCESS_DONE)
                     else if step_id t = CMD_ID_ERROR then (0, PROCESS_ERROR)
                     else (i, PROCESS_WAIT)) (fetch ts i)"

definition at_step_end :: "net4g_at_step_t list \<Rightarrow> nat \<Rightarrow> at_ret \<Rightarrow> (nat \<times> process_step_ret) option" where
  "at_step_end ts i ret = Option.bind (at_advance ts i ret) (at_finish ts)"

section \<open>Tables that a process can run on\<close>

definition terminal_row :: "net4g_at_step_t \<Rightarrow> bool" where
  "terminal_row t \<longleftrightarrow> step_id t = CMD_ID_SUCCESS \<or> step_id t = CMD_ID_ERROR"

definition running :: "net4g_at_step_t list \<Rightarrow> nat \<Rightarrow> bool" where
  "running ts i \<longleftrightarrow> i < length ts \<and> \<not> terminal_row (ts ! i)"

text \<open>The executable form of the promise.\<close>

definition row_ok :: "net4g_at_step_t list \<Rightarrow> nat \<Rightarrow> bool" where
  "row_ok ts i \<longleftrightarrow>
     step_no (ts ! i) = i \<and>
     (if terminal_row (ts ! i) then s_jump (ts ! i) = i \<and> f_jump (ts ! i) = i
      else i < s_jump (ts ! i) \<and> s_jump (ts ! i) < length ts \<and>
           step_id (ts ! s_jump (ts ! i)) \<noteq> CMD_ID_ERROR \<and>
           (i < f_jump (ts ! i) \<and> f_jump (ts ! i) < length ts \<or> i = 0 \<and> f_jump (ts ! i) = 0))"

definition steps_ok :: "net4g_at_step_t list \<Rightarrow> bool" where
  "steps_ok ts \<longleftrightarrow> running ts 0 \<and> list_all (row_ok ts) [0..<length ts]"

locale step_table =
  fixes ts :: "net4g_at_step_t list"
  assumes starts_running: "running ts 0"
    and s_jump_forward: "running ts i \<Longrightarrow> i < s_jump (ts ! i)"
    and s_jump_in: "running ts i \<Longrightarrow> s_jump (ts ! i) < length ts"
    and s_jump_no_error: "running ts i \<Longrightarrow> step_id (ts ! s_jump (ts ! i)) \<noteq> CMD_ID_ERROR"
    and f_jump_forward: "running ts i \<Longrightarrow> i < f_jump (ts ! i) \<or> i = 0 \<and> f_jump (ts ! i) = 0"
    and f_jump_in: "running ts i \<Longrightarrow> f_jump (ts ! i) < length ts"
begin

lemma finish_in: "j < length ts \<Longrightarrow>
    at_finish ts j = Some (if running ts j then (j, PROCESS_WAIT)
      else (0, if step_id (ts ! j) = CMD_ID_SUCCESS then PROCESS_DONE else PROCESS_ERROR))"
  by (auto simp: at_finish_def running_def terminal_row_def)

lemma step_end_in:
  assumes "running ts i" and "ret \<noteq> AT_RET_5"
  shows "\<exists>j p. at_step_end ts i ret = Some (j, p) \<and> running ts j \<and>
    (if p = PROCESS_WAIT then i < j \<or> i = 0 \<and> j = 0 \<and> f_jump (ts ! 0) = 0 else j = 0) \<and>
    (ret = AT_OK \<longrightarrow> p \<noteq> PROCESS_ERROR)"
proof -
  have i: "i < length ts" using assms(1) by (simp add: running_def)
  show ?thesis
  proof (cases ret)
    case AT_OK
    then have "at_step_end ts i ret = at_finish ts (s_jump (ts ! i))"
      using i by (simp add: at_step_end_def at_advance_def)
    then show ?thesis
      using finish_in [OF s_jump_in [OF assms(1)]] starts_running s_jump_forward [OF assms(1)]
        s_jump_no_error [OF assms(1)] s_jump_in [OF assms(1)]
      by (auto simp: running_def terminal_row_def split: if_splits)
  next
    case AT_ERR
    then have "at_step_end ts i ret = at_finish ts (f_jump (ts ! i))"
      using i by (simp add: at_step_end_def at_advance_def)
    then show ?thesis
      using finish_in [OF f_jump_in [OF assms(1)]] starts_running f_jump_forward [OF assms(1)] AT_ERR
      by (auto split: if_splits)
  qed (use assms(2) in simp)
qed

lemma step_end_5: "running ts i \<Longrightarrow> at_step_end ts i AT_RET_5 = Some (i, PROCESS_WAIT)"
  using finish_in [of i] by (simp add: at_step_end_def at_advance_def running_def)

lemma step_end_total: "running ts i \<Longrightarrow> \<exists>j p. at_step_end ts i ret = Some (j, p) \<and> running ts j"
  using step_end_in [of i ret] step_end_5 [of i] by (cases "ret = AT_RET_5") auto

end

lemma step_tableI:
  assumes "steps_ok ts"
  shows "step_table ts"
proof
  show "running ts 0" using assms by (simp add: steps_ok_def)
  fix i
  assume "running ts i"
  then have "row_ok ts i" and i: "\<not> terminal_row (ts ! i)" and "i < length ts"
    using assms by (auto simp: steps_ok_def running_def list_all_iff)
  then show "i < s_jump (ts ! i)" and "s_jump (ts ! i) < length ts"
    and "step_id (ts ! s_jump (ts ! i)) \<noteq> CMD_ID_ERROR"
    and "i < f_jump (ts ! i) \<or> i = 0 \<and> f_jump (ts ! i) = 0" and "f_jump (ts ! i) < length ts"
    by (auto simp: row_ok_def)
qed

lemmas steps_eval = steps_ok_def row_ok_def running_def terminal_row_def upt_rec

lemma nt_tables_ok:
  "steps_ok nt_config_steps" "steps_ok nt_cell_steps" "steps_ok nt_active_steps"
  "steps_ok nt_route_steps" "steps_ok nt_signIn_steps" "steps_ok nt_ota_steps"
  by (simp_all add: steps_eval nt_config_steps_def nt_cell_steps_def nt_active_steps_def
      nt_route_steps_def nt_signIn_steps_def nt_ota_steps_def)

lemma ec_tables_ok:
  "steps_ok ec_config_steps" "steps_ok eg_config_steps" "steps_ok ec_cell_steps" "steps_ok ec_active_steps"
  "steps_ok ec_route_steps" "steps_ok ec_signIn_steps" "steps_ok ec_ota_steps"
  by (simp_all add: steps_eval ec_config_steps_def eg_config_steps_def ec_cell_steps_def ec_active_steps_def
      ec_route_steps_def ec_signIn_steps_def ec_ota_steps_def)


interpretation config_table: step_table "net4g_config_command_steps m" for m
  by (rule step_tableI) (simp add: net4g_config_command_steps_def nt_tables_ok ec_tables_ok)

interpretation cell_table: step_table "net4g_get_cell_info_config_command_steps m" for m
  by (rule step_tableI) (simp add: net4g_get_cell_info_config_command_steps_def nt_tables_ok ec_tables_ok)

interpretation active_table: step_table "device_active_steps m" for m
  by (rule step_tableI) (simp add: device_active_steps_def nt_tables_ok ec_tables_ok)

interpretation route_table: step_table "device_route_steps m" for m
  by (rule step_tableI) (simp add: device_route_steps_def nt_tables_ok ec_tables_ok)

interpretation signIn_table: step_table "device_signIn_steps m" for m
  by (rule step_tableI) (simp add: device_signIn_steps_def nt_tables_ok ec_tables_ok)

interpretation ota_table: step_table "device_ota_steps m" for m
  by (rule step_tableI) (simp add: device_ota_steps_def nt_tables_ok ec_tables_ok)

lemma cmd_lookup_state:
  "map_option cmd_state (cmd_lookup m i) = (if i \<in> set (map cmd_state (module_4g_cmds m)) then Some i else None)"
proof -
  let ?cs = "map cmd_state (module_4g_cmds m)" and ?P = "\<lambda>j. j \<noteq> i"
  have enum: "cmd_enum m = ?cs @ [CMD_ID_SUCCESS, CMD_ID_ERROR]" by (simp add: cmd_table_order)
  show ?thesis
  proof (cases "i \<in> set ?cs")
    case True
    then have "enum_val m i = length (takeWhile ?P ?cs)" by (auto simp: enum_val_def enum takeWhile_append1)
    moreover have "length (takeWhile ?P ?cs) < length ?cs"
      using True by (rule length_takeWhile_less) simp
    moreover have "?cs ! length (takeWhile ?P ?cs) = i"
      using nth_length_takeWhile calculation(2) by blast
    ultimately show ?thesis using True by (simp add: cmd_lookup_def)
  next
    case False
    then have "takeWhile ?P (?cs @ zs) = ?cs @ takeWhile ?P zs" for zs by (intro takeWhile_append2) auto
    then have "length ?cs \<le> enum_val m i" by (simp add: enum_val_def enum)
    then show ?thesis using False by (simp add: cmd_lookup_def)
  qed
qed

text \<open>Every row but the first has a command, and every row of the configuration a command in the table.\<close>

lemma commands_have_text:
  "list_all (\<lambda>c. cmd_state c = CMD_ID_NONE \<or> p_cmd c \<noteq> None) (module_4g_cmds m)"
  by (simp add: module_4g_cmds_def nt_module_4g_cmds_def ec_module_4g_cmds_def)

lemma cmd_lookup_text:
  assumes "i \<in> set (map cmd_state (module_4g_cmds m))" and "i \<noteq> CMD_ID_NONE"
  shows "\<exists>cmd c. cmd_lookup m i = Some cmd \<and> p_cmd cmd = Some c"
proof -
  obtain cmd where cmd: "cmd_lookup m i = Some cmd" "cmd_state cmd = i"
    using cmd_lookup_state [of m i] assms(1) by auto
  then have "cmd \<in> set (module_4g_cmds m)"
    by (metis cmd_lookup_def fetch_def nth_mem option.inject option.discI)
  then show ?thesis using cmd assms(2) commands_have_text [of m] by (auto simp: list_all_iff)
qed

text \<open>Looking a command up by its enumeration value finds the row of that command, for every module and
  identifier; SUCCESS, ERROR and the identifiers of the other modules have no row.\<close>

lemma cmd_lookup_row:
  "map_option cmd_state (cmd_lookup m i) = (if i \<in> set (map cmd_state (module_4g_cmds m)) then Some i else None)"
  by (rule cmd_lookup_state)

end
