(* ===== verification/CString.thy ===== *)
theory CString
  imports Prelude
begin

text \<open>
  The string functions of the C library that the network driver uses, on a buffer given as the list
  of its bytes.  A string starts at an offset and ends before the next 0; a buffer without one has no
  string there, and the functions answer \<open>None\<close>, because the C functions read past its end.
\<close>

section \<open>Model\<close>

definition c_string :: "bytes \<Rightarrow> nat \<Rightarrow> bytes option" where
  "c_string mem off =
     (if 0 \<in> set (drop off mem) then Some (takeWhile (\<lambda>c. c \<noteq> 0) (drop off mem)) else None)"

fun is_prefix :: "'a list \<Rightarrow> 'a list \<Rightarrow> bool" where
  "is_prefix [] ys = True"
| "is_prefix (x # xs) [] = False"
| "is_prefix (x # xs) (y # ys) = (x = y \<and> is_prefix xs ys)"

fun find_sub :: "'a list \<Rightarrow> 'a list \<Rightarrow> nat option" where
  "find_sub needle hay =
     (if is_prefix needle hay then Some 0
      else case hay of [] \<Rightarrow> None | _ # hay \<Rightarrow> map_option Suc (find_sub needle hay))"

declare find_sub.simps [simp del]

text \<open>\<open>strstr mem off needle\<close>: the offset in \<open>mem\<close> of the first occurrence, if there is one.\<close>

definition strstr :: "bytes \<Rightarrow> nat \<Rightarrow> bytes \<Rightarrow> nat option option" where
  "strstr mem off needle =
     map_option (\<lambda>s. map_option (\<lambda>i. off + i) (find_sub needle s)) (c_string mem off)"

text \<open>\<open>atoi\<close> of a string: white space, a sign, digits.\<close>

definition is_digit :: "u8 \<Rightarrow> bool" where
  "is_digit c \<longleftrightarrow> 0x30 \<le> c \<and> c \<le> 0x39"

definition digits_value :: "bytes \<Rightarrow> int" where
  "digits_value s = foldl (\<lambda>n c. 10 * n + (uint c - 0x30)) 0 (takeWhile is_digit s)"

definition atoi :: "bytes \<Rightarrow> int" where
  "atoi s = (let s = dropWhile (\<lambda>c. c = 0x20 \<or> 9 \<le> c \<and> c \<le> 13) s
     in case s of [] \<Rightarrow> 0
        | c # cs \<Rightarrow> if c = 0x2D then - digits_value cs
                    else if c = 0x2B then digits_value cs else digits_value s)"

text \<open>\<open>sprintf\<close> with the conversions \<open>%s\<close> and \<open>%d\<close> and \<open>%lld\<close>, of numbers with or without sign.\<close>

fun decimal :: "nat \<Rightarrow> bytes" where
  "decimal n = (if n < 10 then [of_nat (0x30 + n)] else decimal (n div 10) @ [of_nat (0x30 + n mod 10)])"

declare decimal.simps [simp del]

datatype printf_arg = Str bytes | Num nat | Sgn int

fun printf_text :: "printf_arg \<Rightarrow> bytes" where
  "printf_text (Str s) = s"
| "printf_text (Num n) = decimal n"
| "printf_text (Sgn i) = (if i < 0 then 0x2D # decimal (nat (- i)) else decimal (nat i))"

text \<open>In a format, \<open>%lld\<close> is written \<open>%d\<close>.\<close>

fun sprintf :: "bytes \<Rightarrow> printf_arg list \<Rightarrow> bytes" where
  "sprintf (c # d # fmt) args =
     (if c = 0x25 \<and> (d = 0x73 \<or> d = 0x64)
      then (case args of [] \<Rightarrow> sprintf fmt [] | a # args \<Rightarrow> printf_text a @ sprintf fmt args)
      else c # sprintf (d # fmt) args)"
| "sprintf fmt args = fmt"

definition snprintf :: "nat \<Rightarrow> bytes \<Rightarrow> printf_arg list \<Rightarrow> bytes" where
  "snprintf n fmt args = take (n - 1) (sprintf fmt args)"

section \<open>Strings in buffers\<close>

lemma c_string_append [simp]:
  assumes "length p = off" and "0 \<notin> set s"
  shows "c_string (p @ s @ 0 # q) off = Some s"
proof -
  have "takeWhile (\<lambda>c. c \<noteq> 0) (s @ 0 # q) = s @ takeWhile (\<lambda>c. c \<noteq> 0) (0 # q)"
    using assms(2) by (intro takeWhile_append2) auto
  then show ?thesis using assms(1) by (simp add: c_string_def)
qed

lemma is_prefix_append: "is_prefix xs ys \<longleftrightarrow> (\<exists>zs. ys = xs @ zs)"
  by (induction xs ys rule: is_prefix.induct) auto

lemma find_sub_Nil: "find_sub n [] = (if n = [] then Some 0 else None)"
  by (subst find_sub.simps, cases n) simp_all

lemma find_sub_Cons:
  "find_sub n (c # h) = (if is_prefix n (c # h) then Some 0 else map_option Suc (find_sub n h))"
  by (subst find_sub.simps) simp

lemma find_sub_Some: "find_sub n h = Some i \<Longrightarrow> \<exists>p q. h = p @ n @ q \<and> length p = i"
proof (induction h arbitrary: i)
  case Nil
  then show ?case by (auto simp: find_sub_Nil split: if_splits)
next
  case (Cons c h)
  show ?case
  proof (cases "is_prefix n (c # h)")
    case True
    then show ?thesis using Cons.prems by (auto simp: find_sub_Cons is_prefix_append)
  next
    case False
    then obtain j where "find_sub n h = Some j" "i = Suc j"
      using Cons.prems by (auto simp: find_sub_Cons)
    moreover obtain p q where "h = p @ n @ q" "length p = j" using Cons.IH [OF \<open>find_sub n h = Some j\<close>] by auto
    ultimately have "c # h = (c # p) @ n @ q \<and> length (c # p) = i" by simp
    then show ?thesis by blast
  qed
qed

lemma find_sub_exists: "find_sub n (p @ n @ q) \<noteq> None"
proof (induction p)
  case Nil
  have "is_prefix n (n @ q)" by (simp add: is_prefix_append)
  then show ?case by (subst find_sub.simps) simp
next
  case (Cons c p)
  then show ?case by (simp add: find_sub_Cons)
qed

lemma find_sub_None: "find_sub n h = None \<longleftrightarrow> \<not> (\<exists>p q. h = p @ n @ q)"
proof
  assume none: "find_sub n h = None"
  show "\<not> (\<exists>p q. h = p @ n @ q)"
  proof
    assume "\<exists>p q. h = p @ n @ q"
    then obtain p q where "h = p @ n @ q" by blast
    then show False using none find_sub_exists [of n p q] by simp
  qed
next
  assume no: "\<not> (\<exists>p q. h = p @ n @ q)"
  show "find_sub n h = None"
  proof (rule ccontr)
    assume "find_sub n h \<noteq> None"
    then obtain i where "find_sub n h = Some i" by blast
    then show False using no find_sub_Some by blast
  qed
qed

text \<open>The first occurrence is found: none starts earlier.\<close>

lemma find_sub_first:
  assumes "\<And>p' q'. p @ n @ q = p' @ n @ q' \<Longrightarrow> length p \<le> length p'"
  shows "find_sub n (p @ n @ q) = Some (length p)"
proof -
  obtain i where i: "find_sub n (p @ n @ q) = Some i"
    using find_sub_exists by blast
  have le: "find_sub n (p' @ n @ q') = Some j \<Longrightarrow> j \<le> length p'" for p' q' j
  proof (induction p' arbitrary: j)
    case Nil
    then show ?case by (subst (asm) find_sub.simps) (simp add: is_prefix_append)
  next
    case (Cons c p')
    then show ?case by (auto simp: find_sub_Cons split: if_splits)
  qed
  obtain p' q' where "p @ n @ q = p' @ n @ q'" "length p' = i"
    using find_sub_Some [OF i] by auto
  with assms le [OF i] i show ?thesis by (metis le_antisym)
qed

lemma find_sub_bound: "find_sub n h = Some i \<Longrightarrow> i + length n \<le> length h"
  by (drule find_sub_Some) auto

lemma find_sub_head:
  assumes "n \<noteq> []" and "hd n \<notin> set p"
  shows "find_sub n (p @ n @ q) = Some (length p)"
proof (rule find_sub_first)
  fix p' q'
  assume eq: "p @ n @ q = p' @ n @ q'"
  show "length p \<le> length p'"
  proof (rule ccontr)
    assume "\<not> length p \<le> length p'"
    then have "p ! length p' = hd n"
      using arg_cong [OF eq, of "\<lambda>xs. xs ! length p'"] assms(1) by (simp add: nth_append hd_conv_nth)
    then show False using assms(2) \<open>\<not> length p \<le> length p'\<close> by (metis not_le nth_mem)
  qed
qed

lemma find_sub_absent: "n \<noteq> [] \<Longrightarrow> hd n \<notin> set h \<Longrightarrow> find_sub n h = None"
  by (cases n) (auto simp: find_sub_None)

section \<open>Decimal numbers\<close>

lemma uint_digit: "k < 10 \<Longrightarrow> uint (of_nat (0x30 + k) :: u8) = 0x30 + int k"
  by (simp add: uint_nat unat_of_nat_u8 del: of_nat_add)

lemma is_digit_digit: "k < 10 \<Longrightarrow> is_digit (of_nat (0x30 + k))"
  by (simp add: is_digit_def word_le_def uint_digit del: of_nat_add)

lemma decimal_digits: "list_all is_digit (decimal n)"
  by (induction n rule: decimal.induct) (subst decimal.simps, auto simp: is_digit_digit simp del: of_nat_add)

lemma decimal_not_Nil: "decimal n \<noteq> []"
  by (subst decimal.simps) simp

lemma decimal_value: "foldl (\<lambda>n c. 10 * n + (uint c - 0x30)) 0 (decimal n) = int n"
proof (induction n rule: decimal.induct)
  case (1 n)
  show ?case
  proof (cases "n < 10")
    case True
    then show ?thesis using uint_digit [of n] by (subst decimal.simps) (simp del: of_nat_add)
  next
    case False
    then show ?thesis
      using 1 uint_digit [of "n mod 10"] by (subst decimal.simps) (simp del: of_nat_add, presburger)
  qed
qed

lemma digits_value_decimal:
  assumes "s = [] \<or> \<not> is_digit (hd s)"
  shows "digits_value (decimal n @ s) = int n"
proof -
  have "takeWhile is_digit (decimal n @ s) = decimal n @ takeWhile is_digit s"
    using decimal_digits [of n] by (intro takeWhile_append2) (simp add: list_all_iff)
  moreover have "takeWhile is_digit s = []" using assms by (cases s) auto
  ultimately show ?thesis by (simp add: digits_value_def decimal_value)
qed

lemma atoi_decimal:
  assumes "s = [] \<or> \<not> is_digit (hd s)"
  shows "atoi (decimal n @ s) = int n"
proof -
  obtain c cs where d: "decimal n = c # cs" using decimal_not_Nil [of n] by (cases "decimal n") auto
  then have "is_digit c" using decimal_digits [of n] by simp
  then have c: "uint c \<ge> 0x30" "uint c \<le> 0x39" by (simp_all add: is_digit_def word_le_def)
  then have "c \<noteq> 0x20" "\<not> c \<le> 13" "c \<noteq> 0x2D" "c \<noteq> 0x2B"
    by (auto simp: word_le_def)
  then show ?thesis
    using digits_value_decimal [OF assms, of n] by (simp add: atoi_def d)
qed

lemma length_decimal: "n < 10 ^ k \<Longrightarrow> 0 < k \<Longrightarrow> length (decimal n) \<le> k"
proof (induction n arbitrary: k rule: decimal.induct)
  case (1 n)
  show ?case
  proof (cases "n < 10")
    case True
    then show ?thesis using 1(3) by (subst decimal.simps) simp
  next
    case False
    then obtain j where k: "k = Suc j" "0 < j" using 1(2,3) by (cases k; cases "k - 1") auto
    then have "n div 10 < 10 ^ j" using 1(2) by (simp add: less_mult_imp_div_less mult.commute)
    then show ?thesis using 1(1) [OF False, of j] k False by (subst decimal.simps) simp
  qed
qed

lemma decimal_not_in: "\<not> is_digit c \<Longrightarrow> c \<notin> set (decimal n)"
  using decimal_digits [of n] by (auto simp: list_all_iff)

text \<open>A string written over an array without terminator goes on with what was behind it.\<close>

lemma c_string_blit:
  assumes "0 \<notin> set s" and "length s \<le> length dst"
  shows "c_string (blit dst 0 s) 0 = map_option ((@) s) (c_string dst (length s))"
  using assms by (auto simp: c_string_def blit_def takeWhile_append)

end
