(* ===== verification/AtParse.thy ===== *)
theory AtParse
  imports CString
begin

text \<open>
  How \<^verbatim>\<open>src/ql_application/App_XD/netlink/app_net4g.c\<close> takes values out of the module's responses:
  \<open>get_atcmd_rsp_value\<close>, between a head and a tail keyword, and
  \<open>get_atcmd_rsp_before_after_value\<close>, on both sides of one.  The source is a buffer, the destinations
  are given by their capacity and what is written to them.  An answer \<open>None\<close> is an access outside a
  buffer, \<open>Some None\<close> the C result 0 and \<open>Some (Some v)\<close> the C result 1 with \<open>v\<close> written.  Lengths and
  counters are kept at the 8 bits the C code gives them.
\<close>

section \<open>Model\<close>

text \<open>The characters that are stripped from both ends of a value: CR, LF, blank, quote, 0.\<close>

definition at_blank :: "u8 \<Rightarrow> bool" where
  "at_blank c \<longleftrightarrow> c = 13 \<or> c = 10 \<or> c = 32 \<or> c = 34 \<or> c = 0"

text \<open>The two stripping loops, which run at most \<open>n\<close> times, from \<open>off\<close> on and before \<open>off\<close>.\<close>

fun skip_front :: "nat \<Rightarrow> bytes \<Rightarrow> nat \<Rightarrow> nat option" where
  "skip_front 0 mem off = Some 0"
| "skip_front (Suc n) mem off =
     Option.bind (fetch mem off) (\<lambda>c.
     if at_blank c then map_option Suc (skip_front n mem (Suc off)) else Some 0)"

fun skip_back :: "nat \<Rightarrow> bytes \<Rightarrow> nat \<Rightarrow> nat option" where
  "skip_back 0 mem off = Some 0"
| "skip_back (Suc n) mem off =
     Option.bind (fetch mem (off - 1)) (\<lambda>c.
     if at_blank c then map_option Suc (skip_back n mem (off - 1)) else Some 0)"

text \<open>From the found head (\<open>offset_head\<close>, \<open>tempData_len\<close>) on.\<close>

definition rsp_value_from :: "bytes \<Rightarrow> nat \<Rightarrow> u8 \<Rightarrow> bytes \<Rightarrow> nat \<Rightarrow> bytes option option" where
  "rsp_value_from srcData offset_head tempData_len tailKey cap =
     Option.bind (skip_front (unat tempData_len) srcData offset_head) (\<lambda>i.
     let offset_head = offset_head + i in
     Option.bind (strstr srcData offset_head tailKey) (\<lambda>found.
     case found of None \<Rightarrow> Some None
     | Some offset_tail \<Rightarrow>
         let tempData_len = of_nat (offset_tail - offset_head) :: u8 in
         Option.bind (skip_back (unat tempData_len) srcData offset_tail) (\<lambda>i.
         let offset_tail = offset_tail - i;
             tempData_len = of_nat (offset_tail - offset_head) :: u8
         in if tempData_len = 0 then Some None
            else if unat tempData_len \<le> cap
            then Some (Some (take (unat tempData_len) (drop offset_head srcData)))
            else None)))"

definition get_atcmd_rsp_value :: "bytes \<Rightarrow> u32 \<Rightarrow> bytes option \<Rightarrow> bytes \<Rightarrow> nat \<Rightarrow> bytes option option" where
  "get_atcmd_rsp_value srcData srcLen headKey tailKey cap =
     (case headKey of
        None \<Rightarrow> rsp_value_from srcData 0 (ucast srcLen) tailKey cap
      | Some key \<Rightarrow>
          Option.bind (strstr srcData 0 key) (\<lambda>found.
          case found of None \<Rightarrow> Some None
          | Some i \<Rightarrow> rsp_value_from srcData (i + length key) (ucast (srcLen - of_nat (length key)))
                        tailKey cap))"

text \<open>The length of the value after the key when the source length is 0: up to 10 characters.\<close>

fun after_len :: "nat \<Rightarrow> bytes \<Rightarrow> nat \<Rightarrow> nat option" where
  "after_len 0 mem off = Some 0"
| "after_len (Suc n) mem off =
     Option.bind (fetch mem off) (\<lambda>c. if at_blank c then Some 0 else map_option Suc (after_len n mem (Suc off)))"

definition get_atcmd_rsp_before_after_value ::
    "bytes \<Rightarrow> u32 \<Rightarrow> bytes option \<Rightarrow> nat \<Rightarrow> nat \<Rightarrow> (bytes \<times> bytes) option option" where
  "get_atcmd_rsp_before_after_value srcData srcLen middleKey capBefore capAfter =
     (case middleKey of
        None \<Rightarrow> Some None
      | Some key \<Rightarrow>
          Option.bind (strstr srcData 0 key) (\<lambda>found.
          case found of None \<Rightarrow> Some None
          | Some before \<Rightarrow>
              if before = 0 then Some None
              else if capBefore < before then None
              else let off = before + length key in
                Option.bind (if 0 < srcLen then Some (unat (srcLen - of_nat before - of_nat (length key)))
                             else after_len 10 srcData off) (\<lambda>after.
                if after = 0 then Some None
                else if capAfter < after \<or> length srcData < off + after then None
                else Some (Some (take before srcData, take after (drop off srcData))))))"

section \<open>The stripping loops\<close>

lemma skip_front_blanks:
  "length p = off \<Longrightarrow> list_all at_blank j \<Longrightarrow> \<not> at_blank c \<Longrightarrow> length j \<le> n \<Longrightarrow>
    skip_front n (p @ j @ c # q) off = Some (length j)"
proof (induction j arbitrary: n p off)
  case Nil
  then show ?case by (cases n) auto
next
  case (Cons b j)
  then obtain m where "n = Suc m" by (cases n) auto
  moreover have "(p @ b # j @ c # q) ! off = b" using Cons.prems(1) by (auto simp: nth_append)
  ultimately show ?case using Cons.IH [of "p @ [b]" "Suc off" m] Cons.prems by simp
qed

lemma skip_back_blanks:
  "length p = k \<Longrightarrow> list_all at_blank j \<Longrightarrow> \<not> at_blank c \<Longrightarrow> length j \<le> n \<Longrightarrow>
    skip_back n (p @ c # j @ q) (k + 1 + length j) = Some (length j)"
proof (induction j arbitrary: n q rule: rev_induct)
  case Nil
  then show ?case by (cases n) auto
next
  case (snoc b j)
  then obtain m where "n = Suc m" by (cases n) auto
  moreover have "(p @ c # j @ b # q) ! (k + 1 + length j) = b"
    using snoc.prems(1) by (simp add: nth_append)
  ultimately show ?case using snoc.IH [of m "b # q"] snoc.prems by simp
qed

lemma rsp_value_from_value:
  assumes mem: "srcData = p @ j1 @ v @ j2 @ tailKey @ post @ 0 # rest" and off: "length p = off"
    and nz: "0 \<notin> set (v @ j2 @ tailKey @ post)"
    and blanks: "list_all at_blank j1" "list_all at_blank j2"
    and v: "v \<noteq> []" "\<not> at_blank (hd v)" "\<not> at_blank (last v)"
    and first: "find_sub tailKey (v @ j2 @ tailKey @ post) = Some (length v + length j2)"
    and n: "length j1 \<le> unat n" and short: "length v + length j2 < 256"
  shows "rsp_value_from srcData off n tailKey cap = (if length v \<le> cap then Some (Some v) else None)"
proof -
  obtain c vs where c: "v = c # vs" using v(1) by (cases v) auto
  obtain us d where d: "v = us @ [d]" using v(1) by (cases v rule: rev_cases) auto
  have front: "skip_front (unat n) srcData off = Some (length j1)"
    using skip_front_blanks [OF off blanks(1), of c "unat n" "vs @ j2 @ tailKey @ post @ 0 # rest"]
      v(2) n by (simp add: mem c)
  have string: "c_string srcData (off + length j1) = Some (v @ j2 @ tailKey @ post)"
    using c_string_append [of "p @ j1" "off + length j1" "v @ j2 @ tailKey @ post" rest] off nz
    by (simp add: mem)
  have strip: "skip_back (length v + length j2) srcData (off + length j1 + (length v + length j2)) = Some (length j2)"
    using skip_back_blanks [of "p @ j1 @ us" "off + length j1 + length us" j2 d "length v + length j2"
        "tailKey @ post @ 0 # rest"] off blanks(2) v(3)
    by (simp add: mem d algebra_simps)
  have "unat (of_nat (length v + length j2) :: u8) = length v + length j2"
    and "unat (of_nat (length v) :: u8) = length v" and "(of_nat (length v) :: u8) \<noteq> 0"
    using short v(1) by (simp_all add: unat_of_nat word_of_nat_eq_0_iff nat_dvd_not_less del: of_nat_add)
  moreover have "drop (off + length j1) srcData = v @ j2 @ tailKey @ post @ 0 # rest"
    by (simp add: mem off [symmetric])
  ultimately show ?thesis
    unfolding rsp_value_from_def
    by (simp add: front strstr_def string first strip Let_def del: of_nat_add)
qed

lemma after_len_text:
  "length p = off \<Longrightarrow> list_all (\<lambda>c. \<not> at_blank c) t \<Longrightarrow> length t \<le> n \<Longrightarrow>
    after_len n (p @ t @ 0 # q) off = Some (length t)"
proof (induction t arbitrary: n p off)
  case Nil
  then show ?case by (cases n) (auto simp: at_blank_def)
next
  case (Cons b t)
  then obtain m where "n = Suc m" by (cases n) auto
  moreover have "(p @ b # t @ 0 # q) ! off = b" using Cons.prems(1) by (auto simp: nth_append)
  ultimately show ?case using Cons.IH [of "p @ [b]" "Suc off" m] Cons.prems by simp
qed

lemma rsp_value_of_response:
  assumes "srcData = pre @ key @ j1 @ v @ j2 @ tailKey @ post @ 0 # rest"
    and "0 \<notin> set (pre @ key @ j1 @ v @ j2 @ tailKey @ post)"
    and "find_sub key (pre @ key @ j1 @ v @ j2 @ tailKey @ post) = Some (length pre)"
    and "find_sub tailKey (v @ j2 @ tailKey @ post) = Some (length v + length j2)"
    and "list_all at_blank j1" and "list_all at_blank j2"
    and "v \<noteq> []" and "\<not> at_blank (hd v)" and "\<not> at_blank (last v)"
    and "length j1 \<le> unat (ucast (srcLen - of_nat (length key)) :: u8)"
    and "length v + length j2 < 256"
  shows "get_atcmd_rsp_value srcData srcLen (Some key) tailKey cap
    = (if length v \<le> cap then Some (Some v) else None)"
proof -
  have "c_string srcData 0 = Some (pre @ key @ j1 @ v @ j2 @ tailKey @ post)"
    using c_string_append [of "[]" 0 "pre @ key @ j1 @ v @ j2 @ tailKey @ post" rest] assms(1,2) by simp
  then have "strstr srcData 0 key = Some (Some (length pre))"
    by (simp add: strstr_def assms(3))
  moreover have "rsp_value_from srcData (length pre + length key) (ucast (srcLen - of_nat (length key))) tailKey cap
      = (if length v \<le> cap then Some (Some v) else None)"
    by (rule rsp_value_from_value [of srcData "pre @ key" j1 v j2 tailKey post rest])
      (use assms in auto)
  ultimately show ?thesis by (simp add: get_atcmd_rsp_value_def)
qed

text \<open>
  A response \<open>\<dots> key v tail \<dots>\<close> with the value \<open>v\<close> between the keywords, and blanks around it.
\<close>

definition at_response :: "bytes \<Rightarrow> u32 \<Rightarrow> bytes \<Rightarrow> bytes \<Rightarrow> bytes \<Rightarrow> bool" where
  "at_response srcData len key v tail \<longleftrightarrow> (\<exists>pre j1 j2 post rest.
     srcData = pre @ key @ j1 @ v @ j2 @ tail @ post @ 0 # rest \<and>
     0 \<notin> set (pre @ key @ j1 @ v @ j2 @ tail @ post) \<and>
     find_sub key (pre @ key @ j1 @ v @ j2 @ tail @ post) = Some (length pre) \<and>
     find_sub tail (v @ j2 @ tail @ post) = Some (length v + length j2) \<and>
     list_all at_blank j1 \<and> list_all at_blank j2 \<and> v \<noteq> [] \<and> \<not> at_blank (hd v) \<and> \<not> at_blank (last v) \<and>
     length j1 \<le> unat (ucast (len - of_nat (length key)) :: u8) \<and> length v + length j2 < 256)"

lemma rsp_value_of_at_response:
  "at_response srcData len key v tail \<Longrightarrow>
    get_atcmd_rsp_value srcData len (Some key) tail cap = (if length v \<le> cap then Some (Some v) else None)"
  unfolding at_response_def by (elim exE conjE, rule rsp_value_of_response) assumption+

text \<open>The keywords are found where they stand if their first characters occur nowhere before.\<close>

lemma at_responseI:
  assumes "srcData = pre @ key @ j1 @ v @ j2 @ tail @ post @ [0]"
    and "0 \<notin> set (pre @ key @ j1 @ v @ j2 @ tail @ post)" and "key \<noteq> []" and "hd key \<notin> set pre"
    and "tail \<noteq> []" and "hd tail \<notin> set (v @ j2)" and "list_all at_blank j1" and "list_all at_blank j2"
    and "v \<noteq> []" and "\<not> at_blank (hd v)" and "\<not> at_blank (last v)"
    and "length j1 \<le> unat (ucast (len - of_nat (length key)) :: u8)" and "length v + length j2 < 256"
  shows "at_response srcData len key v tail"
proof -
  have "find_sub key (pre @ key @ j1 @ v @ j2 @ tail @ post) = Some (length pre)"
    using assms(3,4) by (rule find_sub_head)
  moreover have "find_sub tail (v @ j2 @ tail @ post) = Some (length v + length j2)"
    using find_sub_head [OF assms(5,6), of post] by simp
  ultimately show ?thesis
    unfolding at_response_def using assms
    by (intro exI [of _ pre] exI [of _ j1] exI [of _ j2] exI [of _ post] exI [of _ "[]"]) simp
qed

lemma at_response_string: "at_response srcData len key v tail \<Longrightarrow> 0 \<notin> set v"
  by (auto simp: at_response_def)

section \<open>Properties\<close>

text \<open>A response with the head keyword, blanks, a value, blanks and the tail keyword yields exactly
  the value, without the blanks on either side, provided value and trailing blanks are shorter than
  256 bytes; and the copy overruns the destination exactly when the value is longer than it.\<close>

lemma get_atcmd_rsp_value_found:
  assumes "srcData = pre @ key @ j1 @ v @ j2 @ tailKey @ post @ 0 # rest"
    and "0 \<notin> set (pre @ key @ j1 @ v @ j2 @ tailKey @ post)"
    and "find_sub key (pre @ key @ j1 @ v @ j2 @ tailKey @ post) = Some (length pre)"
    and "find_sub tailKey (v @ j2 @ tailKey @ post) = Some (length v + length j2)"
    and "list_all at_blank j1" and "list_all at_blank j2"
    and "v \<noteq> []" and "\<not> at_blank (hd v)" and "\<not> at_blank (last v)"
    and "length j1 \<le> unat (ucast (srcLen - of_nat (length key)) :: u8)"
    and "length v + length j2 < 256"
  shows "get_atcmd_rsp_value srcData srcLen (Some key) tailKey cap
    = (if length v \<le> cap then Some (Some v) else None)"
  using assms by (rule rsp_value_of_response)

theorem get_atcmd_rsp_value_found_witness:
  "get_atcmd_rsp_value ([13, 10] @ asc ''+CGSN:'' @ [32] @ asc ''8675'' @ [13, 10, 13, 10] @ asc ''OK'' @ [13, 10] @ 0 # [0])
     23 (Some (asc ''+CGSN:'')) (asc ''OK'') 50 = Some (Some (asc ''8675''))"
proof -
  have "find_sub (asc ''+CGSN:'') ([13, 10] @ asc ''+CGSN:'' @ [32] @ asc ''8675'' @ [13, 10, 13, 10] @ asc ''OK'' @ [13, 10])
      = Some (length [13 :: u8, 10])"
    by (rule find_sub_head) (simp_all add: asc_def)
  moreover have "find_sub (asc ''OK'') ((asc ''8675'' @ [13, 10, 13, 10]) @ asc ''OK'' @ [13, 10])
      = Some (length (asc ''8675'' @ [13, 10, 13, 10]))"
    by (rule find_sub_head) (simp_all add: asc_def)
  ultimately show ?thesis
    using get_atcmd_rsp_value_found [of _ "[13, 10]" "asc ''+CGSN:''" "[32]" "asc ''8675''" "[13, 10, 13, 10]"
        "asc ''OK''" "[13, 10]" "[0]" 23 50]
    by (simp add: asc_def at_blank_def)
qed

text \<open>The length of a value is kept in eight bits: when value and trailing blanks are 256 bytes long
  together, the response is reported as having no value at all.\<close>

lemma get_atcmd_rsp_value_wraps:
  assumes "srcData = p @ v @ tailKey @ post @ 0 # rest" and "0 \<notin> set (v @ tailKey @ post)"
    and "find_sub tailKey (v @ tailKey @ post) = Some 256" and "length v = 256" and "\<not> at_blank (hd v)"
  shows "rsp_value_from srcData (length p) n tailKey cap = Some None"
proof -
  obtain c vs where c: "v = c # vs" using assms(4) by (cases v) auto
  have "skip_front (unat n) srcData (length p) = Some 0"
    using skip_front_blanks [of p "length p" "[]" c "unat n"] assms(1,5) by (simp add: c)
  moreover have "c_string srcData (length p) = Some (v @ tailKey @ post)"
    using c_string_append [of p "length p" "v @ tailKey @ post" rest] assms(1,2) by simp
  moreover have "(of_nat 256 :: u8) = 0" by simp
  ultimately show ?thesis
    by (simp add: rsp_value_from_def strstr_def assms(3) Let_def)
qed

theorem get_atcmd_rsp_value_wraps_witness:
  "rsp_value_from ([] @ replicate 256 0x41 @ [0x4F] @ [] @ 0 # []) (length ([] :: bytes)) 0 [0x4F] 300 = Some None"
  by (rule get_atcmd_rsp_value_wraps [where v = "replicate 256 0x41" and post = "[]" and rest = "[]"])
    (use find_sub_head [of "[0x4F :: u8]" "replicate 256 0x41" "[]"] in \<open>simp_all add: at_blank_def hd_replicate\<close>)

lemma split_at_key:
  assumes "srcData = host @ key @ port @ 0 # rest" and "0 \<notin> set (host @ key @ port)"
    and "find_sub key (host @ key @ port) = Some (length host)"
    and "host \<noteq> []" and "port \<noteq> []" and "list_all (\<lambda>c. \<not> at_blank c) port" and "length port \<le> 10"
    and "length port \<le> capAfter"
  shows "get_atcmd_rsp_before_after_value srcData 0 (Some key) capBefore capAfter
    = (if length host \<le> capBefore then Some (Some (host, port)) else None)"
proof -
  have "c_string srcData 0 = Some (host @ key @ port)"
    using c_string_append [of "[]" 0 "host @ key @ port" rest] assms(1,2) by simp
  moreover have "after_len 10 srcData (length host + length key) = Some (length port)"
    using after_len_text [of "host @ key" _ port 10 rest] assms(1,6,7) by simp
  ultimately show ?thesis
    using assms by (simp add: get_atcmd_rsp_before_after_value_def strstr_def Let_def)
qed

text \<open>A broker address \<open>host:port\<close> is split at the key into host and port; the host is copied
  without any limit, so one that is longer than its destination overruns it.\<close>

lemma get_atcmd_rsp_before_after_value_split:
  assumes "srcData = host @ key @ port @ 0 # rest" and "0 \<notin> set (host @ key @ port)"
    and "find_sub key (host @ key @ port) = Some (length host)"
    and "host \<noteq> []" and "port \<noteq> []" and "list_all (\<lambda>c. \<not> at_blank c) port" and "length port \<le> 10"
    and "length port \<le> capAfter"
  shows "get_atcmd_rsp_before_after_value srcData 0 (Some key) capBefore capAfter
    = (if length host \<le> capBefore then Some (Some (host, port)) else None)"
  using assms by (rule split_at_key)

theorem get_atcmd_rsp_before_after_value_split_witness:
  "get_atcmd_rsp_before_after_value (asc ''a.b'' @ [0x3A] @ asc ''1883'' @ 0 # []) 0 (Some [0x3A]) 32 10
     = Some (Some (asc ''a.b'', asc ''1883''))"
  using get_atcmd_rsp_before_after_value_split [of _ "asc ''a.b''" "[0x3A]" "asc ''1883''" "[]" 10 32]
    find_sub_head [of "[0x3A]" "asc ''a.b''" "asc ''1883''"]
  by (simp add: asc_def at_blank_def)

end
