(* ===== verification/AtDevice.thy ===== *)
theory AtDevice
  imports AtSteps AtParse
begin

text \<open>
  The state the network driver of \<^verbatim>\<open>src/ql_application/App_XD/netlink/app_net4g.c\<close> works on, and
  \<open>at_cmd_send_check\<close>, through which every command goes.  Character arrays are lists of their size.
  The 4G module is the list \<open>replies\<close> of what the successive reads of the serial line return (nothing,
  once the list is used up); \<open>sent\<close> collects the commands in order and \<open>elapsed_ms\<close> the delays.
  An answer \<open>None\<close> is an access outside an array or through a null pointer.
\<close>

section \<open>Model\<close>

datatype NET4G_ACTIVE_ROUTE_STEP =
  ACTIVE_ROUTE_STEP_CHECK | ACTIVE_ROUTE_STEP_ACTIVE | ACTIVE_ROUTE_STEP_ROUTE | ACTIVE_ROUTE_STEP_END

text \<open>
  The steps of the work process, in the order of its \<open>switch\<close>; the enumeration itself is not in the sources.
\<close>

datatype NETWORK_WORK_STEP =
    NETWORK_WORK_STEP__INIT | NETWORK_WORK_STEP__NETCONFIG | NETWORK_WORK_STEP__ACTIVE_ROUTE | NETWORK_WORK_STEP__LOGIN
  | NETWORK_WORK_STEP__NORMAL | NETWORK_WORK_STEP__OTA | NETWORK_WORK_STEP__ERROR

text \<open>\<open>net4G_process_steps\<close>.\<close>

record process_steps =
  netConfig :: nat
  deviceActive :: nat
  connectRoute :: nat
  cloudLogin :: nat
  getCellInfoStep :: nat
  active_route_step :: NET4G_ACTIVE_ROUTE_STEP
  netWork :: NETWORK_WORK_STEP
  communicateStep :: nat

text \<open>
  A radio cell: the members of \<open>qeng_servingcell_info\<close> (all but RSSI, which the device has) and of
  \<open>qcell_neighbourcell_info\<close>, whose receive level is the member \<open>srxlev\<close> here.  The values are what
  \<open>strtol\<close> returned; the width of the members is not in the sources.
\<close>

record cell_info =
  is_tdd :: bytes
  MCC :: int
  MNC :: int
  TAC :: int
  cellID :: int
  PCI :: int
  srxlev :: int
  EARFCN :: int
  freq_band_ind :: int
  UL_bandwidth :: int
  DL_bandwidth :: int
  RSRP :: int
  RSRQ :: int
  SINR :: int

text \<open>What the driver uses of \<open>gNet4g_dataStruct\<close>, \<open>g_deviceGlobalInfo\<close>, \<open>gSysInfo_struct\<close> and \<open>gSysLoginInfo\<close>.\<close>

record device =
  fifo_data :: bytes
  net4g_reconnect_flag :: u8
  net4g_get_cell_info_flag :: u8
  simFlag :: u8
  sim1State :: u8
  sim2State :: u8
  first_sim :: u8
  net4gVer :: bytes
  sys_net4gVer :: bytes
  imei :: bytes
  sn :: bytes
  iccid :: bytes
  iccid2 :: bytes
  signal :: nat
  RSSI :: u8
  location_addr :: bytes
  nearbts_count :: u8
  servingcell :: cell_info
  neighbourcell :: cell_info
  neighbourcell2 :: cell_info
  activeFlag :: u8
  sys_activeFlag :: u8
  mqtt_addr :: bytes
  mqtt_port :: u16
  mqtt_HBInterval :: int
  mqtt_retryInterval :: nat
  mqtt_retryTimes :: nat
  mqtt_timerReportInterval :: nat
  mqtt_password :: bytes
  mqtt_secretKey :: bytes
  cubbyInterval :: nat
  clientId :: bytes
  DeviceKey :: bytes
  DeviceSecret :: bytes
  deviceNo :: bytes
  active_payload :: bytes
  route_payload :: bytes
  para_flash_writes :: nat
  sent :: "bytes list"
  replies :: "bytes list"
  elapsed_ms :: nat

type_synonym at_handler = "at_ret \<Rightarrow> bytes \<Rightarrow> u32 \<Rightarrow> device \<Rightarrow> (device \<times> at_ret) option"

text \<open>The serial line: \<open>network_uart_send\<close>, and \<open>network_uart_recv\<close> of at most the buffer's size.\<close>

definition network_uart_send :: "bytes \<Rightarrow> device \<Rightarrow> device" where
  "network_uart_send cmd d = d\<lparr>sent := sent d @ [cmd]\<rparr>"

definition app_delay_ms :: "nat \<Rightarrow> device \<Rightarrow> device" where
  "app_delay_ms ms d = d\<lparr>elapsed_ms := elapsed_ms d + ms\<rparr>"

definition clear_fifo :: "device \<Rightarrow> device" where
  "clear_fifo d = d\<lparr>fifo_data := replicate (length (fifo_data d)) 0\<rparr>"

definition network_uart_recv :: "device \<Rightarrow> device \<times> nat" where
  "network_uart_recv d =
     (case replies d of [] \<Rightarrow> (d, 0)
      | r # rs \<Rightarrow> let r = take (length (fifo_data d)) r
                  in (d\<lparr>fifo_data := blit (fifo_data d) 0 r, replies := rs\<rparr>, length r))"

text \<open>The body of the retry loop up to the decision, and the loop.\<close>

definition at_cmd_exchange :: "at_cmd_t \<Rightarrow> device \<Rightarrow> (device \<times> nat) option" where
  "at_cmd_exchange cmd d =
     map_option (\<lambda>text. network_uart_recv (clear_fifo (app_delay_ms (interval_ms cmd) (network_uart_send text d))))
       (p_cmd cmd)"

fun at_cmd_send_loop :: "nat \<Rightarrow> at_cmd_t \<Rightarrow> at_handler option \<Rightarrow> device \<Rightarrow> (device \<times> at_ret) option" where
  "at_cmd_send_loop 0 cmd cb d = Some (d, AT_ERR)"
| "at_cmd_send_loop (Suc n) cmd cb d =
     Option.bind (at_cmd_exchange cmd d) (\<lambda>(d, recvLen).
     if recvLen = 0 then at_cmd_send_loop n cmd cb d
     else Option.bind (p_ack cmd) (\<lambda>ack.
          Option.bind (strstr (fifo_data d) 0 ack) (\<lambda>found.
          case (found, cb) of
            (None, _) \<Rightarrow> at_cmd_send_loop n cmd cb (clear_fifo d)
          | (Some _, None) \<Rightarrow> Some (d, AT_OK)
          | (Some _, Some cb_func) \<Rightarrow>
              Option.bind (cb_func AT_OK (fifo_data d) (of_nat recvLen) d) (\<lambda>(d, cbRet).
              if cbRet = AT_OK then Some (d, AT_OK) else at_cmd_send_loop n cmd cb (clear_fifo d)))))"

declare at_cmd_send_loop.simps(2) [simp del]

definition at_cmd_send_check :: "at_cmd_t \<Rightarrow> at_handler option \<Rightarrow> device \<Rightarrow> (device \<times> at_ret) option" where
  "at_cmd_send_check cmd cb d = at_cmd_send_loop (retry_times cmd) cmd cb d"

text \<open>How the callbacks get at a value.\<close>

definition NET_CMD_RSP_TAIL_OK :: bytes where
  "NET_CMD_RSP_TAIL_OK = asc ''OK''"

text \<open>
  \<open>uint8_t target_data[cap] = {0}\<close> after \<open>get_atcmd_rsp_value(\<dots>, target_data)\<close>, and the string in it.
  \<open>Some None\<close>: the value was not found.
\<close>

definition rsp_buffer :: "bytes \<Rightarrow> u32 \<Rightarrow> bytes option \<Rightarrow> bytes \<Rightarrow> nat \<Rightarrow> bytes option option" where
  "rsp_buffer srcData len head tail cap =
     map_option (map_option (\<lambda>v. v @ replicate (cap - length v) 0)) (get_atcmd_rsp_value srcData len head tail cap)"

definition rsp_string :: "bytes \<Rightarrow> u32 \<Rightarrow> bytes option \<Rightarrow> bytes \<Rightarrow> nat \<Rightarrow> bytes option option" where
  "rsp_string srcData len head tail cap =
     Option.bind (rsp_buffer srcData len head tail cap) (\<lambda>b.
     case b of None \<Rightarrow> Some None | Some buf \<Rightarrow> map_option Some (c_string buf 0))"

section \<open>What a command does\<close>

text \<open>Two states that agree on the serial line, the second not earlier; a callback that leads from the first to the second.\<close>

definition same_line :: "device \<Rightarrow> device \<Rightarrow> bool" where
  "same_line d e \<longleftrightarrow> sent e = sent d \<and> elapsed_ms d \<le> elapsed_ms e \<and> replies e = replies d \<and>
     length (fifo_data e) = length (fifo_data d)"

definition quiet :: "at_handler \<Rightarrow> bool" where
  "quiet f \<longleftrightarrow> (\<forall>ret buf len d e r. f ret buf len d = Some (e, r) \<longrightarrow> same_line d e)"

definition quiet_cb :: "at_handler option \<Rightarrow> bool" where
  "quiet_cb cb \<longleftrightarrow> pred_option quiet cb"

lemma same_line_refl [simp]: "same_line d d"
  by (simp add: same_line_def)

lemma same_line_trans [trans]: "same_line c d \<Longrightarrow> same_line d e \<Longrightarrow> same_line c e"
  by (simp add: same_line_def)

lemma elapsed_clear [simp]: "elapsed_ms (clear_fifo d) = elapsed_ms d"
  by (simp add: clear_fifo_def)

lemma same_line_clear [simp]: "same_line d (clear_fifo e) = same_line d e"
  by (simp add: same_line_def clear_fifo_def)

lemma at_cmd_exchange_effect:
  assumes "at_cmd_exchange cmd d = Some (e, n)"
  obtains c where "p_cmd cmd = Some c" and "sent e = sent d @ [c]"
    and "elapsed_ms e = elapsed_ms d + interval_ms cmd" and "replies e = drop 1 (replies d)"
    and "length (fifo_data e) = length (fifo_data d)"
  using assms
  by (cases "replies d")
    (auto simp: at_cmd_exchange_def network_uart_recv_def network_uart_send_def app_delay_ms_def
      clear_fifo_def Let_def)

text \<open>A round of the loop either answers or is repeated.\<close>

lemma at_cmd_send_loop_Suc [consumes 2]:
  assumes "at_cmd_send_loop (Suc n) cmd cb d = Some (d', r)" and "quiet_cb cb"
  obtains (again) e k e' where "at_cmd_exchange cmd d = Some (e, k)" and "same_line e e'"
      and "cb = None \<longrightarrow> elapsed_ms e' = elapsed_ms e"
      and "at_cmd_send_loop n cmd cb e' = Some (d', r)"
    | (answered) e k where "at_cmd_exchange cmd d = Some (e, k)" and "same_line e d'" and "0 < k" and "r = AT_OK"
      and "cb = None \<longrightarrow> elapsed_ms d' = elapsed_ms e"
proof -
  obtain e k where x: "at_cmd_exchange cmd d = Some (e, k)"
    using assms(1) by (cases "at_cmd_exchange cmd d") (auto simp: at_cmd_send_loop.simps(2))
  note loop = assms(1) [unfolded at_cmd_send_loop.simps(2) x, simplified]
  show ?thesis
  proof (cases "k = 0")
    case True
    then show ?thesis using loop again [OF x same_line_refl] by simp
  next
    case False
    then obtain found where f: "Option.bind (p_ack cmd) (strstr (fifo_data e) 0) = Some found"
      using loop by (cases "p_ack cmd"; cases "strstr (fifo_data e) 0 (the (p_ack cmd))") auto
    show ?thesis
    proof (cases "found = None \<or> cb = None")
      case True
      then show ?thesis
        using loop f False again [OF x, of "clear_fifo e"] answered [OF x]
        by (cases "p_ack cmd"; cases found) auto
    next
      case noNone: False
      then obtain g where g: "cb = Some g" by blast
      obtain e1 r1 where e1: "g AT_OK (fifo_data e) (of_nat k) e = Some (e1, r1)"
        using loop f False noNone g
        by (cases "p_ack cmd"; cases found; cases "g AT_OK (fifo_data e) (of_nat k) e") auto
      moreover have "quiet g" using assms(2) g by (simp add: quiet_cb_def)
      ultimately have "same_line e e1" unfolding quiet_def by blast
      then show ?thesis
        using loop f False noNone g e1 again [OF x, of "clear_fifo e1"] answered [OF x]
        by (cases "p_ack cmd"; cases found) (auto split: if_splits)
    qed
  qed
qed

text \<open>What holds before, and is kept by every round and every callback, holds after the command.\<close>

lemma at_cmd_send_loop_keeps:
  assumes "at_cmd_send_loop n cmd cb d = Some (d', r)" and "P d"
    and "\<And>d e k. at_cmd_exchange cmd d = Some (e, k) \<Longrightarrow> P d \<Longrightarrow> P e" and "\<And>d. P d \<Longrightarrow> P (clear_fifo d)"
    and "\<And>f buf len d e r. cb = Some f \<Longrightarrow> f AT_OK buf len d = Some (e, r) \<Longrightarrow> P d \<Longrightarrow> P e"
  shows "P d'"
  using assms(1,2)
proof (induction n arbitrary: d)
  case (Suc n)
  then obtain e k where x: "at_cmd_exchange cmd d = Some (e, k)"
    by (cases "at_cmd_exchange cmd d") (auto simp: at_cmd_send_loop.simps(2))
  then have "P e" using assms(3) Suc.prems(2) by blast
  then show ?case
    using Suc.prems(1) x Suc.IH assms(4,5)
    by (auto simp: at_cmd_send_loop.simps(2) bind_eq_Some_conv split: if_splits option.splits)
qed simp

text \<open>Values that stay in range, and the sizes of the arrays.\<close>

definition device_ok :: "device \<Rightarrow> bool" where
  "device_ok d \<longleftrightarrow> signal d \<le> 100 \<and> RSSI d \<le> 31 \<and> simFlag d \<le> 2 \<and> sim1State d \<le> 2 \<and> sim2State d \<le> 2"

definition array_sizes :: "device \<Rightarrow> nat list" where
  "array_sizes d =
     map (\<lambda>f. length (f d)) [fifo_data, net4gVer, sys_net4gVer, imei, sn, iccid, iccid2, location_addr]"

text \<open>What a callback may not touch: the reconnection and request flags, the preferred card, the login data.\<close>

definition same_control :: "device \<Rightarrow> device \<Rightarrow> bool" where
  "same_control d e \<longleftrightarrow> net4g_reconnect_flag e = net4g_reconnect_flag d \<and>
     net4g_get_cell_info_flag e = net4g_get_cell_info_flag d \<and> first_sim e = first_sim d"

lemma same_control_refl [simp]: "same_control d d"
  by (simp add: same_control_def)

definition keeps :: "device \<Rightarrow> device \<Rightarrow> bool" where
  "keeps d e \<longleftrightarrow> same_control d e \<and> array_sizes e = array_sizes d \<and> (device_ok d \<longrightarrow> device_ok e)"

lemma keeps_refl [simp]: "keeps d d"
  by (simp add: keeps_def)

lemma keeps_trans [trans]: "keeps c d \<Longrightarrow> keeps d e \<Longrightarrow> keeps c e"
  by (simp add: keeps_def same_control_def)

text \<open>The contract of a callback, and what a command with such a callback keeps.\<close>

locale at_callback =
  fixes f :: at_handler
  assumes line: "f ret buf len d = Some (e, r) \<Longrightarrow> same_line d e"
    and control: "f ret buf len d = Some (e, r) \<Longrightarrow> same_control d e"
    and sizes: "f ret buf len d = Some (e, r) \<Longrightarrow> array_sizes e = array_sizes d"
    and ranges: "f ret buf len d = Some (e, r) \<Longrightarrow> device_ok d \<Longrightarrow> device_ok e"
    and result: "f ret buf len d = Some (e, r) \<Longrightarrow> r \<noteq> AT_RET_5"
begin

lemma quiet: "quiet f"
  unfolding quiet_def using line by blast

lemma keeps: "f ret buf len d = Some (e, r) \<Longrightarrow> keeps d e"
  unfolding keeps_def using control sizes ranges by blast

end

lemma keeps_clear: "keeps d (clear_fifo d)"
  by (simp add: keeps_def same_control_def array_sizes_def device_ok_def clear_fifo_def)

lemma keeps_exchange: "at_cmd_exchange cmd d = Some (e, k) \<Longrightarrow> keeps d e"
  by (cases "replies d")
    (auto simp: at_cmd_exchange_def network_uart_recv_def network_uart_send_def app_delay_ms_def
      clear_fifo_def Let_def keeps_def same_control_def array_sizes_def device_ok_def)

lemma at_cmd_send_check_keeps:
  assumes "at_cmd_send_check cmd cb d = Some (d', r)" and "pred_option at_callback cb"
  shows "keeps d d'"
proof (rule at_cmd_send_loop_keeps [where P = "keeps d"])
  show "at_cmd_send_loop (retry_times cmd) cmd cb d = Some (d', r)"
    using assms(1) by (simp add: at_cmd_send_check_def)
  fix f buf len e e' r'
  assume "cb = Some f" and run: "f AT_OK buf len e = Some (e', r')" and "keeps d e"
  have "at_callback f" using assms(2) \<open>cb = Some f\<close> by simp
  then have "keeps e e'" using run by (rule at_callback.keeps)
  with \<open>keeps d e\<close> show "keeps d e'" by (rule keeps_trans)
qed (auto intro: keeps_trans keeps_exchange keeps_clear)

text \<open>What a callback may do, as one relation, and the single changes that are allowed.\<close>

definition allowed :: "device \<Rightarrow> device \<times> at_ret \<Rightarrow> bool" where
  "allowed d er \<longleftrightarrow> same_line d (fst er) \<and> keeps d (fst er) \<and> snd er \<noteq> AT_RET_5"

lemma at_callbackI:
  assumes "\<And>ret buf len d. pred_option (allowed d) (f ret buf len d)"
  shows "at_callback f"
proof
  fix ret buf len d e r
  assume "f ret buf len d = Some (e, r)"
  with assms have "allowed d (e, r)" by (rule pred_optionD)
  then show "same_line d e" and "same_control d e" and "array_sizes e = array_sizes d"
    and "device_ok d \<Longrightarrow> device_ok e" and "r \<noteq> AT_RET_5"
    by (simp_all add: allowed_def keeps_def)
qed

lemmas callback_facts = allowed_def keeps_def same_line_def same_control_def array_sizes_def device_ok_def

lemma allowed_unchanged [intro]: "r \<noteq> AT_RET_5 \<Longrightarrow> allowed d (d, r)"
  by (simp add: callback_facts)

lemma c_string_padded: "0 \<notin> set v \<Longrightarrow> length v < n \<Longrightarrow> c_string (v @ replicate (n - length v) 0) 0 = Some v"
  using c_string_append [of "[]" 0 v "replicate (n - length v - 1) 0"]
  by (cases "n - length v") simp_all

lemma rsp_string_response:
  assumes "at_response srcData len key v tail" and "length v < cap"
  shows "rsp_string srcData len (Some key) tail cap = Some (Some v)"
  using rsp_value_of_at_response [OF assms(1), of cap] at_response_string [OF assms(1)] assms(2)
  by (simp add: rsp_string_def rsp_buffer_def c_string_padded)

lemma at_cmd_send_loop_ret: "at_cmd_send_loop n cmd cb d = Some (e, r) \<Longrightarrow> r \<noteq> AT_RET_5"
proof (induction n arbitrary: d)
  case (Suc n)
  then show ?case
    by (auto simp: at_cmd_send_loop.simps(2) bind_eq_Some_conv split: if_splits option.splits)
qed simp

lemma at_cmd_send_check_ret: "at_cmd_send_check cmd cb d = Some (e, r) \<Longrightarrow> r \<noteq> AT_RET_5"
  by (simp add: at_cmd_send_check_def at_cmd_send_loop_ret)

text \<open>A module that does not answer.\<close>

lemma at_cmd_send_check_silent:
  assumes "replies d = []" and "p_cmd cmd = Some c"
  shows "\<exists>e. at_cmd_send_check cmd cb d = Some (e, AT_ERR) \<and> replies e = []"
proof -
  have "replies d = [] \<Longrightarrow> \<exists>e. at_cmd_send_loop n cmd cb d = Some (e, AT_ERR) \<and> replies e = []" for n d
  proof (induction n arbitrary: d)
    case (Suc n)
    obtain e where "at_cmd_exchange cmd d = Some (e, 0)" "replies e = []"
      using Suc.prems assms(2)
      by (simp add: at_cmd_exchange_def network_uart_recv_def network_uart_send_def app_delay_ms_def clear_fifo_def)
    then show ?case using Suc.IH [of e] by (simp add: at_cmd_send_loop.simps(2))
  qed simp
  then show ?thesis using assms(1) by (simp add: at_cmd_send_check_def)
qed

text \<open>A command goes out at most \<open>retry_times\<close> times, always the same text, at least at the table's interval
  (exactly, without callback), one read of the line after each; the result is AT_OK or AT_ERR, and AT_ERR only after all retries.\<close>

lemma at_cmd_send_check_retries:
  assumes "at_cmd_send_check cmd cb d = Some (d', r)" and "quiet_cb cb"
  shows "\<exists>k \<le> retry_times cmd. sent d' = sent d @ replicate k (the (p_cmd cmd)) \<and>
    elapsed_ms d + k * interval_ms cmd \<le> elapsed_ms d' \<and>
    (cb = None \<longrightarrow> elapsed_ms d' = elapsed_ms d + k * interval_ms cmd) \<and> replies d' = drop k (replies d) \<and>
    (if r = AT_OK then 0 < k else r = AT_ERR \<and> k = retry_times cmd)"
proof -
  let ?sends = "\<lambda>n d k. k \<le> n \<and> sent d' = sent d @ replicate k (the (p_cmd cmd)) \<and>
      elapsed_ms d + k * interval_ms cmd \<le> elapsed_ms d' \<and>
      (cb = None \<longrightarrow> elapsed_ms d' = elapsed_ms d + k * interval_ms cmd) \<and> replies d' = drop k (replies d) \<and>
      (if r = AT_OK then 0 < k else r = AT_ERR \<and> k = n)"
  have "at_cmd_send_loop n cmd cb d = Some (d', r) \<Longrightarrow> \<exists>k. ?sends n d k" for n
  proof (induction n arbitrary: d)
    case (Suc n)
    from Suc.prems assms(2) show ?case
    proof (cases rule: at_cmd_send_loop_Suc)
      case (again e k e')
      obtain c where c: "p_cmd cmd = Some c" "sent e = sent d @ [c]" "replies e = drop 1 (replies d)"
        "elapsed_ms e = elapsed_ms d + interval_ms cmd"
        using again(1) by (rule at_cmd_exchange_effect)
      obtain j where "?sends n e' j" using Suc.IH [OF again(4)] by blast
      then have "?sends (Suc n) d (Suc j)"
        using again(2,3) c by (auto simp: same_line_def split: if_splits)
      then show ?thesis by blast
    next
      case (answered e k)
      obtain c where "p_cmd cmd = Some c" "sent e = sent d @ [c]" "replies e = drop 1 (replies d)"
        "elapsed_ms e = elapsed_ms d + interval_ms cmd"
        using answered(1) by (rule at_cmd_exchange_effect)
      then have "?sends (Suc n) d 1" using answered by (auto simp: same_line_def)
      then show ?thesis by blast
    qed
  qed simp
  then show ?thesis using assms(1) by (simp add: at_cmd_send_check_def)
qed

text \<open>A device whose line will deliver the given replies, for concrete runs; the array sizes are examples.\<close>

definition sample_cell :: cell_info where
  "sample_cell = \<lparr>is_tdd = [], MCC = 0, MNC = 0, TAC = 0, cellID = 0, PCI = 0, srxlev = 0, EARFCN = 0, freq_band_ind = 0,
     UL_bandwidth = 0, DL_bandwidth = 0, RSRP = 0, RSRQ = 0, SINR = 0\<rparr>"

definition sample_device :: "nat \<Rightarrow> bytes list \<Rightarrow> device" where
  "sample_device fifo_size rs =
     \<lparr>fifo_data = replicate fifo_size 0, net4g_reconnect_flag = 0, net4g_get_cell_info_flag = 0, simFlag = 0,
      sim1State = 0, sim2State = 0, first_sim = 0, net4gVer = replicate 20 0, sys_net4gVer = replicate 20 0,
      imei = replicate 20 0, sn = replicate 32 0, iccid = replicate 32 0, iccid2 = replicate 32 0, signal = 0,
      RSSI = 0, location_addr = replicate 50 0,
      nearbts_count = 0, servingcell = sample_cell, neighbourcell = sample_cell, neighbourcell2 = sample_cell,
      activeFlag = 0, sys_activeFlag = 0, mqtt_addr = replicate 32 0, mqtt_port = 0,
      mqtt_HBInterval = 0, mqtt_retryInterval = 0, mqtt_retryTimes = 0, mqtt_timerReportInterval = 0,
      mqtt_password = replicate 32 0, mqtt_secretKey = replicate 16 0, cubbyInterval = 0,
      clientId = replicate 32 0, DeviceKey = replicate 32 0,
      DeviceSecret = replicate 40 0, deviceNo = replicate 32 0, active_payload = replicate 500 0,
      route_payload = replicate 150 0, para_flash_writes = 0, sent = [], replies = rs, elapsed_ms = 0\<rparr>"

lemmas at_cmd_eval [kernel_eval] =
  at_cmd_send_check_def at_cmd_send_loop.simps at_cmd_exchange_def network_uart_send_def network_uart_recv_def
  app_delay_ms_def clear_fifo_def sample_device_def

theorem at_cmd_send_check_retries_witness:
  "\<exists>cmd d' r. cmd = at_cmd CMD_ID_GET_IMEI 100 3 (Some (asc ''AT'')) (Some NET_CMD_ACK_OK) \<and>
    at_cmd_send_check cmd None (sample_device 16 []) = Some (d', r) \<and>
    (\<exists>k \<le> 3. sent d' = replicate k (asc ''AT'') \<and> elapsed_ms d' = k * 100 \<and> replies d' = [] \<and>
      (if r = AT_OK then 0 < k else r = AT_ERR \<and> k = 3))"
proof -
  let ?cmd = "at_cmd CMD_ID_GET_IMEI 100 3 (Some (asc ''AT'')) (Some NET_CMD_ACK_OK)"
  obtain d' r where run: "at_cmd_send_check ?cmd None (sample_device 16 []) = Some (d', r)"
    by (simp add: kernel_eval eval_nat_numeral)
  have "sent (sample_device 16 []) = []" "elapsed_ms (sample_device 16 []) = 0" "replies (sample_device 16 []) = []"
    by (simp_all add: sample_device_def)
  with at_cmd_send_check_retries [OF run] have
    "\<exists>k \<le> 3. sent d' = replicate k (asc ''AT'') \<and> elapsed_ms d' = k * 100 \<and> replies d' = [] \<and>
      (if r = AT_OK then 0 < k else r = AT_ERR \<and> k = 3)"
    by (auto simp: quiet_cb_def cong: if_cong)
  then show ?thesis using run by blast
qed

text \<open>What a reply leaves in the buffer.\<close>

lemma at_cmd_exchange_reply:
  assumes "p_cmd cmd = Some c" and "replies d = r # rs" and "n = length (fifo_data d)"
  shows "\<exists>e. at_cmd_exchange cmd d = Some (e, min n (length r)) \<and>
    fifo_data e = take n r @ replicate (n - length r) 0 \<and> sent e = sent d @ [c] \<and> replies e = rs"
  using assms
  by (auto simp: at_cmd_exchange_def network_uart_send_def network_uart_recv_def app_delay_ms_def clear_fifo_def
      blit_def Let_def min_def)

text \<open>A reply that contains the expected answer and leaves room for a terminator in the receive buffer makes a
  command without callback succeed on the first try, with the reply left in the buffer; one that fills the
  buffer completely is left without terminator, and the search for the answer runs out of the buffer.\<close>

lemma at_cmd_send_check_reply:
  assumes "p_cmd cmd = Some c" and "p_ack cmd = Some ack" and "0 < retry_times cmd"
    and "replies d = r # rs" and "r \<noteq> []" and "0 \<notin> set r" and "find_sub ack r \<noteq> None" and "fifo_data d \<noteq> []"
  shows "if length r < length (fifo_data d)
    then \<exists>e. at_cmd_send_check cmd None d = Some (e, AT_OK) \<and> sent e = sent d @ [c] \<and> replies e = rs \<and>
           c_string (fifo_data e) 0 = Some r
    else at_cmd_send_check cmd None d = None"
proof -
  define n where "n = length (fifo_data d)"
  obtain e where x: "at_cmd_exchange cmd d = Some (e, min n (length r))"
    and e: "fifo_data e = take n r @ replicate (n - length r) 0" "sent e = sent d @ [c]" "replies e = rs"
    using at_cmd_exchange_reply [OF assms(1,4) n_def] by blast
  obtain k where k: "retry_times cmd = Suc k" using assms(3) by (cases "retry_times cmd") auto
  have pos: "min n (length r) \<noteq> 0" using assms(5,8) by (simp add: n_def)
  show ?thesis
  proof (cases "length r < n")
    case True
    then have "fifo_data e = [] @ r @ 0 # replicate (n - length r - 1) 0"
      using e(1) by (cases "n - length r") auto
    then have "c_string (fifo_data e) 0 = Some r" using assms(6) by (metis c_string_append list.size(3))
    then show ?thesis
      using True x e pos k assms(2,7) by (auto simp: at_cmd_send_check_def at_cmd_send_loop.simps(2) strstr_def n_def)
  next
    case False
    then have "fifo_data e = take n r" using e(1) by simp
    then have "c_string (fifo_data e) 0 = None" using assms(6) by (auto simp: c_string_def dest: in_set_takeD)
    then show ?thesis
      using False x pos k assms(2) by (simp add: at_cmd_send_check_def at_cmd_send_loop.simps(2) strstr_def n_def)
  qed
qed

theorem at_cmd_send_check_reply_witness:
  "at_cmd_send_check (at_cmd CMD_ID_HANDSHAKE 500 30 (Some (asc ''AT'' @ crlf)) (Some NET_CMD_ACK_OK)) None
     (sample_device 4 [NET_CMD_ACK_OK]) = None"
  using at_cmd_send_check_reply [of "at_cmd CMD_ID_HANDSHAKE 500 30 (Some (asc ''AT'' @ crlf)) (Some NET_CMD_ACK_OK)"
      "asc ''AT'' @ crlf" NET_CMD_ACK_OK "sample_device 4 [NET_CMD_ACK_OK]" NET_CMD_ACK_OK "[]"]
  by (simp add: sample_device_def NET_CMD_ACK_OK_def crlf_def asc_def find_sub.simps)

end
