(* ===== verification/AtKeywords.thy ===== *)
theory AtKeywords
  imports AtParse
begin

text \<open>
  The comma separated fields of the module's messages: \<open>strtok\<close> with the separator \<open>,\<close> and
  \<open>get_at_rsp_keywords\<close> of \<^verbatim>\<open>src/ql_application/App_XD/netlink/app_net4g.c\<close>, which copies field number
  \<open>keyNum\<close> without its quotes.  The count of fields has 8 bits and the index of the trimming loop 16,
  as in the code; the answer \<open>None\<close> is an access outside an array.
\<close>

section \<open>Model\<close>

text \<open>The successive results of \<open>strtok(s, ",")\<close>, \<open>strtok(NULL, ",")\<close>, ...: empty fields are skipped.\<close>

fun strtok_comma :: "bytes \<Rightarrow> bytes \<Rightarrow> bytes list" where
  "strtok_comma cur [] = (if cur = [] then [] else [cur])"
| "strtok_comma cur (c # s) =
     (if c = 0x2C then (if cur = [] then [] else [cur]) @ strtok_comma [] s else strtok_comma (cur @ [c]) s)"

text \<open>
  The trimming loop over \<open>i = strlen(pKeyWord) - 1 \<dots> 0\<close>.  Its condition \<open>i >= 0\<close> holds for every
  unsigned \<open>i\<close>: when all characters were trimmed, \<open>i\<close> becomes 65535 and the next access is outside the
  array.  \<open>n\<close> is the number of characters left, which is \<open>key_len\<close>.
\<close>

fun trim_key_len :: "bytes \<Rightarrow> nat \<Rightarrow> nat option" where
  "trim_key_len s 0 = None"
| "trim_key_len s (Suc n) = (if at_blank (s ! n) then trim_key_len s n else Some (Suc n))"

definition keyword_of :: "bytes \<Rightarrow> bytes option" where
  "keyword_of tok =
     (let w = (if hd tok = 0x22 then tl tok else tok)
      in map_option (\<lambda>n. take n w) (trim_key_len w (length w)))"

text \<open>The loop over the fields; a later match (after 256 fields more) overwrites an earlier one.\<close>

fun keywords_loop :: "u8 \<Rightarrow> u8 \<Rightarrow> nat \<Rightarrow> bytes option \<Rightarrow> bytes list \<Rightarrow> bytes option option" where
  "keywords_loop count keyNum cap found [] = Some found"
| "keywords_loop count keyNum cap found (t # ts) =
     (if count + 1 = keyNum
      then Option.bind (keyword_of t) (\<lambda>w.
           if length w < cap then keywords_loop (count + 1) keyNum cap (Some w) ts else None)
      else keywords_loop (count + 1) keyNum cap found ts)"

text \<open>\<open>Some None\<close> is the result 0; \<open>Some (Some w)\<close> is 1 with the string \<open>w\<close> in \<open>destData\<close> of \<open>cap\<close> bytes.\<close>

definition get_at_rsp_keywords :: "bytes \<Rightarrow> bytes \<Rightarrow> u8 \<Rightarrow> nat \<Rightarrow> bytes option option" where
  "get_at_rsp_keywords srcData srcHeader keyNum cap =
     Option.bind (c_string srcData (length srcHeader)) (\<lambda>s. keywords_loop 0 keyNum cap None (strtok_comma [] s))"

section \<open>Fields\<close>

lemma strtok_comma_token:
  assumes "0x2C \<notin> set t"
  shows "strtok_comma cur (t @ 0x2C # s) = (if cur @ t = [] then [] else [cur @ t]) @ strtok_comma [] s"
    and "strtok_comma cur t = (if cur @ t = [] then [] else [cur @ t])"
  using assms by (induction t arbitrary: cur) auto

text \<open>The fields of a list joined by commas are the list.\<close>

fun join_comma :: "bytes list \<Rightarrow> bytes" where
  "join_comma [] = []"
| "join_comma [t] = t"
| "join_comma (t # u # ts) = t @ 0x2C # join_comma (u # ts)"

lemma strtok_join:
  assumes "list_all (\<lambda>t. t \<noteq> [] \<and> 0x2C \<notin> set t) ts"
  shows "strtok_comma [] (join_comma ts) = ts"
  using assms by (induction ts rule: join_comma.induct) (simp_all add: strtok_comma_token)

lemma trim_key_len_append:
  assumes "\<not> at_blank c" and "list_all at_blank j"
  shows "trim_key_len (w @ c # j) (length (w @ c # j)) = Some (Suc (length w))"
proof -
  have "k \<le> length j \<Longrightarrow> trim_key_len (w @ c # j) (Suc (length w) + k) = Some (Suc (length w))" for k
    using assms
  proof (induction k)
    case (Suc k)
    then have "at_blank ((w @ c # j) ! (Suc (length w) + k))" by (simp add: nth_append list_all_length)
    then show ?case using Suc by simp
  qed (simp add: nth_append)
  from this [of "length j"] show ?thesis by simp
qed

lemma trim_key_len_blanks: "list_all at_blank j \<Longrightarrow> n \<le> length j \<Longrightarrow> trim_key_len j n = None"
  by (induction n) (auto simp: list_all_length)

lemma keywords_loop_past:
  assumes "unat keyNum \<le> k" and "k + length ts < 256"
  shows "keywords_loop (of_nat k) keyNum cap found ts = Some found"
  using assms
proof (induction ts arbitrary: k)
  case (Cons t ts)
  have "unat (of_nat (Suc k) :: u8) = Suc k" using Cons.prems(2) by (intro unat_of_nat_u8) simp
  then have "of_nat k + 1 \<noteq> keyNum" using Cons.prems(1) by (metis not_less_eq_eq of_nat_Suc_word order_refl)
  then show ?case using Cons.IH [of "Suc k"] Cons.prems by (simp add: of_nat_Suc_word)
qed simp

lemma keywords_loop_nth:
  assumes "n < length ts" and "k + length ts < 256" and "unat keyNum = Suc (k + n)"
  shows "keywords_loop (of_nat k) keyNum cap found ts
    = Option.bind (keyword_of (ts ! n)) (\<lambda>w. if length w < cap then Some (Some w) else None)"
  using assms
proof (induction ts arbitrary: k n)
  case (Cons t ts)
  have u: "unat (of_nat (Suc k) :: u8) = Suc k" using Cons.prems(1,2) by (intro unat_of_nat_u8) simp
  then have eq: "of_nat k + 1 = keyNum \<longleftrightarrow> n = 0"
    using Cons.prems(3) by (simp add: of_nat_Suc_word word_unat_eq_iff del: of_nat_Suc)
  show ?case
  proof (cases n)
    case 0
    then show ?thesis
      using eq keywords_loop_past [of keyNum "Suc k" ts cap] Cons.prems
      by (cases "keyword_of t") (auto simp: of_nat_Suc_word)
  next
    case (Suc i)
    then show ?thesis
      using eq Cons.IH [of i "Suc k"] Cons.prems by (simp add: of_nat_Suc_word)
  qed
qed simp

text \<open>A field that is a quoted word, with blanks after it.\<close>

lemma keyword_of_word:
  assumes "w \<noteq> []" and "hd w \<noteq> 0x22" and "\<not> at_blank (last w)" and "list_all at_blank j"
    and "q = [] \<or> q = [0x22]"
  shows "keyword_of (q @ w @ j) = Some w"
proof -
  obtain v c where w: "w = v @ [c]" using assms(1) by (cases w rule: rev_cases) auto
  have "(if hd (q @ w @ j) = 0x22 then tl (q @ w @ j) else q @ w @ j) = v @ c # j"
    using assms(1,2,5) w by (cases v) auto
  moreover have "trim_key_len (v @ c # j) (length (v @ c # j)) = Some (Suc (length v))"
    using trim_key_len_append [of c j v] assms(3,4) w by simp
  ultimately show ?thesis by (simp only: keyword_of_def Let_def) (simp add: w)
qed

lemma keyword_of_blank: "list_all at_blank t \<Longrightarrow> keyword_of t = None"
  by (cases t) (auto simp: keyword_of_def Let_def trim_key_len_blanks)

lemma get_at_rsp_keywords_eq:
  assumes "list_all (\<lambda>t. t \<noteq> [] \<and> 0x2C \<notin> set t \<and> 0 \<notin> set t) ts" and "length ts < 256" and "n < length ts"
  shows "get_at_rsp_keywords (srcHeader @ join_comma ts @ 0 # rest) srcHeader (of_nat (Suc n)) cap
    = Option.bind (keyword_of (ts ! n)) (\<lambda>w. if length w < cap then Some (Some w) else None)"
proof -
  have "0 \<notin> set (join_comma ts)" using assms(1) by (induction ts rule: join_comma.induct) auto
  then have "c_string (srcHeader @ join_comma ts @ 0 # rest) (length srcHeader) = Some (join_comma ts)" by simp
  moreover have "strtok_comma [] (join_comma ts) = ts"
    using assms(1) by (intro strtok_join) (auto simp: list_all_iff)
  moreover have "unat (of_nat (Suc n) :: u8) = Suc n" using assms(2,3) by (intro unat_of_nat_u8) simp
  ultimately show ?thesis
    using keywords_loop_nth [of n ts 0 "of_nat (Suc n)" cap None] assms(2,3) by (simp add: get_at_rsp_keywords_def)
qed

text \<open>Field number \<open>n + 1\<close> of a message of comma separated fields comes back without its quote and the blanks
  after it, if it fits.\<close>

lemma get_at_rsp_keywords_field:
  assumes "list_all (\<lambda>t. t \<noteq> [] \<and> 0x2C \<notin> set t \<and> 0 \<notin> set t) ts" and "length ts < 256" and "n < length ts"
    and "ts ! n = q @ w @ j" and "q = [] \<or> q = [0x22]" and "w \<noteq> []" and "hd w \<noteq> 0x22"
    and "\<not> at_blank (last w)" and "list_all at_blank j" and "length w < cap"
  shows "get_at_rsp_keywords (srcHeader @ join_comma ts @ 0 # rest) srcHeader (of_nat (Suc n)) cap = Some (Some w)"
  using get_at_rsp_keywords_eq [OF assms(1-3)] keyword_of_word [OF assms(6-9,5)] assms(4,10) by simp

theorem get_at_rsp_keywords_field_witness:
  "get_at_rsp_keywords (asc ''+QLBS:'' @ join_comma [asc '' 0'', asc ''30.2'' @ [0x22, 13]] @ 0 # []) (asc ''+QLBS:'')
     (of_nat (Suc 1)) 25 = Some (Some (asc ''30.2''))"
  by (rule get_at_rsp_keywords_field [where q = "[]" and j = "[0x22, 13]"]) (simp_all add: asc_def at_blank_def)

text \<open>A field that consists of quotes and blanks only makes the trimming loop run past the beginning of the
  field: the call reads outside the message.\<close>

lemma get_at_rsp_keywords_blank_field:
  assumes "list_all (\<lambda>t. t \<noteq> [] \<and> 0x2C \<notin> set t \<and> 0 \<notin> set t) ts" and "length ts < 256" and "n < length ts"
    and "list_all at_blank (ts ! n)"
  shows "get_at_rsp_keywords (srcHeader @ join_comma ts @ 0 # rest) srcHeader (of_nat (Suc n)) cap = None"
  using get_at_rsp_keywords_eq [OF assms(1-3)] keyword_of_blank [OF assms(4)] by simp

theorem get_at_rsp_keywords_blank_field_witness:
  "get_at_rsp_keywords ([] @ join_comma [asc ''1'', [0x22, 0x22]] @ 0 # []) [] (of_nat (Suc 1)) 25 = None"
  by (rule get_at_rsp_keywords_blank_field) (simp_all add: asc_def at_blank_def)

end
