(* ===== verification/AtCell.thy ===== *)
theory AtCell
  imports AtDevice AtKeywords
begin

text \<open>
  The callbacks of \<^verbatim>\<open>src/ql_application/App_XD/netlink/app_net4g.c\<close> that read the radio cells:
  \<open>net4g_get_net_qcell_cb\<close> (serving cell and up to two neighbours) and the two \<open>qeng\<close> callbacks.
  The chains of comparisons of the field number are tables from field numbers to assignments; each field
  that is used also costs a delay of 100 ms.
\<close>

section \<open>Model\<close>

text \<open>\<open>strtol\<close> to a 32-bit \<open>long\<close>, base 10 or 16: blanks, sign, the prefix \<open>0x\<close>, digits; saturating.\<close>

definition digit_value :: "u8 \<Rightarrow> int" where
  "digit_value c =
     (if is_digit c then uint c - 0x30
      else if 0x41 \<le> c \<and> c \<le> 0x46 then uint c - 0x37
      else if 0x61 \<le> c \<and> c \<le> 0x66 then uint c - 0x57 else 99)"

definition strtol_digits :: "int \<Rightarrow> bytes \<Rightarrow> int" where
  "strtol_digits base s =
     foldl (\<lambda>n c. base * n + digit_value c) 0 (takeWhile (\<lambda>c. digit_value c < base)
       (if base = 16 \<and> 2 < length s \<and> s ! 0 = 0x30 \<and> (s ! 1 = 0x78 \<or> s ! 1 = 0x58) \<and> digit_value (s ! 2) < 16
        then drop 2 s else s))"

definition strtol :: "int \<Rightarrow> bytes \<Rightarrow> int" where
  "strtol base s =
     (let s = dropWhile (\<lambda>c. c = 0x20 \<or> 9 \<le> c \<and> c \<le> 13) s;
          v = (case s of [] \<Rightarrow> 0
               | c # cs \<Rightarrow> if c = 0x2D then - strtol_digits base cs
                           else if c = 0x2B then strtol_digits base cs else strtol_digits base s)
      in max (- (2 ^ 31)) (min (2 ^ 31 - 1) v))"

text \<open>A field together with the memory after its terminator.\<close>

fun strtok_mem :: "bytes \<Rightarrow> bytes \<Rightarrow> (bytes \<times> bytes) list" where
  "strtok_mem cur [] = (if cur = [] then [] else [(cur, [])])"
| "strtok_mem cur (c # s) =
     (if c = 0x2C then (if cur = [] then [] else [(cur, s)]) @ strtok_mem [] s else strtok_mem (cur @ [c]) s)"

definition token_chars :: "bytes \<times> bytes \<Rightarrow> bytes" where
  "token_chars t = take 3 (drop 1 (fst t @ 0 # snd t) @ replicate 3 0)"

type_synonym cell_fields = "(nat \<times> (bytes \<times> bytes \<Rightarrow> cell_info \<Rightarrow> cell_info)) list"

definition lcell_fields :: cell_fields where
  "lcell_fields =
     [(2, \<lambda>t c. c\<lparr>MCC := strtol 10 (fst t)\<rparr>), (3, \<lambda>t c. c\<lparr>MNC := strtol 10 (fst t)\<rparr>),
      (4, \<lambda>t c. c\<lparr>TAC := strtol 16 (fst t)\<rparr>), (5, \<lambda>t c. c\<lparr>cellID := strtol 16 (fst t)\<rparr>),
      (6, \<lambda>t c. c\<lparr>PCI := strtol 10 (fst t)\<rparr>), (7, \<lambda>t c. c\<lparr>srxlev := strtol 10 (fst t)\<rparr>),
      (8, \<lambda>t c. c), (9, \<lambda>t c. c\<lparr>RSRP := strtol 10 (fst t)\<rparr>),
      (10, \<lambda>t c. c\<lparr>RSRQ := strtol 10 (fst t)\<rparr>), (11, \<lambda>t c. c\<lparr>SINR := strtol 10 (fst t)\<rparr>)]"

definition qcell_fields :: cell_fields where
  "qcell_fields =
     [(2, \<lambda>t c. c\<lparr>MCC := strtol 10 (fst t)\<rparr>), (3, \<lambda>t c. c\<lparr>MNC := strtol 10 (fst t)\<rparr>),
      (4, \<lambda>t c. c\<lparr>TAC := strtol 16 (fst t)\<rparr>), (5, \<lambda>t c. c\<lparr>cellID := strtol 16 (fst t)\<rparr>),
      (6, \<lambda>t c. c\<lparr>PCI := strtol 10 (fst t)\<rparr>), (7, \<lambda>t c. c\<lparr>srxlev := strtol 10 (fst t)\<rparr>)]"

definition qeng_servingcell_fields :: cell_fields where
  "qeng_servingcell_fields =
     [(3, \<lambda>t c. c\<lparr>is_tdd := token_chars t @ [0]\<rparr>), (4, \<lambda>t c. c\<lparr>MCC := strtol 10 (fst t)\<rparr>),
      (5, \<lambda>t c. c\<lparr>MNC := strtol 10 (fst t)\<rparr>), (6, \<lambda>t c. c\<lparr>cellID := strtol 16 (fst t)\<rparr>),
      (7, \<lambda>t c. c\<lparr>PCI := strtol 10 (fst t)\<rparr>), (8, \<lambda>t c. c\<lparr>EARFCN := strtol 10 (fst t)\<rparr>),
      (9, \<lambda>t c. c\<lparr>freq_band_ind := strtol 10 (fst t)\<rparr>), (10, \<lambda>t c. c\<lparr>UL_bandwidth := strtol 10 (fst t)\<rparr>),
      (11, \<lambda>t c. c\<lparr>DL_bandwidth := strtol 10 (fst t)\<rparr>), (12, \<lambda>t c. c\<lparr>TAC := strtol 16 (fst t)\<rparr>),
      (13, \<lambda>t c. c\<lparr>RSRP := strtol 10 (fst t)\<rparr>), (14, \<lambda>t c. c\<lparr>RSRQ := strtol 10 (fst t)\<rparr>), (15, \<lambda>t c. c),
      (16, \<lambda>t c. c\<lparr>SINR := strtol 10 (fst t)\<rparr>), (17, \<lambda>t c. c\<lparr>srxlev := strtol 10 (fst t)\<rparr>)]"

text \<open>The loop over the fields; the result is the cell and the number of delays.\<close>

fun cell_loop :: "cell_fields \<Rightarrow> u8 \<Rightarrow> (bytes \<times> bytes) list \<Rightarrow> cell_info \<Rightarrow> cell_info \<times> nat" where
  "cell_loop fs currentIndex [] c = (c, 0)"
| "cell_loop fs currentIndex (t # ts) c =
     (case map_of fs (unat currentIndex) of
        None \<Rightarrow> cell_loop fs (currentIndex + 1) ts c
      | Some f \<Rightarrow> let (c, n) = cell_loop fs (currentIndex + 1) ts (f t c) in (c, Suc n))"

text \<open>The three parts of \<open>net4g_get_net_qcell_cb\<close>: serving cell, first and second neighbour.\<close>

definition qcell_table :: "module_type \<Rightarrow> cell_fields" where
  "qcell_table m = (if lierda m then lcell_fields else qcell_fields)"

definition qcell_serving :: "module_type \<Rightarrow> bytes option \<Rightarrow> device \<Rightarrow> device" where
  "qcell_serving m v d =
     (case v of None \<Rightarrow> d
      | Some s \<Rightarrow> let (c, n) = cell_loop (qcell_table m) 0 (strtok_mem [] s) (servingcell d)
                  in app_delay_ms (100 * n) (d\<lparr>servingcell := c\<rparr>))"

definition qcell_neighbour :: "module_type \<Rightarrow> bytes option \<Rightarrow> device \<Rightarrow> device" where
  "qcell_neighbour m v d =
     (case v of None \<Rightarrow> d
      | Some s \<Rightarrow> let (c, n) = cell_loop (qcell_table m) 0 (strtok_mem [] s) (neighbourcell d)
                  in app_delay_ms (100 * n) (d\<lparr>nearbts_count := 1, neighbourcell := c\<rparr>))"

definition qcell_neighbour2 :: "module_type \<Rightarrow> bytes option \<Rightarrow> device \<Rightarrow> device" where
  "qcell_neighbour2 m v d =
     (case v of None \<Rightarrow> d
      | Some s \<Rightarrow> let (c, n) = cell_loop (qcell_table m) 0 (strtok_mem [] s) (neighbourcell2 d)
                  in app_delay_ms (100 * n) (d\<lparr>nearbts_count := 2, neighbourcell2 := c\<rparr>))"

definition net4g_get_net_qcell_cb :: "module_type \<Rightarrow> at_handler" where
  "net4g_get_net_qcell_cb m ret srcData len d =
     (if ret \<noteq> AT_OK then Some (d, AT_ERR) else
     let d = d\<lparr>nearbts_count := 0\<rparr> in
     Option.bind (rsp_string srcData len (Some (if lierda m then asc ''+LCELL:'' else asc ''+QCELL:''))
         (if lierda m then crlf else NET_CMD_RSP_TAIL_OK) 500) (\<lambda>v.
     let d = qcell_serving m v d in
     Option.bind (strstr srcData 0 (asc ''neighbourcell'')) (\<lambda>found.
     case found of None \<Rightarrow> Some (d, AT_OK)
     | Some off \<Rightarrow>
         let off = unat (of_nat off :: u16) in
         Option.bind (rsp_string (drop off srcData) (len - of_nat off) (Some (asc ''neighbourcell'')) crlf 500) (\<lambda>v.
         let d = qcell_neighbour m v d in
         Option.bind (strstr srcData (off + 13) (asc ''neighbourcell'')) (\<lambda>found.
         case found of None \<Rightarrow> Some (d, AT_OK)
         | Some off \<Rightarrow>
             let off = unat (of_nat off :: u16) in
             map_option (\<lambda>v. (qcell_neighbour2 m v d, AT_OK))
               (rsp_string (drop off srcData) (len - of_nat off) (Some (asc ''neighbourcell'')) crlf 500))))))"

text \<open>The Lierda variants of the other two callbacks do nothing.\<close>

definition net4g_get_net_qeng_serving_cell_cb :: "module_type \<Rightarrow> at_handler" where
  "net4g_get_net_qeng_serving_cell_cb m ret srcData len d =
     (if ret \<noteq> AT_OK \<or> lierda m then Some (d, AT_ERR) else
     Option.bind (rsp_string srcData len (Some (asc ''+QENG:'')) NET_CMD_RSP_TAIL_OK 500) (\<lambda>v.
     case v of None \<Rightarrow> Some (d, AT_ERR)
     | Some s \<Rightarrow> let (c, n) = cell_loop qeng_servingcell_fields 0 (strtok_mem [] s) (servingcell d)
                  in Some (app_delay_ms (100 * n) (d\<lparr>servingcell := c\<rparr>), AT_OK)))"

definition net4g_get_net_qeng_neighbour_cell_cb :: "module_type \<Rightarrow> at_handler" where
  "net4g_get_net_qeng_neighbour_cell_cb m ret srcData len d =
     (if ret \<noteq> AT_OK \<or> lierda m then Some (d, AT_ERR) else
     map_option (\<lambda>v. (d, if v = None then AT_ERR else AT_OK))
       (rsp_string srcData len (Some (asc ''+QENG:'')) NET_CMD_RSP_TAIL_OK 500))"

section \<open>The callbacks meet their contract\<close>

lemma allowed_trans: "allowed d (e, r) \<Longrightarrow> allowed e (f, r') \<Longrightarrow> allowed d (f, r')"
  by (auto simp: allowed_def intro: same_line_trans keeps_trans)

lemmas qcell_parts = qcell_serving_def qcell_neighbour_def qcell_neighbour2_def app_delay_ms_def

lemma allowed_qcell_parts:
  assumes "allowed d (e, AT_OK)"
  shows "allowed d (qcell_serving m v e, AT_OK)" "allowed d (qcell_neighbour m v e, AT_OK)"
    "allowed d (qcell_neighbour2 m v e, AT_OK)"
  by (rule allowed_trans [OF assms], simp add: qcell_parts callback_facts split: option.split prod.split)+

interpretation qcell: at_callback "net4g_get_net_qcell_cb m" for m
proof (rule at_callbackI)
  fix ret buf len d
  have "allowed d (d\<lparr>nearbts_count := 0\<rparr>, AT_OK)" by (simp add: callback_facts)
  then show "pred_option (allowed d) (net4g_get_net_qcell_cb m ret buf len d)"
    unfolding net4g_get_net_qcell_cb_def by (intro opt_intro allowed_qcell_parts) auto
qed

interpretation qeng_serving: at_callback "net4g_get_net_qeng_serving_cell_cb m" for m
  by (rule at_callbackI, unfold net4g_get_net_qeng_serving_cell_cb_def, intro opt_intro)
    (auto simp: callback_facts app_delay_ms_def split: prod.split)

interpretation qeng_neighbour: at_callback "net4g_get_net_qeng_neighbour_cell_cb m" for m
  by (rule at_callbackI, unfold net4g_get_net_qeng_neighbour_cell_cb_def, intro opt_intro) auto

section \<open>What is stored\<close>

lemma map_fst_strtok_mem: "map fst (strtok_mem cur s) = strtok_comma cur s"
  by (induction cur s rule: strtok_mem.induct) auto

text \<open>Field numbers without an entry are skipped.\<close>

lemma cell_loop_past:
  assumes "list_all (\<lambda>(i, f). i < k) fs" and "k + length ts < 256"
  shows "cell_loop fs (of_nat k) ts c = (c, 0)"
  using assms
proof (induction ts arbitrary: k)
  case (Cons t ts)
  then have "map_of fs k = None" by (force simp: map_of_eq_None_iff list_all_iff)
  moreover have "unat (of_nat k :: u8) = k" using Cons.prems(2) by (intro unat_of_nat_u8) simp
  moreover have "list_all (\<lambda>(i, f). i < Suc k) fs" using Cons.prems(1) by (auto simp: list_all_iff)
  then have "cell_loop fs (of_nat (Suc k)) ts c = (c, 0)" using Cons.IH [of "Suc k"] Cons.prems(2) by simp
  ultimately show ?case by (simp add: of_nat_Suc_word del: of_nat_Suc)
qed simp

definition lcell_of :: "bytes list \<Rightarrow> cell_info \<Rightarrow> cell_info" where
  "lcell_of ts c = c\<lparr>MCC := strtol 10 (ts ! 2), MNC := strtol 10 (ts ! 3), TAC := strtol 16 (ts ! 4),
     cellID := strtol 16 (ts ! 5), PCI := strtol 10 (ts ! 6), srxlev := strtol 10 (ts ! 7),
     RSRP := strtol 10 (ts ! 9), RSRQ := strtol 10 (ts ! 10), SINR := strtol 10 (ts ! 11)\<rparr>"

lemma cell_loop_lcell:
  assumes "12 \<le> length ts" and "length ts < 256"
  shows "cell_loop lcell_fields 0 ts c = (lcell_of (map fst ts) c, 10)"
proof -
  obtain t0 t1 t2 t3 t4 t5 t6 t7 t8 t9 t10 t11 us where ts:
    "ts = t0 # t1 # t2 # t3 # t4 # t5 # t6 # t7 # t8 # t9 # t10 # t11 # us"
    using assms(1) by (auto simp: numeral_eq_Suc Suc_le_length_iff)
  have "cell_loop lcell_fields (of_nat 12) us c = (c, 0)" for c
    by (rule cell_loop_past) (use assms(2) in \<open>simp_all add: lcell_fields_def ts\<close>)
  then have "cell_loop lcell_fields 12 us c = (c, 0)" for c by simp
  then show ?thesis by (simp add: ts lcell_fields_def lcell_of_def)
qed

text \<open>A Lierda module's serving cell line \<open>+LCELL: \<dots>\<close> with at least twelve fields fills the serving cell from the
  fields 2 to 11 (area and cell in hexadecimal, the rest in decimal), costs a second of delays, and without
  a neighbour line leaves the number of neighbours 0.\<close>

lemma net4g_get_net_qcell_cb_serving:
  assumes "at_response srcData len (asc ''+LCELL:'') (join_comma ts) crlf" and "lierda m"
    and "list_all (\<lambda>t. t \<noteq> [] \<and> 0x2C \<notin> set t) ts" and "12 \<le> length ts" and "length (join_comma ts) < 256"
    and "strstr srcData 0 (asc ''neighbourcell'') = Some None"
  shows "net4g_get_net_qcell_cb m AT_OK srcData len d
    = Some (d\<lparr>nearbts_count := 0, servingcell := lcell_of ts (servingcell d), elapsed_ms := elapsed_ms d + 1000\<rparr>, AT_OK)"
proof -
  let ?ts = "strtok_mem [] (join_comma ts)"
  have "map fst ?ts = ts" using strtok_join [OF assms(3)] by (simp add: map_fst_strtok_mem)
  moreover have "length ts \<le> length (join_comma ts)"
    using assms(3) by (induction ts rule: join_comma.induct) (auto simp: Suc_le_eq)
  ultimately have "cell_loop lcell_fields 0 ?ts c = (lcell_of ts c, 10)" for c
    using cell_loop_lcell [of ?ts c] assms(4,5) by (metis length_map le_less_trans)
  moreover have "rsp_string srcData len (Some (asc ''+LCELL:'')) crlf 500 = Some (Some (join_comma ts))"
    using rsp_string_response [OF assms(1)] assms(5) by simp
  ultimately show ?thesis
    using assms(2,6) by (simp add: net4g_get_net_qcell_cb_def qcell_serving_def qcell_table_def app_delay_ms_def Let_def)
qed

theorem net4g_get_net_qcell_cb_serving_witness:
  "\<exists>ts src. ts = [asc ''0'', asc ''serv'', asc ''460'', asc ''00'', asc ''1A2B'', asc ''C0FF'', asc ''7'', asc ''-9'',
       asc ''1300'', asc ''-80'', asc ''-11'', asc ''5''] \<and> src = crlf @ asc ''+LCELL:'' @ [32] @ join_comma ts @ crlf @ [0] \<and>
     net4g_get_net_qcell_cb CE109 AT_OK src 8 (sample_device 8 [])
       = Some ((sample_device 8 [])\<lparr>nearbts_count := 0, servingcell := lcell_of ts sample_cell, elapsed_ms := 1000\<rparr>, AT_OK)"
proof -
  let ?ts = "[asc ''0'', asc ''serv'', asc ''460'', asc ''00'', asc ''1A2B'', asc ''C0FF'', asc ''7'', asc ''-9'',
       asc ''1300'', asc ''-80'', asc ''-11'', asc ''5'']"
  let ?src = "crlf @ asc ''+LCELL:'' @ [32] @ join_comma ?ts @ crlf @ [0]"
  have rsp: "at_response ?src 8 (asc ''+LCELL:'') (join_comma ?ts) crlf"
    by (rule at_responseI [of _ crlf _ "[32]" _ "[]" _ "[]"]) (simp_all add: crlf_def asc_def at_blank_def)
  have "find_sub (asc ''neighbourcell'') (crlf @ asc ''+LCELL:'' @ [32] @ join_comma ?ts @ crlf) = None"
    by (rule find_sub_absent) (simp_all add: crlf_def asc_def)
  then have none: "strstr ?src 0 (asc ''neighbourcell'') = Some None"
    using c_string_append [of "[]" 0 "crlf @ asc ''+LCELL:'' @ [32] @ join_comma ?ts @ crlf" "[]"]
    by (simp add: strstr_def crlf_def asc_def)
  have "net4g_get_net_qcell_cb CE109 AT_OK ?src 8 (sample_device 8 [])
       = Some ((sample_device 8 [])\<lparr>nearbts_count := 0, servingcell := lcell_of ?ts (servingcell (sample_device 8 [])),
           elapsed_ms := elapsed_ms (sample_device 8 []) + 1000\<rparr>, AT_OK)"
    by (rule net4g_get_net_qcell_cb_serving [OF rsp _ _ _ _ none]) (simp_all add: lierda_def asc_def)
  moreover have "servingcell (sample_device 8 []) = sample_cell" "elapsed_ms (sample_device 8 []) = 0"
    by (simp_all add: sample_device_def)
  ultimately show ?thesis by simp
qed

end
