(* ===== verification/AtCallbacks.thy ===== *)
theory AtCallbacks
  imports AtCell
begin

text \<open>
  The callbacks of \<^verbatim>\<open>src/ql_application/App_XD/netlink/app_net4g.c\<close> that take the module's and the SIM cards'
  data out of a response: version, IMEI, serial number, SIM in use, SIM state, ICCID, network state,
  signal strength and location.  Each gets the response buffer and its length and changes the device.
  Lines that only print are left out.  The results of a callback are AT_OK and AT_ERR; \<open>None\<close> is an access
  outside an array or through a null pointer, which the callbacks do not guard against.
\<close>

section \<open>Model\<close>

text \<open>Keywords of the two module families.\<close>

definition GET_IMEI_RSP_HEAD :: "module_type \<Rightarrow> bytes option" where
  "GET_IMEI_RSP_HEAD m = (if lierda m then Some (asc ''+CGSN:'') else None)"

definition GET_SN_NO_RSP_HEAD :: "module_type \<Rightarrow> bytes" where
  "GET_SN_NO_RSP_HEAD m = (if lierda m then asc ''+CGSN:'' else asc ''+EGMR:'')"

definition GET_SIM_NO_RSP_HEAD :: "module_type \<Rightarrow> bytes" where
  "GET_SIM_NO_RSP_HEAD m = (if lierda m then asc ''+LCCID:'' else asc ''+QCCID:'')"

definition GET_SIM_USING_HEAD :: "module_type \<Rightarrow> bytes" where
  "GET_SIM_USING_HEAD m = (if lierda m then asc ''+LUIMSLOT:'' else asc ''+QDSIM: '')"

definition XD_LOCATION_PARA_TOKEN :: "module_type \<Rightarrow> bytes" where
  "XD_LOCATION_PARA_TOKEN m = (if lierda m then asc ''1B906A53A8B5C7A621A3018957FEA72D'' else asc ''0112w9RLs64w6446'')"

text \<open>\<open>memset(buf, 0, sizeof buf); memcpy(buf, s, n)\<close>, \<open>sprintf(buf, \<dots>)\<close> and \<open>strcmp(a, b) != 0\<close>.\<close>

definition set_string :: "bytes \<Rightarrow> bytes \<Rightarrow> bytes option" where
  "set_string buf s = (if length s \<le> length buf then Some (s @ replicate (length buf - length s) 0) else None)"

definition sprintf_to :: "bytes \<Rightarrow> bytes \<Rightarrow> bytes option" where
  "sprintf_to buf s = (if length s < length buf then Some (blit buf 0 (s @ [0])) else None)"

definition snprintf_to :: "bytes \<Rightarrow> bytes \<Rightarrow> printf_arg list \<Rightarrow> bytes" where
  "snprintf_to buf fmt args = (if buf = [] then [] else blit buf 0 (snprintf (length buf) fmt args @ [0]))"

fun strcmp_ne :: "bytes \<Rightarrow> bytes \<Rightarrow> bool option" where
  "strcmp_ne (x # xs) (y # ys) = (if x \<noteq> y then Some True else if x = 0 then Some False else strcmp_ne xs ys)"
| "strcmp_ne xs ys = None"

definition to_lower :: "bytes \<Rightarrow> bytes" where
  "to_lower s = map (\<lambda>c. if 0x41 \<le> c \<and> c \<le> 0x5A then c + 0x20 else c) s"

definition strcasecmp_eq :: "bytes \<Rightarrow> bytes \<Rightarrow> bool" where
  "strcasecmp_eq s t \<longleftrightarrow> to_lower s = to_lower t"

text \<open>Module version: the number after the product name, or (Quectel) the name's tail with dots for letters.\<close>

definition version_text :: "u32 \<Rightarrow> bytes" where
  "version_text v = sprintf (asc ''%d.%d.%d'') [Num (unat v div 1000000), Num (unat v div 100000 mod 10), Num (unat v div 10000 mod 10)]"

fun version_clean :: "bytes \<Rightarrow> bytes" where
  "version_clean [] = []"
| "version_clean (c # s) =
     (if 0x41 \<le> c \<and> c \<le> 0x5A \<or> 0x61 \<le> c \<and> c \<le> 0x7A then 0x2E # version_clean s
      else if c < 0x30 \<or> 0x39 < c then [] else c # version_clean s)"

definition version_key :: "module_type \<Rightarrow> bytes" where
  "version_key m =
     (case m of NT26E \<Rightarrow> asc ''NT26KCNA00NNA-L'' | NT26K \<Rightarrow> asc ''NT26KCN'' | CE109 \<Rightarrow> asc ''NT26KCN''
      | EC800 \<Rightarrow> asc ''EC800ECNLCR'' | EC801 \<Rightarrow> asc ''EC801ECNCGR'' | EG800GEU \<Rightarrow> asc ''EG800GEULDR'')"

text \<open>The version as printed; \<open>None\<close> when the product name is missing (a null pointer is then used).\<close>

definition module_version :: "module_type \<Rightarrow> bytes \<Rightarrow> bytes option" where
  "module_version m target =
     Option.bind (strstr target 0 (version_key m)) (\<lambda>found.
     Option.bind found (\<lambda>i.
     let appVer = i + length (version_key m) in
     if m = NT26E then map_option (\<lambda>s. version_text (word_of_int (atoi s))) (c_string target appVer)
     else if lierda m then map_option (\<lambda>s. version_text (word_of_int (atoi s))) (c_string target (appVer + 8))
     else map_option version_clean (c_string target appVer)))"

text \<open>The Lierda branches clear the array before they print into it.\<close>

definition store_version :: "module_type \<Rightarrow> bytes \<Rightarrow> bytes \<Rightarrow> bytes option" where
  "store_version m buf v = sprintf_to (if lierda m then replicate (length buf) 0 else buf) v"

definition net4g_get_module_info_cb :: "module_type \<Rightarrow> at_handler" where
  "net4g_get_module_info_cb m ret srcData len d =
     (if ret \<noteq> AT_OK then Some (d, AT_ERR) else
     Option.bind (rsp_buffer srcData len None NET_CMD_RSP_TAIL_OK 50) (\<lambda>b.
     case b of None \<Rightarrow> Some (d, AT_ERR)
     | Some target \<Rightarrow>
         Option.bind (module_version m target) (\<lambda>v.
         Option.bind (store_version m (net4gVer d) v) (\<lambda>ver.
         Option.bind (strcmp_ne ver (sys_net4gVer d)) (\<lambda>changed.
         if changed then map_option (\<lambda>sys. (d\<lparr>net4gVer := ver, sys_net4gVer := sys,
                             para_flash_writes := para_flash_writes d + 1\<rparr>, AT_OK)) (store_version m (sys_net4gVer d) v)
         else Some (d\<lparr>net4gVer := ver\<rparr>, AT_OK))))))"

definition net4g_get_module_imei_cb :: "module_type \<Rightarrow> at_handler" where
  "net4g_get_module_imei_cb m ret srcData len d =
     (if ret \<noteq> AT_OK then Some (d, AT_ERR) else
     Option.bind (rsp_string srcData len (GET_IMEI_RSP_HEAD m) NET_CMD_RSP_TAIL_OK 50) (\<lambda>v.
     case v of None \<Rightarrow> Some (d, AT_ERR)
     | Some t \<Rightarrow> map_option (\<lambda>b. (d\<lparr>imei := b\<rparr>, AT_OK)) (set_string (imei d) t)))"

text \<open>The answer goes into the single character \<open>sim_flag\<close>; the numbering of the cards differs.\<close>

definition net4g_get_sim_using_cb :: "module_type \<Rightarrow> at_handler" where
  "net4g_get_sim_using_cb m ret srcData len d =
     (if ret \<noteq> AT_OK then Some (d, AT_ERR) else
     Option.bind (get_atcmd_rsp_value srcData 1 (Some (GET_SIM_USING_HEAD m)) NET_CMD_RSP_TAIL_OK 1) (\<lambda>v.
     case v of None \<Rightarrow> Some (d, AT_ERR)
     | Some t \<Rightarrow>
         Some (if hd t = (if lierda m then 0x31 else 0x30) then d\<lparr>simFlag := 1\<rparr>
               else if hd t = (if lierda m then 0x32 else 0x31) then d\<lparr>simFlag := 2\<rparr> else d, AT_OK)))"

definition net4g_get_module_sn_cb :: "module_type \<Rightarrow> at_handler" where
  "net4g_get_module_sn_cb m ret srcData len d =
     (if ret \<noteq> AT_OK then Some (d, AT_ERR) else
     Option.bind (rsp_string srcData len (Some (GET_SN_NO_RSP_HEAD m)) NET_CMD_RSP_TAIL_OK 50) (\<lambda>v.
     case v of None \<Rightarrow> Some (d, AT_ERR)
     | Some t \<Rightarrow>
         map_option (\<lambda>b. (d\<lparr>sn := b\<rparr>, AT_OK))
           (set_string (sn d) (if \<not> lierda m \<and> 15 < length t then take (length t - 2) t else t))))"

definition net4g_is_sim_ok_cb :: at_handler where
  "net4g_is_sim_ok_cb ret srcData len d =
     (if ret \<noteq> AT_OK then Some (d, AT_ERR) else
     Option.bind (rsp_string srcData len (Some (asc ''+CPIN:'')) NET_CMD_RSP_TAIL_OK 50) (\<lambda>v.
     case v of
       Some t \<Rightarrow> Some (d, if strcasecmp_eq t (asc ''READY'') then AT_OK else AT_ERR)
     | None \<Rightarrow>
         map_option (\<lambda>_. (d, AT_ERR)) (rsp_string srcData len (Some (asc ''+CME ERROR:'')) NET_CMD_RSP_TAIL_OK 50)))"

text \<open>The state of the card in use: 1 usable, 2 not usable.\<close>

definition set_sim_state :: "u8 \<Rightarrow> device \<Rightarrow> device" where
  "set_sim_state st d =
     (if simFlag d = 1 then d\<lparr>sim1State := st\<rparr> else if simFlag d = 2 then d\<lparr>sim2State := st\<rparr> else d)"

text \<open>An ICCID is stored, and the parameters written to flash, only when it changed.\<close>

definition store_iccid :: "bytes \<Rightarrow> bytes \<Rightarrow> bytes option option" where
  "store_iccid buf t =
     Option.bind (strcmp_ne buf (t @ [0])) (\<lambda>changed.
     if changed then map_option Some (set_string buf t) else Some None)"

definition net4g_get_sim_no_cb :: "module_type \<Rightarrow> at_handler" where
  "net4g_get_sim_no_cb m ret srcData len d =
     (if ret \<noteq> AT_OK then Some (set_sim_state 2 d, AT_ERR)
      else if simFlag d \<noteq> 1 \<and> simFlag d \<noteq> 2 then Some (d, AT_OK) else
      Option.bind (rsp_string srcData len (Some (GET_SIM_NO_RSP_HEAD m)) NET_CMD_RSP_TAIL_OK 50) (\<lambda>v.
      case v of None \<Rightarrow> Some (d, AT_ERR)
      | Some t \<Rightarrow>
          map_option (\<lambda>b. case b of None \<Rightarrow> (d, AT_OK)
              | Some b \<Rightarrow> let d = d\<lparr>para_flash_writes := para_flash_writes d + 1\<rparr>
                          in (if simFlag d = 1 then d\<lparr>iccid := b\<rparr> else d\<lparr>iccid2 := b\<rparr>, AT_OK))
            (store_iccid (if simFlag d = 1 then iccid d else iccid2 d) t)))"

definition net4g_get_sim_state_cb :: at_handler where
  "net4g_get_sim_state_cb ret srcData len d =
     (if ret \<noteq> AT_OK then Some (d, AT_ERR) else
     Option.bind (rsp_string srcData len (Some (asc ''+CEREG:'')) NET_CMD_RSP_TAIL_OK 50) (\<lambda>v.
     case v of None \<Rightarrow> Some (d, AT_ERR)
     | Some t \<Rightarrow> Some (if strcasecmp_eq t (asc ''0,1'') \<or> strcasecmp_eq t (asc ''0,5'')
                         then (set_sim_state 1 d, AT_OK) else (set_sim_state 2 d, AT_ERR))))"

definition net4g_get_net_state_cb :: at_handler where
  "net4g_get_net_state_cb ret srcData len d =
     (if ret \<noteq> AT_OK then Some (d, AT_ERR) else
     Option.bind (rsp_string srcData len (Some (asc ''+CGATT:'')) NET_CMD_RSP_TAIL_OK 50) (\<lambda>v.
     case v of None \<Rightarrow> Some (d, AT_ERR)
     | Some t \<Rightarrow> Some (if strcasecmp_eq t (asc ''1'')
                         then (set_sim_state 1 d, AT_OK) else (set_sim_state 2 d, AT_ERR))))"

definition net4g_get_net_rssi_cb :: at_handler where
  "net4g_get_net_rssi_cb ret srcData len d =
     (if ret \<noteq> AT_OK then Some (d, AT_ERR) else
     Option.bind (rsp_string srcData len (Some (asc ''+CSQ:'')) NET_CMD_RSP_TAIL_OK 50) (\<lambda>v.
     case v of None \<Rightarrow> Some (d, AT_ERR)
     | Some t \<Rightarrow> let rssiValue = word_of_int (atoi t) :: u8;
                      rssiValue = (if 31 < rssiValue then 0 else rssiValue)
                  in Some (d\<lparr>signal := unat rssiValue * 100 div 31, RSSI := rssiValue\<rparr>, AT_OK)))"

text \<open>The location service: its configured server and token, and the position.\<close>

definition location_para_ok :: "module_type \<Rightarrow> bytes \<Rightarrow> bool option" where
  "location_para_ok m t =
     (if 100 < length t then None
      else if 0x2C \<notin> set t then (if length t = 100 then None else Some False)
      else let token = tl (dropWhile (\<lambda>c. c \<noteq> 0x2C) t) in
        if length t = 100 \<or> 50 \<le> length token then None
        else Some (if lierda m then token = XD_LOCATION_PARA_TOKEN m
                   else find_sub (asc ''****************'') token \<noteq> None))"

definition net4g_get_location_configPara :: "module_type \<Rightarrow> at_handler" where
  "net4g_get_location_configPara m ret srcData len d =
     (if ret \<noteq> AT_OK then Some (d, AT_ERR) else
     Option.bind (rsp_string srcData len (Some (if lierda m then asc ''+LBSPARA: '' else asc ''+QLBSCFG:'')) crlf 150) (\<lambda>v.
     case v of None \<Rightarrow> Some (d, AT_ERR)
     | Some t \<Rightarrow> map_option (\<lambda>ok. (d, if ok then AT_OK else AT_ERR)) (location_para_ok m t)))"

definition net4g_location_config_cmd_pack :: "module_type \<Rightarrow> nat \<Rightarrow> bytes" where
  "net4g_location_config_cmd_pack m destLen =
     (if lierda m
      then snprintf destLen (asc ''AT+LBSPARA=%s,%s'' @ crlf)
             [Str (asc ''http://locator-aep.xiot.senthink.com:80/locator/v0.1/locate''), Str (XD_LOCATION_PARA_TOKEN m)]
      else snprintf destLen (asc ''AT+QLBSCFG=\"token\",\"%s\"'' @ crlf) [Str (XD_LOCATION_PARA_TOKEN m)])"

text \<open>
  The Quectel branch reads the two fields one after the other, each from a fresh copy of the response;
  the Lierda branch swaps the two numbers around the comma, ten characters of each.
\<close>

definition location_swap :: "bytes \<Rightarrow> bytes \<Rightarrow> bytes option option" where
  "location_swap addr t =
     Option.bind (set_string addr t) (\<lambda>addr.
     if length t = length addr then None
     else if length t \<le> 21 \<or> 0x2C \<notin> set t then Some None
     else let long = takeWhile (\<lambda>c. c \<noteq> 0x2C) t; lati = tl (dropWhile (\<lambda>c. c \<noteq> 0x2C) t) in
       if 25 < length long \<or> 25 \<le> length lati \<or> length addr < 21 then None
       else Some (Some (blit (replicate (length addr) 0) 0
              (take 10 (lati @ replicate 25 0) @ [0x2C] @ take 10 (long @ replicate 25 0)))))"

definition net4g_get_net_location_addr :: "module_type \<Rightarrow> at_handler" where
  "net4g_get_net_location_addr m ret srcData len d =
     (if ret \<noteq> AT_OK then Some (d, AT_ERR)
      else if lierda m then
        Option.bind (rsp_string srcData len (Some (asc ''+LBS: '')) crlf 50) (\<lambda>v.
        case v of None \<Rightarrow> Some (d, AT_ERR)
        | Some t \<Rightarrow> Option.bind (set_string (location_addr d) t) (\<lambda>set.
            map_option (\<lambda>b. case b of None \<Rightarrow> (d\<lparr>location_addr := set\<rparr>, AT_ERR)
                             | Some b \<Rightarrow> (d\<lparr>location_addr := b\<rparr>, AT_OK)) (location_swap (location_addr d) t)))
      else
        Option.bind (rsp_buffer srcData len (Some (asc ''+QLBS'')) crlf 50) (\<lambda>b.
        case b of None \<Rightarrow> Some (d, AT_ERR)
        | Some target \<Rightarrow>
            Option.bind (get_at_rsp_keywords target (asc '':'') 2 25) (\<lambda>lati.
            case lati of None \<Rightarrow> Some (d, AT_ERR)
            | Some lati \<Rightarrow>
                Option.bind (get_at_rsp_keywords target (asc '':'') 3 25) (\<lambda>long.
                case long of None \<Rightarrow> Some (d, AT_ERR)
                | Some long \<Rightarrow>
                    Some (d\<lparr>location_addr := snprintf_to (location_addr d) (asc ''%s,%s'') [Str lati, Str long]\<rparr>, AT_OK)))))"

section \<open>The callbacks meet their contract\<close>

lemma length_set_string: "set_string buf s = Some b \<Longrightarrow> length b = length buf"
  by (auto simp: set_string_def split: if_splits)

lemma length_sprintf_to: "sprintf_to buf s = Some b \<Longrightarrow> length b = length buf"
  by (auto simp: sprintf_to_def split: if_splits)

lemma length_store_version: "store_version m buf v = Some b \<Longrightarrow> length b = length buf"
  by (auto simp: store_version_def split: if_splits dest: length_sprintf_to)

lemma length_store_iccid: "store_iccid buf t = Some (Some b) \<Longrightarrow> length b = length buf"
  by (auto simp: store_iccid_def bind_eq_Some_conv split: if_splits dest: length_set_string)

lemma length_snprintf_to [simp]: "length (snprintf_to buf fmt args) = length buf"
  by (cases buf) (simp_all add: snprintf_to_def snprintf_def)

lemma length_location_swap: "location_swap addr t = Some (Some b) \<Longrightarrow> length b = length addr"
  by (auto simp: location_swap_def Let_def bind_eq_Some_conv split: if_splits dest: length_set_string)

lemma allowed_sim_state [intro]: "r \<noteq> AT_RET_5 \<Longrightarrow> st \<le> 2 \<Longrightarrow> allowed d (set_sim_state st d, r)"
  by (simp add: callback_facts set_sim_state_def)

lemma rssi_range:
  assumes "(v :: u8) \<le> 31"
  shows "unat v * 100 div 31 \<le> 100"
proof -
  have "unat v \<le> 31" using assms by (simp add: word_le_nat_alt)
  then have "unat v * 100 div 31 \<le> 31 * 100 div 31" by (intro div_le_mono) simp
  then show ?thesis by simp
qed

interpretation module_info: at_callback "net4g_get_module_info_cb m" for m
  by (rule at_callbackI, unfold net4g_get_module_info_cb_def, intro opt_intro)
    (auto simp: callback_facts dest!: length_store_version)

interpretation imei: at_callback "net4g_get_module_imei_cb m" for m
  by (rule at_callbackI, unfold net4g_get_module_imei_cb_def, intro opt_intro)
    (auto simp: callback_facts dest!: length_set_string)

interpretation sn: at_callback "net4g_get_module_sn_cb m" for m
  by (rule at_callbackI, unfold net4g_get_module_sn_cb_def, intro opt_intro)
    (auto simp: callback_facts dest!: length_set_string)

interpretation sim_using: at_callback "net4g_get_sim_using_cb m" for m
  by (rule at_callbackI, unfold net4g_get_sim_using_cb_def, intro opt_intro) (auto simp: callback_facts)

interpretation is_sim_ok: at_callback net4g_is_sim_ok_cb
  by (rule at_callbackI, unfold net4g_is_sim_ok_cb_def, intro opt_intro) auto

interpretation sim_no: at_callback "net4g_get_sim_no_cb m" for m
  by (rule at_callbackI, unfold net4g_get_sim_no_cb_def, intro opt_intro)
    (auto simp: callback_facts set_sim_state_def split: option.split dest!: length_store_iccid)

interpretation sim_state: at_callback net4g_get_sim_state_cb
  by (rule at_callbackI, unfold net4g_get_sim_state_cb_def, intro opt_intro) auto

interpretation net_state: at_callback net4g_get_net_state_cb
  by (rule at_callbackI, unfold net4g_get_net_state_cb_def, intro opt_intro) auto

interpretation net_rssi: at_callback net4g_get_net_rssi_cb
  by (rule at_callbackI, unfold net4g_get_net_rssi_cb_def, intro opt_intro)
    (auto simp: callback_facts rssi_range linorder_not_less)

interpretation location_para: at_callback "net4g_get_location_configPara m" for m
  by (rule at_callbackI, unfold net4g_get_location_configPara_def, intro opt_intro) auto

interpretation location_addr: at_callback "net4g_get_net_location_addr m" for m
  by (rule at_callbackI, unfold net4g_get_net_location_addr_def, intro opt_intro)
    (auto simp: callback_facts split: option.split dest!: length_set_string length_location_swap)

section \<open>What the callbacks store\<close>

lemma lower_letter: "0x41 \<le> c \<Longrightarrow> c \<le> 0x5A \<Longrightarrow> \<not> c + 0x20 < (0x41 :: u8)"
  by (simp add: word_le_nat_alt word_less_nat_alt unat_word_ariths)

lemma to_lower_no_letters: "list_all (\<lambda>c. c < 0x41) (to_lower s) \<Longrightarrow> to_lower s = s"
  by (induction s) (auto simp: to_lower_def dest: lower_letter split: if_splits)

lemma strcasecmp_no_letters:
  assumes "list_all (\<lambda>c. c < 0x41) t"
  shows "strcasecmp_eq s t \<longleftrightarrow> s = t"
proof -
  have "to_lower t = t" using assms by (induction t) (auto simp: to_lower_def)
  then show ?thesis using assms to_lower_no_letters [of s] by (auto simp: strcasecmp_eq_def)
qed

text \<open>Whatever the response is, a callback that returns leaves the serial line, the control flags and the sizes of
  all arrays as they were, keeps the signal between 0 and 100 percent and the SIM numbers and states in
  range, and answers AT_OK or AT_ERR.\<close>

lemma callbacks_allowed:
  "list_all (\<lambda>f. \<forall>ret buf len d. pred_option (allowed d) (f ret buf len d))
     [net4g_get_module_info_cb m, net4g_get_module_imei_cb m, net4g_get_module_sn_cb m, net4g_get_sim_using_cb m,
      net4g_is_sim_ok_cb, net4g_get_sim_no_cb m, net4g_get_sim_state_cb, net4g_get_net_state_cb,
      net4g_get_net_rssi_cb, net4g_get_location_configPara m, net4g_get_net_location_addr m]"
proof -
  have contract: "at_callback f \<Longrightarrow> \<forall>ret buf len d. pred_option (allowed d) (f ret buf len d)" for f
    by (auto simp: option.pred_set allowed_def dest: at_callback.line at_callback.keeps at_callback.result)
  show ?thesis
    by (simp add: contract module_info.at_callback_axioms imei.at_callback_axioms sn.at_callback_axioms
        sim_using.at_callback_axioms is_sim_ok.at_callback_axioms sim_no.at_callback_axioms
        sim_state.at_callback_axioms net_state.at_callback_axioms net_rssi.at_callback_axioms
        location_para.at_callback_axioms location_addr.at_callback_axioms)
qed

text \<open>A signal report \<open>+CSQ: n,\<dots>\<close> sets the signal to \<open>n * 100 / 31\<close> percent when \<open>n\<close> is at most 31 and to 0 when
  it is a larger 8-bit number (99 means unknown).\<close>

lemma net4g_get_net_rssi_cb_value:
  assumes "at_response srcData len (asc ''+CSQ:'') (decimal n @ s) NET_CMD_RSP_TAIL_OK"
    and "length (decimal n @ s) < 50" and "s = [] \<or> \<not> is_digit (hd s)" and "n < 256"
  shows "net4g_get_net_rssi_cb AT_OK srcData len d
    = Some (d\<lparr>signal := (if n \<le> 31 then n * 100 div 31 else 0), RSSI := (if n \<le> 31 then of_nat n else 0)\<rparr>, AT_OK)"
proof -
  have "unat (of_nat n :: u8) = n" using assms(4) by (rule unat_of_nat_u8)
  then have "31 < (of_nat n :: u8) \<longleftrightarrow> 31 < n" by (simp add: word_less_nat_alt)
  then show ?thesis
    using rsp_string_response [OF assms(1,2)] assms(3,4)
    by (simp add: net4g_get_net_rssi_cb_def atoi_decimal unat_of_nat_u8)
qed

text \<open>A sample response, as the module sends it after the command.\<close>

definition sample_response :: "bytes \<Rightarrow> bytes \<Rightarrow> bytes" where
  "sample_response key v = crlf @ key @ [32] @ v @ (crlf @ crlf) @ NET_CMD_RSP_TAIL_OK @ crlf @ [0]"

lemma sample_response:
  assumes "0 \<notin> set (key @ v)" and "key \<noteq> []" and "hd key \<notin> {13, 10}" and "0x4F \<notin> set v"
    and "v \<noteq> []" and "\<not> at_blank (hd v)" and "\<not> at_blank (last v)" and "length v < 252"
  shows "at_response (sample_response key v) (of_nat (length key) + 1) key v NET_CMD_RSP_TAIL_OK"
  by (rule at_responseI [of _ crlf key "[32]" v "crlf @ crlf" _ crlf])
    (use assms in \<open>simp_all add: sample_response_def crlf_def NET_CMD_RSP_TAIL_OK_def asc_def at_blank_def\<close>)

theorem net4g_get_net_rssi_cb_value_witness:
  "net4g_get_net_rssi_cb AT_OK (sample_response (asc ''+CSQ:'') (decimal 23 @ asc '',99'')) 6 (sample_device 8 [])
    = Some ((sample_device 8 [])\<lparr>signal := 74, RSSI := 23\<rparr>, AT_OK)"
proof -
  have d: "decimal 23 = asc ''23''" by (simp add: decimal.simps asc_def)
  then have "at_response (sample_response (asc ''+CSQ:'') (decimal 23 @ asc '',99'')) 6 (asc ''+CSQ:'')
      (decimal 23 @ asc '',99'') NET_CMD_RSP_TAIL_OK"
    using sample_response [of "asc ''+CSQ:''" "asc ''23,99''"] by (simp add: asc_def at_blank_def)
  from net4g_get_net_rssi_cb_value [OF this] show ?thesis by (simp add: d asc_def is_digit_def)
qed

text \<open>The registration answers \<open>0,1\<close> (home) and \<open>0,5\<close> (roaming) mark the SIM card in use as working and are the
  only ones accepted; every other answer marks it as not working.\<close>

lemma net4g_get_sim_state_cb_registered:
  assumes "at_response srcData len (asc ''+CEREG:'') v NET_CMD_RSP_TAIL_OK" and "length v < 50"
  shows "net4g_get_sim_state_cb AT_OK srcData len d
    = Some (if v = asc ''0,1'' \<or> v = asc ''0,5'' then (set_sim_state 1 d, AT_OK) else (set_sim_state 2 d, AT_ERR))"
proof -
  have "strcasecmp_eq v (asc ''0,1'') \<longleftrightarrow> v = asc ''0,1''" "strcasecmp_eq v (asc ''0,5'') \<longleftrightarrow> v = asc ''0,5''"
    by (rule strcasecmp_no_letters, simp add: asc_def)+
  then show ?thesis
    using rsp_string_response [OF assms] by (simp add: net4g_get_sim_state_cb_def)
qed

theorem net4g_get_sim_state_cb_registered_witness:
  "net4g_get_sim_state_cb AT_OK (sample_response (asc ''+CEREG:'') (asc ''0,2'')) 8 ((sample_device 8 [])\<lparr>simFlag := 1\<rparr>)
    = Some ((sample_device 8 [])\<lparr>simFlag := 1, sim1State := 2\<rparr>, AT_ERR)"
proof -
  have "at_response (sample_response (asc ''+CEREG:'') (asc ''0,2'')) 8 (asc ''+CEREG:'') (asc ''0,2'') NET_CMD_RSP_TAIL_OK"
    using sample_response [of "asc ''+CEREG:''" "asc ''0,2''"] by (simp add: asc_def at_blank_def)
  from net4g_get_sim_state_cb_registered [OF this] show ?thesis
    by (simp add: set_sim_state_def asc_def)
qed

text \<open>The IMEI between the keywords is what the device holds afterwards, if its array has room for it and a
  terminator.\<close>

lemma net4g_get_module_imei_cb_stores:
  assumes "at_response srcData len (asc ''+CGSN:'') v NET_CMD_RSP_TAIL_OK" and "length v < 50"
    and "length v < length (imei d)" and "lierda m"
  shows "\<exists>b. net4g_get_module_imei_cb m AT_OK srcData len d = Some (d\<lparr>imei := b\<rparr>, AT_OK) \<and>
    length b = length (imei d) \<and> c_string b 0 = Some v"
  using rsp_string_response [OF assms(1,2)] assms(3,4) at_response_string [OF assms(1)]
  by (intro exI [of _ "v @ replicate (length (imei d) - length v) 0"]) (simp add: net4g_get_module_imei_cb_def GET_IMEI_RSP_HEAD_def set_string_def c_string_padded)

end
