(* ===== verification/AtConfig.thy ===== *)
theory AtConfig
  imports AtCallbacks
begin

text \<open>
  \<open>module_4g_config_para_process\<close> of \<^verbatim>\<open>src/ql_application/App_XD/netlink/app_net4g.c\<close>: the process that
  brings the module up, chooses the SIM card and collects the device data.  One call performs one step
  of the table; the main loop calls it until it reports PROCESS_DONE or PROCESS_ERROR.
\<close>

section \<open>Model\<close>

record net4g =
  steps :: process_steps
  dev :: device

text \<open>The callback of each command; the commands without one are the default of the switch.\<close>

definition config_handler :: "module_type \<Rightarrow> net4g_cmd_id \<Rightarrow> at_handler option" where
  "config_handler m i =
     (if i = CMD_SIM_CHECK then Some (net4g_get_sim_using_cb m)
      else if i = CMD_ID_GET_MODULE_INFO then Some (net4g_get_module_info_cb m)
      else if i = CMD_ID_GET_IMEI then Some (net4g_get_module_imei_cb m)
      else if i = CMD_ID_GET_SN_NO then Some (net4g_get_module_sn_cb m)
      else if i = CMD_ID_IS_SIM_OK then Some net4g_is_sim_ok_cb
      else if i = CMD_ID_GET_SIM_NO then Some (net4g_get_sim_no_cb m)
      else if i = CMD_ID_GET_SIM_STATE then Some net4g_get_sim_state_cb
      else if i = CMD_ID_GET_NET_STATE then Some net4g_get_net_state_cb
      else if lierda m \<and> i = CMD_ID_GET_CELL then Some (net4g_get_net_qcell_cb m)
      else if \<not> lierda m \<and> i = CMD_ID_GET_QCELL then Some (net4g_get_net_qcell_cb m)
      else if \<not> lierda m \<and> i = CMD_ID_GET_QENG_SERVINGCELL then Some (net4g_get_net_qeng_serving_cell_cb m)
      else if \<not> lierda m \<and> i = CMD_ID_GET_QENG_NEIGHBOURCELL then Some (net4g_get_net_qeng_neighbour_cell_cb m)
      else if i = CMD_ID_GET_RSSI then Some net4g_get_net_rssi_cb
      else if i = CMD_ID_GET_LOCATION_PARA then Some (net4g_get_location_configPara m)
      else if i = CMD_ID_GET_LOCATION_ADDR then Some (net4g_get_net_location_addr m)
      else None)"

text \<open>
  After the serial number: the preferred card decides where to go on; after a reconnection the other
  card than the one in use is tried.  (On Lierda modules the result is then still AT_ERR.)
\<close>

definition first_sim_jump :: "module_type \<Rightarrow> nat \<Rightarrow> device \<Rightarrow> nat \<times> device \<times> at_ret" where
  "first_sim_jump m i d =
     (if m = EG800GEU then (i, d, AT_OK)
      else if first_sim d = 1 then (if lierda m then 12 else 15, d, AT_RET_5)
      else if first_sim d = 2 then (if lierda m then 5 else 9, d, AT_RET_5)
      else (i, d, AT_OK))"

definition sn_jump :: "module_type \<Rightarrow> nat \<Rightarrow> device \<Rightarrow> nat \<times> device \<times> at_ret" where
  "sn_jump m i d =
     (if m = EG800GEU \<or> net4g_reconnect_flag d \<noteq> 1 then first_sim_jump m i d
      else let d = d\<lparr>net4g_reconnect_flag := 0\<rparr>; ret = (if lierda m then AT_ERR else AT_RET_5)
        in if simFlag d = 1 then (if lierda m then 19 else 21, d\<lparr>sim1State := 2\<rparr>, ret)
           else if simFlag d = 2 then (if lierda m then 12 else 15, d\<lparr>sim2State := 2\<rparr>, ret)
           else first_sim_jump m i d)"

text \<open>After the network state: with the second card preferred and working the search for a card ends.\<close>

definition net_state_jump :: "module_type \<Rightarrow> nat \<Rightarrow> device \<Rightarrow> at_ret \<Rightarrow> (nat \<times> device \<times> at_ret) option" where
  "net_state_jump m i d ret =
     (if m \<noteq> EG800GEU \<and> ret = AT_OK \<and> first_sim d = 2
      then map_option (\<lambda>s. if length s < 32 then (if lierda m then 26 else 27, d, AT_RET_5) else (i, d, ret))
             (c_string (iccid d) 0)
      else Some (i, d, ret))"

definition config_command :: "module_type \<Rightarrow> nat \<Rightarrow> net4g_cmd_id \<Rightarrow> at_cmd_t \<Rightarrow> device \<Rightarrow> (nat \<times> device \<times> at_ret) option" where
  "config_command m i cid cmd d =
     (if cid = CMD_ID_SET_LOCATION_PARA
      then map_option (\<lambda>(d, ret). (i, d, ret))
             (at_cmd_send_check (cmd\<lparr>p_cmd := Some (net4g_location_config_cmd_pack m 150)\<rparr>) None d)
      else Option.bind (at_cmd_send_check cmd (config_handler m cid) d) (\<lambda>(d, ret).
           if cid = CMD_ID_GET_SN_NO then Some (sn_jump m i d)
           else if cid = CMD_ID_GET_NET_STATE then net_state_jump m i d ret
           else Some (i, d, ret)))"

definition module_4g_config_para_process :: "module_type \<Rightarrow> net4g \<Rightarrow> (net4g \<times> process_step_ret) option" where
  "module_4g_config_para_process m s =
     (let ts = net4g_config_command_steps m; i = netConfig (steps s) in
      if length ts \<le> i then Some (s, PROCESS_ERROR)
      else Option.bind (cmd_lookup m (step_id (ts ! i))) (\<lambda>cmd.
           Option.bind (config_command m i (step_id (ts ! i)) cmd (dev s)) (\<lambda>(i, d, ret).
           map_option (\<lambda>(i, p). (s\<lparr>steps := (steps s)\<lparr>netConfig := i\<rparr>, dev := d\<rparr>, p)) (at_step_end ts i ret))))"

text \<open>Calling a process until it is done, at most \<open>n\<close> times.\<close>

type_synonym net4g_process = "net4g \<Rightarrow> (net4g \<times> process_step_ret) option"

fun process_calls :: "net4g_process \<Rightarrow> nat \<Rightarrow> net4g \<Rightarrow> (net4g \<times> process_step_ret) option" where
  "process_calls f 0 s = Some (s, PROCESS_WAIT)"
| "process_calls f (Suc n) s =
     Option.bind (f s) (\<lambda>(s, p). if p = PROCESS_WAIT then process_calls f n s else Some (s, p))"

section \<open>Processes that step through a table\<close>

text \<open>
  What every such process promises: it stays on the running rows, goes forward until it is done (only
  the first row may repeat itself), and is then back at the first row.
\<close>

locale stepping =
  fixes f :: net4g_process and idx :: "net4g \<Rightarrow> nat" and ts :: "net4g_at_step_t list"
  assumes step: "f s = Some (s', p) \<Longrightarrow> running ts (idx s) \<Longrightarrow> running ts (idx s') \<and>
    (if p = PROCESS_WAIT then idx s < idx s' \<or> idx s = 0 \<and> idx s' = 0 \<and> f_jump (ts ! 0) = 0 else idx s' = 0)"
begin

lemma calls_end:
  assumes "process_calls f n s = Some (s', p)" and "running ts (idx s)"
    and "0 < idx s \<or> f_jump (ts ! 0) \<noteq> 0" and "length ts \<le> idx s + n"
  shows "p \<noteq> PROCESS_WAIT \<and> idx s' = 0"
  using assms
proof (induction n arbitrary: s)
  case 0
  then show ?case by (simp add: running_def)
next
  case (Suc n)
  obtain t q where call: "f s = Some (t, q)"
    and rest: "(if q = PROCESS_WAIT then process_calls f n t else Some (t, q)) = Some (s', p)"
    using Suc.prems(1) by (auto simp: bind_eq_Some_conv)
  note e = step [OF call Suc.prems(2)]
  show ?case
  proof (cases "q = PROCESS_WAIT")
    case True
    then show ?thesis using rest e Suc.prems(3,4) by (intro Suc.IH [of t]) auto
  next
    case False
    then show ?thesis using rest e by auto
  qed
qed

end

section \<open>One step\<close>

lemma config_handlers: "pred_option at_callback (config_handler m i)"
  by (simp add: config_handler_def module_info.at_callback_axioms imei.at_callback_axioms sn.at_callback_axioms
      sim_using.at_callback_axioms is_sim_ok.at_callback_axioms sim_no.at_callback_axioms
      sim_state.at_callback_axioms net_state.at_callback_axioms net_rssi.at_callback_axioms
      location_para.at_callback_axioms location_addr.at_callback_axioms qcell.at_callback_axioms
      qeng_serving.at_callback_axioms qeng_neighbour.at_callback_axioms)

text \<open>The rows in which the switch changes the step itself, and where it then goes.\<close>

lemma jump_rows_nt: "list_all (\<lambda>i. (step_id (nt_config_steps ! i) = CMD_ID_GET_SN_NO \<longrightarrow> i < 5) \<and>
    (step_id (nt_config_steps ! i) = CMD_ID_GET_NET_STATE \<longrightarrow> i < 26)) [0..<length nt_config_steps]"
  by (simp add: nt_config_steps_def upt_rec)

lemma jump_rows_ec: "list_all (\<lambda>i. (step_id (ec_config_steps ! i) = CMD_ID_GET_SN_NO \<longrightarrow> i < 9) \<and>
    (step_id (ec_config_steps ! i) = CMD_ID_GET_NET_STATE \<longrightarrow> i < 27)) [0..<length ec_config_steps]"
  by (simp add: ec_config_steps_def upt_rec)

lemma jump_targets: "list_all (running nt_config_steps) [5, 12, 19, 26]" "list_all (running ec_config_steps) [9, 15, 21, 27]"
  by (simp_all add: steps_eval nt_config_steps_def ec_config_steps_def)

text \<open>Going on from row \<open>i\<close> at row \<open>j\<close>: never backwards, and forwards when the step is not ended as usual.\<close>

definition goes_on :: "module_type \<Rightarrow> nat \<Rightarrow> nat \<Rightarrow> at_ret \<Rightarrow> bool" where
  "goes_on m i j r \<longleftrightarrow> running (net4g_config_command_steps m) j \<and> i \<le> j \<and> (r = AT_RET_5 \<longrightarrow> i < j)"

lemma goes_on_same: "running (net4g_config_command_steps m) i \<Longrightarrow> r \<noteq> AT_RET_5 \<Longrightarrow> goes_on m i i r"
  by (simp add: goes_on_def)

lemma sn_row:
  assumes "running (net4g_config_command_steps m) i" and "m \<noteq> EG800GEU"
    and "step_id (net4g_config_command_steps m ! i) = CMD_ID_GET_SN_NO"
  shows "i < (if lierda m then 5 else 9)"
  using assms jump_rows_nt jump_rows_ec
  by (auto simp: net4g_config_command_steps_def running_def list_all_iff split: if_splits)

lemma net_state_row:
  assumes "running (net4g_config_command_steps m) i" and "m \<noteq> EG800GEU"
    and "step_id (net4g_config_command_steps m ! i) = CMD_ID_GET_NET_STATE"
  shows "i < (if lierda m then 26 else 27)"
  using assms jump_rows_nt jump_rows_ec
  by (auto simp: net4g_config_command_steps_def running_def list_all_iff split: if_splits)

lemma not_lierda_EG [simp]: "\<not> lierda EG800GEU"
  by (simp add: lierda_def)

lemma sn_jump_effect:
  assumes "running (net4g_config_command_steps m) i" and "m \<noteq> EG800GEU \<Longrightarrow> i < (if lierda m then 5 else 9)"
  shows "case sn_jump m i d of (j, e, r) \<Rightarrow>
    goes_on m i j r \<and> array_sizes e = array_sizes d \<and> (device_ok d \<longrightarrow> device_ok e) \<and> first_sim e = first_sim d"
  using assms jump_targets
  by (auto simp: sn_jump_def first_sim_jump_def goes_on_def net4g_config_command_steps_def Let_def
      array_sizes_def device_ok_def)

lemma net_state_jump_effect:
  assumes "running (net4g_config_command_steps m) i" and "m \<noteq> EG800GEU \<Longrightarrow> i < (if lierda m then 26 else 27)"
    and "r \<noteq> AT_RET_5" and "net_state_jump m i d r = Some (j, e, r')"
  shows "goes_on m i j r' \<and> e = d"
  using assms jump_targets
  by (auto simp: net_state_jump_def goes_on_def net4g_config_command_steps_def split: if_splits)

lemma config_command_effect:
  assumes "config_command m i (step_id (net4g_config_command_steps m ! i)) cmd d = Some (j, e, r)"
    and "running (net4g_config_command_steps m) i"
  shows "goes_on m i j r \<and> array_sizes e = array_sizes d \<and> (device_ok d \<longrightarrow> device_ok e) \<and> first_sim e = first_sim d"
proof -
  let ?cid = "step_id (net4g_config_command_steps m ! i)"
  have plain: "goes_on m i i r' \<and> array_sizes e' = array_sizes d \<and> (device_ok d \<longrightarrow> device_ok e') \<and>
      first_sim e' = first_sim d" if "at_cmd_send_check c cb d = Some (e', r')" "pred_option at_callback cb" for c cb e' r'
    using at_cmd_send_check_keeps [OF that] at_cmd_send_check_ret [OF that(1)] goes_on_same [OF assms(2)]
    by (simp add: keeps_def same_control_def)
  show ?thesis
  proof (cases "?cid = CMD_ID_SET_LOCATION_PARA")
    case True
    then show ?thesis using assms(1) plain by (auto simp: config_command_def)
  next
    case False
    then obtain d1 r1 where run: "at_cmd_send_check cmd (config_handler m ?cid) d = Some (d1, r1)"
      and rest: "(if ?cid = CMD_ID_GET_SN_NO then Some (sn_jump m i d1)
           else if ?cid = CMD_ID_GET_NET_STATE then net_state_jump m i d1 r1
           else Some (i, d1, r1)) = Some (j, e, r)"
      using assms(1) by (auto simp: config_command_def bind_eq_Some_conv)
    note p = plain [OF run config_handlers]
    consider (sn) "?cid = CMD_ID_GET_SN_NO" | (net) "?cid = CMD_ID_GET_NET_STATE"
      | (other) "?cid \<noteq> CMD_ID_GET_SN_NO" "?cid \<noteq> CMD_ID_GET_NET_STATE" by blast
    then show ?thesis
    proof cases
      case sn
      then show ?thesis using rest p sn_jump_effect [OF assms(2) sn_row [OF assms(2) _ sn], of d1] by auto
    next
      case net
      then have "net_state_jump m i d1 r1 = Some (j, e, r)" using rest by simp
      then have "goes_on m i j r \<and> e = d1"
        using net_state_jump_effect [OF assms(2) _ at_cmd_send_check_ret [OF run]]
          net_state_row [OF assms(2) _ net] by blast
      then show ?thesis using p by simp
    next
      case other
      then show ?thesis using rest p by simp
    qed
  qed
qed

lemma config_process_effect:
  assumes "module_4g_config_para_process m s = Some (s', p)"
    and "running (net4g_config_command_steps m) (netConfig (steps s))"
  shows "running (net4g_config_command_steps m) (netConfig (steps s')) \<and>
    (if p = PROCESS_WAIT then netConfig (steps s) < netConfig (steps s') \<or>
       netConfig (steps s) = 0 \<and> netConfig (steps s') = 0 \<and> f_jump (net4g_config_command_steps m ! 0) = 0
     else netConfig (steps s') = 0) \<and>
    array_sizes (dev s') = array_sizes (dev s) \<and> (device_ok (dev s) \<longrightarrow> device_ok (dev s')) \<and>
    steps s' = (steps s)\<lparr>netConfig := netConfig (steps s')\<rparr>"
proof -
  let ?ts = "net4g_config_command_steps m" and ?i = "netConfig (steps s)"
  have "?i < length ?ts" using assms(2) by (simp add: running_def)
  then obtain cmd j e r k where command: "config_command m ?i (step_id (?ts ! ?i)) cmd (dev s) = Some (j, e, r)"
    and ending: "at_step_end ?ts j r = Some (k, p)" and s': "s' = s\<lparr>steps := (steps s)\<lparr>netConfig := k\<rparr>, dev := e\<rparr>"
    using assms(1) by (auto simp: module_4g_config_para_process_def Let_def bind_eq_Some_conv)
  note c = config_command_effect [OF command assms(2)]
  then have j: "running ?ts j" "?i \<le> j" "r = AT_RET_5 \<Longrightarrow> ?i < j" by (simp_all add: goes_on_def)
  have "running ?ts k \<and> (if p = PROCESS_WAIT then ?i < k \<or> ?i = 0 \<and> k = 0 \<and> f_jump (?ts ! 0) = 0 else k = 0)"
  proof (cases "r = AT_RET_5")
    case True
    then show ?thesis using ending config_table.step_end_5 [OF j(1)] j by auto
  next
    case False
    then show ?thesis using ending config_table.step_end_in [OF j(1) False] j(2) by (auto split: if_splits)
  qed
  then show ?thesis using c s' by simp
qed

section \<open>Properties\<close>

text \<open>C28. The configuration process never leaves its table and never rests on one of its two final rows, it keeps the
  sizes of all arrays and the ranges of the device's values, and it touches no other process's step.\<close>

theorem config_process_invariant:
  assumes "running (net4g_config_command_steps m) (netConfig (steps s))" and "device_ok (dev s)"
  shows "pred_option (\<lambda>(s', p). running (net4g_config_command_steps m) (netConfig (steps s')) \<and> device_ok (dev s') \<and>
    array_sizes (dev s') = array_sizes (dev s) \<and> steps s' = (steps s)\<lparr>netConfig := netConfig (steps s')\<rparr>)
    (module_4g_config_para_process m s)"
  using config_process_effect [OF _ assms(1)] assms(2) by (auto simp: option.pred_set)

interpretation config: stepping "module_4g_config_para_process m" "\<lambda>s. netConfig (steps s)"
    "net4g_config_command_steps m" for m
  by unfold_locales (use config_process_effect in blast)

text \<open>C27. Once the handshake is answered the configuration ends: within as many calls as the table has rows it
  reports success or an error and is back at the first row (unless it faults).\<close>

theorem config_process_terminates:
  assumes "running (net4g_config_command_steps m) (netConfig (steps s))" and "0 < netConfig (steps s)"
  shows "pred_option (\<lambda>(s', p). p \<noteq> PROCESS_WAIT \<and> netConfig (steps s') = 0)
    (process_calls (module_4g_config_para_process m) (length (net4g_config_command_steps m)) s)"
proof -
  let ?n = "length (net4g_config_command_steps m)"
  have "p \<noteq> PROCESS_WAIT \<and> netConfig (steps s') = 0" if "process_calls (module_4g_config_para_process m) ?n s = Some (s', p)" for s' p
    using config.calls_end [OF that] assms by simp
  then show ?thesis by (auto simp: option.pred_set)
qed

text \<open>A module that has stopped answering.\<close>

lemma config_ids_nt: "list_all (\<lambda>i. terminal_row (nt_config_steps ! i) \<or>
    step_id (nt_config_steps ! i) \<in> set (map cmd_state nt_module_4g_cmds) - {CMD_ID_NONE}) [0..<length nt_config_steps]"
  by (simp add: nt_config_steps_def nt_module_4g_cmds_def terminal_row_def upt_rec)

lemma config_ids_ec: "list_all (\<lambda>i. terminal_row (ec_config_steps ! i) \<or>
    step_id (ec_config_steps ! i) \<in> set (map cmd_state ec_module_4g_cmds) - {CMD_ID_NONE}) [0..<length ec_config_steps]"
  by (simp add: ec_config_steps_def ec_module_4g_cmds_def terminal_row_def upt_rec)

lemma config_ids_eg: "list_all (\<lambda>i. terminal_row (eg_config_steps ! i) \<or>
    step_id (eg_config_steps ! i) \<in> set (map cmd_state ec_module_4g_cmds) - {CMD_ID_NONE}) [0..<length eg_config_steps]"
  by (simp add: eg_config_steps_def ec_module_4g_cmds_def terminal_row_def upt_rec)

lemma config_row_command:
  assumes "running (net4g_config_command_steps m) i"
  shows "\<exists>cmd c. cmd_lookup m (step_id (net4g_config_command_steps m ! i)) = Some cmd \<and> p_cmd cmd = Some c"
proof -
  have "step_id (net4g_config_command_steps m ! i) \<in> set (map cmd_state (module_4g_cmds m)) - {CMD_ID_NONE}"
    using assms config_ids_nt config_ids_ec config_ids_eg
    by (auto simp: net4g_config_command_steps_def module_4g_cmds_def running_def list_all_iff split: if_splits)
  then show ?thesis using cmd_lookup_text by blast
qed

lemma config_process_silent:
  assumes "running (net4g_config_command_steps m) (netConfig (steps s))" and "replies (dev s) = []"
  shows "\<exists>s' p. module_4g_config_para_process m s = Some (s', p) \<and> replies (dev s') = []"
proof -
  let ?ts = "net4g_config_command_steps m" and ?i = "netConfig (steps s)"
  let ?id = "step_id (?ts ! ?i)"
  obtain cmd c where cmd: "cmd_lookup m ?id = Some cmd" "p_cmd cmd = Some c"
    using config_row_command [OF assms(1)] by blast
  obtain e where e: "at_cmd_send_check cmd (config_handler m ?id) (dev s) = Some (e, AT_ERR)" "replies e = []"
    using at_cmd_send_check_silent [OF assms(2) cmd(2)] by blast
  obtain e' where e': "at_cmd_send_check (cmd\<lparr>p_cmd := Some (net4g_location_config_cmd_pack m 150)\<rparr>) None (dev s)
      = Some (e', AT_ERR)" "replies e' = []"
    using at_cmd_send_check_silent [OF assms(2), of "cmd\<lparr>p_cmd := Some (net4g_location_config_cmd_pack m 150)\<rparr>"] by auto
  have sn: "replies (fst (snd (sn_jump m ?i e))) = []"
    using e(2) by (simp add: sn_jump_def first_sim_jump_def Let_def)
  obtain j d r where command: "config_command m ?i ?id cmd (dev s) = Some (j, d, r)" and d: "replies d = []"
  proof (cases "?id = CMD_ID_SET_LOCATION_PARA")
    case True
    then show ?thesis using that [of ?i e' AT_ERR] e' by (simp add: config_command_def)
  next
    case other: False
    show ?thesis
    proof (cases "?id = CMD_ID_GET_SN_NO")
      case True
      then show ?thesis
        using that [of "fst (sn_jump m ?i e)" "fst (snd (sn_jump m ?i e))" "snd (snd (sn_jump m ?i e))"] e sn
        by (simp add: config_command_def)
    next
      case False
      then show ?thesis using that [of ?i e AT_ERR] e other by (simp add: config_command_def net_state_jump_def)
    qed
  qed
  then have "running ?ts j" using config_command_effect [OF command assms(1)] by (simp add: goes_on_def)
  then obtain k p where "at_step_end ?ts j r = Some (k, p)" using config_table.step_end_total by blast
  then show ?thesis
    using assms(1) cmd(1) command d by (simp add: module_4g_config_para_process_def Let_def running_def)
qed

lemma config_calls_silent:
  assumes "running (net4g_config_command_steps m) (netConfig (steps s))" and "replies (dev s) = []"
  shows "\<exists>s' p. process_calls (module_4g_config_para_process m) n s = Some (s', p)"
  using assms
proof (induction n arbitrary: s)
  case (Suc n)
  obtain t q where call: "module_4g_config_para_process m s = Some (t, q)" "replies (dev t) = []"
    using config_process_silent [OF Suc.prems] by blast
  moreover have "running (net4g_config_command_steps m) (netConfig (steps t))"
    using config_process_effect [OF call(1) Suc.prems(1)] by blast
  ultimately show ?case using Suc.IH [of t] by simp
qed simp

text \<open>When the module falls silent after the handshake the configuration does not hang and does not fault: within
  as many calls as the table has rows it ends, and it is ready to start again at the first row.\<close>

lemma config_process_silent_ends:
  assumes "running (net4g_config_command_steps m) (netConfig (steps s))" and "0 < netConfig (steps s)"
    and "replies (dev s) = []"
  shows "\<exists>s' p. process_calls (module_4g_config_para_process m) (length (net4g_config_command_steps m)) s = Some (s', p) \<and>
    p \<noteq> PROCESS_WAIT \<and> netConfig (steps s') = 0"
proof -
  obtain s' p where run: "process_calls (module_4g_config_para_process m) (length (net4g_config_command_steps m)) s = Some (s', p)"
    using config_calls_silent [OF assms(1,3)] by blast
  then show ?thesis using config.calls_end [OF run] assms(1,2) by simp
qed

text \<open>After a lost connection the step that reads the serial number marks the SIM card in use as not working. An
  EC800 or EC801 then goes on with the other card; on the Lierda modules the result is still AT_ERR when
  the switch is left, and the configuration reports an error instead of trying the other card.\<close>

lemma config_process_reconnect:
  assumes "m \<noteq> EG800GEU" and "netConfig (steps s) = (if lierda m then 4 else 8)"
    and "cmd_lookup m CMD_ID_GET_SN_NO = Some cmd"
    and "at_cmd_send_check cmd (Some (net4g_get_module_sn_cb m)) (dev s) = Some (d, r)"
    and "net4g_reconnect_flag d = 1" and "simFlag d = 1"
  shows "module_4g_config_para_process m s
    = Some (s\<lparr>steps := (steps s)\<lparr>netConfig := (if lierda m then 0 else 21)\<rparr>,
               dev := d\<lparr>net4g_reconnect_flag := 0, sim1State := 2\<rparr>\<rparr>,
            if lierda m then PROCESS_ERROR else PROCESS_WAIT)"
proof (cases "lierda m")
  case True
  have "step_id (nt_config_steps ! 4) = CMD_ID_GET_SN_NO" "4 < length nt_config_steps"
    "at_step_end nt_config_steps 19 AT_ERR = Some (0, PROCESS_ERROR)"
    by (simp_all add: nt_config_steps_def at_step_end_def at_advance_def at_finish_def)
  then show ?thesis
    using assms True
    by (simp add: module_4g_config_para_process_def net4g_config_command_steps_def config_command_def
        config_handler_def sn_jump_def Let_def)
next
  case False
  have "step_id (ec_config_steps ! 8) = CMD_ID_GET_SN_NO" "8 < length ec_config_steps"
    "at_step_end ec_config_steps 21 AT_RET_5 = Some (21, PROCESS_WAIT)"
    by (simp_all add: ec_config_steps_def at_step_end_def at_advance_def at_finish_def)
  then show ?thesis
    using assms False
    by (simp add: module_4g_config_para_process_def net4g_config_command_steps_def config_command_def
        config_handler_def sn_jump_def Let_def)
qed

section \<open>Concrete runs\<close>

definition sample_net4g :: "nat \<Rightarrow> bytes list \<Rightarrow> net4g" where
  "sample_net4g i rs =
     \<lparr>steps = \<lparr>netConfig = i, deviceActive = 0, connectRoute = 0, cloudLogin = 0, getCellInfoStep = 0,
               active_route_step = ACTIVE_ROUTE_STEP_CHECK,
               netWork = NETWORK_WORK_STEP__INIT, communicateStep = 0\<rparr>,
      dev = sample_device 64 rs\<rparr>"

lemma sample_running:
  "running (net4g_config_command_steps NT26E) 0" "running (net4g_config_command_steps NT26E) 4"
  "running (net4g_config_command_steps EC800) 8"
  by (simp_all add: net4g_config_command_steps_def lierda_def running_def terminal_row_def nt_config_steps_def
      ec_config_steps_def)

theorem config_process_invariant_witness:
  "pred_option (\<lambda>(s', p). running (net4g_config_command_steps NT26E) (netConfig (steps s')) \<and> device_ok (dev s') \<and>
    array_sizes (dev s') = array_sizes (sample_device 64 []) \<and>
    steps s' = (steps (sample_net4g 0 []))\<lparr>netConfig := netConfig (steps s')\<rparr>)
    (module_4g_config_para_process NT26E (sample_net4g 0 []))"
  using config_process_invariant [of NT26E "sample_net4g 0 []"] sample_running
  by (simp add: sample_net4g_def device_ok_def sample_device_def)

theorem config_process_terminates_witness:
  "pred_option (\<lambda>(s', p). p \<noteq> PROCESS_WAIT \<and> netConfig (steps s') = 0)
    (process_calls (module_4g_config_para_process EC800) (length (net4g_config_command_steps EC800)) (sample_net4g 8 [asc ''+EGMR: 17'' @ crlf @ NET_CMD_ACK_OK]))"
  using config_process_terminates [of EC800 "sample_net4g 8 [asc ''+EGMR: 17'' @ crlf @ NET_CMD_ACK_OK]"] sample_running
  by (simp add: sample_net4g_def)

theorem config_process_silent_ends_witness:
  "\<exists>s' p. process_calls (module_4g_config_para_process NT26E) (length (net4g_config_command_steps NT26E)) (sample_net4g 4 []) = Some (s', p) \<and>
    p \<noteq> PROCESS_WAIT \<and> netConfig (steps s') = 0"
  using config_process_silent_ends [of NT26E "sample_net4g 4 []"] sample_running
  by (simp add: sample_net4g_def sample_device_def)

theorem config_process_reconnect_witness:
  "\<exists>s s'. netConfig (steps s) = 4 \<and> module_4g_config_para_process NT26E s = Some (s', PROCESS_ERROR) \<and>
    sim1State (dev s') = 2 \<and> netConfig (steps s') = 0"
proof -
  let ?d = "(sample_device 64 [])\<lparr>net4g_reconnect_flag := 1, simFlag := 1\<rparr>"
  let ?s = "(sample_net4g 4 [])\<lparr>dev := ?d\<rparr>"
  let ?cmd = "at_cmd CMD_ID_GET_SN_NO 100 3 (Some (asc ''AT+CGSN=0'' @ crlf)) (Some NET_CMD_ACK_OK)"
  have cmd: "cmd_lookup NT26E CMD_ID_GET_SN_NO = Some ?cmd"
    by (simp add: cmd_lookup_def enum_val_def cmd_enum_def lierda_def nt_cmd_enum_def module_4g_cmds_def
        nt_module_4g_cmds_def)
  obtain e r where run: "at_cmd_send_check ?cmd (Some (net4g_get_module_sn_cb NT26E)) ?d = Some (e, r)"
    and e: "net4g_reconnect_flag e = 1" "simFlag e = 1"
    by (simp add: kernel_eval eval_nat_numeral)
  have "lierda NT26E" by (simp add: lierda_def)
  moreover have at4: "netConfig (steps ?s) = 4" "dev ?s = ?d" by (simp_all add: sample_net4g_def)
  moreover define s' where
    "s' = ?s\<lparr>steps := (steps ?s)\<lparr>netConfig := 0\<rparr>, dev := e\<lparr>net4g_reconnect_flag := 0, sim1State := 2\<rparr>\<rparr>"
  ultimately have "module_4g_config_para_process NT26E ?s = Some (s', PROCESS_ERROR)"
    using config_process_reconnect [OF _ _ cmd, of ?s e r] run e by simp
  moreover have "sim1State (dev s') = 2" "netConfig (steps s') = 0" by (simp_all add: s'_def)
  ultimately show ?thesis using at4(1) by blast
qed

end
