(* ===== verification/AtConnect.thy ===== *)
theory AtConnect
  imports AtConfig Md5
begin

text \<open>
  The processes of \<^verbatim>\<open>src/ql_application/App_XD/netlink/app_net4g.c\<close> that connect the device to the
  cloud: activation and routing over HTTP (\<open>module_4g_active_route_process\<close> with
  \<open>device_active_process\<close> and \<open>device_route_process\<close>), login over MQTT
  (\<open>module_4g_cloud_logIn_process\<close>), and the periodic request for cell data
  (\<open>module_4g_get_cell_info_process\<close>).  All four run a step table with the same frame,
  \<open>table_step\<close>.  What the driver calls outside the sources is the record \<open>cloud_env\<close>.
\<close>

section \<open>Model\<close>

text \<open>The decoded answers of the cloud (generated types); absent strings are null pointers.\<close>

record activeRsp =
  ar_deviceKey :: "bytes option"
  ar_deviceSecret :: "bytes option"
  ar_deviceNo :: "bytes option"
  ar_t :: int
  ar_sign :: "bytes option"

record routeRsp =
  rr_success :: bool
  rr_broker :: "bytes option"
  rr_keepalive :: int
  rr_reactive :: int

text \<open>
  Functions and constants that are not in the sources: the decoders of the generated messages, the
  functions that build the requests into a buffer of the given size, the test for an activated device,
  and \<open>freed\<close>, what is found at the address of a string after it was released.
\<close>

record cloud_env =
  decode_activeRsp :: "bytes \<Rightarrow> activeRsp option"
  decode_activeConfirmRsp :: "bytes \<Rightarrow> bool option"
  decode_routeRsp :: "bytes \<Rightarrow> routeRsp option"
  device_active_url_pack :: "nat \<Rightarrow> device \<Rightarrow> bytes"
  device_active_confirm_url_pack :: "nat \<Rightarrow> device \<Rightarrow> bytes"
  device_route_url_pack :: "nat \<Rightarrow> device \<Rightarrow> bytes"
  check_active_or_route :: "device \<Rightarrow> bool"
  APP_NETWORK_MqttConnData :: "device \<Rightarrow> device"
  freed :: "bytes \<Rightarrow> bytes"
  md5_context :: MD5_CTX
  pucOriginSecret :: bytes
  pucProductkey :: bytes

text \<open>The common frame of the four processes.\<close>

type_synonym at_command = "net4g_cmd_id \<Rightarrow> at_cmd_t \<Rightarrow> device \<Rightarrow> (device \<times> at_ret) option"

definition table_step ::
    "net4g_at_step_t list \<Rightarrow> module_type \<Rightarrow> at_command \<Rightarrow> nat \<Rightarrow> device \<Rightarrow> (nat \<times> device \<times> process_step_ret) option" where
  "table_step ts m command i d =
     (if length ts \<le> i then Some (i, d, PROCESS_ERROR)
      else Option.bind (cmd_lookup m (step_id (ts ! i))) (\<lambda>cmd.
           Option.bind (command (step_id (ts ! i)) cmd d) (\<lambda>(d, ret).
           map_option (\<lambda>(i, p). (i, d, p)) (at_step_end ts i ret))))"

definition set_cmd :: "at_cmd_t \<Rightarrow> bytes \<Rightarrow> at_cmd_t" where
  "set_cmd cmd c = cmd\<lparr>p_cmd := Some c\<rparr>"

subsection \<open>Login\<close>

text \<open>\<open>snprintf(cmd_data_buff, 300, \<dots>)\<close> with the macro that is also the row's text.\<close>

definition set_cmd_args :: "at_cmd_t \<Rightarrow> printf_arg list \<Rightarrow> at_cmd_t option" where
  "set_cmd_args cmd args = map_option (\<lambda>fmt. set_cmd cmd (snprintf 300 fmt args)) (p_cmd cmd)"

definition login_command :: "cloud_env \<Rightarrow> at_command" where
  "login_command env cid cmd d =
     (if cid = CMD_ID_MQTT_CONFIG_TIMEOUT
      then Option.bind (set_cmd_args cmd [Num 60, Num 3]) (\<lambda>cmd. at_cmd_send_check cmd None d)
      else if cid = CMD_ID_MQTT_CONFIG_KEEPALIVE
      then Option.bind (set_cmd_args cmd [Sgn (mqtt_HBInterval d)]) (\<lambda>cmd. at_cmd_send_check cmd None d)
      else if cid = CMD_ID_MQTT_CONFIG_RECMODE
      then Option.bind (set_cmd_args cmd []) (\<lambda>cmd. at_cmd_send_check cmd None d)
      else if cid = CMD_ID_MQTT_OPEN
      then Option.bind (c_string (mqtt_addr d) 0) (\<lambda>addr.
           Option.bind (set_cmd_args cmd [Str addr, Num (unat (mqtt_port d))]) (\<lambda>cmd. at_cmd_send_check cmd None d))
      else if cid = CMD_ID_MQTT_CONNECT
      then let d = APP_NETWORK_MqttConnData env d in
           Option.bind (c_string (clientId d) 0) (\<lambda>cl.
           Option.bind (c_string (DeviceKey d) 0) (\<lambda>key.
           Option.bind (c_string (mqtt_password d) 0) (\<lambda>pw.
           Option.bind (set_cmd_args cmd [Str cl, Str key, Str pw]) (\<lambda>cmd. at_cmd_send_check cmd None d))))
      else if cid = CMD_ID_MQTT_SUB_TOPIC
      then Option.bind (c_string (DeviceKey d) 0) (\<lambda>key.
           Option.bind (set_cmd_args cmd [Str (pucProductkey env), Str key, Num 1]) (\<lambda>cmd. at_cmd_send_check cmd None d))
      else at_cmd_send_check cmd None d)"

definition module_4g_cloud_logIn_process ::
    "cloud_env \<Rightarrow> module_type \<Rightarrow> net4g \<Rightarrow> (net4g \<times> process_step_ret) option" where
  "module_4g_cloud_logIn_process env m s =
     map_option (\<lambda>(i, d, p). (s\<lparr>steps := (steps s)\<lparr>cloudLogin := i\<rparr>, dev := d\<rparr>, p))
       (table_step (device_signIn_steps m) m (login_command env) (cloudLogin (steps s)) (dev s))"

subsection \<open>Cell information\<close>

text \<open>The two requests are sent without waiting for the answer, which the receiver handles later.\<close>

definition cell_command :: "module_type \<Rightarrow> at_command" where
  "cell_command m cid cmd d =
     (if cid = (if lierda m then CMD_ID_GET_CELL else CMD_ID_GET_QENG_SERVINGCELL) \<or> cid = CMD_ID_GET_RSSI
      then map_option (\<lambda>c. (app_delay_ms (interval_ms cmd) (network_uart_send c d), AT_OK)) (p_cmd cmd)
      else at_cmd_send_check cmd None d)"

definition module_4g_get_cell_info_process :: "module_type \<Rightarrow> net4g \<Rightarrow> (net4g \<times> process_step_ret) option" where
  "module_4g_get_cell_info_process m s =
     (if length (net4g_get_cell_info_config_command_steps m) \<le> getCellInfoStep (steps s) then Some (s, PROCESS_ERROR)
      else map_option (\<lambda>(i, d, p). (s\<lparr>steps := (steps s)\<lparr>getCellInfoStep := i\<rparr>,
             dev := (if p = PROCESS_WAIT then d else d\<lparr>net4g_get_cell_info_flag := 0\<rparr>)\<rparr>, p))
       (table_step (net4g_get_cell_info_config_command_steps m) m (cell_command m) (getCellInfoStep (steps s)) (dev s)))"

subsection \<open>Activation\<close>

definition NET_CMD_HTTPGET_SET_URL_CMD :: "module_type \<Rightarrow> bytes" where
  "NET_CMD_HTTPGET_SET_URL_CMD m = (if lierda m then asc ''AT+LHTTPURL=%d,30'' else asc ''AT+QHTTPURL=%d,30'') @ crlf"

definition NET_CMD_HTTPGET_CONNECT_URL :: "module_type \<Rightarrow> bytes" where
  "NET_CMD_HTTPGET_CONNECT_URL m = (if lierda m then asc ''AT+LHTTPGET=60'' else asc ''AT+QHTTPGET=60'') @ crlf"

definition NET_CMD_HTTPGET_GET_HTTP_RSP :: "module_type \<Rightarrow> bytes" where
  "NET_CMD_HTTPGET_GET_HTTP_RSP m = (if lierda m then asc ''AT+LHTTPREAD=60'' else asc ''AT+QHTTPREAD=60'') @ crlf"

definition cloud_response :: "module_type \<Rightarrow> bytes \<Rightarrow> u32 \<Rightarrow> bytes option option" where
  "cloud_response m srcData len =
     rsp_string srcData len (if lierda m then None else Some (asc ''CONNECT''))
       (if lierda m then crlf @ asc ''OK'' else asc ''OK'') 200"

text \<open>\<open>memcpy(dst, s, strlen(s))\<close> of a decoded string: no terminator is written, and what was behind remains.\<close>

definition copy_string :: "bytes \<Rightarrow> bytes option \<Rightarrow> bytes option" where
  "copy_string dst s = Option.bind s (\<lambda>s. if length s \<le> length dst then Some (blit dst 0 s) else None)"

definition activation_text :: "cloud_env \<Rightarrow> bytes \<Rightarrow> bytes \<Rightarrow> int \<Rightarrow> bytes" where
  "activation_text env key secret t =
     snprintf 200 (asc ''deviceKey=%s||deviceSecret=%s||t=%d%s'') [Str key, Str secret, Sgn t, Str (pucOriginSecret env)]"

definition activation_sign :: "cloud_env \<Rightarrow> bytes \<Rightarrow> bytes" where
  "activation_sign env txt = take 16 (drop 8 (get_md5_32_str (md5_context env) txt))"

text \<open>
  The strings of the answer are released before the signature in it is compared, so what it is compared
  with is what the released memory holds.
\<close>

definition net4g_active_post_rsp_cb :: "cloud_env \<Rightarrow> module_type \<Rightarrow> at_handler" where
  "net4g_active_post_rsp_cb env m ret srcData len d =
     Option.bind (cloud_response m srcData len) (\<lambda>v.
     case Option.bind v (decode_activeRsp env) of None \<Rightarrow> Some (d, AT_ERR)
     | Some rsp \<Rightarrow>
         Option.bind (copy_string (DeviceKey d) (ar_deviceKey rsp)) (\<lambda>key.
         Option.bind (copy_string (DeviceSecret d) (ar_deviceSecret rsp)) (\<lambda>secret.
         Option.bind (copy_string (deviceNo d) (ar_deviceNo rsp)) (\<lambda>no.
         Option.bind (c_string key 0) (\<lambda>k.
         Option.bind (c_string secret 0) (\<lambda>sec.
         Option.bind (ar_sign rsp) (\<lambda>sig.
         let d = d\<lparr>DeviceKey := key, DeviceSecret := secret, deviceNo := no\<rparr>
         in if length (freed env sig) < 16 then None
            else if activation_sign env (activation_text env k sec (ar_t rsp)) = take 16 (freed env sig)
            then Some (d\<lparr>activeFlag := 0xBB\<rparr>, AT_OK) else Some (d, AT_ERR))))))))"

definition net4g_active_confirm_rsp_cb :: "cloud_env \<Rightarrow> module_type \<Rightarrow> at_handler" where
  "net4g_active_confirm_rsp_cb env m ret srcData len d =
     Option.bind (cloud_response m srcData len) (\<lambda>v.
     case Option.bind v (decode_activeConfirmRsp env) of None \<Rightarrow> Some (d, AT_ERR)
     | Some success \<Rightarrow>
         Some (if success then (d\<lparr>activeFlag := 0xAA, sys_activeFlag := 0xAA,
                                  para_flash_writes := para_flash_writes d + 1\<rparr>, AT_OK)
               else (d\<lparr>activeFlag := 0\<rparr>, AT_ERR)))"

text \<open>The commands of the activation: the text to send and the callback.\<close>

definition active_command :: "cloud_env \<Rightarrow> module_type \<Rightarrow> at_command" where
  "active_command env m cid cmd d =
     (if cid = CMD_ID_ACTIVE_SET_URL_CMD \<or> cid = CMD_ID_ACTIVE_CONFIRM_SET_URL_CMD
      then let d = d\<lparr>active_payload := (if cid = CMD_ID_ACTIVE_SET_URL_CMD then device_active_url_pack env 500 d
                                         else device_active_confirm_url_pack env 500 d)\<rparr> in
           Option.bind (c_string (active_payload d) 0) (\<lambda>url.
           at_cmd_send_check (set_cmd cmd (snprintf 500 (NET_CMD_HTTPGET_SET_URL_CMD m) [Num (length url)])) None d)
      else if cid = CMD_ID_ACTIVE_SET_URL_DATA \<or> cid = CMD_ID_ACTIVE_CONFIRM_SET_URL_DATA
      then Option.bind (c_string (active_payload d) 0) (\<lambda>url. at_cmd_send_check (set_cmd cmd url) None d)
      else if cid = CMD_ID_ACTIVE_SET_CONNECT_URL \<or> cid = CMD_ID_ACTIVE_CONFIRM_CONNECT_URL
      then at_cmd_send_check (set_cmd cmd (NET_CMD_HTTPGET_CONNECT_URL m)) None d
      else if cid = CMD_ID_ACTIVE_GET_HTTP_RSP
      then at_cmd_send_check (set_cmd cmd (NET_CMD_HTTPGET_GET_HTTP_RSP m)) (Some (net4g_active_post_rsp_cb env m)) d
      else if cid = CMD_ID_ACTIVE_CONFIRM_GET_HTTP_RSP
      then at_cmd_send_check (set_cmd cmd (NET_CMD_HTTPGET_GET_HTTP_RSP m)) (Some (net4g_active_confirm_rsp_cb env m)) d
      else at_cmd_send_check cmd None d)"

text \<open>A device that was activated but not confirmed starts with the confirmation.\<close>

definition device_active_start :: "module_type \<Rightarrow> net4g \<Rightarrow> nat" where
  "device_active_start m s =
     (if activeFlag (dev s) = 0xBB \<and> deviceActive (steps s) = 0 then (if lierda m then 6 else 4)
      else deviceActive (steps s))"

definition device_active_process :: "cloud_env \<Rightarrow> module_type \<Rightarrow> net4g \<Rightarrow> (net4g \<times> process_step_ret) option" where
  "device_active_process env m s =
     map_option (\<lambda>(i, d, p). (s\<lparr>steps := (steps s)\<lparr>deviceActive := i\<rparr>, dev := d\<rparr>, p))
       (table_step (device_active_steps m) m (active_command env m) (device_active_start m s) (dev s))"

subsection \<open>Routing\<close>

text \<open>The broker's address and port from \<open>host:port\<close>, in arrays of 32 and 10 characters.\<close>

definition route_broker :: "bytes option \<Rightarrow> (bytes \<times> u16) option" where
  "route_broker broker =
     Option.bind broker (\<lambda>b.
     Option.bind (get_atcmd_rsp_before_after_value (b @ [0]) 0 (Some (asc '':'')) 32 10) (\<lambda>v.
     case v of None \<Rightarrow> Some ([], 0)
     | Some (host, port) \<Rightarrow>
         Option.bind (c_string (host @ replicate (32 - length host) 0) 0) (\<lambda>h.
         map_option (\<lambda>p. (h, word_of_int (atoi p))) (c_string (port @ replicate (10 - length port) 0) 0))))"

definition device_route_rsp_cb :: "cloud_env \<Rightarrow> module_type \<Rightarrow> at_handler" where
  "device_route_rsp_cb env m ret srcData len d =
     Option.bind (cloud_response m srcData len) (\<lambda>v.
     case Option.bind v (decode_routeRsp env) of None \<Rightarrow> Some (d, AT_ERR)
     | Some rsp \<Rightarrow>
         Option.bind (route_broker (rr_broker rsp)) (\<lambda>(host, port).
         Option.bind (set_string (mqtt_addr d) host) (\<lambda>addr.
         let interval = (if 300 < cubbyInterval d \<and> cubbyInterval d < 0xffff then cubbyInterval d else 1800);
             d = d\<lparr>mqtt_addr := addr, mqtt_port := port, mqtt_HBInterval := rr_keepalive rsp,
                   mqtt_retryInterval := 60, mqtt_retryTimes := 3, mqtt_timerReportInterval := interval,
                   mqtt_password := replicate (length (mqtt_password d)) 0,
                   mqtt_secretKey := replicate (length (mqtt_secretKey d)) 0, cubbyInterval := interval\<rparr>
         in Some (if rr_success rsp \<and> rr_reactive rsp = 1 then (d\<lparr>activeFlag := 0\<rparr>, AT_ERR) else (d, AT_OK)))))"

definition route_command :: "cloud_env \<Rightarrow> module_type \<Rightarrow> at_command" where
  "route_command env m cid cmd d =
     (if cid = CMD_ID_ROUTE_SET_URL_CMD
      then let d = d\<lparr>route_payload := device_route_url_pack env 150 d\<rparr> in
           Option.bind (c_string (route_payload d) 0) (\<lambda>url.
           at_cmd_send_check (set_cmd cmd (snprintf 150 (NET_CMD_HTTPGET_SET_URL_CMD m) [Num (length url)])) None d)
      else if cid = CMD_ID_ROUTE_SET_URL_DATA
      then Option.bind (c_string (route_payload d) 0) (\<lambda>url. at_cmd_send_check (set_cmd cmd url) None d)
      else if cid = CMD_ID_ROUTE_CONNECT_URL
      then at_cmd_send_check (set_cmd cmd (NET_CMD_HTTPGET_CONNECT_URL m)) None d
      else if cid = CMD_ID_ROUTE_GET_HTTP_RSP
      then at_cmd_send_check (set_cmd cmd (NET_CMD_HTTPGET_GET_HTTP_RSP m)) (Some (device_route_rsp_cb env m)) d
      else at_cmd_send_check cmd None d)"

text \<open>The error row, but not an index outside the table, asks for a new connection.\<close>

definition device_route_process :: "cloud_env \<Rightarrow> module_type \<Rightarrow> net4g \<Rightarrow> (net4g \<times> process_step_ret) option" where
  "device_route_process env m s =
     (if length (device_route_steps m) \<le> connectRoute (steps s) then Some (s, PROCESS_ERROR)
      else map_option (\<lambda>(i, d, p). (s\<lparr>steps := (steps s)\<lparr>connectRoute := i\<rparr>,
             dev := (if p = PROCESS_ERROR then d\<lparr>net4g_reconnect_flag := 1\<rparr> else d)\<rparr>, p))
       (table_step (device_route_steps m) m (route_command env m) (connectRoute (steps s)) (dev s)))"

definition set_ar_step :: "NET4G_ACTIVE_ROUTE_STEP \<Rightarrow> net4g \<Rightarrow> net4g" where
  "set_ar_step st s = s\<lparr>steps := (steps s)\<lparr>active_route_step := st\<rparr>\<rparr>"

definition module_4g_active_route_process ::
    "cloud_env \<Rightarrow> module_type \<Rightarrow> net4g \<Rightarrow> (net4g \<times> process_step_ret) option" where
  "module_4g_active_route_process env m s =
     (case active_route_step (steps s) of
        ACTIVE_ROUTE_STEP_CHECK \<Rightarrow>
          Some (set_ar_step (if check_active_or_route env (dev s) then ACTIVE_ROUTE_STEP_ROUTE else ACTIVE_ROUTE_STEP_ACTIVE) s,
                PROCESS_WAIT)
      | ACTIVE_ROUTE_STEP_ACTIVE \<Rightarrow>
          map_option (\<lambda>(s, p). (if p = PROCESS_DONE then set_ar_step ACTIVE_ROUTE_STEP_ROUTE s else s, PROCESS_WAIT))
            (device_active_process env m s)
      | ACTIVE_ROUTE_STEP_ROUTE \<Rightarrow>
          map_option (\<lambda>(s, p). if p = PROCESS_DONE then (set_ar_step ACTIVE_ROUTE_STEP_END s, PROCESS_WAIT)
                                else if p = PROCESS_ERROR then (set_ar_step ACTIVE_ROUTE_STEP_CHECK s, PROCESS_ERROR)
                                else (s, PROCESS_WAIT))
            (device_route_process env m s)
      | ACTIVE_ROUTE_STEP_END \<Rightarrow> Some (set_ar_step ACTIVE_ROUTE_STEP_CHECK s, PROCESS_DONE))"

section \<open>All four processes step through their tables\<close>

locale table_process = step_table ts for ts :: "net4g_at_step_t list" +
  fixes m :: module_type and command :: at_command
  assumes result: "command cid cmd d = Some (e, r) \<Longrightarrow> r \<noteq> AT_RET_5"
begin

lemma table_step_effect:
  assumes "table_step ts m command i d = Some (j, e, p)" and "running ts i"
  shows "running ts j \<and> (if p = PROCESS_WAIT then i < j \<or> i = 0 \<and> j = 0 \<and> f_jump (ts ! 0) = 0 else j = 0)"
proof -
  have "i < length ts" using assms(2) by (simp add: running_def)
  then obtain cmd r where cmd: "command (step_id (ts ! i)) cmd d = Some (e, r)" and ending: "at_step_end ts i r = Some (j, p)"
    using assms(1) by (auto simp: table_step_def bind_eq_Some_conv)
  then have "r \<noteq> AT_RET_5" using result [OF cmd] by simp
  then show ?thesis using step_end_in [OF assms(2)] ending by fastforce
qed

end

lemma no_5I: "pred_option (\<lambda>(e, r). r \<noteq> AT_RET_5) x \<Longrightarrow> x = Some (e, r) \<Longrightarrow> r \<noteq> AT_RET_5"
  by simp

lemma send_check_no_5 [opt_intro]: "pred_option (\<lambda>(e, r). r \<noteq> AT_RET_5) (at_cmd_send_check cmd cb d)"
  by (auto simp: option.pred_set dest: at_cmd_send_check_ret)

lemma running_in: "running ts i \<Longrightarrow> length ts \<le> i \<Longrightarrow> False"
  by (simp add: running_def)

interpretation login_frame: table_process "device_signIn_steps m" m "login_command env" for m env
  by unfold_locales (erule no_5I [rotated], unfold login_command_def, intro opt_intro)

interpretation cell_frame: table_process "net4g_get_cell_info_config_command_steps m" m "cell_command m" for m
  by unfold_locales (erule no_5I [rotated], unfold cell_command_def, intro opt_intro, simp)

interpretation active_frame: table_process "device_active_steps m" m "active_command env m" for m env
  by unfold_locales (erule no_5I [rotated], unfold active_command_def, intro opt_intro)

interpretation route_frame: table_process "device_route_steps m" m "route_command env m" for m env
  by unfold_locales (erule no_5I [rotated], unfold route_command_def, intro opt_intro)

interpretation login: stepping "module_4g_cloud_logIn_process env m" "\<lambda>s. cloudLogin (steps s)" "device_signIn_steps m"
    for env m
  by unfold_locales (auto simp: module_4g_cloud_logIn_process_def dest!: login_frame.table_step_effect)

interpretation cell: stepping "module_4g_get_cell_info_process m" "\<lambda>s. getCellInfoStep (steps s)"
    "net4g_get_cell_info_config_command_steps m" for m
  by unfold_locales
    (auto simp: module_4g_get_cell_info_process_def dest: running_in dest!: cell_frame.table_step_effect split: if_splits)

lemma active_start_running:
  "running (device_active_steps m) (deviceActive (steps s)) \<Longrightarrow> running (device_active_steps m) (device_active_start m s)"
  by (auto simp: device_active_start_def device_active_steps_def running_def terminal_row_def nt_active_steps_def
      ec_active_steps_def)

lemma active_start_ge: "deviceActive (steps s) \<le> device_active_start m s"
  by (simp add: device_active_start_def)

interpretation active: stepping "device_active_process env m" "\<lambda>s. deviceActive (steps s)" "device_active_steps m"
    for env m
proof
  fix s s' p
  assume "device_active_process env m s = Some (s', p)" and run: "running (device_active_steps m) (deviceActive (steps s))"
  then obtain j e where "table_step (device_active_steps m) m (active_command env m) (device_active_start m s) (dev s)
      = Some (j, e, p)" and s': "deviceActive (steps s') = j"
    by (auto simp: device_active_process_def)
  from active_frame.table_step_effect [OF this(1) active_start_running [OF run]]
  show "running (device_active_steps m) (deviceActive (steps s')) \<and>
    (if p = PROCESS_WAIT then deviceActive (steps s) < deviceActive (steps s') \<or> deviceActive (steps s) = 0 \<and>
       deviceActive (steps s') = 0 \<and> f_jump (device_active_steps m ! 0) = 0 else deviceActive (steps s') = 0)"
    using active_start_ge [of s m] s' by (auto split: if_splits)
qed

interpretation route: stepping "device_route_process env m" "\<lambda>s. connectRoute (steps s)" "device_route_steps m"
    for env m
  by unfold_locales (auto simp: device_route_process_def dest: running_in dest!: route_frame.table_step_effect split: if_splits)

end
