(* ===== verification/Ring.thy ===== *)
theory Ring
  imports Prelude
begin

text \<open>
  Ring buffers, which the network driver of \<^verbatim>\<open>src/ql_application/App_XD/netlink/app_net4g.c\<close> uses three
  times: for the bytes of the serial line, for the received commands and for the messages to publish.
  A ring is an array with a position to read from (\<open>h\<close>) and one to write to (\<open>t\<close>); it is empty when they
  are equal, so one slot is never used.  \<open>fifo_queue\<close> is what a user of such a ring relies on.
\<close>

section \<open>What a ring holds\<close>

definition ring_list :: "'a list \<Rightarrow> nat \<Rightarrow> nat \<Rightarrow> 'a list" where
  "ring_list xs h t = (if h \<le> t then drop h (take t xs) else drop h xs @ take t xs)"

lemma ring_list_empty [simp]: "ring_list xs h h = []"
  by (simp add: ring_list_def)

lemma length_ring_list:
  assumes "h < length xs" and "t < length xs"
  shows "length (ring_list xs h t) = (if h \<le> t then t - h else length xs - h + t)"
  using assms by (simp add: ring_list_def)

lemma ring_list_update:
  assumes "h < length xs" and "t < length xs"
  shows "ring_list (xs[t := x]) h t = ring_list xs h t"
  using assms by (simp add: ring_list_def)

text \<open>Writing at the write position and moving it, with a free slot.\<close>

lemma ring_list_put:
  assumes "h < length xs" and "t < length xs" and "Suc (length (ring_list xs h t)) < length xs"
  shows "ring_list (xs[t := x]) h (Suc t mod length xs) = ring_list xs h t @ [x]"
proof (cases "Suc t = length xs")
  case True
  then have "xs[t := x] = take t xs @ [x]" using assms(2) by (simp add: upd_conv_take_nth_drop)
  moreover have "0 < h" "h \<le> t" using assms length_ring_list [OF assms(1,2)] True by (simp_all split: if_splits)
  ultimately show ?thesis using True assms(2) by (simp add: ring_list_def)
next
  case False
  then have next_t: "Suc t mod length xs = Suc t" using assms(2) by simp
  have "take (Suc t) (xs[t := x]) = take t xs @ [x]" using assms(2) by (simp add: take_Suc_conv_app_nth)
  moreover have "h \<noteq> Suc t" using assms(3) length_ring_list [OF assms(1,2)] by (auto split: if_splits)
  ultimately show ?thesis using assms(1,2) next_t by (auto simp: ring_list_def drop_update_cancel)
qed

text \<open>Moving the read position.\<close>

lemma ring_list_get:
  assumes "h < length xs" and "t < length xs" and "h \<noteq> t"
  shows "ring_list xs h t = xs ! h # ring_list xs (Suc h mod length xs) t"
proof (cases "Suc h = length xs")
  case True
  then have "drop h xs = [xs ! h]" using assms(1) by (simp flip: Cons_nth_drop_Suc)
  then show ?thesis using assms True by (auto simp: ring_list_def)
next
  case False
  then show ?thesis
    using assms Cons_nth_drop_Suc [of h "take t xs"] Cons_nth_drop_Suc [of h xs] by (auto simp: ring_list_def)
qed

section \<open>The contract\<close>

locale fifo_queue =
  fixes content :: "'s \<Rightarrow> 'm list" and put :: "'m \<Rightarrow> 's \<Rightarrow> 's" and get :: "'s \<Rightarrow> 's"
    and nonempty :: "'s \<Rightarrow> bool" and valid :: "'s \<Rightarrow> bool" and room :: "'s \<Rightarrow> nat" and fits :: "'m \<Rightarrow> 's \<Rightarrow> bool"
  assumes put_content: "valid s \<Longrightarrow> 0 < room s \<Longrightarrow> fits m s \<Longrightarrow> content (put m s) = content s @ [m]"
    and put_valid: "valid s \<Longrightarrow> fits m s \<Longrightarrow> valid (put m s)"
    and put_room: "valid s \<Longrightarrow> 0 < room s \<Longrightarrow> fits m s \<Longrightarrow> room (put m s) = room s - 1"
    and put_fits: "valid s \<Longrightarrow> fits m s \<Longrightarrow> fits n (put m s) = fits n s"
    and get_content: "valid s \<Longrightarrow> nonempty s \<Longrightarrow> content (get s) = tl (content s)"
    and get_valid: "valid s \<Longrightarrow> valid (get s)"
    and nonempty_content: "valid s \<Longrightarrow> nonempty s = (content s \<noteq> [])"
begin

text \<open>As many messages as there is room for come out in the order they went in, behind those already there.\<close>

lemma put_all:
  assumes "valid s" and "length ms \<le> room s" and "list_all (\<lambda>m. fits m s) ms"
  shows "content (foldl (\<lambda>s m. put m s) s ms) = content s @ ms \<and> valid (foldl (\<lambda>s m. put m s) s ms)"
  using assms
proof (induction ms arbitrary: s)
  case (Cons m ms)
  then show ?case
    using Cons.IH [of "put m s"] by (simp add: put_content put_valid put_room put_fits list_all_iff)
qed simp

lemma get_all: "valid s \<Longrightarrow> n \<le> length (content s) \<Longrightarrow> content ((get ^^ n) s) = drop n (content s) \<and> valid ((get ^^ n) s)"
proof (induction n)
  case (Suc n)
  then have "content ((get ^^ n) s) \<noteq> []" by simp
  then show ?case using Suc by (simp add: get_content get_valid nonempty_content drop_Suc tl_drop)
qed simp

lemma in_order:
  assumes "valid s" and "content s = []" and "length ms \<le> room s" and "list_all (\<lambda>m. fits m s) ms" and "n \<le> length ms"
  shows "content ((get ^^ n) (foldl (\<lambda>s m. put m s) s ms)) = drop n ms"
  using put_all [OF assms(1,3,4)] get_all [of "foldl (\<lambda>s m. put m s) s ms" n] assms(2,5) by simp

end

end
