(* ===== verification/RecvFifo.thy ===== *)
theory RecvFifo
  imports Ring CString
begin

text \<open>
  The receive path of \<^verbatim>\<open>src/ql_application/App_XD/netlink/app_net4g.c\<close>: \<open>net4g_uart_recv_cb\<close>, which the
  serial driver calls when bytes have arrived, \<open>get_key_data_index\<close>, the search for a keyword in the ring,
  and \<open>recv_cmd_from_fifo\<close>, which cuts one command out of it in four calls.  The ring's array is an
  argument, because the command layer uses the same array as its buffer; its size, which is not in the
  sources, is the length of the list.  Counters are kept at 8 and 16 bits as in the C code.
\<close>

section \<open>Model\<close>

record recv =
  fifo_head :: nat
  fifo_tail :: nat
  cmd_get_step :: nat
  cmdHead_index :: u16
  cmdTail_index :: u16
  recvCmd :: bytes
  recvCmdLen :: nat

text \<open>\<open>network_uart_recv(data + off, n)\<close>: what has arrived, at most \<open>n\<close> bytes of it.\<close>

definition uart_read :: "nat \<Rightarrow> nat \<Rightarrow> bytes \<Rightarrow> bytes \<Rightarrow> (bytes \<times> bytes) option" where
  "uart_read off n mem line =
     (let r = take n line in if off + length r \<le> length mem then Some (blit mem off r, drop n line) else None)"

text \<open>\<open>recv_len\<close> has 8 bits.\<close>

definition net4g_uart_recv_cb :: "u16 \<Rightarrow> bytes \<Rightarrow> bytes \<Rightarrow> recv \<Rightarrow> (bytes \<times> recv \<times> bytes) option" where
  "net4g_uart_recv_cb len line mem r =
     Option.bind
       (if length mem \<le> fifo_tail r + unat len
        then let recv_len = of_nat (length mem - fifo_tail r) :: u8 in
             Option.bind (uart_read (fifo_tail r) (unat recv_len) mem line) (\<lambda>(mem, line).
             let recv_len = ucast len - recv_len in
             map_option (\<lambda>(mem, line). (mem, r\<lparr>fifo_tail := unat recv_len\<rparr>, line)) (uart_read 0 (unat recv_len) mem line))
        else map_option (\<lambda>(mem, line). (mem, r\<lparr>fifo_tail := fifo_tail r + unat len\<rparr>, line))
               (uart_read (fifo_tail r) (unat len) mem line))
       (\<lambda>(mem, r, line). map_option (\<lambda>mem. (mem, r, line)) (store mem (fifo_tail r) 0))"

subsection \<open>Searching a keyword\<close>

text \<open>
  The comparison at index \<open>i\<close> from \<open>j\<close> on, for \<open>n\<close> characters: the new \<open>j\<close>, the count of equal characters
  and the index stored for the caller.  The keyword comes with its terminator.
\<close>

fun key_match :: "nat \<Rightarrow> bytes \<Rightarrow> bytes \<Rightarrow> nat \<Rightarrow> nat \<Rightarrow> u8 \<Rightarrow> u16 \<Rightarrow> (nat \<times> u8 \<times> u16) option" where
  "key_match 0 mem key i j cnt idx = Some (j, cnt, idx)"
| "key_match (Suc n) mem key i j cnt idx =
     Option.bind (fetch mem (i + j)) (\<lambda>c. Option.bind (fetch key j) (\<lambda>k.
     if c = k then key_match n mem key i (Suc j) (cnt + 1) (if cnt = 0 then of_nat i else idx) else Some (j, 0, idx)))"

text \<open>
  The scan over the indices of a part of the ring.  In the first part of a wrapped ring (\<open>clip\<close>) the number \<open>n\<close>
  of characters to compare is cut at the end of the array, and stays cut for all later comparisons.
\<close>

type_synonym key_search = "bool \<times> nat \<times> nat \<times> u8 \<times> u16"

fun key_scan :: "bool \<Rightarrow> bytes \<Rightarrow> bytes \<Rightarrow> nat list \<Rightarrow> nat \<Rightarrow> nat \<Rightarrow> u8 \<Rightarrow> u16 \<Rightarrow> key_search option" where
  "key_scan clip mem key [] n j cnt idx = Some (False, n, j, cnt, idx)"
| "key_scan clip mem key (i # is) n j cnt idx =
     Option.bind (fetch mem i) (\<lambda>c. Option.bind (fetch key 0) (\<lambda>k.
     if c \<noteq> k then key_scan clip mem key is n j cnt idx
     else let n = (if clip \<and> length mem < i + n then length mem - i else n) in
          Option.bind (key_match n mem key i 0 cnt idx) (\<lambda>(j, cnt, idx).
          if unat cnt = length key - 1 then Some (True, n, j, cnt, idx) else key_scan clip mem key is n j cnt idx)))"

text \<open>The continuation in the second part, when the end of the first part began the keyword.\<close>

fun key_rest_match :: "nat \<Rightarrow> bytes \<Rightarrow> bytes \<Rightarrow> nat \<Rightarrow> nat \<Rightarrow> u8 \<Rightarrow> u8 \<Rightarrow> (nat \<times> u8 \<times> u8) option" where
  "key_rest_match 0 mem key i j k cnt = Some (j, k, cnt)"
| "key_rest_match (Suc n) mem key i j k cnt =
     Option.bind (fetch mem (i + unat k)) (\<lambda>c. Option.bind (fetch key j) (\<lambda>x.
     if c = x then key_rest_match n mem key i (Suc j) (k + 1) (cnt + 1) else Some (j, k, 0)))"

fun key_rest :: "bytes \<Rightarrow> bytes \<Rightarrow> nat list \<Rightarrow> nat \<Rightarrow> u8 \<Rightarrow> u8 \<Rightarrow> bool option" where
  "key_rest mem key [] j k cnt = Some False"
| "key_rest mem key (i # is) j k cnt =
     Option.bind (fetch mem i) (\<lambda>c. Option.bind (fetch key j) (\<lambda>x.
     if c \<noteq> x then key_rest mem key is j k cnt
     else Option.bind (key_rest_match (unat (of_nat (length key - 1) :: u8) - j) mem key i j k cnt) (\<lambda>(j, k, cnt).
          if unat cnt = length key - 1 then Some True else key_rest mem key is j k cnt)))"

text \<open>The answer: whether the keyword was found, and what \<open>*sameKey_index\<close> is afterwards.\<close>

definition get_key_data_index :: "bytes \<Rightarrow> nat \<Rightarrow> nat \<Rightarrow> bytes \<Rightarrow> u16 \<Rightarrow> (bool \<times> u16) option" where
  "get_key_data_index srcData headIndex tailIndex keyWord sameKey_index =
     (let key = keyWord @ [0]; n = unat (of_nat (length keyWord) :: u8) in
      if headIndex < tailIndex
      then map_option (\<lambda>(found, n, j, cnt, idx). (found, idx))
             (key_scan False srcData key [headIndex..<tailIndex] n 0 0 sameKey_index)
      else if tailIndex < headIndex
      then Option.bind (key_scan True srcData key [headIndex..<length srcData] n 0 0 sameKey_index)
             (\<lambda>(found, n, j, cnt, idx).
              if found then Some (True, idx)
              else if 0 < cnt
              then map_option (\<lambda>found. (found, idx)) (key_rest srcData key [0..<tailIndex] j 0 cnt)
              else map_option (\<lambda>(found, n, j, cnt, idx). (found, idx))
                     (key_scan False srcData key [0..<tailIndex] n j cnt idx))
      else Some (False, sameKey_index))"

subsection \<open>Cutting a command out of the ring\<close>

text \<open>
  One call: 0 nothing yet, 1 a command in \<open>recvCmd\<close>, 2 no head keyword, 3 no tail keyword.  Step 3 copies from
  head to tail; a tail keyword at the end of the array leaves \<open>cmdTail_index\<close> beyond it.
\<close>

definition copy_out :: "bytes \<Rightarrow> bytes \<Rightarrow> u16 \<Rightarrow> u16 \<Rightarrow> (bytes \<times> nat) option" where
  "copy_out mem dest hd_index tl_index =
     (let h = unat hd_index; t = unat tl_index in
      if h < t
      then (if length mem < t \<or> length dest < t - h then None
            else Some (blit (replicate (length dest) 0) 0 (drop h (take t mem)), t - h))
      else (if length mem < h \<or> length mem < t \<or> length dest < length mem - h + t then None
            else Some (blit (replicate (length dest) 0) 0 (drop h mem @ take t mem), length mem - h + t)))"

definition recv_cmd_from_fifo :: "bytes \<Rightarrow> bytes \<Rightarrow> bytes \<Rightarrow> recv \<Rightarrow> (recv \<times> nat) option" where
  "recv_cmd_from_fifo keyHeader keyTail mem r =
     (if cmd_get_step r = 0 then
        (if fifo_tail r = fifo_head r then Some (r, 0)
         else let dataLen = (if fifo_head r < fifo_tail r then fifo_tail r - fifo_head r
                             else length mem - fifo_head r + fifo_tail r) in
           if length keyHeader \<le> dataLen
           then Some (r\<lparr>cmdHead_index := 0, cmdTail_index := 0, cmd_get_step := 1\<rparr>, 0) else Some (r, 2))
      else if cmd_get_step r = 1 then
        map_option (\<lambda>(found, idx).
          if found then (r\<lparr>cmdHead_index := idx, fifo_head := unat idx, cmd_get_step := 2\<rparr>, 0)
          else (r\<lparr>cmdHead_index := idx, cmd_get_step := 0\<rparr>, 2))
          (get_key_data_index mem (fifo_head r) (fifo_tail r) keyHeader (cmdHead_index r))
      else if cmd_get_step r = 2 then
        map_option (\<lambda>(found, idx).
          if found then (r\<lparr>cmdTail_index := idx + of_nat (length keyTail), cmd_get_step := 3\<rparr>, 0)
          else (r\<lparr>cmdTail_index := idx, cmd_get_step := 0\<rparr>, 3))
          (get_key_data_index mem (fifo_head r) (fifo_tail r) keyTail (cmdTail_index r))
      else if cmd_get_step r = 3 then
        map_option (\<lambda>(cmd, n). (r\<lparr>recvCmd := cmd, recvCmdLen := n, fifo_head := unat (cmdTail_index r), cmd_get_step := 0\<rparr>, 1))
          (copy_out mem (recvCmd r) (cmdHead_index r) (cmdTail_index r))
      else Some (r\<lparr>cmd_get_step := 0\<rparr>, 0))"

section \<open>Searching in a ring that does not wrap\<close>

lemma is_prefix_before_zero:
  assumes "mem ! t = 0" and "t < length mem" and "i \<le> t" and "0 \<notin> set w"
  shows "is_prefix w (drop i mem) = is_prefix w (drop i (take t mem))"
proof
  assume "is_prefix w (drop i mem)"
  then obtain z where z: "drop i mem = w @ z" by (auto simp: is_prefix_append)
  have "drop i mem ! (t - i) = 0" using assms by simp
  then have "length w \<le> t - i" using assms(4) z by (metis nth_append nth_mem not_le)
  then have "take (t - i) (drop i mem) = w @ take (t - i - length w) z" using z by simp
  then show "is_prefix w (drop i (take t mem))" by (auto simp: is_prefix_append drop_take)
next
  assume "is_prefix w (drop i (take t mem))"
  then obtain z where "take (t - i) (drop i mem) = w @ z" by (auto simp: is_prefix_append drop_take)
  then have "drop i mem = w @ z @ drop (t - i) (drop i mem)" by (metis append_assoc append_take_drop_id)
  then show "is_prefix w (drop i mem)" by (auto simp: is_prefix_append)
qed

lemma key_match_prefix:
  assumes "mem ! t = 0" and "t < length mem" and "0 \<notin> set w" and "length w < 256" and "i + j \<le> t" and "j + n = length w"
  shows "\<exists>j' idx'. key_match n mem (w @ [0]) i j (of_nat j) idx
    = Some (if is_prefix (drop j w) (drop (i + j) mem)
            then (length w, of_nat (length w), if j = 0 \<and> w \<noteq> [] then of_nat i else idx) else (j', 0, idx'))"
  using assms(5,6)
proof (induction n arbitrary: j idx)
  case 0
  then show ?case using assms by auto
next
  case (Suc n)
  then have j: "j < length w" and m: "i + j < length mem" using assms(2) by auto
  have w: "drop j w = w ! j # drop (Suc j) w" using j by (simp add: Cons_nth_drop_Suc)
  have mem: "drop (i + j) mem = mem ! (i + j) # drop (i + Suc j) mem" using m by (simp add: Cons_nth_drop_Suc)
  have zero: "of_nat j = (0 :: u8) \<longleftrightarrow> j = 0"
    using unat_of_nat_u8 [of j] j assms(4) by auto
  have step: "key_match (Suc n) mem (w @ [0]) i j (of_nat j) idx
      = (if mem ! (i + j) = w ! j
         then key_match n mem (w @ [0]) i (Suc j) (of_nat (Suc j)) (if j = 0 then of_nat i else idx)
         else Some (j, 0, idx))"
    using j m zero by (simp add: nth_append add.commute)
  have pre: "is_prefix (drop j w) (drop (i + j) mem)
      = (w ! j = mem ! (i + j) \<and> is_prefix (drop (Suc j) w) (drop (i + Suc j) mem))"
    unfolding w mem by simp
  have "w \<noteq> []" using j by auto
  show ?case
  proof (cases "mem ! (i + j) = w ! j")
    case True
    then have "i + j \<noteq> t" using assms(1,3) j by (metis nth_mem)
    then have "i + Suc j \<le> t" "Suc j + n = length w" using Suc.prems by simp_all
    from Suc.IH [OF this, of "if j = 0 then of_nat i else idx"] show ?thesis
      unfolding step pre using True \<open>w \<noteq> []\<close> by auto
  next
    case False
    then show ?thesis unfolding step pre by auto
  qed
qed

lemma key_scan_linear:
  assumes "mem ! t = 0" and "t < length mem" and "0 \<notin> set w" and "length w < 256" and "w \<noteq> []" and "i \<le> t"
  shows "case find_sub w (drop i (take t mem)) of
      Some k \<Rightarrow> \<exists>j' cnt'. key_scan False mem (w @ [0]) [i..<t] (length w) j 0 idx = Some (True, length w, j', cnt', of_nat (i + k))
    | None \<Rightarrow> \<exists>j' idx'. key_scan False mem (w @ [0]) [i..<t] (length w) j 0 idx = Some (False, length w, j', 0, idx')"
  using assms(6)
proof (induction "t - i" arbitrary: i j idx)
  case 0
  then show ?case using assms(5) by (simp add: find_sub_Nil)
next
  case (Suc d)
  then have it: "i < t" by simp
  then have upt: "[i..<t] = i # [Suc i..<t]" by (simp add: upt_conv_Cons)
  have d: "drop i (take t mem) = mem ! i # drop (Suc i) (take t mem)"
    using it assms(2) by (simp add: drop_take Cons_nth_drop_Suc [symmetric] take_Cons')
  have p: "is_prefix w (drop i mem) = is_prefix w (drop i (take t mem))"
    using is_prefix_before_zero [OF assms(1,2) _ assms(3)] it by simp
  obtain w0 ws where w: "w = w0 # ws" using assms(5) by (cases w) auto
  then have first: "fetch (w @ [0]) 0 = Some w0" "fetch mem i = Some (mem ! i)" using it assms(2) by simp_all
  have len: "unat (of_nat (length w) :: u8) = length w" using assms(4) by (rule unat_of_nat_u8)
  have IH: "case find_sub w (drop (Suc i) (take t mem)) of
      Some k \<Rightarrow> \<exists>j'' cnt'. key_scan False mem (w @ [0]) [Suc i..<t] (length w) j' 0 idx'
        = Some (True, length w, j'', cnt', of_nat (Suc i + k))
    | None \<Rightarrow> \<exists>j'' idx''. key_scan False mem (w @ [0]) [Suc i..<t] (length w) j' 0 idx'
        = Some (False, length w, j'', 0, idx'')" for j' idx'
    using Suc.hyps(1) [of "Suc i" j' idx'] Suc.hyps(2) it by simp
  show ?case
  proof (cases "is_prefix w (drop i (take t mem))")
    case True
    then have "mem ! i = w0" using d w by simp
    moreover have "find_sub w (drop i (take t mem)) = Some 0" using True d by (simp add: find_sub_Cons)
    ultimately show ?thesis
      using key_match_prefix [OF assms(1-4), of i 0 "length w" idx] True p it assms(5) upt first len
      by (auto simp: Let_def)
  next
    case False
    then have f: "find_sub w (drop i (take t mem)) = map_option Suc (find_sub w (drop (Suc i) (take t mem)))"
      using d by (simp add: find_sub_Cons)
    obtain j' idx' where s: "key_scan False mem (w @ [0]) [i..<t] (length w) j 0 idx
        = key_scan False mem (w @ [0]) [Suc i..<t] (length w) j' 0 idx'"
      using key_match_prefix [OF assms(1-4), of i 0 "length w" idx] False p it assms(5) upt first
      by (cases "mem ! i = w0") (auto simp: Let_def)
    show ?thesis
      using IH [of j' idx'] it f s by (auto split: option.splits)
  qed
qed

section \<open>Receiving\<close>

definition fifo_valid :: "bytes \<Rightarrow> recv \<Rightarrow> bool" where
  "fifo_valid mem r \<longleftrightarrow> fifo_head r < length mem \<and> fifo_tail r < length mem \<and> length mem < 65536"

abbreviation unread :: "bytes \<Rightarrow> recv \<Rightarrow> bytes" where
  "unread mem r \<equiv> ring_list mem (fifo_head r) (fifo_tail r)"

lemma blit_two:
  assumes "h < length mem" and "t < length mem" and "xs = a @ b" and "length mem \<le> t + length xs"
    and "length a = length mem - t" and "length (ring_list mem h t) + length xs < length mem"
  shows "ring_list (blit (blit mem t a) 0 b) h (length b) = ring_list mem h t @ xs \<and> length b < h"
proof -
  have len: "length b < h" "h \<le> t"
    using assms length_ring_list [OF assms(1,2)] by (auto split: if_splits)
  have "blit (blit mem t a) 0 b = b @ drop (length b) (take t mem) @ a"
    using assms(2,5) len by (simp add: blit_def)
  then show ?thesis using len assms(2,3) by (simp add: ring_list_def drop_take)
qed

lemma ring_list_blit:
  assumes "h < length mem" and "t + length xs < length mem"
    and "length (ring_list mem h t) + length xs < length mem"
  shows "ring_list (blit mem t xs) h (t + length xs) = ring_list mem h t @ xs"
proof (cases "h \<le> t")
  case True
  then show ?thesis using assms by (simp add: ring_list_def blit_def)
next
  case False
  then have "\<not> h \<le> t + length xs" using assms length_ring_list [of h mem t] by simp
  then show ?thesis using False assms by (simp add: ring_list_def blit_def)
qed

lemma recv_len_diff: "n \<le> unat (len :: u16) \<Longrightarrow> (ucast len - of_nat n :: u8) = of_nat (unat len - n)"
  by (simp add: of_nat_diff)

text \<open>Received bytes are appended to the unread ones, in order and followed by a terminator, as long as the ring
  has room for them and, when it wraps, both pieces are shorter than 256 bytes.\<close>

lemma net4g_uart_recv_cb_appends:
  assumes "fifo_valid mem r" and "unat len \<le> length line" and "length (unread mem r) + unat len < length mem"
    and "fifo_tail r + unat len < length mem \<or>
      length mem - fifo_tail r < 256 \<and> fifo_tail r + unat len - length mem < 256"
  shows "\<exists>mem' r'. net4g_uart_recv_cb len line mem r = Some (mem', r', drop (unat len) line) \<and>
    unread mem' r' = unread mem r @ take (unat len) line \<and> mem' ! fifo_tail r' = 0 \<and>
    fifo_valid mem' r' \<and> length mem' = length mem \<and> r' = r\<lparr>fifo_tail := fifo_tail r'\<rparr>"
proof -
  let ?h = "fifo_head r" and ?t = "fifo_tail r" and ?xs = "take (unat len) line"
  have v: "?h < length mem" "?t < length mem" "length mem < 65536" using assms(1) by (simp_all add: fifo_valid_def)
  have xs: "length ?xs = unat len" using assms(2) by simp
  show ?thesis
  proof (cases "?t + unat len < length mem")
    case True
    define m where "m = blit mem ?t ?xs"
    have m: "length m = length mem" "ring_list m ?h (?t + unat len) = unread mem r @ ?xs"
      using ring_list_blit [OF v(1), of ?t ?xs] True assms(3) xs v by (simp_all add: m_def)
    have run: "net4g_uart_recv_cb len line mem r
        = Some (m[?t + unat len := 0], r\<lparr>fifo_tail := ?t + unat len\<rparr>, drop (unat len) line)"
      using True xs m(1) by (simp add: net4g_uart_recv_cb_def uart_read_def Let_def flip: m_def)
    have "unread (m[?t + unat len := 0]) (r\<lparr>fifo_tail := ?t + unat len\<rparr>) = unread mem r @ ?xs"
      using ring_list_update [of ?h m "?t + unat len"] v(1) True m by simp
    then show ?thesis using run v True m(1) by (simp add: fifo_valid_def)
  next
    case False
    then have small: "length mem - ?t < 256" "unat len - (length mem - ?t) < 256" and wrap: "length mem \<le> ?t + unat len"
      and n: "length mem - ?t \<le> unat len" using assms(4) by auto
    define a where "a = take (length mem - ?t) line"
    define b where "b = take (unat len - (length mem - ?t)) (drop (length mem - ?t) line)"
    have ab: "?xs = a @ b" "length a = length mem - ?t" "length b = unat len - (length mem - ?t)"
      using n assms(2) by (simp_all add: a_def b_def take_add [symmetric])
    define m where "m = blit (blit mem ?t a) 0 b"
    have m: "ring_list m ?h (length b) = unread mem r @ ?xs" "length b < ?h"
      using blit_two [OF v(1,2) ab(1) _ ab(2)] wrap assms(3) xs by (simp_all add: m_def)
    have lm: "length (blit mem ?t a) = length mem" "length m = length mem" using ab v m(2) by (simp_all add: m_def)
    have pieces: "unat (of_nat (length mem - ?t) :: u8) = length mem - ?t"
      "unat (ucast len - of_nat (length mem - ?t) :: u8) = length b"
      using small ab(3) recv_len_diff [OF n] by (simp_all add: unat_of_nat_u8)
    have read1: "uart_read ?t (length mem - ?t) mem line = Some (blit mem ?t a, drop (length mem - ?t) line)"
      using ab(2) v by (simp add: uart_read_def Let_def flip: a_def)
    have read2: "uart_read 0 (length b) (blit mem ?t a) (drop (length mem - ?t) line) = Some (m, drop (unat len) line)"
      using ab(3) lm m(2) v n by (simp add: uart_read_def m_def b_def)
    have run: "net4g_uart_recv_cb len line mem r = Some (m[length b := 0], r\<lparr>fifo_tail := length b\<rparr>, drop (unat len) line)"
      using wrap lm m(2) v
      by (simp add: net4g_uart_recv_cb_def Let_def pieces read1 read2 del: of_nat_diff)
    have "unread (m[length b := 0]) (r\<lparr>fifo_tail := length b\<rparr>) = unread mem r @ ?xs"
      using ring_list_update [of ?h m "length b"] v(1) m lm by simp
    then show ?thesis using run v m(2) lm by (simp add: fifo_valid_def)
  qed
qed

text \<open>With 256 bytes left before the end of the array the length of the first piece is taken for 0: nothing is read
  from the line, and 256 stale bytes become unread.\<close>

lemma net4g_uart_recv_cb_loses:
  assumes "fifo_valid mem r" and "length mem - fifo_tail r = 256" and "fifo_head r \<le> fifo_tail r" and "0 < fifo_head r"
  shows "net4g_uart_recv_cb 256 line mem r = Some (mem[0 := 0], r\<lparr>fifo_tail := 0\<rparr>, line) \<and>
    unread (mem[0 := 0]) (r\<lparr>fifo_tail := 0\<rparr>) = unread mem r @ drop (fifo_tail r) mem"
proof -
  have "drop (fifo_head r) mem = drop (fifo_head r) (take (fifo_tail r) mem) @ drop (fifo_tail r) mem"
    using assms(3) by (metis append_take_drop_id diff_is_0_eq drop0 drop_append length_take min.absorb4 le_less fifo_valid_def assms(1))
  moreover have "net4g_uart_recv_cb 256 line mem r = Some (mem[0 := 0], r\<lparr>fifo_tail := 0\<rparr>, line)"
  proof -
    have "length mem \<le> fifo_tail r + 256" "fifo_tail r \<le> length mem" "mem \<noteq> []" using assms(1,2) by (auto simp: fifo_valid_def)
    then show ?thesis by (simp add: net4g_uart_recv_cb_def uart_read_def blit_def Let_def assms(2) del: of_nat_diff)
  qed
  ultimately show ?thesis using assms by (simp add: ring_list_def drop_update_cancel)
qed

section \<open>Searching and cutting\<close>

lemma get_key_linear:
  assumes "h < t" and "t < length mem" and "mem ! t = 0" and "w \<noteq> []" and "0 \<notin> set w" and "length w < 256"
  shows "case find_sub w (ring_list mem h t) of
      Some k \<Rightarrow> get_key_data_index mem h t w idx = Some (True, of_nat (h + k))
    | None \<Rightarrow> \<exists>idx'. get_key_data_index mem h t w idx = Some (False, idx')"
proof -
  have r: "ring_list mem h t = drop h (take t mem)" using assms(1) by (simp add: ring_list_def)
  have n: "unat (of_nat (length w) :: u8) = length w" using assms(6) by (rule unat_of_nat_u8)
  show ?thesis
    using key_scan_linear [OF assms(3,2,5,6,4), of h 0 idx] assms(1)
    by (auto simp: get_key_data_index_def Let_def r n split: option.splits)
qed

text \<open>Calling until the answer is not 0, at most \<open>n\<close> times.\<close>

fun recv_cmd_calls :: "nat \<Rightarrow> bytes \<Rightarrow> bytes \<Rightarrow> bytes \<Rightarrow> recv \<Rightarrow> (recv \<times> nat) option" where
  "recv_cmd_calls 0 hd_key tl_key mem r = Some (r, 0)"
| "recv_cmd_calls (Suc n) hd_key tl_key mem r =
     Option.bind (recv_cmd_from_fifo hd_key tl_key mem r) (\<lambda>(r, ret).
     if ret = 0 then recv_cmd_calls n hd_key tl_key mem r else Some (r, ret))"

definition keyword :: "bytes \<Rightarrow> bool" where
  "keyword w \<longleftrightarrow> w \<noteq> [] \<and> 0 \<notin> set w \<and> length w < 256"

text \<open>In a ring that does not wrap, the hand-written search finds exactly what a substring search finds: the first
  occurrence of the keyword in the unread bytes, when a terminator stands behind them.\<close>

lemma get_key_data_index_linear:
  assumes "h < t" and "t < length mem" and "mem ! t = 0" and "keyword w"
  shows "case find_sub w (ring_list mem h t) of
      Some k \<Rightarrow> get_key_data_index mem h t w idx = Some (True, of_nat (h + k))
    | None \<Rightarrow> \<exists>idx'. get_key_data_index mem h t w idx = Some (False, idx')"
  using assms unfolding keyword_def by (intro get_key_linear) simp_all

text \<open>Four calls cut the first command out of a ring that does not wrap: what \<open>recvCmd\<close> then holds is the
  command from its head keyword through its tail keyword, padded with 0, and exactly the bytes behind it
  remain unread; what stood before the head keyword is dropped.\<close>

lemma recv_cmd_cut:
  assumes "fifo_valid mem r" and "fifo_head r < fifo_tail r" and "mem ! fifo_tail r = 0" and "cmd_get_step r = 0"
    and "keyword hd_key" and "keyword tl_key"
    and "find_sub hd_key (unread mem r) = Some i" and "find_sub tl_key (drop i (unread mem r)) = Some k"
    and "k + length tl_key \<le> length (recvCmd r)"
  shows "\<exists>r'. recv_cmd_calls 4 hd_key tl_key mem r = Some (r', 1) \<and> recvCmdLen r' = k + length tl_key \<and>
    recvCmd r' = take (k + length tl_key) (drop i (unread mem r)) @ replicate (length (recvCmd r) - (k + length tl_key)) 0 \<and>
    unread mem r' = drop (i + k + length tl_key) (unread mem r) \<and> cmd_get_step r' = 0"
proof -
  let ?h = "fifo_head r" and ?t = "fifo_tail r" and ?n = "k + length tl_key"
  have v: "?t < length mem" "length mem < 65536" using assms(1) by (simp_all add: fifo_valid_def)
  have u: "unread mem r = drop ?h (take ?t mem)" using assms(2) by (simp add: ring_list_def)
  have len: "length (unread mem r) = ?t - ?h" using assms(2) v by (simp add: u)
  have "i + length hd_key \<le> ?t - ?h" using find_sub_bound [OF assms(7)] len by simp
  moreover have "k + length tl_key \<le> ?t - ?h - i" using find_sub_bound [OF assms(8)] len by simp
  moreover have pos: "0 < length tl_key" "0 < length hd_key" using assms(5,6) by (simp_all add: keyword_def)
  ultimately have b: "?h + i < ?t" "?h + i + ?n \<le> ?t" "length hd_key \<le> ?t - ?h" using assms(2) by linarith+
  have word: "unat (of_nat x :: u16) = x" if "x \<le> ?t" for x
    using that v by (simp add: unat_of_nat take_bit_nat_eq_self)
  have search1: "get_key_data_index mem ?h ?t hd_key 0 = Some (True, of_nat (?h + i))"
    using get_key_linear [OF assms(2) v(1) assms(3), of hd_key 0] assms(5,7) by (simp add: keyword_def)
  have "ring_list mem (?h + i) ?t = drop i (unread mem r)" using b by (simp add: u ring_list_def add.commute)
  then have search2: "get_key_data_index mem (?h + i) ?t tl_key 0 = Some (True, of_nat (?h + i + k))"
    using get_key_linear [OF b(1) v(1) assms(3), of tl_key 0] assms(6,8) by (simp add: keyword_def)
  have sum: "of_nat (?h + i + k) + of_nat (length tl_key) = (of_nat (?h + i + ?n) :: u16)" by simp
  define r1 where "r1 = r\<lparr>cmdHead_index := 0, cmdTail_index := 0, cmd_get_step := 1\<rparr>"
  define r2 where "r2 = r1\<lparr>cmdHead_index := of_nat (?h + i), fifo_head := ?h + i, cmd_get_step := 2\<rparr>"
  define r3 where "r3 = r2\<lparr>cmdTail_index := of_nat (?h + i + ?n), cmd_get_step := 3\<rparr>"
  define cmd where "cmd = take ?n (drop i (unread mem r)) @ replicate (length (recvCmd r) - ?n) 0"
  define r4 where "r4 = r3\<lparr>recvCmd := cmd, recvCmdLen := ?n, fifo_head := ?h + i + ?n, cmd_get_step := 0\<rparr>"
  have "recv_cmd_from_fifo hd_key tl_key mem r = Some (r1, 0)"
    using assms(2,4) b by (simp add: recv_cmd_from_fifo_def r1_def Let_def)
  moreover have "recv_cmd_from_fifo hd_key tl_key mem r1 = Some (r2, 0)"
    using search1 word b by (simp add: recv_cmd_from_fifo_def r1_def r2_def del: of_nat_add)
  moreover have "recv_cmd_from_fifo hd_key tl_key mem r2 = Some (r3, 0)"
    using search2 by (simp add: recv_cmd_from_fifo_def r1_def r2_def r3_def sum del: of_nat_add)
  moreover have "recv_cmd_from_fifo hd_key tl_key mem r3 = Some (r4, 1)"
  proof -
    have w: "unat (of_nat (?h + i) :: u16) = ?h + i" "unat (of_nat (?h + i + ?n) :: u16) = ?h + i + ?n"
      using word b by (simp_all del: of_nat_add)
    have "drop (?h + i) (take (?h + i + ?n) mem) = take ?n (drop i (unread mem r))"
      using b by (simp add: u drop_take take_drop [symmetric] min_def add.commute)
    then have "copy_out mem (recvCmd r) (of_nat (?h + i)) (of_nat (?h + i + ?n)) = Some (cmd, ?n)"
      using w b v pos assms(9) len by (simp add: copy_out_def Let_def cmd_def blit_def del: of_nat_add)
    then show ?thesis
      using w by (simp add: recv_cmd_from_fifo_def r1_def r2_def r3_def r4_def del: of_nat_add)
  qed
  ultimately have "recv_cmd_calls 4 hd_key tl_key mem r = Some (r4, 1)" by (simp add: eval_nat_numeral)
  moreover have "unread mem r4 = drop (i + ?n) (unread mem r)"
    using b by (simp add: u r1_def r2_def r3_def r4_def ring_list_def add.commute add.left_commute)
  ultimately show ?thesis by (simp add: r1_def r2_def r3_def r4_def cmd_def add.assoc)
qed

text \<open>In a ring that wraps the search is not a substring search.  A keyword that begins at the end of the array may go
  on anywhere in the second part; and a first character near the end that turns out wrong shortens the
  comparison for the rest of the search, so that a keyword in the second part is missed.\<close>

lemma get_key_data_index_gap:
  "get_key_data_index (asc ''......AB'') 6 5 (asc ''ABCD'') 0 = Some (False, 6) \<and>
   get_key_data_index (asc ''xCD...AB'') 6 3 (asc ''ABCD'') 0 = Some (True, 6) \<and>
   find_sub (asc ''ABCD'') (ring_list (asc ''xCD...AB'') 6 3) = None"
  by code_simp

lemma get_key_data_index_missed:
  "get_key_data_index (asc ''ABCD..AX'') 6 5 (asc ''ABCD'') 0 = Some (False, 0) \<and>
   find_sub (asc ''ABCD'') (ring_list (asc ''ABCD..AX'') 6 5) = Some 2"
  by code_simp

section \<open>Concrete runs\<close>

definition empty_recv :: recv where
  "empty_recv = \<lparr>fifo_head = 0, fifo_tail = 0, cmd_get_step = 0, cmdHead_index = 0, cmdTail_index = 0,
     recvCmd = replicate 8 0, recvCmdLen = 0\<rparr>"

theorem net4g_uart_recv_cb_appends_witness:
  "\<exists>mem' r'. net4g_uart_recv_cb 5 (asc ''+A:1;'') (replicate 16 0) empty_recv = Some (mem', r', []) \<and>
    unread mem' r' = asc ''+A:1;''"
  using net4g_uart_recv_cb_appends [of "replicate 16 0" empty_recv 5 "asc ''+A:1;''"]
  by (auto simp: fifo_valid_def empty_recv_def asc_def)

theorem get_key_data_index_linear_witness:
  "get_key_data_index (asc ''x+A:1'' @ [0, 0]) 0 5 (asc ''+A:'') 0 = Some (True, 1)"
proof -
  have "find_sub (asc ''+A:'') (ring_list (asc ''x+A:1'' @ [0, 0]) 0 5) = Some 1" by code_simp
  then show ?thesis
    using get_key_data_index_linear [of 0 5 "asc ''x+A:1'' @ [0, 0]" "asc ''+A:''" 0]
    by (simp add: keyword_def asc_def nth_append)
qed

lemma recv_cmd_cut_witness:
  "\<exists>r'. recv_cmd_calls 4 (asc ''+A:'') (asc '';'') (asc ''x+A:1;y'' @ [0, 0]) (empty_recv\<lparr>fifo_tail := 7\<rparr>) = Some (r', 1) \<and>
    recvCmd r' = asc ''+A:1;'' @ replicate 3 0 \<and> unread (asc ''x+A:1;y'' @ [0, 0]) r' = asc ''y''"
proof -
  have "find_sub (asc ''+A:'') (ring_list (asc ''x+A:1;y'' @ [0, 0]) 0 7) = Some 1"
    "find_sub (asc '';'') (drop 1 (ring_list (asc ''x+A:1;y'' @ [0, 0]) 0 7)) = Some 4" by code_simp+
  then show ?thesis
    using recv_cmd_cut [of "asc ''x+A:1;y'' @ [0, 0]" "empty_recv\<lparr>fifo_tail := 7\<rparr>" "asc ''+A:''" "asc '';''" 1 4]
    by (auto simp: keyword_def empty_recv_def fifo_valid_def asc_def ring_list_def)
qed

end
