(* ===== verification/PubQueue.thy ===== *)
theory PubQueue
  imports Ring AtDevice
begin

text \<open>
  Publishing in \<^verbatim>\<open>src/ql_application/App_XD/netlink/app_net4g.c\<close>: the ring of messages
  (\<open>save_pub_msg_to_queue\<close>, \<open>reset_pub_msg_queue\<close>, \<open>get_pub_msg_flag\<close>) and \<open>net4g_send_data_process\<close>, which
  takes the message at the head through the module's publish dialogue, one step per call.  The static
  variables of the process are members of the state.
\<close>

section \<open>Model\<close>

record pub_slot =
  cmdData :: bytes
  cmdLen :: u16
  topic :: bytes

record send =
  queue :: "pub_slot list"
  qHead :: nat
  qTail :: nat
  sendCmd :: bytes
  process_work_step :: nat
  wait_time_count :: u16
  data_send_fail_times :: u8
  data_send_wait_rsp1_fail_times :: u8
  report_monitor_times :: nat

text \<open>The flags by which the process and the receiver talk to each other.\<close>

record pub_flags =
  check_pubMiddleFlag :: bool
  pubMiddleFlag :: bool
  check_pubAckFlag :: bool
  pubAckFlag :: bool

subsection \<open>The queue\<close>

definition save_slot :: "bytes \<Rightarrow> bytes \<Rightarrow> u16 \<Rightarrow> pub_slot \<Rightarrow> pub_slot option" where
  "save_slot topic1 pb_data pb_len q =
     (if length (cmdData q) < unat pb_len \<or> length pb_data < unat pb_len \<or> length (topic q) \<le> length topic1 then None
      else Some (q\<lparr>cmdData := take (unat pb_len) pb_data @ replicate (length (cmdData q) - unat pb_len) 0,
                   cmdLen := pb_len, topic := blit (topic q) 0 (topic1 @ [0])\<rparr>))"

definition save_pub_msg_to_queue :: "bytes \<Rightarrow> bytes \<Rightarrow> u16 \<Rightarrow> send \<Rightarrow> send option" where
  "save_pub_msg_to_queue topic1 pb_data pb_len s =
     Option.bind (fetch (queue s) (qTail s)) (\<lambda>q.
     map_option (\<lambda>q. s\<lparr>queue := (queue s)[qTail s := q], qTail := Suc (qTail s) mod length (queue s)\<rparr>)
       (save_slot topic1 pb_data pb_len q))"

definition reset_pub_msg_queue :: "send \<Rightarrow> send" where
  "reset_pub_msg_queue s = s\<lparr>qHead := Suc (qHead s) mod length (queue s)\<rparr>"

definition get_pub_msg_flag :: "send \<Rightarrow> bool" where
  "get_pub_msg_flag s \<longleftrightarrow> qTail s \<noteq> qHead s"

subsection \<open>The publish dialogue\<close>

definition NET_CMD_MQTT_PUB_MSG :: "module_type \<Rightarrow> bytes" where
  "NET_CMD_MQTT_PUB_MSG m =
     (if lierda m then asc ''AT+LMQTTPUB=0,1,1,0,'' else asc ''AT+QMTPUBEX=0,1,1,0,'') @
     [0x22] @ asc ''device/%s/%s/%s'' @ [0x22] @ asc '',%d'' @ crlf"

text \<open>\<open>init\<close>: the network process is at NETWORK_WORK_STEP__INIT.  The answer: 0 go on, 1 done with the message, 2 reconnect.\<close>

type_synonym send_state = "send \<times> pub_flags \<times> device"

definition send_pub_cmd :: "module_type \<Rightarrow> bytes \<Rightarrow> send_state \<Rightarrow> send_state option" where
  "send_pub_cmd m pucProductkey = (\<lambda>(s, f, d).
     Option.bind (fetch (queue s) (qHead s)) (\<lambda>q.
     Option.bind (c_string (DeviceKey d) 0) (\<lambda>key.
     Option.bind (c_string (topic q) 0) (\<lambda>tpc.
     let cmd = snprintf (length (sendCmd s)) (NET_CMD_MQTT_PUB_MSG m) [Str pucProductkey, Str key, Str tpc, Num (unat (cmdLen q))]
     in Some (s\<lparr>sendCmd := cmd @ replicate (length (sendCmd s) - length cmd) 0, process_work_step := 1, wait_time_count := 0\<rparr>,
              f\<lparr>check_pubMiddleFlag := True, pubMiddleFlag := False\<rparr>, network_uart_send cmd d)))))"

definition wait_prompt :: "bool \<Rightarrow> send_state \<Rightarrow> send_state \<times> nat" where
  "wait_prompt init = (\<lambda>(s, f, d).
     if pubMiddleFlag f
     then ((s\<lparr>process_work_step := 2\<rparr>, f\<lparr>check_pubMiddleFlag := False, pubMiddleFlag := False\<rparr>, d), 0)
     else let s = s\<lparr>wait_time_count := wait_time_count s + 1\<rparr>; wait_time_num = (if init then 10 else 100) in
       if wait_time_count s < wait_time_num then ((s, f, app_delay_ms 50 d), 0)
       else let f = f\<lparr>check_pubMiddleFlag := False, pubMiddleFlag := False\<rparr>;
                n = data_send_wait_rsp1_fail_times s + 1;
                s = s\<lparr>process_work_step := 0, data_send_wait_rsp1_fail_times := n\<rparr>
            in if init
               then (if 1 \<le> n then ((s\<lparr>data_send_wait_rsp1_fail_times := 0\<rparr>, f, d), 2) else ((s, f, d), 0))
               else if 4 \<le> n then ((s\<lparr>data_send_wait_rsp1_fail_times := 0\<rparr>, f, d), 2) else ((s, f, d), 1))"

definition send_pub_data :: "send_state \<Rightarrow> send_state option" where
  "send_pub_data = (\<lambda>(s, f, d).
     Option.bind (fetch (queue s) (qHead s)) (\<lambda>q.
     if length (cmdData q) < unat (cmdLen q) then None
     else Some (s\<lparr>report_monitor_times := 0, wait_time_count := 0, process_work_step := 3\<rparr>,
                f\<lparr>check_pubAckFlag := True, pubAckFlag := False\<rparr>,
                network_uart_send (take (unat (cmdLen q)) (cmdData q)) d)))"

definition wait_ack :: "send_state \<Rightarrow> send_state \<times> nat" where
  "wait_ack = (\<lambda>(s, f, d).
     let s = s\<lparr>wait_time_count := wait_time_count s + 1\<rparr> in
     if wait_time_count s mod 100 \<noteq> 0 then ((s, f, d), 0)
     else if pubAckFlag f
     then ((s\<lparr>process_work_step := 0, data_send_fail_times := 0, report_monitor_times := 0\<rparr>,
            f\<lparr>check_pubAckFlag := False, pubAckFlag := False\<rparr>, d), 1)
     else if wait_time_count s < 1500 then ((s, f, app_delay_ms 50 d), 0)
     else let n = data_send_fail_times s + 1 in
          ((s\<lparr>wait_time_count := 0, process_work_step := 0, data_send_fail_times := (if 4 \<le> n then 0 else n)\<rparr>,
            f\<lparr>check_pubAckFlag := False, pubAckFlag := False\<rparr>, d), 1))"

definition net4g_send_data_process :: "module_type \<Rightarrow> bytes \<Rightarrow> bool \<Rightarrow> send_state \<Rightarrow> (send_state \<times> nat) option" where
  "net4g_send_data_process m pucProductkey init s =
     (if process_work_step (fst s) = 0 then map_option (\<lambda>s. (s, 0)) (send_pub_cmd m pucProductkey s)
      else if process_work_step (fst s) = 1 then Some (wait_prompt init s)
      else if process_work_step (fst s) = 2 then map_option (\<lambda>s. (s, 0)) (send_pub_data s)
      else if process_work_step (fst s) = 3 then Some (wait_ack s)
      else Some (s, 0))"

section \<open>The queue keeps messages in order\<close>

definition slot_message :: "pub_slot \<Rightarrow> bytes option \<times> bytes" where
  "slot_message q = (c_string (topic q) 0, take (unat (cmdLen q)) (cmdData q))"

definition messages :: "send \<Rightarrow> (bytes option \<times> bytes) list" where
  "messages s = map slot_message (ring_list (queue s) (qHead s) (qTail s))"

definition queue_valid :: "send \<Rightarrow> bool" where
  "queue_valid s \<longleftrightarrow> qHead s < length (queue s) \<and> qTail s < length (queue s)"

definition queue_room :: "send \<Rightarrow> nat" where
  "queue_room s = length (queue s) - 1 - length (messages s)"

text \<open>A message that every slot can take; storing it.\<close>

definition message_fits :: "bytes option \<times> bytes \<Rightarrow> send \<Rightarrow> bool" where
  "message_fits msg s \<longleftrightarrow> (case msg of (None, _) \<Rightarrow> False
     | (Some t, b) \<Rightarrow> 0 \<notin> set t \<and> length b < 65536 \<and>
         list_all (\<lambda>q. length t < length (topic q) \<and> length b \<le> length (cmdData q)) (queue s))"

definition save_message :: "bytes option \<times> bytes \<Rightarrow> send \<Rightarrow> send" where
  "save_message msg s =
     (case save_pub_msg_to_queue (the (fst msg)) (snd msg) (of_nat (length (snd msg))) s of Some s' \<Rightarrow> s' | None \<Rightarrow> s)"

lemma save_fits:
  assumes "queue_valid s" and "message_fits (Some t, b) s"
  obtains q where "save_pub_msg_to_queue t b (of_nat (length b)) s
      = Some (s\<lparr>queue := (queue s)[qTail s := q], qTail := Suc (qTail s) mod length (queue s)\<rparr>)"
    and "slot_message q = (Some t, b)"
    and "length (topic q) = length (topic (queue s ! qTail s))" "length (cmdData q) = length (cmdData (queue s ! qTail s))"
proof -
  let ?q = "queue s ! qTail s"
  have v: "qTail s < length (queue s)" using assms(1) by (simp add: queue_valid_def)
  then have f: "0 \<notin> set t" "length t < length (topic ?q)" "length b \<le> length (cmdData ?q)"
    and n: "unat (of_nat (length b) :: u16) = length b"
    using assms(2) by (auto simp: message_fits_def list_all_iff unat_of_nat take_bit_nat_eq_self)
  obtain q where q: "save_slot t b (of_nat (length b)) ?q = Some q" and m: "slot_message q = (Some t, b)"
    and l: "length (topic q) = length (topic ?q)" "length (cmdData q) = length (cmdData ?q)"
    using f n c_string_append [of "[]" 0 t "drop (Suc (length t)) (topic ?q)"]
    by (simp add: save_slot_def slot_message_def blit_def)
  show thesis using that [OF _ m l] q v by (simp add: save_pub_msg_to_queue_def)
qed

lemma length_messages: "length (messages s) = length (ring_list (queue s) (qHead s) (qTail s))"
  by (simp add: messages_def)

lemma queue_room_pos: "0 < queue_room s \<Longrightarrow> Suc (length (ring_list (queue s) (qHead s) (qTail s))) < length (queue s)"
  by (simp add: queue_room_def length_messages)

lemma message_cases:
  assumes "message_fits msg s"
  obtains t b where "msg = (Some t, b)"
  using assms by (cases msg; cases "fst msg") (auto simp: message_fits_def)

lemma save_messages:
  assumes "queue_valid s" and "message_fits msg s" and "0 < queue_room s"
  shows "messages (save_message msg s) = messages s @ [msg]"
proof -
  obtain t b where msg: "msg = (Some t, b)" using assms(2) by (rule message_cases)
  show ?thesis
    using assms(1) assms(2) [unfolded msg]
  proof (rule save_fits)
    fix q
    assume "save_pub_msg_to_queue t b (of_nat (length b)) s
        = Some (s\<lparr>queue := (queue s)[qTail s := q], qTail := Suc (qTail s) mod length (queue s)\<rparr>)"
      and "slot_message q = (Some t, b)"
    then show ?thesis
      using ring_list_put [OF _ _ queue_room_pos [OF assms(3)], of q] assms(1)
      by (simp add: messages_def save_message_def msg queue_valid_def)
  qed
qed

lemma save_keeps:
  assumes "queue_valid s" and "message_fits msg s"
  shows "queue_valid (save_message msg s)" and "length (queue (save_message msg s)) = length (queue s)"
    and "message_fits n (save_message msg s) = message_fits n s"
proof -
  obtain t b where msg: "msg = (Some t, b)" using assms(2) by (rule message_cases)
  obtain q where "save_message msg s = s\<lparr>queue := (queue s)[qTail s := q], qTail := Suc (qTail s) mod length (queue s)\<rparr>"
    and l: "length (topic q) = length (topic (queue s ! qTail s))" "length (cmdData q) = length (cmdData (queue s ! qTail s))"
    using save_fits [OF assms(1) assms(2) [unfolded msg]] by (metis msg fst_conv snd_conv option.sel option.simps(5) save_message_def)
  moreover have v: "qTail s < length (queue s)" "0 < length (queue s)" using assms(1) by (auto simp: queue_valid_def)
  moreover have "list_all P ((queue s)[qTail s := q]) = list_all P (queue s)" if "P q = P (queue s ! qTail s)" for P
    using v that by (auto simp: list_all_length nth_list_update)
  ultimately show "queue_valid (save_message msg s)" and "length (queue (save_message msg s)) = length (queue s)"
    and "message_fits n (save_message msg s) = message_fits n s"
    using assms(1) by (auto simp: queue_valid_def message_fits_def split: option.splits)
qed

interpretation pub: fifo_queue messages save_message reset_pub_msg_queue get_pub_msg_flag queue_valid queue_room message_fits
proof
  fix s and msg n :: "bytes option \<times> bytes"
  show "messages (save_message msg s) = messages s @ [msg]" if "queue_valid s" and "0 < queue_room s" and "message_fits msg s"
    using that by (intro save_messages)
  show "queue_valid (save_message msg s)" if "queue_valid s" and "message_fits msg s"
    using that by (rule save_keeps)
  show "message_fits n (save_message msg s) = message_fits n s" if "queue_valid s" and "message_fits msg s"
    using that by (rule save_keeps)
  show "queue_room (save_message msg s) = queue_room s - 1" if "queue_valid s" and "0 < queue_room s" and "message_fits msg s"
    using that save_messages save_keeps(2) by (simp add: queue_room_def)
  show "messages (reset_pub_msg_queue s) = tl (messages s)" if "queue_valid s" and "get_pub_msg_flag s"
    using that ring_list_get [of "qHead s" "queue s" "qTail s"]
    by (simp add: messages_def reset_pub_msg_queue_def get_pub_msg_flag_def queue_valid_def)
  show "queue_valid (reset_pub_msg_queue s)" if "queue_valid s"
    using that by (auto simp: queue_valid_def reset_pub_msg_queue_def intro: mod_less_divisor)
  show "get_pub_msg_flag s = (messages s \<noteq> [])" if "queue_valid s"
    using that length_ring_list [of "qHead s" "queue s" "qTail s"]
    by (auto simp: get_pub_msg_flag_def queue_valid_def length_messages simp flip: length_0_conv split: if_splits)
qed

text \<open>C31. Messages are published in the order in which they were saved: after as many as there is room for were saved
  into an empty queue, and \<open>n\<close> were taken out, the rest is left in order.\<close>

theorem pub_queue_in_order:
  assumes "queue_valid s" and "\<not> get_pub_msg_flag s" and "length ms \<le> length (queue s) - 1"
    and "list_all (\<lambda>msg. message_fits msg s) ms" and "n \<le> length ms"
  shows "messages ((reset_pub_msg_queue ^^ n) (foldl (\<lambda>s msg. save_message msg s) s ms)) = drop n ms"
proof -
  have "messages s = []" using assms(1,2) pub.nonempty_content by blast
  then show ?thesis using pub.in_order [OF assms(1) _ _ assms(4,5)] assms(3) by (simp add: queue_room_def)
qed

text \<open>One message more empties the queue: the tail catches up with the head, and none of the saved messages is
  seen any more.\<close>

lemma pub_queue_overflow:
  assumes "queue_valid s" and "queue_room s = 0" and "message_fits msg s"
  shows "messages (save_message msg s) = [] \<and> \<not> get_pub_msg_flag (save_message msg s)"
proof -
  obtain t b where msg: "msg = (Some t, b)" using assms(3) by (rule message_cases)
  have "length (queue s) \<le> Suc (length (ring_list (queue s) (qHead s) (qTail s)))"
    using assms(2) by (simp add: queue_room_def length_messages)
  then have full: "qHead s = Suc (qTail s) mod length (queue s)"
    using assms(1) length_ring_list [of "qHead s" "queue s" "qTail s"]
    by (cases "Suc (qTail s) = length (queue s)") (auto simp: queue_valid_def split: if_splits)
  obtain q where "save_message msg s = s\<lparr>queue := (queue s)[qTail s := q], qTail := Suc (qTail s) mod length (queue s)\<rparr>"
    using save_fits [OF assms(1) assms(3) [unfolded msg]] by (metis msg fst_conv snd_conv option.sel option.simps(5) save_message_def)
  then show ?thesis using full by (simp add: messages_def get_pub_msg_flag_def)
qed

text \<open>A queue of three empty slots, for concrete runs.\<close>

definition sample_send :: send where
  "sample_send = \<lparr>queue = replicate 3 \<lparr>cmdData = replicate 8 0, cmdLen = 0, topic = replicate 8 0\<rparr>, qHead = 0, qTail = 0,
     sendCmd = replicate 64 0, process_work_step = 0, wait_time_count = 0, data_send_fail_times = 0,
     data_send_wait_rsp1_fail_times = 0, report_monitor_times = 0\<rparr>"

lemma sample_send_valid: "queue_valid sample_send" "\<not> get_pub_msg_flag sample_send"
  "length (queue sample_send) = 3" "length t < 8 \<Longrightarrow> 0 \<notin> set t \<Longrightarrow> length b \<le> 8 \<Longrightarrow> message_fits (Some t, b) sample_send"
  by (simp_all add: sample_send_def queue_valid_def get_pub_msg_flag_def message_fits_def list_all_iff)

theorem pub_queue_in_order_witness:
  "messages (reset_pub_msg_queue (save_message (Some (asc ''b''), [2]) (save_message (Some (asc ''a''), [1]) sample_send)))
    = [(Some (asc ''b''), [2])]"
  using pub_queue_in_order [of sample_send "[(Some (asc ''a''), [1]), (Some (asc ''b''), [2])]" 1] sample_send_valid
  by (simp add: asc_def)

theorem pub_queue_overflow_witness:
  "messages (save_message (Some (asc ''c''), [3])
     (save_message (Some (asc ''b''), [2]) (save_message (Some (asc ''a''), [1]) sample_send))) = []"
proof -
  let ?ms = "[(Some (asc ''a''), [1]), (Some (asc ''b''), [2])]"
  let ?s = "foldl (\<lambda>s msg. save_message msg s) sample_send ?ms"
  have empty: "messages sample_send = []" using sample_send_valid pub.nonempty_content by blast
  have fits: "message_fits (Some (asc ''a''), [1]) sample_send" "message_fits (Some (asc ''b''), [2]) sample_send"
    "message_fits (Some (asc ''c''), [3]) sample_send"
    using sample_send_valid(4) by (simp_all add: asc_def)
  have s: "messages ?s = ?ms" "queue_valid ?s"
    using pub.put_all [OF sample_send_valid(1), of ?ms] empty fits by (simp_all add: queue_room_def sample_send_valid)
  have "length (queue ?s) = 3" "message_fits (Some (asc ''c''), [3]) ?s"
    using fits sample_send_valid(1,3) save_keeps by simp_all
  then show ?thesis using pub_queue_overflow [of ?s "(Some (asc ''c''), [3])"] s by (simp add: queue_room_def)
qed

end
