(* ===== verification/RecvCmd.thy ===== *)
theory RecvCmd
  imports RecvFifo PubQueue AtConnect
begin

text \<open>
  What \<^verbatim>\<open>src/ql_application/App_XD/netlink/app_net4g.c\<close> does with the bytes received while the device is
  connected: \<open>get_net4G_recv_cmd\<close>, called in every round, looks for the prompt or the acknowledgement the
  publish dialogue waits for, or else queues the next message of the cloud, or recognises a lost connection
  and the reports of the module; \<open>get_at_rsp_keywords_pb\<close> takes topic and payload out of a queued message.
\<close>

section \<open>Model\<close>

record cmd_slot =
  qData :: bytes
  qLen :: nat

record cmd_queue =
  cmdQ :: "cmd_slot list"
  rHead :: nat
  rTail :: nat

text \<open>
  The state of the connection.  The receive ring's array is the member \<open>fifo_data\<close> of the device.  \<open>events\<close> are
  the calls of other modules that only start something there; \<open>NODE_EVENT h e\<close> is
  \<open>Wt_NodeEvent_Ff((h << 8) | e)\<close>.
\<close>

datatype node_event =
    NODE_SINGLE_SLOT_UP_EVT | NODE_LEND_CHECK_EVT | NODE_LEND_OPEN_EVT | NODE_FORCE_OPEN_EVT
  | NODE_RAD_NFC_ENCIPHERED_DATA_EVT | NODE_RAD_NFC_PLAINTEXT_DATA_EVT | NODE_SINGLE_CUBBY_UP_EVT | NODE_ALL_SLOT_UP_EVT
  | NODE_BT_CMD_BTMUSIC_ADV_SWITCH | NODE_BT_CMD_SET_BTPIN_CODE | NODE_BT_CMD_CLEAN_CONNECT_INFO
  | NODE_CLIENT_ID_LIST_SET_EVT | NODE_BAT_CHARGE_CTRL_EVT | NODE_SLAVE_NO_SET_EVT | NODE_BAT_POWER_CHECK_EVT
  | NODE_DEVICE_INFO_EVT | NODE_SLAVE_LED_CTRL_EVT

datatype event =
    NODE_EVENT int node_event | PLAY_TONE nat nat | BLE_ENABLE bool | LOGIN_FLASH_WRITE | DEVICE_REBOOT
  | DEVICE_POWEROFF | DEVICE_REBOOT_TEST | OTA_DEVICE_REBOOT | POWER_CTRL bool | UART_CB bool | QR_CODE_LED nat
  | WIFI_MQTT_DISCONNECT | WIFI_CONNECT_STATUS nat | WIFI_COMMUNICATE_STEP nat

record comm =
  net :: net4g
  rx :: recv
  flags :: pub_flags
  cmds :: cmd_queue
  tx :: send
  events :: "event list"

text \<open>The keywords of \<^verbatim>\<open>app_net4g.h\<close>.\<close>

definition NET_MQTT_CTRL_CMD_HEAD :: "module_type \<Rightarrow> bytes" where
  "NET_MQTT_CTRL_CMD_HEAD m = (if lierda m then asc ''+LMQTTURC:'' else asc ''+QMTRECV:'')"

definition NET_MQTT_DISCONNECT_CMD_HEAD :: "module_type \<Rightarrow> bytes" where
  "NET_MQTT_DISCONNECT_CMD_HEAD m = (if lierda m then asc ''+LMQTTURC: STATS'' else asc ''+QMTSTAT: 0,1'')"

definition NET_MQTT_PUB_MIDDLE_HEAD :: bytes where
  "NET_MQTT_PUB_MIDDLE_HEAD = crlf @ asc ''> ''"

definition NET_MQTT_PUB_RSP_HEAD :: "module_type \<Rightarrow> bytes" where
  "NET_MQTT_PUB_RSP_HEAD m = (if lierda m then asc ''+LMQTTPUB:'' else asc ''+QMTPUBEX:'')"

subsection \<open>Topic and payload of a message\<close>

text \<open>
  \<open>strtok\<close> on memory: the separator behind the field is overwritten; the result is the memory, the field's start
  and length, and where the next call goes on.  \<open>Some None\<close> is the null pointer.
\<close>

definition strtok_at :: "bytes \<Rightarrow> nat \<Rightarrow> (bytes \<times> nat \<times> nat \<times> nat) option option" where
  "strtok_at mem off =
     (let i = off + length (takeWhile (\<lambda>c. c = 0x2C) (drop off mem)) in
      Option.bind (c_string mem i) (\<lambda>s.
      let n = length (takeWhile (\<lambda>c. c \<noteq> 0x2C) s) in
      Some (if s = [] then None
            else if n < length s then Some (mem[i + n := 0], i, n, i + n + 1) else Some (mem, i, n, i + n))))"

text \<open>
  The fields found: topic, length as text, payload.  The destinations have 100, 4 and 200 bytes; the length is
  copied without terminator into an array of zeros.
\<close>

definition pb_fields :: "bytes \<Rightarrow> nat \<Rightarrow> nat \<Rightarrow> nat \<Rightarrow> (bytes \<times> nat \<times> (bytes \<times> bytes \<times> bytes)) option" where
  "pb_fields mem start n nxt =
     Option.bind (keyword_of (take n (drop start mem))) (\<lambda>w.
     if 100 \<le> length w then None else
     Option.bind (strtok_at mem nxt) (\<lambda>t.
     case t of None \<Rightarrow> None
     | Some (mem, start, n, nxt) \<Rightarrow>
         let destData2_offset = of_nat n :: u8; n = unat destData2_offset in
         if 4 < n then None else
         let len_text = take n (drop start mem) @ replicate (4 - n) 0 in
         Option.bind (c_string len_text 0) (\<lambda>lt.
         let pbdata_len = unat (word_of_int (atoi lt) :: u16); off = unat (destData2_offset + 1) in
         Option.bind (fetch mem (start + off)) (\<lambda>c.
         let from = start + off + (if c = 0x22 then 1 else 0) in
         if 200 \<le> pbdata_len \<or> length mem < from + pbdata_len then None
         else Some (mem, nxt, (w, lt, take pbdata_len (drop from mem)))))))"

text \<open>At most one round per byte of the message.\<close>

fun pb_keywords_loop :: "nat \<Rightarrow> u8 \<Rightarrow> u8 \<Rightarrow> bytes \<Rightarrow> nat \<Rightarrow> (bytes \<times> bytes \<times> bytes) option \<Rightarrow>
    (bytes \<times> (bytes \<times> bytes \<times> bytes) option) option" where
  "pb_keywords_loop 0 count keyNum mem off found = None"
| "pb_keywords_loop (Suc fuel) count keyNum mem off found =
     Option.bind (strtok_at mem off) (\<lambda>t.
     case t of None \<Rightarrow> Some (mem, found)
     | Some (mem, start, n, nxt) \<Rightarrow>
         if count + 1 = keyNum
         then Option.bind (pb_fields mem start n nxt) (\<lambda>(mem, nxt, found).
              pb_keywords_loop fuel (count + 1) keyNum mem nxt (Some found))
         else pb_keywords_loop fuel (count + 1) keyNum mem nxt found)"

definition get_at_rsp_keywords_pb :: "bytes \<Rightarrow> bytes \<Rightarrow> u8 \<Rightarrow> (bytes \<times> (bytes \<times> bytes \<times> bytes) option) option" where
  "get_at_rsp_keywords_pb srcData srcHeader keyNum =
     pb_keywords_loop (Suc (length srcData)) 0 keyNum srcData (length srcHeader) None"

subsection \<open>The clients of a device\<close>

text \<open>\<open>get_clientIdList_keywords_pb\<close>: the first \<open>keyNum\<close> numbers of a list; a list that is too short faults.\<close>

fun clientId_loop :: "nat \<Rightarrow> bytes \<Rightarrow> nat \<Rightarrow> int list option" where
  "clientId_loop 0 mem off = Some []"
| "clientId_loop (Suc k) mem off =
     Option.bind (strtok_at mem off) (\<lambda>t.
     case t of None \<Rightarrow> None
     | Some (mem, start, n, nxt) \<Rightarrow> map_option ((#) (atoi (take n (drop start mem)))) (clientId_loop k mem nxt))"

definition get_clientIdList_keywords_pb :: "bytes \<Rightarrow> u8 \<Rightarrow> int list \<Rightarrow> (int list \<times> bool) option" where
  "get_clientIdList_keywords_pb srcData keyNum clientIdListBuf =
     (if keyNum = 0 then Some (clientIdListBuf, False)
      else Option.bind (clientId_loop (unat keyNum) srcData 0) (\<lambda>ids.
           if length clientIdListBuf < length ids then None
           else Some (ids @ drop (length ids) clientIdListBuf, True)))"

subsection \<open>One round of the receiver\<close>

text \<open>Without a message: a lost connection or a restarted module (answer 10), and the reports of the module.\<close>

definition has_text :: "bytes \<Rightarrow> nat \<Rightarrow> bytes \<Rightarrow> bool option" where
  "has_text mem off t = map_option (\<lambda>found. found \<noteq> None) (strstr mem off t)"

definition recv_find :: "bytes \<Rightarrow> comm \<Rightarrow> bool option" where
  "recv_find key c = map_option fst (get_key_data_index (fifo_data (dev (net c))) (fifo_head (rx c)) (fifo_tail (rx c)) key 0)"

definition upd_dev :: "(device \<Rightarrow> device) \<Rightarrow> comm \<Rightarrow> comm" where
  "upd_dev f c = c\<lparr>net := (net c)\<lparr>dev := f (dev (net c))\<rparr>\<rparr>"

definition recv_len :: "comm \<Rightarrow> u32" where
  "recv_len c = ucast (of_nat (if fifo_head (rx c) \<le> fifo_tail (rx c) then fifo_tail (rx c) - fifo_head (rx c)
     else length (fifo_data (dev (net c))) - fifo_head (rx c) + fifo_tail (rx c)) :: u16)"

text \<open>A report of the module that starts with \<open>key\<close>: \<open>act\<close> runs on the unread bytes if the search finds it too.\<close>

definition on_report :: "bytes \<Rightarrow> (bytes \<Rightarrow> comm \<Rightarrow> comm option) \<Rightarrow> comm \<times> nat \<Rightarrow> (comm \<times> nat) option" where
  "on_report key act = (\<lambda>(c, ret).
     Option.bind (has_text (fifo_data (dev (net c))) (fifo_head (rx c)) key) (\<lambda>there.
     if \<not> there then Some (c, ret)
     else let c = upd_dev (app_delay_ms 50) c in
       Option.bind (recv_find key c) (\<lambda>found.
       if found then map_option (\<lambda>c. (c, 1)) (act (drop (fifo_head (rx c)) (fifo_data (dev (net c)))) c)
       else Some (c, 0))))"

text \<open>\<open>InfoGsmDataPubTopic\<close>, which is not in the sources, may queue messages to publish.\<close>

type_synonym gsm_report = "device \<Rightarrow> send \<Rightarrow> send"

definition gsm_data :: "gsm_report \<Rightarrow> comm \<Rightarrow> comm" where
  "gsm_data report c = c\<lparr>tx := report (dev (net c)) (tx c)\<rparr>"

definition callback_report :: "at_handler \<Rightarrow> bytes \<Rightarrow> comm \<Rightarrow> comm option" where
  "callback_report cb mem c =
     map_option (\<lambda>(d, r). upd_dev (\<lambda>_. d) c) (cb AT_OK mem (recv_len c) (dev (net c)))"

definition rssi_report :: "bytes \<Rightarrow> comm \<Rightarrow> comm option" where
  "rssi_report mem c =
     map_option (\<lambda>v. let rssiValue = (case v of None \<Rightarrow> 0 | Some t \<Rightarrow> word_of_int (atoi t)) :: u8 in
         upd_dev (\<lambda>d. d\<lparr>signal := (if rssiValue \<noteq> 0 then unat rssiValue * 100 div 31 else signal d), RSSI := rssiValue\<rparr>) c)
       (rsp_string mem (recv_len c) (Some (asc ''+CSQ:'')) NET_CMD_RSP_TAIL_OK 200)"

definition module_reports :: "gsm_report \<Rightarrow> module_type \<Rightarrow> comm \<times> nat \<Rightarrow> (comm \<times> nat) option" where
  "module_reports report m cr =
     (if lierda m
      then Option.bind (on_report (asc ''+LCELL:'') (callback_report (net4g_get_net_qcell_cb m)) cr)
             (on_report (asc ''+CSQ:'') (\<lambda>mem c. map_option (gsm_data report) (rssi_report mem c)))
      else Option.bind (on_report (asc ''+CSQ:'') rssi_report cr)
             (on_report (asc ''+QENG:'') (\<lambda>mem c. map_option (gsm_data report)
                (callback_report (net4g_get_net_qeng_serving_cell_cb m) mem c))))"

text \<open>The module says that it lost the connection, or the texts of its start-up are found.\<close>

definition lost_connection :: "module_type \<Rightarrow> comm \<Rightarrow> (comm \<times> nat) option" where
  "lost_connection m c =
     Option.bind (recv_find (NET_MQTT_DISCONNECT_CMD_HEAD m) c) (\<lambda>found.
     if found then Some (c, 10)
     else let mem = fifo_data (dev (net c)) in
       Option.bind (has_text mem 0 (asc ''boot.rom'')) (\<lambda>boot.
       Option.bind (if boot then Some True else has_text mem 0 (asc ''Lierda'')) (\<lambda>boot.
       if boot then Some (upd_dev clear_fifo (c\<lparr>rx := (rx c)\<lparr>fifo_head := 0, fifo_tail := 0\<rparr>\<rparr>), 10)
       else if lierda m then Some (c, 0)
       else Option.bind (has_text mem (fifo_head (rx c)) (asc ''+QIURC:'')) (\<lambda>there.
            if \<not> there then Some (c, 0)
            else let c = upd_dev (app_delay_ms 50) c in
                 map_option (\<lambda>found. (c, if found then 10 else 0)) (recv_find (NET_MQTT_DISCONNECT_CMD_HEAD m) c)))))"

text \<open>The queue of messages: \<open>enqueue_cmd\<close> is what the receiver does, \<open>next_cmd\<close> what the reader does.\<close>

definition enqueue_cmd :: "bytes \<Rightarrow> cmd_queue \<Rightarrow> cmd_queue option" where
  "enqueue_cmd cmd q =
     Option.bind (fetch (cmdQ q) (rTail q)) (\<lambda>slot.
     if length (qData slot) < length cmd then None
     else Some (q\<lparr>cmdQ := (cmdQ q)[rTail q :=
                    \<lparr>qData = cmd @ replicate (length (qData slot) - length cmd) 0, qLen = length cmd\<rparr>],
                  rTail := Suc (rTail q) mod length (cmdQ q)\<rparr>))"

definition next_cmd :: "cmd_queue \<Rightarrow> cmd_queue" where
  "next_cmd q = q\<lparr>rHead := Suc (rHead q) mod length (cmdQ q)\<rparr>"

definition queue_cmd :: "comm \<Rightarrow> comm option" where
  "queue_cmd c =
     (if length (recvCmd (rx c)) < recvCmdLen (rx c) then None
      else map_option (\<lambda>q. c\<lparr>cmds := q\<rparr>) (enqueue_cmd (take (recvCmdLen (rx c)) (recvCmd (rx c))) (cmds c)))"

definition get_net4G_recv_cmd :: "gsm_report \<Rightarrow> module_type \<Rightarrow> comm \<Rightarrow> (comm \<times> nat) option" where
  "get_net4G_recv_cmd report m c =
     (if check_pubMiddleFlag (flags c)
      then map_option (\<lambda>found. if found then (c\<lparr>flags := (flags c)\<lparr>check_pubMiddleFlag := False, pubMiddleFlag := True\<rparr>\<rparr>, 1)
                               else (c, 0))
             (recv_find NET_MQTT_PUB_MIDDLE_HEAD c)
      else if check_pubAckFlag (flags c)
      then map_option (\<lambda>found. if found then (c\<lparr>flags := (flags c)\<lparr>check_pubAckFlag := False, pubAckFlag := True\<rparr>\<rparr>, 1)
                               else (c, 0))
             (recv_find (NET_MQTT_PUB_RSP_HEAD m) c)
      else Option.bind (recv_cmd_from_fifo (NET_MQTT_CTRL_CMD_HEAD m) crlf (fifo_data (dev (net c))) (rx c)) (\<lambda>(r, ret).
           let c = c\<lparr>rx := r\<rparr> in
           if ret = 1 then map_option (\<lambda>c. (c, 1)) (queue_cmd c)
           else if ret = 2
           then map_option (\<lambda>(c, ret). (c\<lparr>rx := (rx c)\<lparr>fifo_head := fifo_tail (rx c)\<rparr>\<rparr>, ret))
                  (Option.bind (lost_connection m c) (module_reports report m))
           else Some (c, ret)))"

section \<open>Parsing a message\<close>

lemma takeWhile_comma: "0x2C \<notin> set t \<Longrightarrow> takeWhile (\<lambda>c. c \<noteq> 0x2C) (t @ 0x2C # s) = t"
  by (induction t) auto

lemma c_string_split:
  "c_string mem off = Some s \<longleftrightarrow> 0 \<notin> set s \<and> (\<exists>q. drop off mem = s @ 0 # q)"
proof
  assume c: "c_string mem off = Some s"
  then have s: "s = takeWhile (\<lambda>c. c \<noteq> 0) (drop off mem)" and z: "0 \<in> set (drop off mem)"
    by (auto simp: c_string_def split: if_splits)
  obtain x q where "dropWhile (\<lambda>c. c \<noteq> 0) (drop off mem) = x # q"
    using z by (cases "dropWhile (\<lambda>c. c \<noteq> 0) (drop off mem)") (auto simp: dropWhile_eq_Nil_conv)
  moreover from this have "x = 0" using hd_dropWhile [of "\<lambda>c. c \<noteq> 0" "drop off mem"] by auto
  ultimately have "drop off mem = s @ 0 # q" using s by (metis takeWhile_dropWhile_id)
  moreover have "0 \<notin> set s" using s by (auto dest: set_takeWhileD)
  ultimately show "0 \<notin> set s \<and> (\<exists>q. drop off mem = s @ 0 # q)" by blast
next
  assume "0 \<notin> set s \<and> (\<exists>q. drop off mem = s @ 0 # q)"
  then show "c_string mem off = Some s" by (auto simp: c_string_def takeWhile_append)
qed

text \<open>Separators, a field and the separator behind it, if there is one.\<close>

lemma strtok_at_field:
  assumes "mem = p @ replicate j 0x2C @ t @ 0x2C # s @ 0 # q" and "t \<noteq> []" and "0x2C \<notin> set t" and "0 \<notin> set (t @ s)"
  shows "strtok_at mem (length p) = Some (Some (p @ replicate j 0x2C @ t @ 0 # s @ 0 # q, length p + j, length t,
    Suc (length p + j + length t)))"
proof -
  have d: "drop (length p) mem = replicate j 0x2C @ t @ 0x2C # s @ 0 # q" by (simp add: assms(1))
  have i: "takeWhile (\<lambda>c. c = 0x2C) (drop (length p) mem) = replicate j 0x2C"
    unfolding d using assms(2,3) by (cases t) (auto simp: takeWhile_append)
  have c: "c_string mem (length p + j) = Some (t @ 0x2C # s)" using assms(4) by (simp add: c_string_split assms(1))
  have "mem[length p + j + length t := 0] = p @ replicate j 0x2C @ t @ 0 # s @ 0 # q"
    by (simp add: assms(1) list_update_append)
  then show ?thesis
    using takeWhile_comma [OF assms(3)] assms(2) by (simp add: strtok_at_def i c Let_def)
qed

lemma strtok_at_last:
  assumes "mem = p @ replicate j 0x2C @ t @ 0 # q" and "0x2C \<notin> set t" and "0 \<notin> set t"
  shows "strtok_at mem (length p) = Some (if t = [] then None else Some (mem, length p + j, length t, length p + j + length t))"
proof -
  have d: "drop (length p) mem = replicate j 0x2C @ t @ 0 # q" by (simp add: assms(1))
  have i: "takeWhile (\<lambda>c. c = 0x2C) (drop (length p) mem) = replicate j 0x2C"
    unfolding d using assms(2) by (cases t) (auto simp: takeWhile_append)
  have "c_string mem (length p + j) = Some t" using assms(3) by (simp add: c_string_split assms(1))
  moreover have "length (takeWhile (\<lambda>c. c \<noteq> 0x2C) t) = length t"
    using assms(2) by (induction t) auto
  ultimately show ?thesis by (simp add: strtok_at_def i Let_def)
qed

lemma strtok_at_next:
  assumes "c_string mem off = Some s"
  shows "strtok_at mem off = Some None \<or>
    (\<exists>mem' i n nxt s'. strtok_at mem off = Some (Some (mem', i, n, nxt)) \<and> c_string mem' nxt = Some s' \<and> length s' < length s)"
proof -
  obtain q where q: "drop off mem = s @ 0 # q" and s0: "0 \<notin> set s" using assms by (auto simp: c_string_split)
  define p where "p = take off mem"
  have off: "off = length p" "mem = p @ s @ 0 # q"
    using q append_take_drop_id [of off mem] by (auto simp: p_def min_def dest: arg_cong [of _ _ length])
  define j where "j = length (takeWhile (\<lambda>c. c = 0x2C) s)"
  define s1 where "s1 = dropWhile (\<lambda>c. c = 0x2C) s"
  have "replicate j 0x2C = takeWhile (\<lambda>c. c = 0x2C) s"
    unfolding j_def by (rule replicate_length_same) (auto dest: set_takeWhileD)
  from this [symmetric] have s1: "s = replicate j 0x2C @ s1" by (metis s1_def takeWhile_dropWhile_id)
  have hd1: "s1 = [] \<or> hd s1 \<noteq> 0x2C" using hd_dropWhile [of "\<lambda>c. c = 0x2C" s] by (auto simp: s1_def)
  define t where "t = takeWhile (\<lambda>c. c \<noteq> 0x2C) s1"
  have t: "0x2C \<notin> set t" by (auto simp: t_def dest: set_takeWhileD)
  show ?thesis
  proof (cases "dropWhile (\<lambda>c. c \<noteq> 0x2C) s1")
    case Nil
    then have "s1 = t" by (metis append_Nil2 t_def takeWhile_dropWhile_id)
    then have mem: "mem = p @ replicate j 0x2C @ t @ 0 # q" using off(2) s1 by simp
    have "c_string mem (length p + j + length t) = Some []" unfolding mem by (simp add: c_string_split)
    then show ?thesis
      using strtok_at_last [OF mem t] s0 s1 \<open>s1 = t\<close> off(1) by (cases "t = []") auto
  next
    case (Cons c s2)
    then have c: "c = 0x2C" using hd_dropWhile [of "\<lambda>c. c \<noteq> 0x2C" s1] by auto
    then have "s1 = t @ 0x2C # s2" using Cons by (metis t_def takeWhile_dropWhile_id)
    moreover from this have "t \<noteq> []" using hd1 by auto
    ultimately have mem: "mem = p @ replicate j 0x2C @ t @ 0x2C # s2 @ 0 # q" and ne: "t \<noteq> []" and z: "0 \<notin> set (t @ s2)"
      using off(2) s1 s0 by auto
    have "c_string (p @ replicate j 0x2C @ t @ 0 # s2 @ 0 # q) (Suc (length p + j + length t)) = Some s2"
      using z by (simp add: c_string_split)
    moreover have "length s2 < length s" using s1 \<open>s1 = t @ 0x2C # s2\<close> by simp
    ultimately show ?thesis using strtok_at_field [OF mem ne t z] off(1) by blast
  qed
qed

text \<open>Behind the fields that were asked for, the loop only runs to the end of the string.\<close>

lemma pb_loop_rest:
  assumes "c_string mem off = Some s" and "length s < fuel" and "unat count + length s < 256" and "unat keyNum \<le> unat count"
  shows "\<exists>mem'. pb_keywords_loop fuel count keyNum mem off found = Some (mem', found)"
  using assms
proof (induction fuel arbitrary: count mem off s)
  case (Suc fuel)
  from strtok_at_next [OF Suc.prems(1)] show ?case
  proof (elim disjE exE conjE)
    fix mem' i n nxt s'
    assume t: "strtok_at mem off = Some (Some (mem', i, n, nxt))" and s': "c_string mem' nxt = Some s'" "length s' < length s"
    have c: "unat (count + 1) = Suc (unat count)" using Suc.prems(3) s'(2) by (simp add: unat_word_ariths)
    then have "count + 1 \<noteq> keyNum" using Suc.prems(4) by auto
    then show ?thesis using t Suc.IH [OF s'(1), of "count + 1"] s'(2) Suc.prems c by simp
  qed simp
qed simp

definition field :: "bytes \<Rightarrow> bool" where
  "field f \<longleftrightarrow> f \<noteq> [] \<and> 0 \<notin> set f \<and> 0x2C \<notin> set f"

lemma pb_loop_fields:
  assumes "list_all field fs" and "unat count + length fs < unat keyNum" and "0 \<notin> set s"
  shows "pb_keywords_loop (fuel + length fs) count keyNum (p @ concat (map (\<lambda>f. f @ [0x2C]) fs) @ s @ 0 # q) (length p) found
    = pb_keywords_loop fuel (count + of_nat (length fs)) keyNum (p @ concat (map (\<lambda>f. f @ [0]) fs) @ s @ 0 # q)
        (length p + length (concat (map (\<lambda>f. f @ [0 :: u8]) fs))) found"
  using assms(1,2)
proof (induction fs arbitrary: p count)
  case (Cons f fs)
  let ?cs = "concat (map (\<lambda>f. f @ [0x2C]) fs)"
  let ?mem = "p @ f @ 0x2C # ?cs @ s @ 0 # q"
  have f: "f \<noteq> []" "0 \<notin> set f" "0x2C \<notin> set f" using Cons.prems(1) by (simp_all add: field_def)
  have "0 \<notin> set ?cs" using Cons.prems(1) by (auto simp: list_all_iff field_def)
  then have t: "strtok_at ?mem (length p) = Some (Some (p @ f @ 0 # ?cs @ s @ 0 # q, length p, length f, Suc (length p + length f)))"
    using strtok_at_field [of ?mem p 0 f "?cs @ s" q] f assms(3) by simp
  have c: "unat (count + 1) = Suc (unat count)"
  proof -
    have "unat keyNum < 256" by simp
    then have "Suc (unat count) < 256" using Cons.prems(2) by linarith
    then show ?thesis by (simp add: unat_word_ariths)
  qed
  then have "count + 1 \<noteq> keyNum" using Cons.prems(2) by auto
  then have "pb_keywords_loop (Suc (fuel + length fs)) count keyNum ?mem (length p) found
      = pb_keywords_loop (fuel + length fs) (count + 1) keyNum ((p @ f @ [0]) @ ?cs @ s @ 0 # q) (length (p @ f @ [0])) found"
    by (simp add: t)
  also have "\<dots> = pb_keywords_loop fuel (count + 1 + of_nat (length fs)) keyNum
      ((p @ f @ [0]) @ concat (map (\<lambda>f. f @ [0]) fs) @ s @ 0 # q)
      (length (p @ f @ [0]) + length (concat (map (\<lambda>f. f @ [0 :: u8]) fs))) found"
    using Cons.prems c by (intro Cons.IH) simp_all
  finally show ?case by (simp add: ac_simps del: pb_keywords_loop.simps)
qed simp

lemma keyword_of_quoted:
  assumes "w \<noteq> []" and "\<not> at_blank (last w)"
  shows "keyword_of (0x22 # w @ [0x22]) = Some w"
proof -
  have "trim_key_len (butlast w @ last w # [0x22]) (length (butlast w @ last w # [0x22])) = Some (Suc (length (butlast w)))"
    using assms(2) by (intro trim_key_len_append) (simp_all add: at_blank_def)
  moreover have "butlast w @ [last w, 0x22] = w @ [0x22]" using assms(1) by simp
  ultimately show ?thesis using assms(1) by (simp add: keyword_of_def Let_def)
qed

text \<open>The topic field, the length and the payload.\<close>

lemma pb_fields_message:
  assumes "mem = p @ (0x22 # w @ [0x22]) @ 0 # decimal (length payload) @ 0x2C # 0x22 # payload @ r @ 0 # q"
    and "w \<noteq> []" and "\<not> at_blank (last w)" and "length w < 100" and "length payload < 200"
  shows "\<exists>mem' nxt s. pb_fields mem (length p) (length w + 2) (length p + length w + 3)
      = Some (mem', nxt, (w, decimal (length payload), payload)) \<and>
    c_string mem' nxt = Some s \<and> length s \<le> Suc (length payload + length r)"
proof -
  let ?n = "decimal (length payload)" and ?p = "p @ (0x22 # w @ [0x22]) @ [0]"
  define post where "post = 0x22 # payload @ r @ 0 # q"
  define s where "s = takeWhile (\<lambda>c. c \<noteq> 0) post"
  obtain q' where post: "post = s @ 0 # q'" and s0: "0 \<notin> set s"
    using c_string_split [of post 0 s] by (auto simp: c_string_def s_def post_def)
  have len: "length s \<le> Suc (length payload + length r)"
  proof -
    have "s = takeWhile (\<lambda>c. c \<noteq> 0) ((0x22 # payload @ r) @ 0 # q)" by (simp add: s_def post_def)
    then have "length s \<le> length (0x22 # payload @ r)" by (auto simp: takeWhile_append intro: trans_le_add1 length_takeWhile_le)
    then show ?thesis by simp
  qed
  have n: "?n \<noteq> []" "0 \<notin> set ?n" "0x2C \<notin> set ?n" "length ?n \<le> 3"
    using decimal_not_Nil decimal_not_in [of 0] decimal_not_in [of "0x2C"] length_decimal [of "length payload" 3] assms(5)
    by (simp_all add: is_digit_def)
  have mem: "mem = ?p @ replicate 0 0x2C @ ?n @ 0x2C # s @ 0 # q'" using assms(1) post by (simp add: post_def)
  define mem' where "mem' = ?p @ ?n @ 0 # s @ 0 # q'"
  have tok: "strtok_at mem (length p + length w + 3) = Some (Some (mem', length ?p, length ?n, Suc (length ?p + length ?n)))"
    using strtok_at_field [OF mem n(1,3)] n(2) s0 by (simp add: mem'_def numeral_3_eq_3)
  have w: "keyword_of (take (length w + 2) (drop (length p) mem)) = Some w"
    using keyword_of_quoted [OF assms(2,3)] by (simp add: assms(1))
  have len_text: "c_string (?n @ replicate (4 - length ?n) 0) 0 = Some ?n" using c_string_padded [OF n(2), of 4] n(4) by simp
  have "atoi ?n = int (length payload)" using atoi_decimal [of "[]"] by simp
  then have num: "unat (word_of_int (atoi ?n) :: u16) = length payload"
    using assms(5) by (simp add: unat_of_nat take_bit_nat_eq_self)
  have off: "unat (of_nat (length ?n) :: u8) = length ?n" "unat (of_nat (length ?n) + 1 :: u8) = Suc (length ?n)"
    using n(4) by (simp_all add: unat_of_nat_u8 unat_word_ariths)
  have mem'': "mem' = ?p @ ?n @ 0 # 0x22 # payload @ r @ 0 # q" using post by (simp add: mem'_def post_def)
  have at: "drop (length ?p) mem' = ?n @ 0 # 0x22 # payload @ r @ 0 # q"
    "drop (length ?p + Suc (length ?n) + 1) mem' = payload @ r @ 0 # q"
    using append_eq_conv_conj [of ?p _ mem'] append_eq_conv_conj [of "?p @ ?n @ [0, 0x22]" _ mem']
    by (simp_all add: mem'' del: append_assoc)
  have pb: "fetch mem' (length ?p + Suc (length ?n)) = Some 0x22"
    "take (length payload) (drop (length ?p + Suc (length ?n) + 1) mem') = payload"
    "length ?p + Suc (length ?n) + 1 + length payload \<le> length mem'"
    "take (length ?n) (drop (length ?p) mem') = ?n"
    unfolding at by (simp_all add: mem'' fetch_def nth_append)
  have "pb_fields mem (length p) (length w + 2) (length p + length w + 3)
      = Some (mem', Suc (length ?p + length ?n), (w, ?n, payload))"
    unfolding pb_fields_def w tok using assms(4,5) n(4) len_text num off pb by (simp add: Let_def)
  moreover have "drop (Suc (length ?p + length ?n)) mem' = s @ 0 # q'"
    using append_eq_conv_conj [of "?p @ ?n @ [0]" _ mem'] by (simp add: mem'_def del: append_assoc)
  then have "c_string mem' (Suc (length ?p + length ?n)) = Some s" unfolding c_string_split using s0 by blast
  ultimately show ?thesis using len by blast
qed

lemma pb_message:
  assumes "srcData = hdr @ concat (map (\<lambda>f. f @ [0x2C]) fs) @ (0x22 # w @ [0x22]) @ 0x2C #
      decimal (length payload) @ 0x2C # 0x22 # payload @ r @ 0 # q"
    and "list_all field fs" and "field w" and "\<not> at_blank (last w)" and "length w < 100" and "length payload < 200"
    and "unat keyNum = Suc (length fs)" and "length fs + length payload + length r < 253"
  shows "\<exists>mem'. get_at_rsp_keywords_pb srcData hdr keyNum = Some (mem', Some (w, decimal (length payload), payload))"
proof -
  let ?t = "0x22 # w @ [0x22]" and ?n = "decimal (length payload)"
  define post where "post = ?n @ 0x2C # 0x22 # payload @ r @ 0 # q"
  define s where "s = takeWhile (\<lambda>c. c \<noteq> 0) post"
  obtain q' where post: "post = s @ 0 # q'" and s0: "0 \<notin> set s"
    using c_string_split [of post 0 s] by (auto simp: c_string_def s_def post_def)
  have w: "w \<noteq> []" "0 \<notin> set ?t" "0x2C \<notin> set ?t" using assms(3) by (auto simp: field_def)
  define z where "z = concat (map (\<lambda>f. f @ [0 :: u8]) fs)"
  define p where "p = hdr @ z"
  define mem where "mem = p @ replicate 0 0x2C @ ?t @ 0x2C # s @ 0 # q'"
  define fuel where "fuel = Suc (length srcData) - length fs"
  have lz: "length fs \<le> length (concat (map (\<lambda>f. f @ [0x2C :: u8]) fs))" by (induction fs) auto
  then have fuel: "Suc (length srcData) = fuel + length fs" "Suc (Suc (length payload + length r)) < fuel"
    by (simp_all add: fuel_def assms(1))
  have count: "0 + of_nat (length fs) + 1 = keyNum"
    using assms(7) by (metis add_0 of_nat_Suc_word of_nat_unat_word)
  have src: "srcData = hdr @ concat (map (\<lambda>f. f @ [0x2C]) fs) @ (?t @ 0x2C # s) @ 0 # q'"
    using assms(1) post by (simp add: post_def)
  have "pb_keywords_loop (fuel + length fs) 0 keyNum srcData (length hdr) None
      = pb_keywords_loop fuel (0 + of_nat (length fs)) keyNum mem (length p) None"
    using pb_loop_fields [OF assms(2), of 0 keyNum "?t @ 0x2C # s" fuel hdr q' None] assms(7) s0 w(2)
    by (simp add: src mem_def p_def z_def del: pb_keywords_loop.simps)
  then have "get_at_rsp_keywords_pb srcData hdr keyNum = pb_keywords_loop fuel (0 + of_nat (length fs)) keyNum mem (length p) None"
    unfolding get_at_rsp_keywords_pb_def fuel(1) .
  moreover obtain k where k: "fuel = Suc k" using fuel(2) by (cases fuel) auto
  moreover have "strtok_at mem (length p) = Some (Some (p @ ?t @ 0 # s @ 0 # q', length p, length w + 2, length p + length w + 3))"
    using strtok_at_field [OF mem_def _ w(3)] s0 w(2) by (simp add: numeral_eq_Suc)
  moreover obtain mem' nxt s' where "pb_fields (p @ ?t @ 0 # s @ 0 # q') (length p) (length w + 2) (length p + length w + 3)
      = Some (mem', nxt, (w, ?n, payload))" and s': "c_string mem' nxt = Some s'" "length s' \<le> Suc (length payload + length r)"
    using pb_fields_message [of "p @ ?t @ 0 # s @ 0 # q'" p w payload r q] w(1) assms(4-6)
    by (auto simp: post [symmetric] post_def)
  moreover obtain mem'' where "pb_keywords_loop k keyNum keyNum mem' nxt (Some (w, ?n, payload)) = Some (mem'', Some (w, ?n, payload))"
    using pb_loop_rest [OF s'(1), of k keyNum keyNum] s'(2) fuel(2) k assms(7,8) by auto
  ultimately show ?thesis using count by simp
qed

text \<open>C17. Topic, length and payload of a message of the cloud come out of the queued text as they went in, whatever bytes
  the payload has, separators, quotes and zeros included; \<open>fs\<close> are the fields before the topic.\<close>

theorem get_at_rsp_keywords_pb_message:
  assumes "srcData = hdr @ concat (map (\<lambda>f. f @ [0x2C]) fs) @ (0x22 # w @ [0x22]) @ 0x2C #
      decimal (length payload) @ 0x2C # 0x22 # payload @ r @ 0 # q"
    and "list_all field fs" and "field w" and "\<not> at_blank (last w)" and "length w < 100" and "length payload < 200"
    and "unat keyNum = Suc (length fs)" and "length fs + length payload + length r < 253"
  shows "\<exists>mem'. get_at_rsp_keywords_pb srcData hdr keyNum = Some (mem', Some (w, decimal (length payload), payload))"
  using assms by (rule pb_message)

theorem get_at_rsp_keywords_pb_message_witness:
  "\<exists>mem'. get_at_rsp_keywords_pb (asc ''+Q:0,0,'' @ (0x22 # asc ''t/1'' @ [0x22]) @ asc '',3,'' @
      0x22 # [0x2C, 0, 0x22] @ [0x22] @ 0 # []) (asc ''+Q:'') 3 = Some (mem', Some (asc ''t/1'', asc ''3'', [0x2C, 0, 0x22]))"
proof -
  have "decimal (Suc (Suc (Suc 0))) = [0x33]" by (subst decimal.simps) simp
  moreover have "unat (3 :: u8) = Suc (Suc (Suc 0))" by simp
  ultimately show ?thesis
    using get_at_rsp_keywords_pb_message [of _ "asc ''+Q:''" "[asc ''0'', asc ''0'']" "asc ''t/1''" "[0x2C, 0, 0x22]" "[0x22]" "[]" 3]
    by (simp add: asc_def field_def at_blank_def)
qed

end
