(* ===== verification/PubDialogue.thy ===== *)
theory PubDialogue
  imports PubQueue
begin

text \<open>
  The publish dialogue of \<open>net4g_send_data_process\<close> against a receiver that may report the module's prompt
  and its acknowledgement at any time: the dialogue ends after a bounded number of calls, and the message
  goes out only after a prompt.
\<close>

section \<open>The process and the receiver\<close>

text \<open>What the receiver does to the flags when the prompt or the acknowledgement is found (see \<open>get_net4G_recv_cmd\<close>).\<close>

definition receiver_sets :: "bool \<Rightarrow> bool \<Rightarrow> pub_flags \<Rightarrow> pub_flags" where
  "receiver_sets prompt ack f =
     (if check_pubMiddleFlag f
      then (if prompt then f\<lparr>check_pubMiddleFlag := False, pubMiddleFlag := True\<rparr> else f)
      else if check_pubAckFlag f \<and> ack then f\<lparr>check_pubAckFlag := False, pubAckFlag := True\<rparr> else f)"

text \<open>A schedule: for every call, what the receiver found before it and whether the network is at its first step.\<close>

type_synonym schedule = "(bool \<times> bool \<times> bool) list"

fun send_run :: "module_type \<Rightarrow> bytes \<Rightarrow> schedule \<Rightarrow> send_state \<Rightarrow> (send_state \<times> nat) option" where
  "send_run m pk [] s = Some (s, 0)"
| "send_run m pk ((prompt, ack, init) # es) (s, f, d) =
     Option.bind (net4g_send_data_process m pk init (s, receiver_sets prompt ack f, d)) (\<lambda>(s, ret).
     if ret = 0 then send_run m pk es s else Some (s, ret))"

section \<open>The dialogue ends\<close>

definition dialogue_ok :: "send \<Rightarrow> bool" where
  "dialogue_ok s \<longleftrightarrow> process_work_step s \<le> 3 \<and> data_send_wait_rsp1_fail_times s < 4 \<and> (process_work_step s = 1 \<longrightarrow> wait_time_count s < 100) \<and>
     (process_work_step s = 3 \<longrightarrow> wait_time_count s < 1500)"

definition calls_left :: "send \<Rightarrow> nat" where
  "calls_left s =
     (if process_work_step s = 0 then 1602 else if process_work_step s = 1 then 1601 - unat (wait_time_count s)
      else if process_work_step s = 2 then 1501 else 1500 - unat (wait_time_count s))"

lemma count_up: "(c :: u16) < 1500 \<Longrightarrow> unat (c + 1) = Suc (unat c)"
  by (simp add: unat_word_ariths word_less_nat_alt)

lemma count_end:
  assumes "(c :: u16) < 1500" and "\<not> c + 1 < 1500"
  shows "(c + 1) mod 100 = 0"
proof -
  have "unat (c + 1) = 1500" using assms count_up [OF assms(1)] by (simp add: word_less_nat_alt)
  then have "c + 1 = 1500" by (simp add: word_unat_eq_iff)
  then show ?thesis by simp
qed

lemma send_pub_cmd_effect:
  "pred_option (\<lambda>(s', f', d'). process_work_step s' = 1 \<and> wait_time_count s' = 0 \<and> queue s' = queue s \<and> qHead s' = qHead s \<and>
      data_send_wait_rsp1_fail_times s' = data_send_wait_rsp1_fail_times s \<and> \<not> pubMiddleFlag f' \<and> (\<exists>cmd. sent d' = sent d @ [cmd])) (send_pub_cmd m pk (s, f, d))"
  by (simp add: send_pub_cmd_def Let_def, intro opt_intro) (simp add: network_uart_send_def)

lemma send_pub_data_effect:
  "pred_option (\<lambda>(s', f', d'). process_work_step s' = 3 \<and> wait_time_count s' = 0 \<and> queue s' = queue s \<and> qHead s' = qHead s \<and>
      data_send_wait_rsp1_fail_times s' = data_send_wait_rsp1_fail_times s \<and> map_option slot_message (fetch (queue s) (qHead s)) \<noteq> None \<and>
      sent d' = sent d @ [snd (slot_message (queue s ! qHead s))]) (send_pub_data (s, f, d))"
  by (simp add: send_pub_data_def, intro opt_intro)
    (auto simp: network_uart_send_def slot_message_def fetch_def split: if_splits)

lemma dialogue_step:
  assumes "dialogue_ok (fst s)"
  shows "pred_option (\<lambda>((s', f', d'), ret). dialogue_ok s' \<and>
    (if ret = 0 then calls_left s' < calls_left (fst s) else (ret = 1 \<or> ret = 2) \<and> process_work_step s' = 0))
    (net4g_send_data_process m pk init s)"
proof -
  obtain t f d where s: "s = (t, f, d)" by (cases s)
  have ok: "dialogue_ok t" using assms s by simp
  have c1: "unat (wait_time_count t + 1) = Suc (unat (wait_time_count t))"
    if "process_work_step t = 1 \<or> process_work_step t = 3"
    using ok that by (intro count_up) (auto simp: dialogue_ok_def intro: less_trans)
  have n4: "unat (data_send_wait_rsp1_fail_times t + 1) = Suc (unat (data_send_wait_rsp1_fail_times t))"
    using ok by (simp add: unat_word_ariths word_less_nat_alt dialogue_ok_def)
  consider (cmd) "process_work_step t = 0" | (prompt) "process_work_step t = 1" | (data) "process_work_step t = 2"
    | (ack) "process_work_step t = 3"
    using ok by (fastforce simp: dialogue_ok_def le_Suc_eq numeral_eq_Suc)
  then show ?thesis
  proof cases
    case cmd
    then show ?thesis
      using ok send_pub_cmd_effect [where s = t and f = f and d = d and m = m and pk = pk]
      by (auto simp: s net4g_send_data_process_def option.pred_set dialogue_ok_def calls_left_def)
  next
    case prompt
    then show ?thesis
      using ok c1 n4
      by (auto simp: s net4g_send_data_process_def wait_prompt_def dialogue_ok_def calls_left_def Let_def word_less_nat_alt
          word_le_nat_alt split: if_splits)
  next
    case data
    then show ?thesis
      using ok send_pub_data_effect [where s = t and f = f and d = d]
      by (auto simp: s net4g_send_data_process_def option.pred_set dialogue_ok_def calls_left_def)
  next
    case ack
    then show ?thesis
      using ok c1 count_end [of "wait_time_count t"]
      by (auto simp: s net4g_send_data_process_def wait_ack_def dialogue_ok_def calls_left_def Let_def word_less_nat_alt
          split: if_splits)
  qed
qed

lemma dialogue_run:
  assumes "dialogue_ok s" and "calls_left s \<le> length es"
  shows "pred_option (\<lambda>((s', f', d'), ret). (ret = 1 \<or> ret = 2) \<and> process_work_step s' = 0) (send_run m pk es (s, f, d))"
  using assms
proof (induction es arbitrary: s f d)
  case Nil
  then have "unat (wait_time_count s) < 1500" if "process_work_step s = 1 \<or> process_work_step s = 3"
    using that by (auto simp: dialogue_ok_def word_less_nat_alt)
  then show ?case using Nil by (auto simp: calls_left_def dialogue_ok_def split: if_splits)
next
  case (Cons e es)
  obtain prompt ack init where e: "e = (prompt, ack, init)" by (cases e)
  note st = dialogue_step [of "(s, receiver_sets prompt ack f, d)" m pk init]
  show ?case
    unfolding e send_run.simps
  proof (intro opt_intro, goal_cases)
    case (1 y t ret)
    obtain s' f' d' where t: "t = (s', f', d')" by (cases t)
    then have "dialogue_ok s'" "calls_left s' < calls_left s" using st Cons.prems(1) 1 by auto
    then show ?case using Cons.IH [of s' f' d'] Cons.prems(2) t by simp
  next
    case (2 y t ret)
    then show ?case using st Cons.prems(1) by auto
  qed
qed

text \<open>C18. Whatever the receiver reports and whenever, publishing one message ends after at most 1602 calls, with the
  answer 1 (next message) or 2 (reconnect) and the dialogue back at its first step.\<close>

theorem publish_terminates:
  assumes "process_work_step s = 0" and "data_send_wait_rsp1_fail_times s < 4" and "1602 \<le> length es"
  shows "pred_option (\<lambda>((s', f', d'), ret). (ret = 1 \<or> ret = 2) \<and> process_work_step s' = 0) (send_run m pk es (s, f, d))"
  by (rule dialogue_run) (use assms in \<open>simp_all add: dialogue_ok_def calls_left_def\<close>)

section \<open>What is sent\<close>

text \<open>
  The state of a dialogue about the message \<open>msg\<close> that began with the texts \<open>old\<close> sent: \<open>seen\<close> tells whether
  a prompt has been reported since.
\<close>

definition talking :: "bytes list \<Rightarrow> bytes \<Rightarrow> bool \<Rightarrow> send_state \<Rightarrow> bool" where
  "talking old msg seen = (\<lambda>(s, f, d). qHead s < length (queue s) \<and> snd (slot_message (queue s ! qHead s)) = msg \<and>
     (if process_work_step s = 0 then sent d = old
      else if process_work_step s = 1 then (\<exists>cmd. sent d = old @ [cmd]) \<and> (pubMiddleFlag f \<longrightarrow> seen)
      else if process_work_step s = 2 then (\<exists>cmd. sent d = old @ [cmd]) \<and> seen
      else seen \<and> (\<exists>cmd. sent d = old @ [cmd, msg])))"

definition said :: "bytes list \<Rightarrow> bytes \<Rightarrow> bool \<Rightarrow> nat \<Rightarrow> device \<Rightarrow> bool" where
  "said old msg seen ret d \<longleftrightarrow> (\<exists>cmd. sent d = old @ [cmd] \<or> seen \<and> ret = 1 \<and> sent d = old @ [cmd, msg])"

lemma talking_receiver: "talking old msg seen (s, f, d) \<Longrightarrow> talking old msg (seen \<or> prompt) (s, receiver_sets prompt ack f, d)"
  by (auto simp: talking_def receiver_sets_def split: if_splits)

lemma talking_step:
  assumes "talking old msg seen (s, f, d)"
  shows "pred_option (\<lambda>((s', f', d'), ret). if ret = 0 then talking old msg seen (s', f', d') \<or> process_work_step s' = 0
      else said old msg seen ret d') (net4g_send_data_process m pk init (s, f, d))"
proof -
  consider (cmd) "process_work_step s = 0" | (prompt) "process_work_step s = 1" | (data) "process_work_step s = 2"
    | (ack) "process_work_step s = 3" | (other) "3 < process_work_step s" by linarith
  then show ?thesis
  proof cases
    case cmd
    then show ?thesis
      using assms send_pub_cmd_effect [where s = s and f = f and d = d and m = m and pk = pk]
      by (auto simp: net4g_send_data_process_def option.pred_set talking_def)
  next
    case prompt
    then show ?thesis
      using assms by (auto simp: net4g_send_data_process_def wait_prompt_def talking_def said_def Let_def app_delay_ms_def)
  next
    case data
    then show ?thesis
      using assms send_pub_data_effect [where s = s and f = f and d = d]
      by (auto simp: net4g_send_data_process_def option.pred_set talking_def)
  next
    case ack
    then show ?thesis
      using assms by (auto simp: net4g_send_data_process_def wait_ack_def talking_def said_def Let_def app_delay_ms_def)
  next
    case other
    then show ?thesis using assms by (simp add: net4g_send_data_process_def)
  qed
qed

lemma dialogue_says:
  assumes "dialogue_ok s" and "talking old msg seen (s, f, d)"
  shows "pred_option (\<lambda>((s', f', d'), ret). ret = 0 \<or> said old msg (seen \<or> list_ex fst es) ret d') (send_run m pk es (s, f, d))"
  using assms
proof (induction es arbitrary: s f d seen)
  case Nil
  show ?case by simp
next
  case (Cons e es)
  obtain prompt ack init where e: "e = (prompt, ack, init)" by (cases e)
  let ?f = "receiver_sets prompt ack f" and ?seen = "seen \<or> prompt"
  note st = dialogue_step [of "(s, ?f, d)" m pk init]
  note tk = talking_step [OF talking_receiver [OF Cons.prems(2), of prompt ack], of m pk init]
  show ?case
    unfolding e send_run.simps
  proof (intro opt_intro, goal_cases)
    case (1 y t ret)
    obtain s' f' d' where t: "t = (s', f', d')" by (cases t)
    have ok: "dialogue_ok s'" "calls_left s' < calls_left s" using st Cons.prems(1) 1 t by auto
    then have "process_work_step s' \<noteq> 0" by (auto simp: calls_left_def split: if_splits)
    then have "talking old msg ?seen (s', f', d')" using tk 1 t by auto
    from Cons.IH [OF ok(1) this] show ?case by (simp add: t disj_assoc)
  next
    case (2 y t ret)
    obtain s' f' d' where t: "t = (s', f', d')" by (cases t)
    then have "said old msg ?seen ret d'" using tk 2 by auto
    then show ?case by (auto simp: t said_def)
  qed
qed


text \<open>A prompt that does not come within 100 calls: while the network is up the answer is 1, which makes the caller drop
  the message although it was never sent.\<close>

lemma wait_without_prompt:
  assumes "process_work_step s = 1" and "\<not> pubMiddleFlag f" and "unat (wait_time_count s) + n < 100"
  shows "\<exists>s' d'. send_run m pk (replicate n (False, False, False) @ es) (s, f, d) = send_run m pk es (s', f, d') \<and>
    process_work_step s' = 1 \<and> unat (wait_time_count s') = unat (wait_time_count s) + n \<and>
    data_send_wait_rsp1_fail_times s' = data_send_wait_rsp1_fail_times s \<and> sent d' = sent d"
  using assms
proof (induction n arbitrary: s d)
  case 0
  then show ?case by auto
next
  case (Suc n)
  let ?s = "s\<lparr>wait_time_count := wait_time_count s + 1\<rparr>" and ?d = "app_delay_ms 50 d"
  have c: "unat (wait_time_count s + 1) = Suc (unat (wait_time_count s))"
    using Suc.prems(3) by (intro count_up) (simp add: word_less_nat_alt)
  have "receiver_sets False False f = f" by (simp add: receiver_sets_def)
  then have "net4g_send_data_process m pk False (s, receiver_sets False False f, d) = Some ((?s, f, ?d), 0)"
    using Suc.prems c by (simp add: net4g_send_data_process_def wait_prompt_def Let_def word_less_nat_alt)
  moreover have "sent ?d = sent d" by (simp add: app_delay_ms_def)
  ultimately show ?case using Suc.IH [of ?s ?d] Suc.prems c by simp
qed

lemma publish_without_prompt:
  assumes "send_pub_cmd m pk (s, receiver_sets False False f, d) = Some (s1, f1, d1)" and "process_work_step s = 0"
    and "data_send_wait_rsp1_fail_times s < 3"
  shows "\<exists>s' f' d'. send_run m pk (replicate 101 (False, False, False)) (s, f, d) = Some ((s', f', d'), 1) \<and> sent d' = sent d1"
proof -
  note eff = send_pub_cmd_effect [where s = s and f = "receiver_sets False False f" and d = d and m = m and pk = pk]
  have s1: "process_work_step s1 = 1" "\<not> pubMiddleFlag f1" "unat (wait_time_count s1) + 99 < 100"
    "data_send_wait_rsp1_fail_times s1 = data_send_wait_rsp1_fail_times s"
    using eff assms(1) by auto
  have first: "net4g_send_data_process m pk False (s, receiver_sets False False f, d) = Some ((s1, f1, d1), 0)"
    using assms(1,2) by (simp add: net4g_send_data_process_def)
  obtain s2 d2 where run: "send_run m pk (replicate 99 (False, False, False) @ [(False, False, False)]) (s1, f1, d1)
      = send_run m pk [(False, False, False)] (s2, f1, d2)"
    and s2: "process_work_step s2 = 1" "unat (wait_time_count s2) = 99" "sent d2 = sent d1"
      "data_send_wait_rsp1_fail_times s2 = data_send_wait_rsp1_fail_times s"
    using wait_without_prompt [OF s1(1-3), of m pk "[(False, False, False)]" d1] eff assms(1) s1(4) by auto
  have c: "\<not> wait_time_count s2 + 1 < 100" "\<not> 4 \<le> data_send_wait_rsp1_fail_times s2 + 1"
    using s2 assms(3) count_up [of "wait_time_count s2"] by (simp_all add: word_less_nat_alt word_le_nat_alt unat_word_ariths)
  have same: "receiver_sets False False f1 = f1" by (simp add: receiver_sets_def)
  have "\<exists>s' f'. send_run m pk [(False, False, False)] (s2, f1, d2) = Some ((s', f', d2), 1)"
    using s2 c s1(2) same by (simp add: net4g_send_data_process_def wait_prompt_def Let_def)
  moreover have "replicate 101 (False, False, False) = (False, False, False) # replicate 99 (False, False, False) @ [(False, False, False)]"
    by (simp add: eval_nat_numeral)
  ultimately show ?thesis using first run s2(3) by auto
qed

section \<open>Concrete runs\<close>

definition quiet_flags :: pub_flags where
  "quiet_flags = \<lparr>check_pubMiddleFlag = False, pubMiddleFlag = False, check_pubAckFlag = False, pubAckFlag = False\<rparr>"

theorem publish_terminates_witness:
  "pred_option (\<lambda>((s', f', d'), ret). (ret = 1 \<or> ret = 2) \<and> process_work_step s' = 0)
    (send_run NT26E (asc ''p'') (replicate 1602 (True, True, False)) (sample_send, quiet_flags, sample_device 8 []))"
  by (rule publish_terminates) (simp_all add: sample_send_def)


end
