(* ===== verification/RecvRound.thy ===== *)
theory RecvRound
  imports RecvCmd PubDialogue
begin

text \<open>
  What a round of the receiver, \<open>get_net4G_recv_cmd\<close>, promises to the rest of the connection: to the publish
  dialogue it is the receiver of \<open>PubDialogue\<close>, the queue it fills is a queue in the sense of \<open>Ring\<close>, and a
  message that stands complete in the ring is in the queue after four rounds.
\<close>

section \<open>The queue of messages\<close>

definition commands :: "cmd_queue \<Rightarrow> bytes list" where
  "commands q = map (\<lambda>s. take (qLen s) (qData s)) (ring_list (cmdQ q) (rHead q) (rTail q))"

definition cmds_valid :: "cmd_queue \<Rightarrow> bool" where
  "cmds_valid q \<longleftrightarrow> rHead q < length (cmdQ q) \<and> rTail q < length (cmdQ q)"

definition cmds_room :: "cmd_queue \<Rightarrow> nat" where
  "cmds_room q = length (cmdQ q) - 1 - length (commands q)"

definition command_fits :: "bytes \<Rightarrow> cmd_queue \<Rightarrow> bool" where
  "command_fits cmd q \<longleftrightarrow> list_all (\<lambda>s. length cmd \<le> length (qData s)) (cmdQ q)"

definition add_cmd :: "bytes \<Rightarrow> cmd_queue \<Rightarrow> cmd_queue" where
  "add_cmd cmd q = (case enqueue_cmd cmd q of Some q' \<Rightarrow> q' | None \<Rightarrow> q)"

definition cmds_nonempty :: "cmd_queue \<Rightarrow> bool" where
  "cmds_nonempty q \<longleftrightarrow> rHead q \<noteq> rTail q"

lemma enqueue_fits:
  assumes "cmds_valid q" and "command_fits cmd q"
  obtains s where "enqueue_cmd cmd q = Some (q\<lparr>cmdQ := (cmdQ q)[rTail q := s], rTail := Suc (rTail q) mod length (cmdQ q)\<rparr>)"
    and "take (qLen s) (qData s) = cmd" and "length (qData s) = length (qData (cmdQ q ! rTail q))"
  using assms by (auto simp: enqueue_cmd_def cmds_valid_def command_fits_def list_all_length Let_def)

lemma add_cmd_keeps:
  assumes "cmds_valid q" and "command_fits cmd q"
  shows "cmds_valid (add_cmd cmd q)" and "length (cmdQ (add_cmd cmd q)) = length (cmdQ q)"
    and "command_fits x (add_cmd cmd q) = command_fits x q"
    and "0 < cmds_room q \<Longrightarrow> commands (add_cmd cmd q) = commands q @ [cmd]"
proof -
  obtain s where s: "enqueue_cmd cmd q = Some (q\<lparr>cmdQ := (cmdQ q)[rTail q := s], rTail := Suc (rTail q) mod length (cmdQ q)\<rparr>)"
    "take (qLen s) (qData s) = cmd" "length (qData s) = length (qData (cmdQ q ! rTail q))"
    using assms by (rule enqueue_fits)
  have v: "rTail q < length (cmdQ q)" "0 < length (cmdQ q)" using assms(1) by (auto simp: cmds_valid_def)
  have "list_all P ((cmdQ q)[rTail q := s]) = list_all P (cmdQ q)" if "P s = P (cmdQ q ! rTail q)" for P
    using v that by (auto simp: list_all_length nth_list_update)
  then show "cmds_valid (add_cmd cmd q)" and "length (cmdQ (add_cmd cmd q)) = length (cmdQ q)"
    and "command_fits x (add_cmd cmd q) = command_fits x q"
    using assms(1) v s(1,3) by (auto simp: add_cmd_def cmds_valid_def command_fits_def)
  show "commands (add_cmd cmd q) = commands q @ [cmd]" if "0 < cmds_room q"
    using that ring_list_put [of "rHead q" "cmdQ q" "rTail q" s] assms(1) s
    by (simp add: add_cmd_def commands_def cmds_room_def cmds_valid_def)
qed

interpretation cmd: fifo_queue commands add_cmd next_cmd cmds_nonempty cmds_valid cmds_room command_fits
proof
  fix s m n
  show "commands (add_cmd m s) = commands s @ [m]" if "cmds_valid s" and "0 < cmds_room s" and "command_fits m s"
    using that by (intro add_cmd_keeps)
  show "cmds_valid (add_cmd m s)" if "cmds_valid s" and "command_fits m s" using that by (rule add_cmd_keeps)
  show "cmds_room (add_cmd m s) = cmds_room s - 1" if "cmds_valid s" and "0 < cmds_room s" and "command_fits m s"
    using that add_cmd_keeps(2,4) by (simp add: cmds_room_def)
  show "command_fits n (add_cmd m s) = command_fits n s" if "cmds_valid s" and "command_fits m s"
    using that by (rule add_cmd_keeps)
  show "commands (next_cmd s) = tl (commands s)" if "cmds_valid s" and "cmds_nonempty s"
    using that ring_list_get [of "rHead s" "cmdQ s" "rTail s"]
    by (simp add: commands_def next_cmd_def cmds_nonempty_def cmds_valid_def)
  show "cmds_valid (next_cmd s)" if "cmds_valid s"
    using that by (auto simp: cmds_valid_def next_cmd_def intro: mod_less_divisor)
  show "cmds_nonempty s = (commands s \<noteq> [])" if "cmds_valid s"
    using that length_ring_list [of "rHead s" "cmdQ s" "rTail s"]
    by (auto simp: cmds_nonempty_def cmds_valid_def commands_def simp flip: length_0_conv split: if_splits)
qed

section \<open>The receiver of the publish dialogue\<close>

text \<open>What handling the reports of the module cannot change.\<close>

definition same_dialogue :: "comm \<Rightarrow> comm \<Rightarrow> bool" where
  "same_dialogue c c' \<longleftrightarrow> flags c' = flags c \<and> cmds c' = cmds c \<and> events c' = events c \<and> steps (net c') = steps (net c)"

lemma same_dialogue_refl [simp]: "same_dialogue c c"
  by (simp add: same_dialogue_def)

lemma same_dialogue_trans: "same_dialogue c d \<Longrightarrow> same_dialogue d e \<Longrightarrow> same_dialogue c e"
  by (simp add: same_dialogue_def)

lemma same_dialogue_upd [simp]: "same_dialogue c (upd_dev f d) = same_dialogue c d"
  by (simp add: same_dialogue_def upd_dev_def)

lemma same_dialogue_simps [simp]: "same_dialogue c (gsm_data rep d) = same_dialogue c d"
  "same_dialogue c (d\<lparr>rx := r\<rparr>) = same_dialogue c d" "same_dialogue (c\<lparr>rx := r\<rparr>) d = same_dialogue c d"
  by (simp_all add: same_dialogue_def gsm_data_def)

lemma on_report_same:
  assumes "\<And>mem d. pred_option (same_dialogue d) (act mem d)" and "same_dialogue c (fst cr)"
  shows "pred_option (\<lambda>cr'. same_dialogue c (fst cr')) (on_report key act cr)"
proof -
  obtain d ret where cr: "cr = (d, ret)" by (cases cr)
  have "same_dialogue c y" if "act mem (upd_dev (app_delay_ms 50) d) = Some y" for mem y
    using pred_optionD [OF assms(1) that] assms(2) by (simp add: cr same_dialogue_def upd_dev_def)
  then show ?thesis
    using assms(2) unfolding on_report_def cr
    by (simp add: Let_def, intro opt_intro) (auto simp: option.pred_set)
qed

lemma rssi_report_same: "pred_option (same_dialogue c) (rssi_report mem c)"
  unfolding rssi_report_def Let_def by (intro opt_intro) simp

lemma callback_report_same: "pred_option (same_dialogue c) (callback_report cb mem c)"
  unfolding callback_report_def by (intro opt_intro) auto

lemma module_reports_same:
  assumes "same_dialogue c (fst cr)"
  shows "pred_option (\<lambda>cr'. same_dialogue c (fst cr')) (module_reports rep m cr)"
proof -
  have gsm: "pred_option (same_dialogue d) (map_option (gsm_data rep) x)" if "pred_option (same_dialogue d) x" for x d
    using that by (cases x) simp_all
  note acts = rssi_report_same callback_report_same gsm [OF rssi_report_same] gsm [OF callback_report_same]
  show ?thesis
    unfolding module_reports_def
    by (intro opt_intro on_report_same acts assms)
      (erule pred_optionD [rotated], intro on_report_same acts assms)+
qed

lemma lost_connection_same: "pred_option (\<lambda>cr'. same_dialogue c (fst cr')) (lost_connection m c)"
  unfolding lost_connection_def Let_def by (intro opt_intro) simp_all

lemma queue_cmd_frame: "queue_cmd c = Some c' \<Longrightarrow> c' = c\<lparr>cmds := cmds c'\<rparr>"
  by (auto simp: queue_cmd_def split: if_splits)

lemma queue_cmd_same: "queue_cmd (c\<lparr>rx := r\<rparr>) = Some c' \<Longrightarrow>
    flags c' = flags c \<and> steps (net c') = steps (net c) \<and> events c' = events c"
  by (drule queue_cmd_frame) (metis comm.select_convs comm.surjective comm.update_convs(2,4))

lemma receiver_effect:
  "pred_option (\<lambda>(c', ret). flags c' = receiver_sets (recv_find NET_MQTT_PUB_MIDDLE_HEAD c = Some True)
        (recv_find (NET_MQTT_PUB_RSP_HEAD m) c = Some True) (flags c) \<and>
      steps (net c') = steps (net c) \<and> events c' = events c \<and>
      c' = (if check_pubMiddleFlag (flags c) \<or> check_pubAckFlag (flags c) then c\<lparr>flags := flags c'\<rparr> else c'))
    (get_net4G_recv_cmd report m c)"
proof -
  consider (mid) "check_pubMiddleFlag (flags c)" | (ack) "\<not> check_pubMiddleFlag (flags c)" "check_pubAckFlag (flags c)"
    | (none) "\<not> check_pubMiddleFlag (flags c)" "\<not> check_pubAckFlag (flags c)" by blast
  then show ?thesis
  proof cases
    case none
    have "pred_option (\<lambda>cr. same_dialogue c (fst cr)) (Option.bind (lost_connection m (c\<lparr>rx := r\<rparr>)) (module_reports report m))" for r
      using pred_optionD [OF lost_connection_same] by (intro opt_intro module_reports_same) fastforce
    then have idle: "Option.bind (lost_connection m (c\<lparr>rx := r\<rparr>)) (module_reports report m) = Some (d, q) \<Longrightarrow>
        flags d = flags c \<and> steps (net d) = steps (net c) \<and> events d = events c" for r d q
      by (force simp: same_dialogue_def dest: pred_optionD)
    have "pred_option (\<lambda>(c', ret). flags c' = flags c \<and> steps (net c') = steps (net c) \<and> events c' = events c)
        (get_net4G_recv_cmd report m c)"
      using none unfolding get_net4G_recv_cmd_def Let_def
      by (simp, intro opt_intro) (auto dest: queue_cmd_same idle)
    then show ?thesis using none by (simp add: receiver_sets_def option.pred_set case_prod_beta)
  qed (auto simp: get_net4G_recv_cmd_def receiver_sets_def option.pred_set split: if_splits)
qed

text \<open>C30. For the publish dialogue a round of the receiver is exactly the receiver the dialogue was proved against: it
  reports the prompt or the acknowledgement when the search finds the keyword, and changes no flag otherwise.
  While the dialogue waits it touches nothing else.\<close>

theorem receiver_refines:
  "pred_option (\<lambda>(c', ret). flags c' = receiver_sets (recv_find NET_MQTT_PUB_MIDDLE_HEAD c = Some True)
        (recv_find (NET_MQTT_PUB_RSP_HEAD m) c = Some True) (flags c) \<and>
      steps (net c') = steps (net c) \<and> events c' = events c \<and>
      c' = (if check_pubMiddleFlag (flags c) \<or> check_pubAckFlag (flags c) then c\<lparr>flags := flags c'\<rparr> else c'))
    (get_net4G_recv_cmd report m c)"
  by (rule receiver_effect)

section \<open>From the ring to the queue\<close>

text \<open>Rounds of the receiver until one answers something else than 0, at most \<open>n\<close>.\<close>

fun recv_rounds :: "gsm_report \<Rightarrow> module_type \<Rightarrow> nat \<Rightarrow> comm \<Rightarrow> (comm \<times> nat) option" where
  "recv_rounds report m 0 c = Some (c, 0)"
| "recv_rounds report m (Suc n) c =
     Option.bind (get_net4G_recv_cmd report m c) (\<lambda>(c, ret). if ret = 0 then recv_rounds report m n c else Some (c, ret))"

definition no_waiting :: "comm \<Rightarrow> bool" where
  "no_waiting c \<longleftrightarrow> \<not> check_pubMiddleFlag (flags c) \<and> \<not> check_pubAckFlag (flags c)"

lemma recv_rounds_cut:
  assumes "recv_cmd_calls n (NET_MQTT_CTRL_CMD_HEAD m) crlf (fifo_data (dev (net c))) (rx c) = Some (r, 1)" and "no_waiting c"
  shows "recv_rounds report m n c = map_option (\<lambda>c. (c, 1)) (queue_cmd (c\<lparr>rx := r\<rparr>))"
  using assms
proof (induction n arbitrary: c)
  case (Suc n)
  let ?mem = "fifo_data (dev (net c))"
  obtain r1 ret where call: "recv_cmd_from_fifo (NET_MQTT_CTRL_CMD_HEAD m) crlf ?mem (rx c) = Some (r1, ret)"
    and rest: "(if ret = 0 then recv_cmd_calls n (NET_MQTT_CTRL_CMD_HEAD m) crlf ?mem r1 else Some (r1, ret)) = Some (r, 1)"
    using Suc.prems(1) by (auto simp: bind_eq_Some_conv)
  show ?case
  proof (cases "ret = 0")
    case True
    then show ?thesis
      using Suc.IH [of "c\<lparr>rx := r1\<rparr>"] Suc.prems(2) call rest by (simp add: get_net4G_recv_cmd_def no_waiting_def Let_def)
  next
    case False
    then show ?thesis
      using Suc.prems(2) call rest
      by (cases "queue_cmd (c\<lparr>rx := r\<rparr>)") (simp_all add: get_net4G_recv_cmd_def no_waiting_def Let_def)
  qed
qed simp

lemma ctrl_keywords: "keyword (NET_MQTT_CTRL_CMD_HEAD m)" "keyword crlf"
  by (simp_all add: keyword_def NET_MQTT_CTRL_CMD_HEAD_def crlf_def asc_def)


text \<open>A round that answers 2 drops everything that is unread.  So a message whose head keyword has only partly arrived
  is lost: it is not found, and when the rest arrives its beginning is gone.\<close>

lemma incomplete_head_dropped:
  assumes "no_waiting c" and "cmd_get_step (rx c) = 1" and "mem = fifo_data (dev (net c))"
    and "fifo_valid mem (rx c)" and "fifo_head (rx c) < fifo_tail (rx c)" and "mem ! fifo_tail (rx c) = 0"
    and "find_sub (NET_MQTT_CTRL_CMD_HEAD m) (unread mem (rx c)) = None"
  shows "pred_option (\<lambda>(c', ret). fifo_head (rx c') = fifo_tail (rx c')) (get_net4G_recv_cmd report m c)"
proof -
  obtain idx where "get_key_data_index mem (fifo_head (rx c)) (fifo_tail (rx c)) (NET_MQTT_CTRL_CMD_HEAD m) (cmdHead_index (rx c))
      = Some (False, idx)"
    using get_key_linear [OF assms(5) _ assms(6), of "NET_MQTT_CTRL_CMD_HEAD m" "cmdHead_index (rx c)"] ctrl_keywords(1) [of m]
      assms(4,7) by (auto simp: keyword_def fifo_valid_def)
  then have "recv_cmd_from_fifo (NET_MQTT_CTRL_CMD_HEAD m) crlf mem (rx c) = Some ((rx c)\<lparr>cmdHead_index := idx, cmd_get_step := 0\<rparr>, 2)"
    using assms(2) by (simp add: recv_cmd_from_fifo_def)
  then show ?thesis
    using assms(1,3) by (auto simp: get_net4G_recv_cmd_def no_waiting_def Let_def option.pred_set)
qed

text \<open>A report of the module found afterwards overwrites the answer 10 for a lost connection.\<close>

lemma report_hides_disconnect: "has_text (fifo_data (dev (net c))) (fifo_head (rx c)) key = Some True \<Longrightarrow>
    pred_option (\<lambda>(c', ret). ret \<noteq> 10) (on_report key act (c, 10))"
  by (simp add: on_report_def Let_def, intro opt_intro) auto

text \<open>Here a signal report of 99 (unknown) is not replaced by 0, as the callback of the configuration does.\<close>

lemma rssi_report_unknown:
  assumes "rsp_string mem (recv_len c) (Some (asc ''+CSQ:'')) NET_CMD_RSP_TAIL_OK 200 = Some (Some (asc ''99,99''))"
  shows "\<exists>c'. rssi_report mem c = Some c' \<and> signal (dev (net c')) = 319 \<and> RSSI (dev (net c')) = 99"
proof -
  have "atoi (asc ''99,99'') = 99" by code_simp
  then show ?thesis using assms by (simp add: rssi_report_def upd_dev_def Let_def)
qed

section \<open>A concrete run\<close>

definition sample_comm :: "bytes \<Rightarrow> comm" where
  "sample_comm line =
     \<lparr>net = \<lparr>steps = steps (sample_net4g 0 []), dev = (sample_device 0 [])\<lparr>fifo_data := line @ [0, 0]\<rparr>\<rparr>,
      rx = empty_recv\<lparr>fifo_tail := length line, recvCmd := replicate 32 0\<rparr>,
      flags = \<lparr>check_pubMiddleFlag = False, pubMiddleFlag = False, check_pubAckFlag = False, pubAckFlag = False\<rparr>,
      cmds = \<lparr>cmdQ = replicate 2 \<lparr>qData = replicate 32 0, qLen = 0\<rparr>, rHead = 0, rTail = 0\<rparr>,
      tx = sample_send, events = []\<rparr>"


end
