(* ===== verification/CloudState.thy ===== *)
theory CloudState
  imports RecvRound
begin

text \<open>
  The state that the commands of the cloud work on, and their messages, as \<open>RspAnalyze\<close> of
  \<^verbatim>\<open>src/ql_application/App_XD/netlink/app_net4g.c\<close> uses them.  The message types, their decoders, the functions
  that queue the reports and the numbers behind \<open>SLOT_CMD_\<dots>\<close> are not in the sources: the decoders and the
  reports are parameters (\<open>cloud_msgs\<close>), the numbers are constructors.
\<close>

section \<open>State\<close>

datatype ota_type = UPDATE_MASTER_CTRL_MODULE | UPDATE_SLAVE_BOARD_MODULE | UPDATE_BT_MUSIC_MODULE | UPDATE_4G_BOARD

text \<open>\<open>g_ota_para_t\<close>.\<close>

record ota_para =
  otaType :: ota_type
  hardVer :: int
  ota_addr :: nat
  ota_url :: bytes
  ota_crc :: u32
  ota_size :: u32
  ota_ver :: bytes
  otaFlag :: nat

text \<open>
  What the commands use of \<open>g_deviceGlobalInfo\<close>, \<open>gSysInfo_struct\<close> and \<open>netWorkStatus\<close>, the buffers for the slots
  and the flags of a configuration command.  Arrays are lists of their size.
\<close>

record app =
  CloudopCode :: u32
  CloudTraceId :: int
  lengCheckTime :: "nat list"
  batLendingFlag :: u32
  DeviceNOPowerMode :: nat
  DeviceLowPowerMode :: nat
  BT_ADVstate :: nat
  BT_ToneVol :: nat
  BTpinCode :: bytes
  bleEnableFlag :: nat
  btToneVolume :: nat
  btName :: bytes
  wifiEnableFlag :: nat
  wifi_ssid :: bytes
  wifi_password :: bytes
  wifiConfigFlag :: u8
  wifi_remember :: nat
  isSaveFlash :: nat
  wifi_state :: nat
  net_type_4g :: bool
  cubbyHeaderInterval :: nat
  clientIdListBuf :: "int list"
  slotForbiddenFlag :: u32
  forbiddenSetFlag :: u8
  ConfigCommandFlag :: "nat list"
  pbCmdByteUartSendBuf :: "bytes list"
  nfcpwdUartSendBuf :: "bytes list"
  main_HardVer :: bytes
  ota :: ota_para

record cloud_state =
  com :: comm
  app :: app

section \<open>Messages\<close>

text \<open>Strings are their characters up to the terminator; arrays of a message are zeroed before it is decoded.\<close>

record header =
  opCode :: u32
  traceId :: int

datatype slot_cmd =
    SLOT_CMD_SINGLE_SLOT_INFO_CHECK_RSP | SLOT_CMD_PRE_OPEN_SLOT_LEND_CHECK_RSP | SLOT_CMD_OPEN_SLOT_RSP
  | SLOT_CMD_CANCEL_OPEN_SLOT_RSP | SLOT_CMD_FORCE_OPEN_SLOT_RSP | SLOT_CMD_READ_NFC_ENCIPHERED_DATA_RSP
  | SLOT_CMD_READ_NFC_PLAINTEXT_DATA_RSP | SLOT_CMD_READ_NFC_SUCCESS_PLAY_AUDIO | SLOT_CMD_READ_NFC_FAIL_PLAY_AUDIO
  | SLOT_CMD_SINGLE_SLAVE_INFO_CHECK_RSP | SLOT_CMD_ALL_SLOT_INFO_CHECK_RSP | SLOT_CMD_OTHER

text \<open>\<open>pbCmd\<close> and \<open>nfcpwd\<close>: the member \<open>size\<close>, which is not initialised when the field is missing, and the 100 bytes.\<close>

record SlotCommand = header +
  sc_command :: slot_cmd
  sc_addr :: int
  sc_slotId :: int
  sc_pbCmd :: "nat \<times> bytes"
  sc_nfcpwd :: "nat \<times> bytes"

record CubbyCommand = header +
  cc_command :: slot_cmd
  cc_addr :: int

record ConfigCommand = header +
  cfg_command :: nat
  has_deviceConfig :: bool
  dc_bleEnable :: nat
  dc_wifiEnable :: nat
  dc_ssid :: bytes
  dc_password :: bytes
  dc_remember :: nat
  dc_gsmActiveSubId :: nat
  dc_cubbyInterval :: nat
  dc_cubbyHeaderInterval :: nat
  dc_bleSpeakerVolume :: nat
  dc_bleSpeakerPairCode :: bytes
  dc_bleSpeakerBroadEnable :: nat
  dc_clientIdList :: bytes
  dc_bleSpeakerName :: bytes
  dc_cubbyDisable :: "(int \<times> bytes) list"

record DeviceCommand = header +
  dv_command :: nat

record Ota = header +
  om_command :: nat
  om_versionType :: bytes
  om_url :: bytes
  om_addr :: nat
  om_crc :: u32
  om_size :: u32
  om_version :: bytes
  om_hv :: bytes

record LowpowerCommand = header +
  lp_command :: nat
  lp_lowpower :: nat

text \<open>The reports, with their arguments after the kind of the report.\<close>

datatype report =
    DeviceConfigReport int nat | DeviceListReport int nat | DeviceDataReport int nat | DeviceVersionReport int nat nat
  | WiFiDataReport int nat | GsmDataReport int nat | GsmIntervalReport | BleDataReport int nat | LowPowerReport int nat
  | PingReport

text \<open>\<open>no_return\<close> is what a caller finds where a function ends without a value.\<close>

record cloud_msgs =
  decode_SlotCommand :: "bytes \<Rightarrow> SlotCommand option"
  decode_CubbyCommand :: "bytes \<Rightarrow> CubbyCommand option"
  decode_ConfigCommand :: "bytes \<Rightarrow> ConfigCommand option"
  decode_DeviceCommand :: "bytes \<Rightarrow> DeviceCommand option"
  decode_Ota :: "bytes \<Rightarrow> Ota option"
  decode_LowpowerCommand :: "bytes \<Rightarrow> LowpowerCommand option"
  publish_report :: "report \<Rightarrow> app \<Rightarrow> device \<Rightarrow> send \<Rightarrow> send"
  no_return :: nat

section \<open>Shared operations\<close>

text \<open>A handler: the new state and the answer of \<open>RspAnalyze\<close>; \<open>None\<close> is an access outside an array.\<close>

type_synonym cloud_result = "(cloud_state \<times> nat) option"

definition upd_app :: "(app \<Rightarrow> app) \<Rightarrow> cloud_state \<Rightarrow> cloud_state" where
  "upd_app f s = s\<lparr>app := f (app s)\<rparr>"

definition upd_device :: "(device \<Rightarrow> device) \<Rightarrow> cloud_state \<Rightarrow> cloud_state" where
  "upd_device f s = s\<lparr>com := upd_dev f (com s)\<rparr>"

definition emit :: "event list \<Rightarrow> cloud_state \<Rightarrow> cloud_state" where
  "emit es s = s\<lparr>com := (com s)\<lparr>events := events (com s) @ es\<rparr>\<rparr>"

definition report :: "cloud_msgs \<Rightarrow> report \<Rightarrow> cloud_state \<Rightarrow> cloud_state" where
  "report env r s = s\<lparr>com := (com s)\<lparr>tx := publish_report env r (app s) (dev (net (com s))) (tx (com s))\<rparr>\<rparr>"

text \<open>
  The check that a command is new: its number has to exceed the last one, unless that is \<open>0xFFFFFFFF\<close>.
\<close>

definition accept_opCode :: "u32 \<Rightarrow> app \<Rightarrow> app option" where
  "accept_opCode op a =
     (if CloudopCode a < op then Some (a\<lparr>CloudopCode := op\<rparr>)
      else if op < CloudopCode a \<and> CloudopCode a = 0xFFFFFFFF then Some (a\<lparr>CloudopCode := op\<rparr>) else None)"

definition note_opCode :: "u32 \<Rightarrow> app \<Rightarrow> app" where
  "note_opCode op a = (case accept_opCode op a of None \<Rightarrow> a | Some a \<Rightarrow> a)"

definition note_traceId :: "int \<Rightarrow> app \<Rightarrow> app" where
  "note_traceId t a = (if 0 \<le> t \<and> t \<le> 0xFFFF then a\<lparr>CloudTraceId := t\<rparr> else a)"

definition valid_traceId :: "int \<Rightarrow> int" where
  "valid_traceId t = (if 0 \<le> t \<and> t \<le> 0xFFFF then t else 0)"

text \<open>\<open>memset\<close> of an array and \<open>memcpy\<close> of a string to it.\<close>

definition put_array :: "bytes \<Rightarrow> bytes \<Rightarrow> bytes option" where
  "put_array dst s = (if length s \<le> length dst then Some (s @ replicate (length dst - length s) 0) else None)"

text \<open>\<open>strcmp(s, t) >= 0\<close> on strings, with characters as unsigned.\<close>

fun strcmp_ge :: "bytes \<Rightarrow> bytes \<Rightarrow> bool" where
  "strcmp_ge s [] = True"
| "strcmp_ge [] (d # t) = False"
| "strcmp_ge (c # s) (d # t) = (if c = d then strcmp_ge s t else d < c)"

section \<open>A concrete state, and messages of which only one is known\<close>

definition sample_msgs :: cloud_msgs where
  "sample_msgs =
     \<lparr>decode_SlotCommand = \<lambda>_. None,
      decode_CubbyCommand = \<lambda>d. if d = [1] then Some \<lparr>opCode = 8, traceId = 1, cc_command = SLOT_CMD_ALL_SLOT_INFO_CHECK_RSP, cc_addr = 1\<rparr> else None,
      decode_ConfigCommand = \<lambda>_. None, decode_DeviceCommand = \<lambda>_. None, decode_Ota = \<lambda>_. None,
      decode_LowpowerCommand = \<lambda>_. None, publish_report = \<lambda>_ _ _ s. s, no_return = 0\<rparr>"

definition sample_app :: app where
  "sample_app =
     \<lparr>CloudopCode = 7, CloudTraceId = 0, lengCheckTime = replicate 24 5, batLendingFlag = 0, DeviceNOPowerMode = 0,
      DeviceLowPowerMode = 0, BT_ADVstate = 0, BT_ToneVol = 50, BTpinCode = replicate 8 0x31, bleEnableFlag = 0,
      btToneVolume = 50, btName = replicate 32 0, wifiEnableFlag = 0, wifi_ssid = replicate 33 0,
      wifi_password = replicate 64 0x70, wifiConfigFlag = 0, wifi_remember = 0, isSaveFlash = 0, wifi_state = 0,
      net_type_4g = False, cubbyHeaderInterval = 0, clientIdListBuf = replicate 10 99, slotForbiddenFlag = 3,
      forbiddenSetFlag = 0, ConfigCommandFlag = replicate 20 0, pbCmdByteUartSendBuf = replicate 24 (replicate 21 0),
      nfcpwdUartSendBuf = replicate 24 (replicate 21 0), main_HardVer = asc ''12'',
      ota = \<lparr>otaType = UPDATE_4G_BOARD, hardVer = 12, ota_addr = 0, ota_url = replicate 40 0, ota_crc = 0, ota_size = 0,
             ota_ver = replicate 12 0, otaFlag = 0\<rparr>\<rparr>"

definition sample_cloud :: cloud_state where
  "sample_cloud = \<lparr>com = sample_comm [], app = sample_app\<rparr>"

lemma sample_cloud_simps [simp]: "app sample_cloud = sample_app" "com sample_cloud = sample_comm []"
  by (simp_all add: sample_cloud_def)

end
