(* ===== verification/CloudSlot.thy ===== *)
theory CloudSlot
  imports CloudState
begin

text \<open>
  The commands for one slot and for one cubby: the branches \<open>command/slot\<close> and \<open>command/cubby\<close> of \<open>RspAnalyze\<close> in
  \<^verbatim>\<open>src/ql_application/App_XD/netlink/app_net4g.c\<close>.  What a slot is to be told is left in its rows of
  \<open>pbCmdByteUartSendBuf\<close> and \<open>nfcpwdUartSendBuf\<close>, and an event tells the task of the slots to send it.
\<close>

section \<open>Model\<close>

definition slot_index :: "SlotCommand \<Rightarrow> int" where
  "slot_index msg = (sc_addr msg - 1) * 6 + sc_slotId msg - 1"

text \<open>A row of a buffer changed by \<open>f\<close>; the row has to exist.\<close>

definition at_row :: "int \<Rightarrow> (bytes \<Rightarrow> bytes option) \<Rightarrow> bytes list \<Rightarrow> bytes list option" where
  "at_row i f buf =
     (if 0 \<le> i \<and> nat i < length buf then map_option (\<lambda>r. buf[nat i := r]) (f (buf ! nat i)) else None)"

definition clear_row :: "bytes \<Rightarrow> bytes option" where
  "clear_row r = (if 21 \<le> length r then Some (blit r 0 (replicate 21 0)) else None)"

text \<open>Fewer than 21 bytes are written to the row behind their number; more are ignored.\<close>

definition fill_row :: "nat \<times> bytes \<Rightarrow> bytes \<Rightarrow> bytes option" where
  "fill_row = (\<lambda>(n, bs) r.
     if n < 21 then (if length bs < n \<or> length r < Suc n then None else Some (blit r 0 (of_nat n # take n bs))) else Some r)"

definition cancel_lend :: "int \<Rightarrow> app \<Rightarrow> app option" where
  "cancel_lend i a =
     (let DeviceSlotId = unat (word_of_int i :: u8) in
      if 32 \<le> DeviceSlotId then None
      else map_option (\<lambda>times. a\<lparr>lengCheckTime := times,
                                batLendingFlag := batLendingFlag a AND NOT (push_bit DeviceSlotId 1)\<rparr>)
             (store (lengCheckTime a) DeviceSlotId 0))"

definition slot_action :: "SlotCommand \<Rightarrow> cloud_state \<Rightarrow> cloud_state option" where
  "slot_action msg s =
     (let i = slot_index msg in
      case sc_command msg of
        SLOT_CMD_SINGLE_SLOT_INFO_CHECK_RSP \<Rightarrow> Some (emit [NODE_EVENT i NODE_SINGLE_SLOT_UP_EVT] s)
      | SLOT_CMD_PRE_OPEN_SLOT_LEND_CHECK_RSP \<Rightarrow> Some (emit [NODE_EVENT i NODE_LEND_CHECK_EVT] s)
      | SLOT_CMD_OPEN_SLOT_RSP \<Rightarrow> Some (emit [NODE_EVENT i NODE_LEND_OPEN_EVT] s)
      | SLOT_CMD_CANCEL_OPEN_SLOT_RSP \<Rightarrow> map_option (\<lambda>a. s\<lparr>app := a\<rparr>) (cancel_lend i (app s))
      | SLOT_CMD_FORCE_OPEN_SLOT_RSP \<Rightarrow> Some (emit [NODE_EVENT i NODE_FORCE_OPEN_EVT] s)
      | SLOT_CMD_READ_NFC_ENCIPHERED_DATA_RSP \<Rightarrow> Some (emit [NODE_EVENT i NODE_RAD_NFC_ENCIPHERED_DATA_EVT] s)
      | SLOT_CMD_READ_NFC_PLAINTEXT_DATA_RSP \<Rightarrow> Some (emit [NODE_EVENT i NODE_RAD_NFC_PLAINTEXT_DATA_EVT] s)
      | SLOT_CMD_READ_NFC_SUCCESS_PLAY_AUDIO \<Rightarrow> Some (emit [PLAY_TONE 0x40 0x04] s)
      | SLOT_CMD_READ_NFC_FAIL_PLAY_AUDIO \<Rightarrow> Some (emit [PLAY_TONE 0x40 0x05, PLAY_TONE 0x40 0x07] s)
      | _ \<Rightarrow> Some s)"

text \<open>The rows are cleared before the number of the command is checked.\<close>

definition slot_rows :: "(bytes \<Rightarrow> bytes option) \<Rightarrow> (bytes \<Rightarrow> bytes option) \<Rightarrow> SlotCommand \<Rightarrow> app \<Rightarrow> app option" where
  "slot_rows f g msg a =
     Option.bind (at_row (slot_index msg) f (pbCmdByteUartSendBuf a)) (\<lambda>p.
     map_option (\<lambda>n. a\<lparr>pbCmdByteUartSendBuf := p, nfcpwdUartSendBuf := n\<rparr>)
       (at_row (slot_index msg) g (nfcpwdUartSendBuf a)))"

definition slot_command :: "SlotCommand \<Rightarrow> cloud_state \<Rightarrow> cloud_result" where
  "slot_command msg s =
     Option.bind (slot_rows clear_row clear_row msg (app s)) (\<lambda>a.
     case accept_opCode (opCode msg) a of None \<Rightarrow> Some (s\<lparr>app := a\<rparr>, 0)
     | Some a \<Rightarrow>
         Option.bind (slot_rows (fill_row (sc_pbCmd msg)) (fill_row (sc_nfcpwd msg)) msg (note_traceId (traceId msg) a)) (\<lambda>a.
         map_option (\<lambda>s. (s, 0)) (slot_action msg (s\<lparr>app := a\<rparr>))))"

definition cubby_command :: "CubbyCommand \<Rightarrow> cloud_state \<Rightarrow> cloud_state" where
  "cubby_command msg s =
     (case accept_opCode (opCode msg) (app s) of None \<Rightarrow> s
      | Some a \<Rightarrow>
          let s = s\<lparr>app := note_traceId (traceId msg) a\<rparr> in
          if cc_command msg = SLOT_CMD_SINGLE_SLAVE_INFO_CHECK_RSP
          then emit [NODE_EVENT (cc_addr msg - 1) NODE_SINGLE_CUBBY_UP_EVT] s
          else if cc_command msg = SLOT_CMD_ALL_SLOT_INFO_CHECK_RSP then emit [NODE_EVENT 0xFF NODE_ALL_SLOT_UP_EVT] s
          else s)"

section \<open>The number of a command\<close>

lemma accept_opCode_Some:
  "accept_opCode op a = Some b \<longleftrightarrow> b = a\<lparr>CloudopCode := op\<rparr> \<and>
    (CloudopCode a < op \<or> op < CloudopCode a \<and> CloudopCode a = 0xFFFFFFFF)"
  by (auto simp: accept_opCode_def)

lemma accept_opCode_None:
  "accept_opCode op a = None \<longleftrightarrow> op \<le> CloudopCode a \<and> (op < CloudopCode a \<longrightarrow> CloudopCode a \<noteq> 0xFFFFFFFF)"
  by (auto simp: accept_opCode_def)

text \<open>After a command was accepted, the same one is refused.\<close>

lemma accept_opCode_again: "accept_opCode op a = Some b \<Longrightarrow> CloudopCode c = CloudopCode b \<Longrightarrow> accept_opCode op c = None"
  by (auto simp: accept_opCode_Some accept_opCode_None)

lemma note_traceId_simps [simp]: "CloudopCode (note_traceId t a) = CloudopCode a"
  "pbCmdByteUartSendBuf (note_traceId t a) = pbCmdByteUartSendBuf a"
  "nfcpwdUartSendBuf (note_traceId t a) = nfcpwdUartSendBuf a"
  by (simp_all add: note_traceId_def)

section \<open>The rows of a slot\<close>

lemma at_row_Some:
  "at_row i f buf = Some buf' \<longleftrightarrow>
    0 \<le> i \<and> nat i < length buf \<and> (\<exists>r. f (buf ! nat i) = Some r \<and> buf' = buf[nat i := r])"
  by (auto simp: at_row_def)

lemma clear_row_Some: "clear_row r = Some r' \<longleftrightarrow> 21 \<le> length r \<and> r' = replicate 21 0 @ drop 21 r"
  by (auto simp: clear_row_def blit_def)

text \<open>What a row holds after it was cleared and filled.\<close>

definition row_of :: "nat \<times> bytes \<Rightarrow> bytes" where
  "row_of = (\<lambda>(n, bs). if n < 21 then of_nat n # take n bs @ replicate (20 - n) 0 else replicate 21 0)"

lemma fill_cleared:
  assumes "21 \<le> length r" and "fst nb < 21 \<Longrightarrow> fst nb \<le> length (snd nb)"
  shows "fill_row nb (replicate 21 0 @ drop 21 r) = Some (row_of nb @ drop 21 r)"
proof -
  obtain n bs where nb: "nb = (n, bs)" by (cases nb)
  show ?thesis
  proof (cases "n < 21")
    case True
    then have "replicate 21 (0 :: u8) = replicate (Suc n) 0 @ replicate (20 - n) 0"
      by (simp add: replicate_add [symmetric] del: replicate_Suc)
    then show ?thesis using True assms by (simp add: fill_row_def row_of_def nb blit_def min_def)
  qed (simp add: fill_row_def row_of_def nb)
qed

lemma slot_rows_Some:
  "slot_rows f g msg a = Some b \<longleftrightarrow>
    (\<exists>p n. at_row (slot_index msg) f (pbCmdByteUartSendBuf a) = Some p \<and>
      at_row (slot_index msg) g (nfcpwdUartSendBuf a) = Some n \<and>
      b = a\<lparr>pbCmdByteUartSendBuf := p, nfcpwdUartSendBuf := n\<rparr>)"
  by (auto simp: slot_rows_def bind_eq_Some_conv)

definition rows_ok :: "app \<Rightarrow> bool" where
  "rows_ok a \<longleftrightarrow> list_all (\<lambda>r. 21 \<le> length r) (pbCmdByteUartSendBuf a) \<and>
     list_all (\<lambda>r. 21 \<le> length r) (nfcpwdUartSendBuf a) \<and>
     length (nfcpwdUartSendBuf a) = length (pbCmdByteUartSendBuf a)"

text \<open>The slot of a message exists; the number of its bytes is known.\<close>

definition slot_in_range :: "SlotCommand \<Rightarrow> app \<Rightarrow> bool" where
  "slot_in_range msg a \<longleftrightarrow> 0 \<le> slot_index msg \<and> nat (slot_index msg) < length (pbCmdByteUartSendBuf a)"

definition bytes_known :: "nat \<times> bytes \<Rightarrow> bool" where
  "bytes_known = (\<lambda>(n, bs). n < 21 \<longrightarrow> n \<le> length bs)"

lemma cleared_rows:
  assumes "rows_ok a" and "slot_in_range msg a" and "i = nat (slot_index msg)"
  shows "slot_rows clear_row clear_row msg a
    = Some (a\<lparr>pbCmdByteUartSendBuf := (pbCmdByteUartSendBuf a)[i := replicate 21 0 @ drop 21 (pbCmdByteUartSendBuf a ! i)],
              nfcpwdUartSendBuf := (nfcpwdUartSendBuf a)[i := replicate 21 0 @ drop 21 (nfcpwdUartSendBuf a ! i)]\<rparr>)"
  using assms by (auto simp: slot_rows_Some at_row_Some clear_row_Some rows_ok_def slot_in_range_def list_all_length)

lemma filled_rows:
  assumes "rows_ok a" and "slot_in_range msg a" and "i = nat (slot_index msg)"
    and "bytes_known (sc_pbCmd msg)" and "bytes_known (sc_nfcpwd msg)"
    and "pbCmdByteUartSendBuf c = (pbCmdByteUartSendBuf a)[i := replicate 21 0 @ drop 21 (pbCmdByteUartSendBuf a ! i)]"
    and "nfcpwdUartSendBuf c = (nfcpwdUartSendBuf a)[i := replicate 21 0 @ drop 21 (nfcpwdUartSendBuf a ! i)]"
  shows "slot_rows (fill_row (sc_pbCmd msg)) (fill_row (sc_nfcpwd msg)) msg c
    = Some (c\<lparr>pbCmdByteUartSendBuf := (pbCmdByteUartSendBuf a)[i := row_of (sc_pbCmd msg) @ drop 21 (pbCmdByteUartSendBuf a ! i)],
              nfcpwdUartSendBuf := (nfcpwdUartSendBuf a)[i := row_of (sc_nfcpwd msg) @ drop 21 (nfcpwdUartSendBuf a ! i)]\<rparr>)"
  using assms fill_cleared
  by (auto simp: slot_rows_Some at_row_Some rows_ok_def slot_in_range_def list_all_length bytes_known_def)

section \<open>Commands for a slot\<close>

text \<open>What a handler never changes when it refuses a command.\<close>

lemma slot_command_refused:
  assumes "accept_opCode (opCode msg) (app s) = None"
  shows "pred_option (\<lambda>(s', ret). ret = 0 \<and> com s' = com s \<and> CloudopCode (app s') = CloudopCode (app s)) (slot_command msg s)"
proof -
  have "accept_opCode (opCode msg) a = None" if "slot_rows clear_row clear_row msg (app s) = Some a" for a
    using that assms by (auto simp: slot_rows_Some accept_opCode_None)
  then show ?thesis
    unfolding slot_command_def by (intro opt_intro) (auto simp: slot_rows_Some option.pred_set)
qed

lemma cubby_command_refused: "accept_opCode (opCode msg) (app s) = None \<Longrightarrow> cubby_command msg s = s"
  by (simp add: cubby_command_def)

text \<open>C14. A new command to open a slot reaches exactly that slot: its row of the command buffer starts with the number of
  bytes and the bytes themselves, every other row is untouched, the number of the command is stored, and the
  only event is the one that makes the task of the slots send it.\<close>

theorem slot_command_delivers:
  assumes "rows_ok (app s)" and "slot_in_range msg (app s)" and "i = nat (slot_index msg)"
    and "sc_pbCmd msg = (n, bs)" and "n < 21" and "n \<le> length bs" and "bytes_known (sc_nfcpwd msg)"
    and "CloudopCode (app s) < opCode msg" and "sc_command msg = SLOT_CMD_OPEN_SLOT_RSP"
  shows "\<exists>s'. slot_command msg s = Some (s', 0) \<and>
    take (Suc n) (pbCmdByteUartSendBuf (app s') ! i) = of_nat n # take n bs \<and>
    (\<forall>j. j \<noteq> i \<longrightarrow> pbCmdByteUartSendBuf (app s') ! j = pbCmdByteUartSendBuf (app s) ! j \<and>
                   nfcpwdUartSendBuf (app s') ! j = nfcpwdUartSendBuf (app s) ! j) \<and>
    CloudopCode (app s') = opCode msg \<and>
    com s' = (com s)\<lparr>events := events (com s) @ [NODE_EVENT (slot_index msg) NODE_LEND_OPEN_EVT]\<rparr>"
proof -
  let ?c = "note_traceId (traceId msg) ((app s)\<lparr>
    pbCmdByteUartSendBuf := (pbCmdByteUartSendBuf (app s))[i := replicate 21 0 @ drop 21 (pbCmdByteUartSendBuf (app s) ! i)],
    nfcpwdUartSendBuf := (nfcpwdUartSendBuf (app s))[i := replicate 21 0 @ drop 21 (nfcpwdUartSendBuf (app s) ! i)],
    CloudopCode := opCode msg\<rparr>)"
  have known: "bytes_known (sc_pbCmd msg)" using assms(4,6) by (simp add: bytes_known_def)
  have row: "take (Suc n) (row_of (sc_pbCmd msg) @ ys) = of_nat n # take n bs" for ys
    using assms(4-6) by (simp add: row_of_def)
  have i: "i < length (pbCmdByteUartSendBuf (app s))" using assms(2,3) by (simp add: slot_in_range_def)
  have run: "slot_command msg s = map_option (\<lambda>s. (s, 0)) (slot_action msg (s\<lparr>app := ?c\<lparr>
      pbCmdByteUartSendBuf := (pbCmdByteUartSendBuf (app s))[i := row_of (sc_pbCmd msg) @ drop 21 (pbCmdByteUartSendBuf (app s) ! i)],
      nfcpwdUartSendBuf := (nfcpwdUartSendBuf (app s))[i := row_of (sc_nfcpwd msg) @ drop 21 (nfcpwdUartSendBuf (app s) ! i)]\<rparr>\<rparr>))"
    using cleared_rows [OF assms(1-3)] filled_rows [OF assms(1-3) known assms(7), of ?c] assms(8)
    by (simp add: slot_command_def accept_opCode_def)
  show ?thesis
    unfolding run using assms(9) row i
    by (simp add: slot_action_def emit_def Let_def del: take_Suc_Cons take_append)
qed

text \<open>A refused command has still emptied the rows: what was left there for the slot and not yet sent is lost.\<close>

lemma slot_command_refused_clears:
  assumes "rows_ok (app s)" and "slot_in_range msg (app s)" and "accept_opCode (opCode msg) (app s) = None"
  shows "\<exists>s'. slot_command msg s = Some (s', 0) \<and>
    take 21 (pbCmdByteUartSendBuf (app s') ! nat (slot_index msg)) = replicate 21 0"
proof -
  have "accept_opCode (opCode msg) b = None" if "CloudopCode b = CloudopCode (app s)" for b
    using that assms(3) by (simp add: accept_opCode_None)
  then show ?thesis
    using cleared_rows [OF assms(1,2) refl] assms(2) by (simp add: slot_command_def slot_in_range_def)
qed

text \<open>A message for a slot that does not exist reaches outside the buffers before anything is checked.\<close>

lemma slot_command_out_of_range: "\<not> slot_in_range msg (app s) \<Longrightarrow> slot_command msg s = None"
  by (auto simp: slot_command_def slot_rows_def at_row_def slot_in_range_def)

text \<open>Taking back a loan clears the flag of this slot and no other.\<close>

lemma cancel_lend_bit:
  assumes "cancel_lend i a = Some b" and "0 \<le> i" and "i < 256" and "j < 32"
  shows "bit (batLendingFlag b) j \<longleftrightarrow> bit (batLendingFlag a) j \<and> j \<noteq> nat i"
proof -
  have "unat (word_of_int i :: u8) = nat i"
    using unat_of_nat_u8 [of "nat i"] assms(2,3) by simp
  then show ?thesis
    using assms(1,4) by (auto simp: cancel_lend_def Let_def bit_simps split: if_splits)
qed

theorem slot_command_delivers_witness:
  "\<exists>s'. slot_command \<lparr>opCode = 8, traceId = 1, sc_command = SLOT_CMD_OPEN_SLOT_RSP, sc_addr = 2, sc_slotId = 3,
      sc_pbCmd = (2, [0xA5, 0x5A, 0]), sc_nfcpwd = (0, [])\<rparr> sample_cloud = Some (s', 0) \<and>
    take 3 (pbCmdByteUartSendBuf (app s') ! 8) = [2, 0xA5, 0x5A]"
proof -
  let ?msg = "\<lparr>opCode = 8, traceId = 1, sc_command = SLOT_CMD_OPEN_SLOT_RSP, sc_addr = 2, sc_slotId = 3,
      sc_pbCmd = (2, [0xA5, 0x5A, 0]), sc_nfcpwd = (0, [])\<rparr>"
  have ok: "rows_ok (app sample_cloud)" "slot_in_range ?msg (app sample_cloud)" "8 = nat (slot_index ?msg)"
    by (simp_all add: rows_ok_def slot_in_range_def slot_index_def sample_app_def list_all_iff)
  have "sc_pbCmd ?msg = (2, [0xA5, 0x5A, 0])" "bytes_known (sc_nfcpwd ?msg)" "CloudopCode (app sample_cloud) < opCode ?msg"
    "sc_command ?msg = SLOT_CMD_OPEN_SLOT_RSP"
    by (simp_all add: bytes_known_def sample_app_def)
  from slot_command_delivers [OF ok this(1) _ _ this(2-4)] obtain s' where "slot_command ?msg sample_cloud = Some (s', 0)"
    and "take (Suc 2) (pbCmdByteUartSendBuf (app s') ! 8) = of_nat 2 # take 2 [0xA5, 0x5A, 0]" by auto
  then show ?thesis by (auto simp: numeral_3_eq_3 numeral_2_eq_2)
qed

end
