(* ===== verification/CloudConfig.thy ===== *)
theory CloudConfig
  imports CloudSlot
begin

text \<open>
  The configuration commands: the branch \<open>command/config\<close> of \<open>RspAnalyze\<close> in
  \<^verbatim>\<open>src/ql_application/App_XD/netlink/app_net4g.c\<close>, one definition per item of the command.  \<open>ConfigCommandFlag\<close>
  records the command and which items it had, for the report that follows.
\<close>

section \<open>Model\<close>

text \<open>An item is set in \<open>ConfigCommandFlag\<close>; a handler works on the state and the answer so far.\<close>

definition set_flag :: "nat \<Rightarrow> cloud_state \<Rightarrow> cloud_state" where
  "set_flag i = upd_app (\<lambda>a. a\<lparr>ConfigCommandFlag := (ConfigCommandFlag a)[i := 1]\<rparr>)"

definition flag_if :: "bool \<Rightarrow> nat \<Rightarrow> cloud_state \<Rightarrow> cloud_state" where
  "flag_if b i s = (if b then set_flag i s else s)"

definition has_flag :: "cloud_state \<Rightarrow> nat \<Rightarrow> bool" where
  "has_flag s i \<longleftrightarrow> ConfigCommandFlag (app s) ! i = 1"

abbreviation QUERY :: bytes where "QUERY \<equiv> asc ''QUERY''"
abbreviation CLEAR :: bytes where "CLEAR \<equiv> asc ''CLEAR''"

text \<open>Command 25 asks for items: 9 or \<open>QUERY\<close>.\<close>

definition query_disable :: "ConfigCommand \<Rightarrow> bool" where
  "query_disable msg \<longleftrightarrow> 0 < length (dc_cubbyDisable msg) \<and> length (dc_cubbyDisable msg) \<le> 4 \<and>
     1 \<le> fst (dc_cubbyDisable msg ! 0) \<and> strcmp_ge (snd (dc_cubbyDisable msg ! 0)) QUERY"

definition config_query :: "ConfigCommand \<Rightarrow> cloud_state \<Rightarrow> cloud_state" where
  "config_query msg =
     flag_if (query_disable msg) 15 \<circ>
     flag_if (strcmp_ge (dc_bleSpeakerName msg) QUERY) 14 \<circ>
     flag_if (strcmp_ge (dc_clientIdList msg) QUERY) 13 \<circ>
     flag_if (dc_bleSpeakerBroadEnable msg = 9) 12 \<circ>
     flag_if (strcmp_ge (dc_bleSpeakerPairCode msg) QUERY) 11 \<circ>
     flag_if (dc_bleSpeakerVolume msg = 9) 10 \<circ>
     flag_if (dc_cubbyHeaderInterval msg = 9) 9 \<circ>
     flag_if (dc_cubbyInterval msg = 9) 8 \<circ>
     flag_if (dc_gsmActiveSubId msg = 9) 7 \<circ>
     flag_if (dc_remember msg = 9) 6 \<circ>
     flag_if (strcmp_ge (dc_password msg) QUERY) 5 \<circ>
     flag_if (strcmp_ge (dc_ssid msg) QUERY) 4 \<circ>
     flag_if (dc_wifiEnable msg = 9) 3 \<circ>
     flag_if (dc_bleEnable msg = 9) 2 \<circ> set_flag 1"

subsection \<open>Command 26 sets items\<close>

text \<open>A string is given when it is not empty, does not start with the byte \<open>0x0E\<close> and its second byte is not 0.\<close>

definition given :: "bytes \<Rightarrow> bool" where
  "given s \<longleftrightarrow> 2 \<le> length s \<and> s ! 0 \<noteq> 0x0E"

definition set_ble :: "ConfigCommand \<Rightarrow> cloud_state \<Rightarrow> cloud_state" where
  "set_ble msg s =
     (if dc_bleEnable msg = 1 then emit [BLE_ENABLE True] (upd_app (\<lambda>a. a\<lparr>bleEnableFlag := 1\<rparr>) (set_flag 2 s))
      else if dc_bleEnable msg = 2 then emit [BLE_ENABLE False] (upd_app (\<lambda>a. a\<lparr>bleEnableFlag := 0\<rparr>) (set_flag 2 s))
      else s)"

definition set_wifi_enable :: "ConfigCommand \<Rightarrow> cloud_state \<times> nat \<Rightarrow> cloud_state \<times> nat" where
  "set_wifi_enable msg = (\<lambda>(s, ret).
     if dc_wifiEnable msg = 1
     then (upd_app (\<lambda>a. a\<lparr>wifiEnableFlag := 1, wifi_state := (if wifi_state a \<noteq> 2 then 1 else wifi_state a)\<rparr>) (set_flag 3 s), 1)
     else if dc_wifiEnable msg = 2
     then (upd_app (\<lambda>a. a\<lparr>wifiEnableFlag := 0, wifi_state := 0\<rparr>) (set_flag 3 s), 2)
     else (s, ret))"

definition set_sim :: "ConfigCommand \<Rightarrow> cloud_state \<Rightarrow> cloud_state" where
  "set_sim msg s =
     (if dc_gsmActiveSubId msg = 1 \<or> dc_gsmActiveSubId msg = 2
      then upd_device (\<lambda>d. d\<lparr>first_sim := of_nat (dc_gsmActiveSubId msg)\<rparr>) (set_flag 7 s) else s)"

definition set_intervals :: "ConfigCommand \<Rightarrow> cloud_state \<Rightarrow> cloud_state" where
  "set_intervals msg s =
     (let s = (if dc_cubbyInterval msg \<noteq> 0
               then upd_device (\<lambda>d. d\<lparr>cubbyInterval := dc_cubbyInterval msg\<rparr>) (set_flag 8 s) else s)
      in if dc_cubbyHeaderInterval msg \<noteq> 0
         then upd_app (\<lambda>a. a\<lparr>cubbyHeaderInterval := dc_cubbyHeaderInterval msg\<rparr>) (set_flag 9 s) else s)"

definition set_speaker :: "ConfigCommand \<Rightarrow> cloud_state \<Rightarrow> cloud_state" where
  "set_speaker msg s =
     (let s = (if dc_bleSpeakerBroadEnable msg = 1 \<or> dc_bleSpeakerBroadEnable msg = 2
               then emit [NODE_EVENT 0 NODE_BT_CMD_BTMUSIC_ADV_SWITCH]
                      (upd_app (\<lambda>a. a\<lparr>BT_ADVstate := (if dc_bleSpeakerBroadEnable msg = 1 then 1 else 0)\<rparr>) (set_flag 12 s))
               else s)
      in if dc_bleSpeakerVolume msg \<noteq> 0
         then (if 1 \<le> dc_bleSpeakerVolume msg \<and> dc_bleSpeakerVolume msg \<le> 100
               then upd_app (\<lambda>a. a\<lparr>btToneVolume := dc_bleSpeakerVolume msg, BT_ToneVol := dc_bleSpeakerVolume msg\<rparr>) (set_flag 10 s)
               else set_flag 10 s)
         else s)"

definition set_name :: "ConfigCommand \<Rightarrow> cloud_state \<Rightarrow> cloud_state option" where
  "set_name msg s =
     (if given (dc_bleSpeakerName msg)
      then map_option (\<lambda>n. upd_app (\<lambda>a. a\<lparr>btName := n\<rparr>) (set_flag 14 s)) (put_array (btName (app s)) (dc_bleSpeakerName msg))
      else Some s)"

definition set_pair_code :: "ConfigCommand \<Rightarrow> cloud_state \<Rightarrow> cloud_state option" where
  "set_pair_code msg s =
     (if given (dc_bleSpeakerPairCode msg)
      then (if 4 \<le> length (dc_bleSpeakerPairCode msg)
            then map_option (\<lambda>c. emit [NODE_EVENT 0 NODE_BT_CMD_SET_BTPIN_CODE] (upd_app (\<lambda>a. a\<lparr>BTpinCode := c\<rparr>) (set_flag 11 s)))
                   (put_array (BTpinCode (app s)) (dc_bleSpeakerPairCode msg))
            else Some (set_flag 11 s))
      else Some s)"

definition set_clients :: "ConfigCommand \<Rightarrow> cloud_state \<Rightarrow> cloud_state option" where
  "set_clients msg s =
     (if given (dc_clientIdList msg)
      then map_option (\<lambda>(ids, _). emit [NODE_EVENT 0xFF NODE_CLIENT_ID_LIST_SET_EVT]
                                    (upd_app (\<lambda>a. a\<lparr>clientIdListBuf := ids\<rparr>) (set_flag 13 s)))
             (get_clientIdList_keywords_pb (dc_clientIdList msg @ [0]) 10 (clientIdListBuf (app s)))
      else Some s)"

text \<open>
  The slots of one cubby: \<open>1\<close> forbids a slot, \<open>2\<close> allows it.  Behind its terminator the array of the message is 0;
  a shift by a negative number or by the width of the word has no result.
\<close>

fun forbid_slots :: "int \<Rightarrow> bytes \<Rightarrow> nat list \<Rightarrow> u32 \<Rightarrow> u32 option" where
  "forbid_slots addr sd [] w = Some w"
| "forbid_slots addr sd (k # ks) w =
     (let c = (if k < length sd then sd ! k else 0); n = int k + (addr - 1) * 6 in
      if c = 0x31 \<or> c = 0x32
      then (if n < 0 \<or> 32 \<le> n then None
            else forbid_slots addr sd ks (if c = 0x31 then w OR push_bit (nat n) 1 else w AND NOT (push_bit (nat n) 1)))
      else forbid_slots addr sd ks w)"

fun forbid_cubbies :: "(int \<times> bytes) list \<Rightarrow> u32 \<Rightarrow> u32 option" where
  "forbid_cubbies [] w = Some w"
| "forbid_cubbies ((addr, sd) # xs) w =
     (if given sd then Option.bind (forbid_slots addr sd [0..<6] w) (forbid_cubbies xs) else forbid_cubbies xs w)"

definition set_forbidden :: "ConfigCommand \<Rightarrow> cloud_state \<Rightarrow> cloud_state option" where
  "set_forbidden msg s =
     (if 0 < length (dc_cubbyDisable msg) \<and> length (dc_cubbyDisable msg) \<le> 4
      then map_option (\<lambda>w. emit [NODE_EVENT 0xFF NODE_BAT_CHARGE_CTRL_EVT]
                            (upd_app (\<lambda>a. a\<lparr>slotForbiddenFlag := w, forbiddenSetFlag := 0xAA\<rparr>) (set_flag 15 s)))
             (forbid_cubbies (dc_cubbyDisable msg) (slotForbiddenFlag (app s)))
      else Some s)"

definition set_ssid :: "ConfigCommand \<Rightarrow> cloud_state \<times> nat \<Rightarrow> cloud_result" where
  "set_ssid msg = (\<lambda>(s, ret).
     if given (dc_ssid msg)
     then map_option (\<lambda>n.
            let s = upd_app (\<lambda>a. a\<lparr>wifi_password := replicate (length (wifi_password a)) 0, wifi_ssid := n, wifiConfigFlag := 0xAA\<rparr>)
                      (set_flag 4 s)
            in (s, if has_flag s 3 \<and> wifiEnableFlag (app s) = 1 then 7
                   else if has_flag s 3 \<and> wifiEnableFlag (app s) = 0 then 5 else 3))
            (put_array (wifi_ssid (app s)) (dc_ssid msg))
     else Some (s, ret))"

definition set_password :: "ConfigCommand \<Rightarrow> cloud_state \<times> nat \<Rightarrow> cloud_result" where
  "set_password msg = (\<lambda>(s, ret).
     if given (dc_password msg)
     then map_option (\<lambda>n.
            let s = upd_app (\<lambda>a. a\<lparr>wifi_password := n, wifiConfigFlag := 0xAA\<rparr>) (set_flag 5 s);
                on = (wifiEnableFlag (app s) = 1); off = (wifiEnableFlag (app s) = 0)
            in (s, if has_flag s 3 \<and> has_flag s 4 \<and> on then 9
                   else if has_flag s 3 \<and> has_flag s 4 \<and> off then 10
                   else if has_flag s 3 \<and> on then 8
                   else if has_flag s 3 \<and> off then 6 else 4))
            (put_array (wifi_password (app s)) (dc_password msg))
     else Some (s, ret))"

definition set_remember :: "ConfigCommand \<Rightarrow> cloud_state \<Rightarrow> cloud_state" where
  "set_remember msg s =
     (if dc_remember msg = 1 then upd_app (\<lambda>a. a\<lparr>wifi_remember := 1, isSaveFlash := 1\<rparr>) (set_flag 6 s)
      else if dc_remember msg = 2 then upd_app (\<lambda>a. a\<lparr>wifi_remember := 0, isSaveFlash := 0\<rparr>) (set_flag 6 s)
      else s)"

definition save_para :: "nat list \<Rightarrow> cloud_state \<Rightarrow> cloud_state" where
  "save_para is s =
     (if list_ex (has_flag s) is then upd_device (\<lambda>d. d\<lparr>para_flash_writes := para_flash_writes d + 1\<rparr>) s else s)"

definition config_set :: "ConfigCommand \<Rightarrow> cloud_state \<Rightarrow> cloud_result" where
  "config_set msg s =
     (let (s, ret) = set_wifi_enable msg (set_ble msg (set_flag 1 s), 0) in
      Option.bind (set_name msg (set_speaker msg (set_intervals msg (set_sim msg s)))) (\<lambda>s.
      Option.bind (set_pair_code msg s) (\<lambda>s.
      Option.bind (set_clients msg s) (\<lambda>s.
      Option.bind (set_forbidden msg s) (\<lambda>s.
      Option.bind (set_ssid msg (s, ret)) (\<lambda>sr.
      map_option (\<lambda>(s, ret). (save_para [2, 3, 4, 5, 6, 7, 8, 9, 10, 13, 14, 15] (set_remember msg s), ret))
        (set_password msg sr)))))))"

subsection \<open>Command 27 clears items\<close>

definition clear_ssid :: "ConfigCommand \<Rightarrow> cloud_state \<times> nat \<Rightarrow> cloud_state \<times> nat" where
  "clear_ssid msg = (\<lambda>(s, ret).
     if strcmp_ge (dc_ssid msg) CLEAR
     then (upd_app (\<lambda>a. a\<lparr>wifi_ssid := replicate (length (wifi_ssid a)) 0, wifiConfigFlag := 0\<rparr>) (set_flag 4 s), 11)
     else (s, ret))"

definition clear_password :: "ConfigCommand \<Rightarrow> cloud_state \<times> nat \<Rightarrow> cloud_state \<times> nat" where
  "clear_password msg = (\<lambda>(s, ret).
     if strcmp_ge (dc_password msg) CLEAR
     then let s = upd_app (\<lambda>a. a\<lparr>wifi_password := replicate (length (wifi_password a)) 0, wifiConfigFlag := 0\<rparr>) (set_flag 5 s)
          in (s, if has_flag s 4 then 13 else 12)
     else (s, ret))"

text \<open>The code \<open>2222\<close> is written and then erased with the whole array.\<close>

definition clear_pair_code :: "ConfigCommand \<Rightarrow> cloud_state \<Rightarrow> cloud_state option" where
  "clear_pair_code msg s =
     (if strcmp_ge (dc_bleSpeakerPairCode msg) CLEAR
      then (if length (BTpinCode (app s)) < 5 then None
            else Some (emit [NODE_EVENT 0 NODE_BT_CMD_SET_BTPIN_CODE, NODE_EVENT 0 NODE_BT_CMD_CLEAN_CONNECT_INFO]
                   (upd_app (\<lambda>a. let c = blit (BTpinCode a) 0 (asc ''2222'' @ [0]) in
                      a\<lparr>BTpinCode := replicate (length c) 0\<rparr>) (set_flag 11 s))))
      else Some s)"

definition clear_clients :: "ConfigCommand \<Rightarrow> cloud_state \<Rightarrow> cloud_state option" where
  "clear_clients msg s =
     (if strcmp_ge (dc_clientIdList msg) CLEAR
      then (if length (clientIdListBuf (app s)) < 10 then None
            else Some (emit [NODE_EVENT 0xFF NODE_CLIENT_ID_LIST_SET_EVT]
                   (upd_app (\<lambda>a. a\<lparr>clientIdListBuf := blit (clientIdListBuf a) 0 (replicate 10 99)\<rparr>) (set_flag 13 s))))
      else Some s)"

definition clear_name :: "ConfigCommand \<Rightarrow> cloud_state \<Rightarrow> cloud_state" where
  "clear_name msg s =
     (if strcmp_ge (dc_bleSpeakerName msg) CLEAR
      then upd_app (\<lambda>a. a\<lparr>btName := replicate (length (btName a)) 0\<rparr>) (set_flag 14 s) else s)"

definition clear_forbidden :: "ConfigCommand \<Rightarrow> cloud_state \<Rightarrow> cloud_state" where
  "clear_forbidden msg s =
     (if 0 < length (dc_cubbyDisable msg) \<and> length (dc_cubbyDisable msg) \<le> 4 \<and>
         0 < fst (dc_cubbyDisable msg ! 0) \<and> strcmp_ge (snd (dc_cubbyDisable msg ! 0)) CLEAR
      then emit [NODE_EVENT 0xFF NODE_BAT_CHARGE_CTRL_EVT]
             (upd_app (\<lambda>a. a\<lparr>slotForbiddenFlag := 0, forbiddenSetFlag := 0\<rparr>) (set_flag 15 s))
      else s)"

definition config_clear :: "ConfigCommand \<Rightarrow> cloud_state \<Rightarrow> cloud_result" where
  "config_clear msg s =
     (let (s, ret) = clear_password msg (clear_ssid msg (set_flag 1 s, 0)) in
      Option.bind (clear_pair_code msg s) (\<lambda>s.
      map_option (\<lambda>s. (save_para [4, 5, 13, 14, 15] (clear_forbidden msg (clear_name msg s)), ret)) (clear_clients msg s)))"

subsection \<open>The branch\<close>

text \<open>
  The flags are cleared and the command is noted.  Of an array with fewer than the 16 flags that are used the
  model says nothing.
\<close>

definition start_config :: "ConfigCommand \<Rightarrow> app \<Rightarrow> app option" where
  "start_config msg a =
     (let n = length (ConfigCommandFlag a) in
      if n < 16 then None
      else Some (a\<lparr>ConfigCommandFlag :=
             (if cfg_command msg \<in> {24, 25, 26, 27} then cfg_command msg # replicate (n - 1) 0 else replicate n 0)\<rparr>))"

definition config_report :: "cloud_msgs \<Rightarrow> ConfigCommand \<Rightarrow> cloud_state \<Rightarrow> cloud_state" where
  "config_report env msg = report env (DeviceConfigReport (valid_traceId (traceId msg)) (cfg_command msg))"

definition cloud_config_command :: "cloud_msgs \<Rightarrow> ConfigCommand \<Rightarrow> cloud_state \<Rightarrow> cloud_result" where
  "cloud_config_command env msg s =
     (case accept_opCode (opCode msg) (app s) of None \<Rightarrow> Some (s, 0)
      | Some a \<Rightarrow> Option.bind (start_config msg a) (\<lambda>a.
          let s = s\<lparr>app := a\<rparr>; done = map_option (\<lambda>(s, ret). (config_report env msg s, ret)) in
          if cfg_command msg = 24 then Some (config_report env msg s, 0)
          else if \<not> has_deviceConfig msg then Some (s, 0)
          else if cfg_command msg = 25 then Some (config_report env msg (config_query msg s), 0)
          else if cfg_command msg = 26 then done (config_set msg s)
          else if cfg_command msg = 27 then done (config_clear msg s)
          else Some (s, 0)))"

section \<open>Projections\<close>

lemma upd_app_simps [simp]: "app (upd_app f s) = f (app s)" "com (upd_app f s) = com s"
  by (simp_all add: upd_app_def)

lemma upd_device_simps [simp]: "app (upd_device f s) = app s"
  by (simp add: upd_device_def)

lemma emit_simps [simp]: "app (emit es s) = app s"
  by (simp add: emit_def)

lemma report_simps [simp]: "app (report env r s) = app s"
  by (simp add: report_def)

lemma flag_app [simp]: "slotForbiddenFlag (app (set_flag i s)) = slotForbiddenFlag (app s)"
  "wifiEnableFlag (app (set_flag i s)) = wifiEnableFlag (app s)"
  "wifi_ssid (app (set_flag i s)) = wifi_ssid (app s)" "wifi_password (app (set_flag i s)) = wifi_password (app s)"
  "wifiConfigFlag (app (set_flag i s)) = wifiConfigFlag (app s)"
  "CloudopCode (app (set_flag i s)) = CloudopCode (app s)"
  "length (ConfigCommandFlag (app (set_flag i s))) = length (ConfigCommandFlag (app s))"
  "com (set_flag i s) = com s"
  by (simp_all add: set_flag_def)

lemma has_flag_set [simp]:
  "i < length (ConfigCommandFlag (app s)) \<Longrightarrow> has_flag (set_flag j s) i \<longleftrightarrow> i = j \<or> has_flag s i"
  by (cases "i = j") (simp_all add: has_flag_def set_flag_def)

lemma has_flag_neq [simp]: "i \<noteq> j \<Longrightarrow> has_flag (set_flag j s) i = has_flag s i"
  by (simp add: has_flag_def set_flag_def)

lemma has_flag_app: "ConfigCommandFlag (app s) = ConfigCommandFlag (app t) \<Longrightarrow> has_flag s = has_flag t"
  by (rule ext) (simp add: has_flag_def)

lemma has_flag_keep [simp]: "has_flag (emit es s) = has_flag s" "has_flag (upd_device f s) = has_flag s"
  by (rule has_flag_app, simp)+

lemma has_flag_upd [simp]: "(\<And>a. ConfigCommandFlag (f a) = ConfigCommandFlag a) \<Longrightarrow> has_flag (upd_app f s) = has_flag s"
  by (rule has_flag_app) simp

section \<open>Slots that are forbidden\<close>

lemma forbid_slots_bit:
  assumes "forbid_slots addr sd ks w = Some w'" and "j < 32" and "distinct ks"
  shows "bit w' j = (if \<exists>k \<in> set ks. int j = int k + (addr - 1) * 6 \<and> k < length sd \<and> sd ! k = 0x31 then True
      else if \<exists>k \<in> set ks. int j = int k + (addr - 1) * 6 \<and> k < length sd \<and> sd ! k = 0x32 then False else bit w j)"
  using assms(1,3)
proof (induction ks arbitrary: w)
  case (Cons k ks)
  let ?n = "int k + (addr - 1) * 6" and ?c = "if k < length sd then sd ! k else 0"
  have other: "int j = ?n \<Longrightarrow> k' \<in> set ks \<Longrightarrow> int j \<noteq> int k' + (addr - 1) * 6" for k' using Cons.prems(2) by auto
  consider (one) "?c = 0x31" | (two) "?c = 0x32" | (neither) "?c \<noteq> 0x31" "?c \<noteq> 0x32" by blast
  then show ?case
  proof cases
    case neither
    then have "forbid_slots addr sd ks w = Some w'" using Cons.prems(1) by (simp add: Let_def)
    from Cons.IH [OF this] show ?thesis using neither Cons.prems(2) by (auto split: if_splits)
  next
    case one
    then have n: "0 \<le> ?n" "?n < 32" and run: "forbid_slots addr sd ks (w OR push_bit (nat ?n) 1) = Some w'"
      using Cons.prems(1) by (auto simp: Let_def split: if_splits)
    have "bit (w OR push_bit (nat ?n) 1) j \<longleftrightarrow> bit w j \<or> int j = ?n" using n assms(2) by (auto simp: bit_simps)
    with Cons.IH [OF run] show ?thesis using one Cons.prems(2) other by (auto split: if_splits)
  next
    case two
    then have n: "0 \<le> ?n" "?n < 32" and run: "forbid_slots addr sd ks (w AND NOT (push_bit (nat ?n) 1)) = Some w'"
      using Cons.prems(1) by (auto simp: Let_def split: if_splits)
    have "bit (w AND NOT (push_bit (nat ?n) 1)) j \<longleftrightarrow> bit w j \<and> int j \<noteq> ?n" using n assms(2) by (auto simp: bit_simps)
    with Cons.IH [OF run] show ?thesis using two Cons.prems(2) other by (auto split: if_splits)
  qed
qed simp

lemma forbid_slots_defined: "0 \<le> (addr - 1) * 6 \<Longrightarrow> list_all (\<lambda>k. int k + (addr - 1) * 6 < 32) ks \<Longrightarrow>
    \<exists>w'. forbid_slots addr sd ks w = Some w'"
  by (induction ks arbitrary: w) (auto simp: Let_def)

text \<open>What a text of six characters asks for slot \<open>j\<close> of the cubby \<open>addr\<close>.\<close>

definition slot_request :: "int \<Rightarrow> bytes \<Rightarrow> nat \<Rightarrow> u8 option" where
  "slot_request addr sd j =
     (let k = int j - (addr - 1) * 6 in if 0 \<le> k \<and> k < 6 \<and> nat k < length sd then Some (sd ! nat k) else None)"

lemma forbid_slots_request:
  assumes "1 \<le> addr" and "addr \<le> 4"
  shows "\<exists>w'. forbid_slots addr sd [0..<6] w = Some w' \<and>
    (\<forall>j<32. bit w' j = (if slot_request addr sd j = Some 0x31 then True
                        else if slot_request addr sd j = Some 0x32 then False else bit w j))"
proof -
  obtain w' where w': "forbid_slots addr sd [0..<6] w = Some w'"
    using forbid_slots_defined [of addr "[0..<6]" sd w] assms by (auto simp: list_all_iff)
  have req: "(\<exists>k \<in> set [0..<6]. int j = int k + (addr - 1) * 6 \<and> k < length sd \<and> sd ! k = c) \<longleftrightarrow>
      slot_request addr sd j = Some c" for j c
  proof -
    have "int j = int k + (addr - 1) * 6 \<longleftrightarrow> 0 \<le> int j - (addr - 1) * 6 \<and> k = nat (int j - (addr - 1) * 6)" for k by auto
    then show ?thesis by (auto simp: slot_request_def Let_def)
  qed
  show ?thesis using w' forbid_slots_bit [OF w' _ distinct_upt] unfolding req by blast
qed

section \<open>Setting items\<close>

text \<open>What the items before the wifi items leave alone.\<close>

definition wifi_part :: "cloud_state \<Rightarrow> bool \<times> bool \<times> nat \<times> u32 \<times> nat \<times> bytes \<times> bytes" where
  "wifi_part s = (has_flag s 3, has_flag s 4, length (ConfigCommandFlag (app s)), CloudopCode (app s), wifiEnableFlag (app s),
     wifi_ssid (app s), wifi_password (app s))"

lemma put_array_fits: "length s \<le> length dst \<Longrightarrow> put_array dst s = Some (s @ replicate (length dst - length s) 0)"
  by (simp add: put_array_def)

lemmas item_defs = set_ble_def set_sim_def set_intervals_def set_speaker_def set_name_def set_pair_code_def
  set_clients_def set_forbidden_def Let_def

lemma wifi_part_items [simp]: "wifi_part (set_ble msg s) = wifi_part s" "wifi_part (set_sim msg s) = wifi_part s"
  "wifi_part (set_intervals msg s) = wifi_part s" "wifi_part (set_speaker msg s) = wifi_part s"
  by (simp_all add: item_defs wifi_part_def)

lemma wifi_part_strings: "set_name msg s = Some t \<Longrightarrow> wifi_part t = wifi_part s"
  "set_pair_code msg s = Some t \<Longrightarrow> wifi_part t = wifi_part s"
  "set_clients msg s = Some t \<Longrightarrow> wifi_part t = wifi_part s"
  "set_forbidden msg s = Some t \<Longrightarrow> wifi_part t = wifi_part s"
  by (auto simp: item_defs wifi_part_def split: if_splits)

lemma forbidden_items [simp]: "slotForbiddenFlag (app (set_ble msg s)) = slotForbiddenFlag (app s)"
  "slotForbiddenFlag (app (set_sim msg s)) = slotForbiddenFlag (app s)"
  "slotForbiddenFlag (app (set_intervals msg s)) = slotForbiddenFlag (app s)"
  "slotForbiddenFlag (app (set_speaker msg s)) = slotForbiddenFlag (app s)"
  "slotForbiddenFlag (app (fst (set_wifi_enable msg sr))) = slotForbiddenFlag (app (fst sr))"
  "slotForbiddenFlag (app (set_remember msg s)) = slotForbiddenFlag (app s)"
  "slotForbiddenFlag (app (save_para is s)) = slotForbiddenFlag (app s)"
  by (simp_all add: item_defs set_wifi_enable_def set_remember_def save_para_def split: prod.splits)

lemma forbidden_strings: "set_name msg s = Some t \<Longrightarrow> slotForbiddenFlag (app t) = slotForbiddenFlag (app s)"
  "set_pair_code msg s = Some t \<Longrightarrow> slotForbiddenFlag (app t) = slotForbiddenFlag (app s)"
  "set_clients msg s = Some t \<Longrightarrow> slotForbiddenFlag (app t) = slotForbiddenFlag (app s)"
  "set_ssid msg sr = Some tr \<Longrightarrow> slotForbiddenFlag (app (fst tr)) = slotForbiddenFlag (app (fst sr))"
  "set_password msg sr = Some tr \<Longrightarrow> slotForbiddenFlag (app (fst tr)) = slotForbiddenFlag (app (fst sr))"
  by (auto simp: item_defs set_ssid_def set_password_def split: if_splits prod.splits)

text \<open>When the strings fit their arrays, no list of clients is set and the cubbies exist, the command succeeds.\<close>

definition config_fits :: "ConfigCommand \<Rightarrow> app \<Rightarrow> bool" where
  "config_fits msg a \<longleftrightarrow> length (dc_bleSpeakerName msg) \<le> length (btName a) \<and>
     length (dc_bleSpeakerPairCode msg) \<le> length (BTpinCode a) \<and> dc_clientIdList msg = [] \<and>
     length (dc_ssid msg) \<le> length (wifi_ssid a) \<and> length (dc_password msg) \<le> length (wifi_password a) \<and>
     list_all (\<lambda>(addr, sd). 1 \<le> addr \<and> addr \<le> 4) (dc_cubbyDisable msg)"

lemma forbid_cubbies_defined:
  "list_all (\<lambda>(addr, sd). 1 \<le> addr \<and> addr \<le> 4) xs \<Longrightarrow> \<exists>w'. forbid_cubbies xs w = Some w'"
proof (induction xs arbitrary: w)
  case (Cons x xs)
  obtain addr sd where x: "x = (addr, sd)" by (cases x)
  with Cons.prems obtain w1 where "forbid_slots addr sd [0..<6] w = Some w1"
    using forbid_slots_request [of addr sd w] by auto
  then show ?case using Cons x by (auto split: if_splits)
qed simp

text \<open>The lengths of the arrays that strings are written to.\<close>

definition sizes :: "cloud_state \<Rightarrow> nat \<times> nat" where
  "sizes s = (length (btName (app s)), length (BTpinCode (app s)))"

lemma sizes_items [simp]: "sizes (set_ble msg s) = sizes s" "sizes (set_sim msg s) = sizes s" "sizes (set_flag i s) = sizes s"
  "sizes (set_intervals msg s) = sizes s" "sizes (set_speaker msg s) = sizes s"
  "sizes (fst (set_wifi_enable msg sr)) = sizes (fst sr)"
  by (simp_all add: item_defs set_wifi_enable_def sizes_def set_flag_def split: prod.splits)

lemma items_defined:
  "length (dc_bleSpeakerName msg) \<le> fst (sizes s) \<Longrightarrow> \<exists>t. set_name msg s = Some t \<and> sizes t = sizes s"
  "length (dc_bleSpeakerPairCode msg) \<le> snd (sizes s) \<Longrightarrow> \<exists>t. set_pair_code msg s = Some t \<and> sizes t = sizes s"
  "dc_clientIdList msg = [] \<Longrightarrow> set_clients msg s = Some s"
  by (auto simp: item_defs given_def put_array_fits sizes_def set_flag_def)

lemma config_set_run:
  assumes "config_fits msg (app s)" and "(s1, ret) = set_wifi_enable msg (set_ble msg (set_flag 1 s), 0)"
  obtains t where "wifi_part t = wifi_part s1"
    and "if dc_cubbyDisable msg \<noteq> [] \<and> length (dc_cubbyDisable msg) \<le> 4
         then forbid_cubbies (dc_cubbyDisable msg) (slotForbiddenFlag (app s)) = Some (slotForbiddenFlag (app t))
         else slotForbiddenFlag (app t) = slotForbiddenFlag (app s)"
    and "config_set msg s = Option.bind (set_ssid msg (t, ret)) (\<lambda>sr.
      map_option (\<lambda>(s, ret). (save_para [2, 3, 4, 5, 6, 7, 8, 9, 10, 13, 14, 15] (set_remember msg s), ret)) (set_password msg sr))"
proof -
  let ?s2 = "set_speaker msg (set_intervals msg (set_sim msg s1))"
  have s1: "sizes s1 = sizes s" "slotForbiddenFlag (app s1) = slotForbiddenFlag (app s)"
    using sizes_items(6) [of msg "(set_ble msg (set_flag 1 s), 0)"] forbidden_items(5) [of msg "(set_ble msg (set_flag 1 s), 0)"]
    by (simp_all flip: assms(2) del: One_nat_def)
  have fits: "length (dc_bleSpeakerName msg) \<le> fst (sizes s)" "length (dc_bleSpeakerPairCode msg) \<le> snd (sizes s)"
    using assms(1) by (simp_all add: config_fits_def sizes_def)
  obtain s3 where s3: "set_name msg ?s2 = Some s3" "sizes s3 = sizes s"
    using items_defined(1) [of msg ?s2] fits(1) s1(1) by auto
  obtain s4 where s4: "set_pair_code msg s3 = Some s4" "sizes s4 = sizes s"
    using items_defined(2) [of msg s3] fits(2) s3(2) by auto
  have s5: "set_clients msg s4 = Some s4" using assms(1) by (intro items_defined) (simp add: config_fits_def)
  have w4: "slotForbiddenFlag (app s4) = slotForbiddenFlag (app s)"
    using forbidden_strings(1) [OF s3(1)] forbidden_strings(2) [OF s4(1)] s1 by simp
  obtain w where w: "forbid_cubbies (dc_cubbyDisable msg) (slotForbiddenFlag (app s4)) = Some w"
    using forbid_cubbies_defined [of "dc_cubbyDisable msg" "slotForbiddenFlag (app s4)"] assms(1) by (auto simp: config_fits_def)
  obtain t where t: "set_forbidden msg s4 = Some t"
    and tw: "if dc_cubbyDisable msg \<noteq> [] \<and> length (dc_cubbyDisable msg) \<le> 4 then slotForbiddenFlag (app t) = w
             else slotForbiddenFlag (app t) = slotForbiddenFlag (app s4)"
    using w by (cases "dc_cubbyDisable msg \<noteq> [] \<and> length (dc_cubbyDisable msg) \<le> 4") (auto simp: set_forbidden_def)
  have "wifi_part t = wifi_part s1"
    using wifi_part_strings(1) [OF s3(1)] wifi_part_strings(2) [OF s4(1)] wifi_part_strings(4) [OF t] by simp
  then show thesis
    using that [of t] tw w w4 s3(1) s4(1) s5 t by (simp add: config_set_def flip: assms(2) del: One_nat_def split: if_splits)
qed

text \<open>The answer that the three wifi items of a command ask for.\<close>

definition wifi_answer :: "nat \<Rightarrow> bool \<Rightarrow> bool \<Rightarrow> nat" where
  "wifi_answer enable ssid password =
     (if password then (if enable = 1 then (if ssid then 9 else 8) else if enable = 2 then (if ssid then 10 else 6) else 4)
      else if ssid then (if enable = 1 then 7 else if enable = 2 then 5 else 3)
      else if enable = 1 then 1 else if enable = 2 then 2 else 0)"

lemma wifi_part_start:
  assumes "start_config msg a = Some b" and "cfg_command msg = 26" and "app s = b"
    and "(s1, ret) = set_wifi_enable msg (set_ble msg (set_flag 1 s), 0)"
  shows "wifi_part s1 = (dc_wifiEnable msg \<in> {1, 2}, False, length (ConfigCommandFlag a), CloudopCode a,
      if dc_wifiEnable msg = 1 then 1 else if dc_wifiEnable msg = 2 then 0 else wifiEnableFlag a,
      wifi_ssid a, wifi_password a)"
    and "ret = (if dc_wifiEnable msg = 1 then 1 else if dc_wifiEnable msg = 2 then 2 else 0)"
proof -
  have b: "b = a\<lparr>ConfigCommandFlag := 26 # replicate (length (ConfigCommandFlag a) - 1) 0\<rparr>" "16 \<le> length (ConfigCommandFlag a)"
    using assms(1,2) by (auto simp: start_config_def Let_def split: if_splits)
  have flags: "\<not> has_flag s 3" "\<not> has_flag s 4" using b assms(3) by (simp_all add: has_flag_def)
  have 0: "wifi_part (set_ble msg (set_flag 1 s)) = (False, False, length (ConfigCommandFlag a), CloudopCode a, wifiEnableFlag a,
      wifi_ssid a, wifi_password a)"
    unfolding wifi_part_items using b assms(3) flags by (simp add: wifi_part_def)
  show "wifi_part s1 = (dc_wifiEnable msg \<in> {1, 2}, False, length (ConfigCommandFlag a), CloudopCode a,
      if dc_wifiEnable msg = 1 then 1 else if dc_wifiEnable msg = 2 then 0 else wifiEnableFlag a,
      wifi_ssid a, wifi_password a)"
    using assms(4) 0 b(2) by (auto simp: set_wifi_enable_def wifi_part_def split: if_splits)
  show "ret = (if dc_wifiEnable msg = 1 then 1 else if dc_wifiEnable msg = 2 then 2 else 0)"
    using assms(4) by (simp add: set_wifi_enable_def split: if_splits)
qed

lemma set_ssid_effect:
  assumes "wifi_part t = (en, False, n, op, on, ss, pw)" and "4 < n" and "length (dc_ssid msg) \<le> length ss"
  shows "\<exists>u. set_ssid msg (t, ret)
      = Some (u, if given (dc_ssid msg) then (if en \<and> on = 1 then 7 else if en \<and> on = 0 then 5 else 3) else ret) \<and>
    wifi_part u = (en, given (dc_ssid msg), n, op, on,
      if given (dc_ssid msg) then dc_ssid msg @ replicate (length ss - length (dc_ssid msg)) 0 else ss,
      if given (dc_ssid msg) then replicate (length pw) 0 else pw) \<and>
    slotForbiddenFlag (app u) = slotForbiddenFlag (app t)"
  using assms by (cases "given (dc_ssid msg)") (auto simp: set_ssid_def wifi_part_def put_array_fits Let_def)

lemma set_password_effect:
  assumes "wifi_part u = (en, given (dc_ssid msg), n, op, on, ss, pw)" and "length (dc_password msg) \<le> length pw"
  shows "\<exists>v. set_password msg (u, ret)
      = Some (v, if given (dc_password msg)
          then (if en \<and> given (dc_ssid msg) \<and> on = 1 then 9 else if en \<and> given (dc_ssid msg) \<and> on = 0 then 10
                else if en \<and> on = 1 then 8 else if en \<and> on = 0 then 6 else 4) else ret) \<and>
    CloudopCode (app v) = op \<and> wifi_ssid (app v) = ss \<and>
    wifi_password (app v) = (if given (dc_password msg)
      then dc_password msg @ replicate (length pw - length (dc_password msg)) 0 else pw) \<and>
    slotForbiddenFlag (app v) = slotForbiddenFlag (app u)"
  using assms by (cases "given (dc_password msg)") (auto simp: set_password_def wifi_part_def put_array_fits Let_def)


section \<open>What the commands do besides\<close>

text \<open>The texts are compared by order and not for equality: any text from \<open>CLEAR\<close> on in the order clears.\<close>

lemma clear_by_order: "strcmp_ge (asc ''HOME'') CLEAR" "strcmp_ge (asc ''home'') QUERY" "\<not> strcmp_ge [] CLEAR"
  by code_simp+

lemma clear_ssid_by_order: "dc_ssid msg = asc ''HOME'' \<Longrightarrow> snd (clear_ssid msg (s, ret)) = 11"
  using clear_by_order(1) by (simp add: clear_ssid_def)

lemma clear_pair_code_erased:
  "strcmp_ge (dc_bleSpeakerPairCode msg) CLEAR \<Longrightarrow> 5 \<le> length (BTpinCode (app s)) \<Longrightarrow>
    \<exists>t. clear_pair_code msg s = Some t \<and> BTpinCode (app t) = replicate (length (BTpinCode (app s))) 0"
  by (simp add: clear_pair_code_def set_flag_def Let_def length_asc)

lemma cloud_config_command_refused: "accept_opCode (opCode msg) (app s) = None \<Longrightarrow> cloud_config_command env msg s = Some (s, 0)"
  by (simp add: cloud_config_command_def)

definition sample_config :: ConfigCommand where
  "sample_config =
     \<lparr>opCode = 8, traceId = 1, cfg_command = 26, has_deviceConfig = True, dc_bleEnable = 0, dc_wifiEnable = 1,
      dc_ssid = asc ''home'', dc_password = [], dc_remember = 0, dc_gsmActiveSubId = 0, dc_cubbyInterval = 0,
      dc_cubbyHeaderInterval = 0, dc_bleSpeakerVolume = 0, dc_bleSpeakerPairCode = [], dc_bleSpeakerBroadEnable = 0,
      dc_clientIdList = [], dc_bleSpeakerName = [], dc_cubbyDisable = [(2, asc ''120000'')]\<rparr>"


end
