(* ===== verification/CloudRsp.thy ===== *)
theory CloudRsp
  imports CloudConfig
begin

text \<open>
  The remaining commands of the cloud (\<open>command/device\<close>, \<open>command/ota\<close>, \<open>command/lowpower\<close>) and \<open>RspAnalyze\<close> of
  \<^verbatim>\<open>src/ql_application/App_XD/netlink/app_net4g.c\<close>, which takes a message's topic apart, decodes the payload and
  calls the handler.
\<close>

section \<open>Model\<close>

text \<open>The login data, cleared by command 14.\<close>

definition clear_login :: "device \<Rightarrow> device" where
  "clear_login d = d\<lparr>activeFlag := 0, clientId := replicate (length (clientId d)) 0,
     DeviceKey := replicate (length (DeviceKey d)) 0, DeviceSecret := replicate (length (DeviceSecret d)) 0,
     deviceNo := replicate (length (deviceNo d)) 0\<rparr>"

text \<open>A command to the device is carried out even when its number is not new.\<close>

definition device_command :: "cloud_msgs \<Rightarrow> DeviceCommand \<Rightarrow> cloud_state \<Rightarrow> cloud_state \<times> nat" where
  "device_command env msg s =
     (let s = upd_app (note_opCode (opCode msg)) s; t = valid_traceId (traceId msg); c = dv_command msg in
      if c = 9 then (report env (DeviceListReport t c) s, 0)
      else if c = 10 then (emit [NODE_EVENT 0 NODE_BT_CMD_CLEAN_CONNECT_INFO] s, 0)
      else if c = 11 then (s, 0)
      else if c = 12 then (emit [DEVICE_REBOOT] s, 0)
      else if c = 13 then (emit [DEVICE_POWEROFF] s, 0)
      else if c = 14 then (emit [LOGIN_FLASH_WRITE, DEVICE_REBOOT] (upd_device clear_login s), 0)
      else if c = 15
      then (if netWork (steps (net (com s))) = NETWORK_WORK_STEP__NORMAL then (report env (DeviceDataReport t c) s, 0) else (s, 14))
      else if c = 16 then (report env (DeviceVersionReport t c 0) s, 0)
      else if c = 18 then (report env (WiFiDataReport t c) s, 0)
      else if c = 19 then (report env (GsmDataReport t c) s, 0)
      else if c = 20 then (report env (BleDataReport t c) s, 0)
      else if c = 21 then (emit [NODE_EVENT 0 NODE_SLAVE_NO_SET_EVT] s, 0)
      else if c = 36 then (emit [DEVICE_REBOOT_TEST] s, 0)
      else (s, 0))"

subsection \<open>Updates\<close>

text \<open>
  What is to be updated; a message that names nothing known, or another hardware version, leaves the type, the
  version and the address of the last message.
\<close>

definition ota_target :: "bytes \<Rightarrow> Ota \<Rightarrow> ota_para \<Rightarrow> ota_para" where
  "ota_target hw msg p =
     (let same = (om_hv msg = hw); hv = atoi (om_hv msg) in
      if om_versionType msg = asc ''mcu'' \<and> same then p\<lparr>otaType := UPDATE_MASTER_CTRL_MODULE, hardVer := hv, ota_addr := 0\<rparr>
      else if om_versionType msg = asc ''cubby''
      then p\<lparr>otaType := UPDATE_SLAVE_BOARD_MODULE, hardVer := hv,
             ota_addr := (if 0 < om_addr msg \<and> om_addr msg \<le> 4 \<or> om_addr msg = 0x0F then om_addr msg else 0)\<rparr>
      else if om_versionType msg = asc ''btSpeaker'' \<and> same then p\<lparr>otaType := UPDATE_BT_MUSIC_MODULE, hardVer := hv, ota_addr := 0\<rparr>
      else if om_versionType msg = asc ''gsm'' \<and> same then p\<lparr>otaType := UPDATE_4G_BOARD, hardVer := hv, ota_addr := 0\<rparr>
      else p)"

definition start_ota :: "Ota \<Rightarrow> app \<Rightarrow> app option" where
  "start_ota msg a =
     (let p = ota_target (main_HardVer a) msg (ota a) in
      Option.bind (copy_string (ota_url p) (Some (om_url msg))) (\<lambda>url.
      map_option (\<lambda>ver. a\<lparr>ota := p\<lparr>ota_url := url, ota_crc := om_crc msg, ota_size := om_size msg, ota_ver := ver, otaFlag := 1\<rparr>\<rparr>)
        (copy_string (ota_ver p) (Some (om_version msg)))))"

definition ota_command :: "cloud_msgs \<Rightarrow> Ota \<Rightarrow> cloud_state \<Rightarrow> cloud_result" where
  "ota_command env msg s =
     (let s = upd_app (note_traceId (traceId msg) \<circ> note_opCode (opCode msg)) s;
          powered = (DeviceNOPowerMode (app s) \<noteq> 1) in
      map_option (\<lambda>s. (report env (if powered then DeviceVersionReport (traceId msg) (om_command msg) 0 else LowPowerReport 0 0) s, 0))
        (if om_command msg = 29 \<and> powered
         then map_option (\<lambda>a. emit [BLE_ENABLE False] (s\<lparr>app := a\<rparr>)) (start_ota msg (app s)) else Some s))"

definition lowpower_command :: "cloud_msgs \<Rightarrow> LowpowerCommand \<Rightarrow> cloud_state \<Rightarrow> cloud_state" where
  "lowpower_command env msg s =
     (let s = upd_app (note_traceId (traceId msg) \<circ> note_opCode (opCode msg)) s;
          s = (if lp_command msg = 33 \<and> (lp_lowpower msg = 1 \<or> lp_lowpower msg = 2)
               then upd_app (\<lambda>a. a\<lparr>DeviceLowPowerMode := lp_lowpower msg, DeviceNOPowerMode := lp_lowpower msg\<rparr>) s else s)
      in report env (LowPowerReport (traceId msg) (lp_command msg)) s)"

subsection \<open>The topic\<close>

fun split_slash :: "bytes \<Rightarrow> bytes list" where
  "split_slash [] = [[]]"
| "split_slash (c # cs) =
     (if c = 0x2F then [] # split_slash cs
      else case split_slash cs of [] \<Rightarrow> [[c]] | t # ts \<Rightarrow> (c # t) # ts)"

definition topic_tokens :: "bytes \<Rightarrow> bytes list" where
  "topic_tokens t = filter (\<lambda>w. w \<noteq> []) (split_slash t)"

text \<open>The levels of the topic are compared one after the other; comparing one that is missing faults.\<close>

fun match_levels :: "bytes list \<Rightarrow> bytes list \<Rightarrow> bytes list option option" where
  "match_levels [] ts = Some (Some ts)"
| "match_levels (l # ls) [] = None"
| "match_levels (l # ls) (t # ts) = (if t = l then match_levels ls ts else Some None)"

definition run_command :: "cloud_msgs \<Rightarrow> bytes \<Rightarrow> bytes \<Rightarrow> cloud_state \<Rightarrow> cloud_result" where
  "run_command env kind msg_data s =
     (let failed = Some (s, 0) in
      if kind = asc ''slot'' then (case decode_SlotCommand env msg_data of None \<Rightarrow> failed | Some msg \<Rightarrow> slot_command msg s)
      else if kind = asc ''cubby'' then (case decode_CubbyCommand env msg_data of None \<Rightarrow> failed | Some msg \<Rightarrow> Some (cubby_command msg s, 0))
      else if kind = asc ''config'' then (case decode_ConfigCommand env msg_data of None \<Rightarrow> failed | Some msg \<Rightarrow> cloud_config_command env msg s)
      else if kind = asc ''device'' then (case decode_DeviceCommand env msg_data of None \<Rightarrow> failed | Some msg \<Rightarrow> Some (device_command env msg s))
      else if kind = asc ''ota'' then (case decode_Ota env msg_data of None \<Rightarrow> failed | Some msg \<Rightarrow> ota_command env msg s)
      else if kind = asc ''lowpower''
      then (case decode_LowpowerCommand env msg_data of None \<Rightarrow> failed | Some msg \<Rightarrow> Some (lowpower_command env msg s, 0))
      else Some (s, no_return env))"

text \<open>
  \<open>RspAnalyze\<close>.  It first prints the payload with an 8-bit index, which never ends for 256 bytes or more; then it
  refuses 200 bytes or more.
\<close>

definition RspAnalyze :: "cloud_msgs \<Rightarrow> bytes \<Rightarrow> bytes \<Rightarrow> bytes \<Rightarrow> u16 \<Rightarrow> cloud_state \<Rightarrow> cloud_result" where
  "RspAnalyze env productkey tpc pbdata datalen s =
     (let n = unat datalen in
      if 256 \<le> n \<or> length pbdata < n then None
      else if 200 \<le> n then Some (s, 0)
      else Option.bind (c_string (DeviceKey (dev (net (com s)))) 0) (\<lambda>key.
           Option.bind (match_levels [asc ''device'', productkey, key, asc ''command''] (topic_tokens tpc)) (\<lambda>m.
           case m of None \<Rightarrow> Some (s, no_return env)
           | Some [] \<Rightarrow> None
           | Some (kind # _) \<Rightarrow> run_command env kind (take n pbdata) s)))"

section \<open>The topic of a message\<close>

definition join_slash :: "bytes list \<Rightarrow> bytes" where
  "join_slash ts = concat (map (\<lambda>t. t @ [0x2F]) (butlast ts)) @ last ts"

lemma split_slash_cons: "0x2F \<notin> set t \<Longrightarrow> split_slash (t @ 0x2F # s) = t # split_slash s"
  by (induction t) (auto split: list.splits)

lemma split_slash_last: "0x2F \<notin> set t \<Longrightarrow> split_slash t = [t]"
  by (induction t) (auto split: list.splits)

lemma topic_tokens_join:
  "ts \<noteq> [] \<Longrightarrow> list_all (\<lambda>t. t \<noteq> [] \<and> 0x2F \<notin> set t) ts \<Longrightarrow> topic_tokens (join_slash ts) = ts"
proof (induction ts)
  case (Cons t ts)
  show ?case
  proof (cases "ts = []")
    case True
    then show ?thesis using Cons.prems by (simp add: join_slash_def topic_tokens_def split_slash_last)
  next
    case False
    then have "join_slash (t # ts) = t @ 0x2F # join_slash ts" by (simp add: join_slash_def)
    then show ?thesis using Cons False by (simp add: topic_tokens_def split_slash_cons)
  qed
qed simp

text \<open>The key of the device.\<close>

definition has_key :: "bytes \<Rightarrow> cloud_state \<Rightarrow> bool" where
  "has_key key s \<longleftrightarrow> c_string (DeviceKey (dev (net (com s)))) 0 = Some key"

lemma RspAnalyze_dispatch:
  assumes "has_key key s" and "unat n < 200" and "unat n \<le> length data"
    and "list_all (\<lambda>t. t \<noteq> [] \<and> 0x2F \<notin> set t) [pk, key, kind]"
  shows "RspAnalyze env pk (join_slash [asc ''device'', pk, key, asc ''command'', kind]) data n s
    = run_command env kind (take (unat n) data) s"
proof -
  have "topic_tokens (join_slash [asc ''device'', pk, key, asc ''command'', kind]) = [asc ''device'', pk, key, asc ''command'', kind]"
    using assms(4) by (intro topic_tokens_join) (simp_all add: asc_def)
  then show ?thesis using assms(1-3) by (simp add: RspAnalyze_def has_key_def Let_def)
qed


section \<open>A command is carried out once\<close>

lemma opCode_items [simp]: "CloudopCode (app (set_ble msg s)) = CloudopCode (app s)"
  "CloudopCode (app (set_sim msg s)) = CloudopCode (app s)" "CloudopCode (app (set_intervals msg s)) = CloudopCode (app s)"
  "CloudopCode (app (set_speaker msg s)) = CloudopCode (app s)" "CloudopCode (app (set_remember msg s)) = CloudopCode (app s)"
  "CloudopCode (app (save_para is s)) = CloudopCode (app s)" "CloudopCode (app (clear_name msg s)) = CloudopCode (app s)"
  "CloudopCode (app (clear_forbidden msg s)) = CloudopCode (app s)" "CloudopCode (app (config_query msg s)) = CloudopCode (app s)"
  by (simp_all add: item_defs set_remember_def save_para_def clear_name_def clear_forbidden_def config_query_def flag_if_def)

lemma opCode_strings: "set_name msg s = Some t \<Longrightarrow> CloudopCode (app t) = CloudopCode (app s)"
  "set_pair_code msg s = Some t \<Longrightarrow> CloudopCode (app t) = CloudopCode (app s)"
  "set_clients msg s = Some t \<Longrightarrow> CloudopCode (app t) = CloudopCode (app s)"
  "set_forbidden msg s = Some t \<Longrightarrow> CloudopCode (app t) = CloudopCode (app s)"
  "set_ssid msg (s, r) = Some (t, q) \<Longrightarrow> CloudopCode (app t) = CloudopCode (app s)"
  "set_password msg (s, r) = Some (t, q) \<Longrightarrow> CloudopCode (app t) = CloudopCode (app s)"
  "clear_pair_code msg s = Some t \<Longrightarrow> CloudopCode (app t) = CloudopCode (app s)"
  "clear_clients msg s = Some t \<Longrightarrow> CloudopCode (app t) = CloudopCode (app s)"
  "set_wifi_enable msg (s, r) = (t, q) \<Longrightarrow> CloudopCode (app t) = CloudopCode (app s)"
  "clear_ssid msg (s, r) = (t, q) \<Longrightarrow> CloudopCode (app t) = CloudopCode (app s)"
  "clear_password msg (s, r) = (t, q) \<Longrightarrow> CloudopCode (app t) = CloudopCode (app s)"
  by (auto simp: item_defs set_ssid_def set_password_def clear_pair_code_def clear_clients_def set_wifi_enable_def
      clear_ssid_def clear_password_def split: if_splits)

lemma config_set_opCode: "config_set msg s = Some (t, r) \<Longrightarrow> CloudopCode (app t) = CloudopCode (app s)"
  by (auto simp: config_set_def bind_eq_Some_conv split: prod.splits dest!: opCode_strings)

lemma config_clear_opCode: "config_clear msg s = Some (t, r) \<Longrightarrow> CloudopCode (app t) = CloudopCode (app s)"
  by (cases "clear_ssid msg (set_flag 1 s, 0)")
    (auto simp: config_clear_def bind_eq_Some_conv split: prod.splits dest!: opCode_strings)

text \<open>The number of a command that is checked, and that it is not new afterwards.\<close>

definition numbered :: "bytes \<Rightarrow> bool" where
  "numbered kind \<longleftrightarrow> kind \<in> {asc ''slot'', asc ''cubby'', asc ''config''}"

definition payload_opCode :: "cloud_msgs \<Rightarrow> bytes \<Rightarrow> bytes \<Rightarrow> u32 option" where
  "payload_opCode env kind msg_data =
     (if kind = asc ''slot'' then map_option opCode (decode_SlotCommand env msg_data)
      else if kind = asc ''cubby'' then map_option opCode (decode_CubbyCommand env msg_data)
      else map_option opCode (decode_ConfigCommand env msg_data))"

lemma kinds_distinct: "asc ''slot'' \<noteq> asc ''cubby''" "asc ''slot'' \<noteq> asc ''config''" "asc ''cubby'' \<noteq> asc ''config''"
  by (simp_all add: asc_def)

lemma slot_opCode:
  assumes "slot_command msg s = Some (t, r)"
  shows "accept_opCode (opCode msg) (app t) = None"
proof -
  obtain a where a: "slot_rows clear_row clear_row msg (app s) = Some a"
    and rest: "(case accept_opCode (opCode msg) a of None \<Rightarrow> Some (s\<lparr>app := a\<rparr>, 0)
     | Some a \<Rightarrow> Option.bind (slot_rows (fill_row (sc_pbCmd msg)) (fill_row (sc_nfcpwd msg)) msg (note_traceId (traceId msg) a))
         (\<lambda>a. map_option (\<lambda>s. (s, 0)) (slot_action msg (s\<lparr>app := a\<rparr>)))) = Some (t, r)"
    using assms by (auto simp: slot_command_def bind_eq_Some_conv)
  show ?thesis
  proof (cases "accept_opCode (opCode msg) a")
    case None
    then show ?thesis using rest by auto
  next
    case (Some b)
    then obtain c where c: "slot_rows (fill_row (sc_pbCmd msg)) (fill_row (sc_nfcpwd msg)) msg (note_traceId (traceId msg) b) = Some c"
      and act: "slot_action msg (s\<lparr>app := c\<rparr>) = Some t"
      using rest by (auto simp: bind_eq_Some_conv)
    have "CloudopCode c = CloudopCode b" using c by (auto simp: slot_rows_Some)
    moreover have "CloudopCode (app t) = CloudopCode c"
      using act by (auto simp: slot_action_def cancel_lend_def Let_def split: slot_cmd.splits if_splits)
    ultimately show ?thesis using accept_opCode_again [OF Some] by simp
  qed
qed

lemma cubby_opCode: "accept_opCode (opCode msg) (app (cubby_command msg s)) = None"
proof (cases "accept_opCode (opCode msg) (app s)")
  case (Some a)
  then have "CloudopCode (app (cubby_command msg s)) = CloudopCode a" by (simp add: cubby_command_def Let_def)
  then show ?thesis using accept_opCode_again [OF Some] by simp
qed (simp add: cubby_command_refused)

lemma config_opCode:
  assumes "cloud_config_command env msg s = Some (t, r)"
  shows "accept_opCode (opCode msg) (app t) = None"
proof (cases "accept_opCode (opCode msg) (app s)")
  case None
  then show ?thesis using assms by (simp add: cloud_config_command_refused)
next
  case (Some a)
  then obtain b where b: "start_config msg a = Some b" using assms by (auto simp: cloud_config_command_def bind_eq_Some_conv)
  then have "CloudopCode b = CloudopCode a" by (auto simp: start_config_def Let_def split: if_splits)
  moreover have "CloudopCode (app t) = CloudopCode b"
    using assms Some b
    by (auto simp: cloud_config_command_def config_report_def Let_def split: if_splits dest!: config_set_opCode config_clear_opCode)
  ultimately show ?thesis using accept_opCode_again [OF Some] by simp
qed

lemma run_command_opCode:
  assumes "run_command env kind msg_data s = Some (t, r)" and "numbered kind" and "payload_opCode env kind msg_data = Some op"
  shows "accept_opCode op (app t) = None"
  using assms kinds_distinct
  by (auto simp: run_command_def numbered_def payload_opCode_def split: option.splits if_splits
      dest: slot_opCode config_opCode intro: cubby_opCode)

lemma run_command_refused:
  assumes "numbered kind" and "\<forall>op. payload_opCode env kind msg_data = Some op \<longrightarrow> accept_opCode op (app s) = None"
  shows "pred_option (\<lambda>(s', r). r = 0 \<and> com s' = com s \<and> CloudopCode (app s') = CloudopCode (app s)) (run_command env kind msg_data s)"
  using assms kinds_distinct slot_command_refused [of _ s]
  by (auto simp: run_command_def numbered_def payload_opCode_def cloud_config_command_refused cubby_command_refused split: option.splits)

lemma RspAnalyze_cases:
  assumes "RspAnalyze env pk (join_slash [asc ''device'', pk', key', asc ''command'', kind]) msg_data n s = Some (t, r)"
    and "list_all (\<lambda>t. t \<noteq> [] \<and> 0x2F \<notin> set t) [pk', key', kind]"
  shows "t = s \<or> run_command env kind (take (unat n) msg_data) s = Some (t, r)"
proof -
  have "topic_tokens (join_slash [asc ''device'', pk', key', asc ''command'', kind]) = [asc ''device'', pk', key', asc ''command'', kind]"
    using assms(2) by (intro topic_tokens_join) (simp_all add: asc_def)
  then show ?thesis using assms(1) by (auto simp: RspAnalyze_def Let_def bind_eq_Some_conv split: if_splits)
qed


text \<open>Commands to the device and the lowpower mode have no such check: an old message restarts the device again.\<close>

lemma device_command_again: "dv_command msg = 12 \<Longrightarrow>
    \<exists>t. device_command env msg s = (t, 0) \<and> events (com t) = events (com s) @ [DEVICE_REBOOT]"
  by (simp add: device_command_def Let_def emit_def)

section \<open>Updates\<close>

lemma ota_target_type:
  "otaType (ota_target hw msg p) =
    (if om_versionType msg = asc ''cubby'' then UPDATE_SLAVE_BOARD_MODULE
     else if om_hv msg = hw \<and> om_versionType msg = asc ''mcu'' then UPDATE_MASTER_CTRL_MODULE
     else if om_hv msg = hw \<and> om_versionType msg = asc ''btSpeaker'' then UPDATE_BT_MUSIC_MODULE
     else if om_hv msg = hw \<and> om_versionType msg = asc ''gsm'' then UPDATE_4G_BOARD else otaType p)"
proof (cases "om_versionType msg = asc ''cubby''")
  case True
  have "asc ''cubby'' \<noteq> asc ''mcu''" "asc ''cubby'' \<noteq> asc ''btSpeaker''" by (simp_all add: asc_def)
  with True show ?thesis by (simp add: ota_target_def Let_def)
next
  case False
  then show ?thesis by (cases "om_hv msg = hw") (simp_all add: ota_target_def Let_def)
qed


section \<open>Concrete messages\<close>

definition sample_ota :: Ota where
  "sample_ota =
     \<lparr>opCode = 8, traceId = 1, om_command = 29, om_versionType = asc ''mcu'', om_url = asc ''http://x/fw.bin'', om_addr = 0,
      om_crc = 0x1234, om_size = 4096, om_version = asc ''1.2'', om_hv = asc ''13''\<rparr>"


definition sample_topic :: bytes where
  "sample_topic = join_slash [asc ''device'', asc ''P'', asc ''K'', asc ''command'', asc ''cubby'']"

definition keyed_cloud :: cloud_state where
  "keyed_cloud = upd_device (\<lambda>d. d\<lparr>DeviceKey := asc ''K'' @ [0]\<rparr>) sample_cloud"

lemma keyed_cloud: "has_key (asc ''K'') keyed_cloud" "app keyed_cloud = sample_app"
  by (simp_all add: has_key_def keyed_cloud_def upd_device_def upd_dev_def c_string_def asc_def)

lemma sample_levels: "list_all (\<lambda>t. t \<noteq> [] \<and> 0x2F \<notin> set t) [asc ''P'', asc ''K'', asc ''cubby'']"
  by (simp add: asc_def)

lemma sample_run: "run_command sample_msgs (asc ''cubby'') [1] s =
    Some (cubby_command \<lparr>opCode = 8, traceId = 1, cc_command = SLOT_CMD_ALL_SLOT_INFO_CHECK_RSP, cc_addr = 1\<rparr> s, 0)"
  by (simp add: run_command_def sample_msgs_def kinds_distinct(1) [symmetric])



end
