(* ===== verification/NetComm.thy ===== *)
theory NetComm
  imports CloudRsp AesModes
begin

text \<open>
  The connected device: \<open>module_4g_communication_process\<close> and its variant after a restart,
  \<open>device_reboot_module_4g_communication_process\<close>, of \<^verbatim>\<open>src/ql_application/App_XD/netlink/app_net4g.c\<close>.  One call
  receives, counts down to an update, and then handles a message of the cloud, publishes one, or waits.  The
  payload of a message is decrypted in software (\<^verbatim>\<open>AES128_ECB_HARD\<close> 0).
\<close>

section \<open>State\<close>

datatype OTA_STEP = OTA_STEP_INIT | OTA_STEP_DOWNLOAD_DATA | OTA_STEP_DOWNLOAD_END

text \<open>The static and global variables of the processes.\<close>

record work =
  cs :: cloud_state
  g_payload :: bytes
  aes_state :: aes
  ota_start_delay_time :: u32
  lendTimeout_wait_time :: u32
  ping_send_flag :: bool
  ota_step :: OTA_STEP
  error_step :: nat
  wait_timeout :: u32
  route_retry_times :: nat
  process_retry_times :: nat
  wait_report_ret :: process_step_ret
  wait_report_delay :: u16
  slave_addr_config_event :: nat
  powerOn_flag :: nat
  node_status_syn_enable_flag :: nat
  net4g_get_cell_info_time :: nat

text \<open>What is outside the sources; \<open>no_power_off\<close> is \<^verbatim>\<open>DEVICE_REBOOT_4G_NO_POWER_OFF\<close>.\<close>

record work_env =
  cloud :: cloud_env
  msgs :: cloud_msgs
  no_power_off :: bool
  OTA_4G_DownloadData :: "cloud_state \<Rightarrow> cloud_state \<times> process_step_ret"

type_synonym work_result = "(work \<times> process_step_ret) option"

definition upd_cs :: "(cloud_state \<Rightarrow> cloud_state) \<Rightarrow> work \<Rightarrow> work" where
  "upd_cs f w = w\<lparr>cs := f (cs w)\<rparr>"

abbreviation comm_of :: "work \<Rightarrow> comm" where "comm_of w \<equiv> com (cs w)"
abbreviation app_of :: "work \<Rightarrow> app" where "app_of w \<equiv> app (cs w)"
abbreviation net_steps :: "work \<Rightarrow> process_steps" where "net_steps w \<equiv> steps (net (comm_of w))"

definition upd_com :: "(comm \<Rightarrow> comm) \<Rightarrow> work \<Rightarrow> work" where
  "upd_com f w = w\<lparr>cs := (cs w)\<lparr>com := f (comm_of w)\<rparr>\<rparr>"

definition set_communicateStep :: "nat \<Rightarrow> work \<Rightarrow> work" where
  "set_communicateStep i = upd_com (\<lambda>c. c\<lparr>net := (net c)\<lparr>steps := (steps (net c))\<lparr>communicateStep := i\<rparr>\<rparr>\<rparr>)"

definition set_net4g_work_step :: "NETWORK_WORK_STEP \<Rightarrow> work \<Rightarrow> work" where
  "set_net4g_work_step st = upd_com (\<lambda>c. c\<lparr>net := (net c)\<lparr>steps := (steps (net c))\<lparr>netWork := st\<rparr>\<rparr>\<rparr>)"

definition get_net4g_work_step :: "work \<Rightarrow> NETWORK_WORK_STEP" where
  "get_net4g_work_step w = netWork (net_steps w)"

definition init_net4g_work_steps :: "work \<Rightarrow> work" where
  "init_net4g_work_steps = upd_com (\<lambda>c. c\<lparr>net := (net c)\<lparr>steps :=
     \<lparr>netConfig = 0, deviceActive = 0, connectRoute = 0, cloudLogin = 0, getCellInfoStep = 0,
      active_route_step = ACTIVE_ROUTE_STEP_CHECK, netWork = NETWORK_WORK_STEP__INIT, communicateStep = 0\<rparr>\<rparr>\<rparr>)"

section \<open>Model\<close>

subsection \<open>Receiving\<close>

text \<open>A round of the receiver; \<open>True\<close> when the connection is lost.\<close>

definition receive_round :: "work_env \<Rightarrow> module_type \<Rightarrow> work \<Rightarrow> (work \<times> bool) option" where
  "receive_round env m w =
     map_option (\<lambda>(c, ret). (upd_com (\<lambda>_. c) w, ret = 10))
       (get_net4G_recv_cmd (publish_report (msgs env) GsmIntervalReport (app_of w)) m (comm_of w))"

subsection \<open>Messages\<close>

text \<open>
  Topic and payload of the oldest queued message, decrypted and handed to \<open>RspAnalyze\<close>: the answer of that, or
  nothing when the message has too few fields.  At most 100 bytes of padding are believed.
\<close>

definition decrypt_payload :: "bytes \<Rightarrow> bytes \<Rightarrow> work \<Rightarrow> (work \<times> nat \<times> nat) option" where
  "decrypt_payload ucdatalen payload w =
     (let n = unat (word_of_int (atoi ucdatalen) :: u16) in
      map_option (\<lambda>(a, plain, pad). (w\<lparr>aes_state := a, g_payload := plain\<rparr>, n, unat pad))
        (aes128_ecb_decrypt (aes_state w) (payload @ replicate (200 - length payload) 0) n
           (mqtt_secretKey (dev (net (comm_of w)))) (replicate (length (g_payload w)) 0)))"

definition analyze :: "work_env \<Rightarrow> bytes \<times> bytes \<times> bytes \<Rightarrow> work \<Rightarrow> (work \<times> nat) option" where
  "analyze env = (\<lambda>(ucchar, ucdatalen, payload) w.
     Option.bind (decrypt_payload ucdatalen payload w) (\<lambda>(w, n, pkcsLen).
     if pkcsLen \<le> n
     then map_option (\<lambda>(s, ret). (w\<lparr>cs := s\<rparr>, ret))
            (RspAnalyze (msgs env) (pucProductkey (cloud env)) ucchar (g_payload w)
               (of_nat (if pkcsLen < 100 then n - pkcsLen else n)) (cs w))
     else Some (w, 0)))"

definition take_message :: "work_env \<Rightarrow> module_type \<Rightarrow> work \<Rightarrow> (work \<times> nat option) option" where
  "take_message env m w =
     (let q = cmds (comm_of w); next = upd_com (\<lambda>c. c\<lparr>cmds := next_cmd (cmds c)\<rparr>) in
      Option.bind (fetch (cmdQ q) (rHead q)) (\<lambda>slot.
      Option.bind (get_at_rsp_keywords_pb (qData slot) (NET_MQTT_CTRL_CMD_HEAD m) (if lierda m then 4 else 3)) (\<lambda>(mem, found).
      let w = upd_com (\<lambda>c. c\<lparr>cmds := (cmds c)\<lparr>cmdQ := (cmdQ q)[rHead q := slot\<lparr>qData := mem\<rparr>]\<rparr>\<rparr>) w in
      case found of
        Some msg \<Rightarrow> map_option (\<lambda>(w, ret). (next w, Some ret)) (analyze env msg w)
      | None \<Rightarrow> Some (next w, None))))"

text \<open>What is left of a message that could not be taken apart is compared with the notice of a lost connection.\<close>

definition is_disconnect :: "module_type \<Rightarrow> nat \<Rightarrow> work \<Rightarrow> bool option" where
  "is_disconnect m i w =
     Option.bind (fetch (cmdQ (cmds (comm_of w))) i) (\<lambda>slot.
     map_option (\<lambda>t. t = NET_MQTT_DISCONNECT_CMD_HEAD m) (c_string (qData slot) 0))"

definition handle_message :: "work_env \<Rightarrow> module_type \<Rightarrow> (nat \<Rightarrow> work \<Rightarrow> work_result) \<Rightarrow> work \<Rightarrow> work_result" where
  "handle_message env m answer w =
     Option.bind (take_message env m w) (\<lambda>(w', found).
     case found of
       Some ret \<Rightarrow> answer ret w'
     | None \<Rightarrow> map_option (\<lambda>lost. if lost then (set_communicateStep 0 w', PROCESS_NET_DISCONNECT) else (w', PROCESS_WAIT))
                 (is_disconnect m (rHead (cmds (comm_of w))) w'))"

text \<open>Without a message: publish, or ask for the cells.\<close>

definition idle_round :: "module_type \<Rightarrow> work \<Rightarrow> work_result" where
  "idle_round m w =
     (if get_pub_msg_flag (tx (comm_of w)) then Some (set_communicateStep 2 w, PROCESS_WAIT)
      else if net4g_get_cell_info_flag (dev (net (comm_of w))) = 1
      then map_option (\<lambda>(n, _). (upd_com (\<lambda>c. c\<lparr>net := n\<rparr>) w, PROCESS_WAIT)) (module_4g_get_cell_info_process m (net (comm_of w)))
      else Some (w, PROCESS_WAIT))"

text \<open>One step of publishing; \<open>also\<close>: after a timeout the message is removed as well.\<close>

definition publish_round :: "work_env \<Rightarrow> module_type \<Rightarrow> bool \<Rightarrow> work \<Rightarrow> work_result" where
  "publish_round env m also w =
     (let c = comm_of w; remove = upd_com (\<lambda>c. c\<lparr>tx := reset_pub_msg_queue (tx c)\<rparr>) in
      map_option (\<lambda>((t, f, d), ret).
          let w = upd_com (\<lambda>c. c\<lparr>tx := t, flags := f, net := (net c)\<lparr>dev := d\<rparr>\<rparr>) w in
          if ret = 1 then (set_communicateStep 1 (remove w), PROCESS_WAIT)
          else if ret = 2 then (set_communicateStep 0 (if also then remove w else w), PROCESS_NET_DISCONNECT)
          else (w, PROCESS_WAIT))
        (net4g_send_data_process m (pucProductkey (cloud env)) (netWork (net_steps w) = NETWORK_WORK_STEP__INIT)
           (tx c, flags c, dev (net c))))"

subsection \<open>The countdown to an update\<close>

definition NET_CMD_MQTT_DISCONNECT :: "module_type \<Rightarrow> bytes" where
  "NET_CMD_MQTT_DISCONNECT m = (if lierda m then asc ''AT+LMQTTDISC=0'' else asc ''AT+QMTDISC=0'') @ crlf"

definition send_disconnect :: "module_type \<Rightarrow> work \<Rightarrow> work" where
  "send_disconnect m = upd_com (upd_dev (network_uart_send (NET_CMD_MQTT_DISCONNECT m)))"

definition blink_slots :: "work \<Rightarrow> work" where
  "blink_slots w =
     (let a = ota_addr (ota (app_of w)) in
      if a = 0 \<or> a = 0x0F then upd_cs (emit [NODE_EVENT 0xF0 NODE_SLAVE_LED_CTRL_EVT]) w
      else if 1 \<le> a \<and> a \<le> 4 then upd_cs (emit [NODE_EVENT ((int a - 1) * 6) NODE_SLAVE_LED_CTRL_EVT]) w
      else w)"

definition ota_countdown :: "work_env \<Rightarrow> module_type \<Rightarrow> work \<Rightarrow> work" where
  "ota_countdown env m w =
     (if otaFlag (ota (app_of w)) \<noteq> 1 then w
      else if 0 < batLendingFlag (app_of w)
      then (if 6000 \<le> lendTimeout_wait_time w
            then upd_cs (upd_app (\<lambda>a. a\<lparr>batLendingFlag := 0\<rparr>)) (w\<lparr>lendTimeout_wait_time := 0\<rparr>)
            else w\<lparr>lendTimeout_wait_time := lendTimeout_wait_time w + 1\<rparr>)
      else let t = ota_start_delay_time w;
               w = (if t = 500 then upd_cs (report (msgs env) (DeviceVersionReport 0 29 1)) w
                    else if t = 1500 then blink_slots (send_disconnect m w)
                    else if t = 5000 then set_net4g_work_step NETWORK_WORK_STEP__OTA (w\<lparr>ota_start_delay_time := 0\<rparr>)
                    else w)
           in w\<lparr>ota_start_delay_time := ota_start_delay_time w + 1\<rparr>)"

subsection \<open>The two processes\<close>

definition wifi_wanted :: "nat \<Rightarrow> work \<Rightarrow> work_result" where
  "wifi_wanted ret w =
     (if ret \<in> {1, 3, 4, 7, 8, 9} \<and> wifiConfigFlag (app_of w) = 0xAA \<and> wifiEnableFlag (app_of w) = 1
      then map_option (\<lambda>ssid. (w, if ssid \<noteq> [] then PROCESS_NET_TYPE_WIFI else PROCESS_WAIT)) (c_string (wifi_ssid (app_of w)) 0)
      else Some (w, PROCESS_WAIT))"

definition start_communication :: "work \<Rightarrow> work" where
  "start_communication w =
     set_communicateStep 1 (upd_cs (emit [UART_CB True, NODE_EVENT 0xFF NODE_BAT_POWER_CHECK_EVT, NODE_EVENT 0xFF NODE_DEVICE_INFO_EVT,
       QR_CODE_LED 1]) w)"

definition module_4g_communication_process :: "work_env \<Rightarrow> module_type \<Rightarrow> work \<Rightarrow> work_result" where
  "module_4g_communication_process env m w =
     Option.bind (receive_round env m w) (\<lambda>(w, lost).
     if lost then Some (set_communicateStep 0 w, PROCESS_NET_DISCONNECT)
     else let w = ota_countdown env m w; i = communicateStep (net_steps w) in
          if i = 0 then Some (start_communication w, PROCESS_WAIT)
          else if i = 1
          then (if cmds_nonempty (cmds (comm_of w)) then handle_message env m wifi_wanted w else idle_round m w)
          else if i = 2 then publish_round env m False w
          else Some (w, PROCESS_WAIT))"

text \<open>After a restart the device asks the cloud whether it is still there; only the answer 14 is good.\<close>

definition ping_answered :: "nat \<Rightarrow> work \<Rightarrow> work_result" where
  "ping_answered ret w =
     Some (if ret = 14 then (w, PROCESS_END) else (set_communicateStep 0 w, PROCESS_NET_DISCONNECT))"

definition device_reboot_module_4g_communication_process :: "work_env \<Rightarrow> module_type \<Rightarrow> work \<Rightarrow> work_result" where
  "device_reboot_module_4g_communication_process env m w =
     Option.bind (receive_round env m w) (\<lambda>(w, lost).
     if lost then Some (set_communicateStep 0 w, PROCESS_NET_DISCONNECT)
     else let w = (if ping_send_flag w then upd_cs (report (msgs env) PingReport) w\<lparr>ping_send_flag := False\<rparr> else w);
              i = communicateStep (net_steps w) in
          if i = 0 then Some (set_communicateStep 1 (upd_cs (emit [UART_CB True]) w), PROCESS_WAIT)
          else if i = 1
          then (if cmds_nonempty (cmds (comm_of w)) then handle_message env m ping_answered w else idle_round m w)
          else if i = 2 then publish_round env m True w
          else Some (w, PROCESS_WAIT))"

end
