(* ===== verification/CommCorrect.thy ===== *)
theory CommCorrect
  imports NetComm ConnectCorrect
begin

text \<open>
  The connected device: a message that the cloud encrypts reaches its handler as it was sent, and a requested
  update starts after a bounded number of calls.
\<close>

section \<open>From the queue to the handler\<close>

lemma RspAnalyze_prefix:
  "length msg < 65536 \<Longrightarrow> RspAnalyze env pk t (msg @ rest) (of_nat (length msg)) s = RspAnalyze env pk t msg (of_nat (length msg)) s"
  by (simp add: RspAnalyze_def unat_of_nat take_bit_nat_eq_self Let_def)

text \<open>What the cloud sends: \<open>msg\<close> encrypted by the same module under the key of the device.\<close>

definition encrypted :: "bytes \<Rightarrow> bytes \<Rightarrow> bytes" where
  "encrypted key msg =
     (case aes128_ecb_encrypt \<lparr>RoundKey_encrypt = [], RoundKey_decrypt = [], Iv = []\<rparr> (msg @ replicate 16 0) (length msg) key
        (replicate (length msg + 16) 0) of
      Some (_, _, output1, n) \<Rightarrow> take n output1 | None \<Rightarrow> [])"

lemma decrypt_encrypted:
  assumes "16 \<le> length key" and "length msg + 16 \<le> length output2"
  shows "length (encrypted key msg) = length (pkcs7 msg)"
    and "\<exists>a2. aes128_ecb_decrypt b (encrypted key msg @ rest) (length (encrypted key msg)) key output2
      = Some (a2, msg @ drop (length msg) (pkcs7 msg @ drop (length (pkcs7 msg)) output2), of_nat (16 - length msg mod 16))"
proof -
  have spare: "16 - length msg mod 16 \<le> length (replicate 16 (0 :: u8))"
    and room: "length msg + 16 \<le> length (replicate (length msg + 16) (0 :: u8))" by simp_all
  obtain a1 input1 c where len: "length c = length (pkcs7 msg)"
    and enc: "aes128_ecb_encrypt \<lparr>RoundKey_encrypt = [], RoundKey_decrypt = [], Iv = []\<rparr> (msg @ replicate 16 0) (length msg) key
      (replicate (length msg + 16) 0) = Some (a1, input1, c @ drop (length c) (replicate (length msg + 16) 0), length c)"
    and dec: "\<And>b rest output2. length msg + 16 \<le> length output2 \<Longrightarrow> \<exists>a2. aes128_ecb_decrypt b (c @ rest) (length c) key output2
      = Some (a2, pkcs7 msg @ drop (length c) output2, of_nat (16 - length msg mod 16))"
    by (rule ecb_encrypt_decrypt [OF spare assms(1) room]) (rule that)
  have e: "encrypted key msg = c" by (simp add: encrypted_def enc)
  have "pkcs7 msg @ ys = msg @ drop (length msg) (pkcs7 msg @ ys)" for ys by (simp add: pkcs7_def)
  then show "length (encrypted key msg) = length (pkcs7 msg)"
    "\<exists>a2. aes128_ecb_decrypt b (encrypted key msg @ rest) (length (encrypted key msg)) key output2
      = Some (a2, msg @ drop (length msg) (pkcs7 msg @ drop (length (pkcs7 msg)) output2), of_nat (16 - length msg mod 16))"
    using dec [OF assms(2), of b rest] e len by simp_all
qed

text \<open>The device's key, and the buffer for the plain text.\<close>

definition secret :: "bytes \<Rightarrow> work \<Rightarrow> bool" where
  "secret key w \<longleftrightarrow> mqtt_secretKey (dev (net (comm_of w))) = key \<and> 16 \<le> length key \<and> length (g_payload w) = 500"

lemma analyze_encrypted:
  assumes "secret key w" and "length msg < 176"
  shows "\<exists>a p. analyze env (t, decimal (length (encrypted key msg)), encrypted key msg) w
    = map_option (\<lambda>(s, ret). (w\<lparr>aes_state := a, g_payload := p, cs := s\<rparr>, ret))
        (RspAnalyze (msgs env) (pucProductkey (cloud env)) t msg (of_nat (length msg)) (cs w))"
proof -
  let ?c = "encrypted key msg" and ?pad = "16 - length msg mod 16"
  have key: "mqtt_secretKey (dev (net (comm_of w))) = key" "16 \<le> length key" "length msg + 16 \<le> length (replicate (length (g_payload w)) (0 :: u8))"
    using assms by (simp_all add: secret_def)
  have len: "length ?c = length (pkcs7 msg)" by (rule decrypt_encrypted(1) [OF key(2,3)])
  have pad: "length (pkcs7 msg) = length msg + ?pad" "?pad \<le> 16" by (simp_all add: pkcs7_def)
  then have small: "length ?c < 200" using assms(2) len by simp
  obtain a rest where dec: "aes128_ecb_decrypt (aes_state w) (?c @ replicate (200 - length ?c) 0) (length ?c) key
      (replicate (length (g_payload w)) 0) = Some (a, msg @ rest, of_nat ?pad)"
    using decrypt_encrypted(2) [OF key(2,3), of "aes_state w" "replicate (200 - length ?c) 0"] by blast
  have n: "unat (word_of_int (atoi (decimal (length ?c))) :: u16) = length ?c"
    using atoi_decimal [of "[]" "length ?c"] small by (simp add: unat_of_nat take_bit_nat_eq_self)
  have u: "unat (of_nat ?pad :: u8) = ?pad" using unat_of_nat_u8 [of ?pad] pad(2) by simp
  have "decrypt_payload (decimal (length ?c)) ?c w = Some (w\<lparr>aes_state := a, g_payload := msg @ rest\<rparr>, length ?c, ?pad)"
    unfolding decrypt_payload_def n Let_def key(1) dec by (simp only: option.map prod.case u)
  moreover have "length ?c - ?pad = length msg" "?pad \<le> length ?c" "?pad < 100" using len pad by simp_all
  ultimately have "analyze env (t, decimal (length ?c), ?c) w
      = map_option (\<lambda>(s, ret). (w\<lparr>aes_state := a, g_payload := msg @ rest, cs := s\<rparr>, ret))
          (RspAnalyze (msgs env) (pucProductkey (cloud env)) t (msg @ rest) (of_nat (length msg)) (cs w))"
    by (simp add: analyze_def)
  then show ?thesis using RspAnalyze_prefix [of msg] assms(2) by auto
qed

text \<open>C3. End to end: a queued message in the form of the module, with any fields before its topic and its payload
  encrypted under the device's key, is taken from the queue and its topic and plain text are handed to
  \<open>RspAnalyze\<close> exactly as the cloud sent them; nothing else of the device's state is touched before that.\<close>

theorem cloud_message_delivered:
  assumes "cmdQ (cmds (comm_of w)) ! rHead (cmds (comm_of w)) = slot" and "rHead (cmds (comm_of w)) < length (cmdQ (cmds (comm_of w)))"
    and "qData slot = NET_MQTT_CTRL_CMD_HEAD m @ concat (map (\<lambda>f. f @ [0x2C]) fs) @ (0x22 # t @ [0x22]) @ 0x2C #
      decimal (length payload) @ 0x2C # 0x22 # payload @ r @ 0 # junk"
    and "payload = encrypted key msg" and "secret key w" and "length msg < 176"
    and "length fs = (if lierda m then 3 else 2)" and "list_all field fs" and "field t" and "\<not> at_blank (last t)" and "length t < 100"
    and "length payload + length r < 250"
  shows "\<exists>q a p. let w' = w\<lparr>cs := (cs w)\<lparr>com := (comm_of w)\<lparr>cmds := q\<rparr>\<rparr>\<rparr> in
    rHead q = rHead (cmds (comm_of w)) \<and> rTail q = rTail (cmds (comm_of w)) \<and> length (cmdQ q) = length (cmdQ (cmds (comm_of w))) \<and>
    handle_message env m answer w =
      Option.bind (RspAnalyze (msgs env) (pucProductkey (cloud env)) t msg (of_nat (length msg)) (cs w')) (\<lambda>(s, ret).
        answer ret (upd_com (\<lambda>c. c\<lparr>cmds := next_cmd (cmds c)\<rparr>) (w'\<lparr>aes_state := a, g_payload := p, cs := s\<rparr>)))"
proof -
  let ?q = "cmds (comm_of w)"
  have len: "length payload < 200" "length payload = length (encrypted key msg)"
  proof -
    have "length (encrypted key msg) = length (pkcs7 msg)"
      using decrypt_encrypted(1) [of key msg "replicate (length msg + 16) 0"] assms(5) by (simp add: secret_def)
    then show "length payload < 200" "length payload = length (encrypted key msg)" using assms(4,6) by (simp_all add: pkcs7_def)
  qed
  have num: "unat (if lierda m then 4 else 3 :: u8) = Suc (length fs)" using assms(7) by simp
  obtain mem where pb: "get_at_rsp_keywords_pb (qData slot) (NET_MQTT_CTRL_CMD_HEAD m) (if lierda m then 4 else 3)
      = Some (mem, Some (t, decimal (length payload), payload))"
    using pb_message [OF assms(3,8-11) len(1) num] assms(7,12) by (auto split: if_splits)
  let ?q' = "?q\<lparr>cmdQ := (cmdQ ?q)[rHead ?q := slot\<lparr>qData := mem\<rparr>]\<rparr>"
  let ?w = "w\<lparr>cs := (cs w)\<lparr>com := (comm_of w)\<lparr>cmds := ?q'\<rparr>\<rparr>\<rparr>"
  have "secret key ?w" using assms(5) by (simp add: secret_def)
  from analyze_encrypted [OF this assms(6)] obtain a p where
    an: "analyze env (t, decimal (length payload), payload) ?w
      = map_option (\<lambda>(s, ret). (?w\<lparr>aes_state := a, g_payload := p, cs := s\<rparr>, ret))
          (RspAnalyze (msgs env) (pucProductkey (cloud env)) t msg (of_nat (length msg)) (cs ?w))"
    unfolding assms(4) by blast
  have w': "upd_com (\<lambda>c. c\<lparr>cmds := (cmds c)\<lparr>cmdQ := (cmdQ ?q)[rHead ?q := slot\<lparr>qData := mem\<rparr>]\<rparr>\<rparr>) w = ?w"
    by (simp add: upd_com_def)
  have take: "take_message env m w = map_option (\<lambda>(s, ret).
      (upd_com (\<lambda>c. c\<lparr>cmds := next_cmd (cmds c)\<rparr>) (?w\<lparr>aes_state := a, g_payload := p, cs := s\<rparr>), Some ret))
        (RspAnalyze (msgs env) (pucProductkey (cloud env)) t msg (of_nat (length msg)) (cs ?w))"
    using assms(1,2) pb unfolding take_message_def Let_def
    by (cases "RspAnalyze (msgs env) (pucProductkey (cloud env)) t msg (of_nat (length msg)) (cs ?w)")
      (simp_all add: w' an case_prod_beta)
  have "handle_message env m answer w =
      Option.bind (RspAnalyze (msgs env) (pucProductkey (cloud env)) t msg (of_nat (length msg)) (cs ?w)) (\<lambda>(s, ret).
        answer ret (upd_com (\<lambda>c. c\<lparr>cmds := next_cmd (cmds c)\<rparr>) (?w\<lparr>aes_state := a, g_payload := p, cs := s\<rparr>)))"
    unfolding handle_message_def take
    by (cases "RspAnalyze (msgs env) (pucProductkey (cloud env)) t msg (of_nat (length msg)) (cs ?w)") (simp_all add: case_prod_beta)
  then show ?thesis by (intro exI [of _ ?q'] exI [of _ a] exI [of _ p]) (simp add: Let_def)
qed

section \<open>What a command cannot change\<close>

text \<open>The steps of the processes, a requested update, and a loan that is not running.\<close>

definition stays :: "cloud_state \<Rightarrow> cloud_state \<Rightarrow> bool" where
  "stays s t \<longleftrightarrow> steps (net (com t)) = steps (net (com s)) \<and>
     (otaFlag (ota (app s)) = 1 \<longrightarrow> otaFlag (ota (app t)) = 1) \<and>
     (batLendingFlag (app s) = 0 \<longrightarrow> batLendingFlag (app t) = 0)"

lemma stays_refl [simp]: "stays s s"
  by (simp add: stays_def)

lemma stays_trans: "stays s t \<Longrightarrow> stays t u \<Longrightarrow> stays s u"
  by (auto simp: stays_def)

lemma stays_simps [simp]: "stays s (emit es t) = stays s t" "stays s (report env r t) = stays s t"
  "stays s (upd_device f t) = stays s t" "stays s (set_flag i t) = stays s t"
  by (simp_all add: stays_def emit_def report_def upd_device_def upd_dev_def set_flag_def)

lemma stays_app: "stays s t \<Longrightarrow> otaFlag (ota a) = otaFlag (ota (app t)) \<Longrightarrow> batLendingFlag a = batLendingFlag (app t) \<Longrightarrow>
    stays s (t\<lparr>app := a\<rparr>)"
  by (auto simp: stays_def)

lemma stays_upd [simp]: "(\<And>a. otaFlag (ota (f a)) = otaFlag (ota a)) \<Longrightarrow> (\<And>a. batLendingFlag (f a) = batLendingFlag a) \<Longrightarrow>
    stays s (upd_app f t) = stays s t"
  by (simp add: stays_def)

lemma stays_items [simp]: "stays s (set_ble msg t) = stays s t" "stays s (set_sim msg t) = stays s t"
  "stays s (set_intervals msg t) = stays s t" "stays s (set_speaker msg t) = stays s t" "stays s (set_remember msg t) = stays s t"
  "stays s (save_para is t) = stays s t" "stays s (clear_name msg t) = stays s t" "stays s (clear_forbidden msg t) = stays s t"
  "stays s (flag_if b i t) = stays s t" "stays s (config_query msg t) = stays s t"
  by (simp_all add: item_defs set_remember_def save_para_def clear_name_def clear_forbidden_def config_query_def flag_if_def)

lemma stays_strings: "stays s t \<Longrightarrow> pred_option (stays s) (set_name msg t)" "stays s t \<Longrightarrow> pred_option (stays s) (set_pair_code msg t)"
  "stays s t \<Longrightarrow> pred_option (stays s) (set_clients msg t)" "stays s t \<Longrightarrow> pred_option (stays s) (set_forbidden msg t)"
  "stays s t \<Longrightarrow> pred_option (stays s) (clear_pair_code msg t)" "stays s t \<Longrightarrow> pred_option (stays s) (clear_clients msg t)"
  by (auto simp: item_defs clear_pair_code_def clear_clients_def option.pred_set)

lemma stays_wifi: "stays s (fst tr) \<Longrightarrow> stays s (fst (set_wifi_enable msg tr))"
  "stays s (fst tr) \<Longrightarrow> stays s (fst (clear_ssid msg tr))" "stays s (fst tr) \<Longrightarrow> stays s (fst (clear_password msg tr))"
  "stays s (fst tr) \<Longrightarrow> pred_option (\<lambda>u. stays s (fst u)) (set_ssid msg tr)"
  "stays s (fst tr) \<Longrightarrow> pred_option (\<lambda>u. stays s (fst u)) (set_password msg tr)"
  by (cases tr; auto simp: set_wifi_enable_def clear_ssid_def clear_password_def set_ssid_def set_password_def Let_def option.pred_set)+

lemma stays_config_set: "pred_option (\<lambda>u. stays s (fst u)) (config_set msg s)"
proof -
  obtain t ret where t: "set_wifi_enable msg (set_ble msg (set_flag 1 s), 0) = (t, ret)" by (metis surj_pair)
  then have 0: "stays s (set_speaker msg (set_intervals msg (set_sim msg t)))"
    using stays_wifi(1) [of s "(set_ble msg (set_flag 1 s), 0)" msg] by simp
  show ?thesis
    unfolding config_set_def t Let_def prod.case
  proof (intro opt_bind opt_map, goal_cases)
    case (1 s1 s2 s3 s4 sr tr)
    have "stays s s4"
      using pred_optionD [OF stays_strings(4) 1(4)] pred_optionD [OF stays_strings(3) 1(3)]
        pred_optionD [OF stays_strings(2) 1(2)] pred_optionD [OF stays_strings(1) 1(1)] 0 by blast
    then have "stays s (fst tr)"
      using pred_optionD [OF stays_wifi(5) 1(6)] pred_optionD [OF stays_wifi(4) 1(5), of s] by simp
    then show ?case by (simp add: case_prod_beta)
  qed
qed

lemma stays_config_clear: "pred_option (\<lambda>u. stays s (fst u)) (config_clear msg s)"
proof -
  obtain t ret where t: "clear_password msg (clear_ssid msg (set_flag 1 s, 0)) = (t, ret)" by (metis surj_pair)
  then have 0: "stays s t" using stays_wifi(3) [OF stays_wifi(2), of s "(set_flag 1 s, 0)" msg msg] by simp
  show ?thesis
    unfolding config_clear_def t Let_def prod.case
  proof (intro opt_bind opt_map, goal_cases)
    case (1 s1 s2)
    then show ?case using pred_optionD [OF stays_strings(6) 1(2)] pred_optionD [OF stays_strings(5) 1(1)] 0 by simp
  qed
qed

lemma stays_config: "pred_option (\<lambda>u. stays s (fst u)) (cloud_config_command env msg s)"
proof (cases "accept_opCode (opCode msg) (app s)")
  case (Some a)
  have a: "otaFlag (ota a) = otaFlag (ota (app s))" "batLendingFlag a = batLendingFlag (app s)"
    using Some by (simp_all add: accept_opCode_Some)
  have b: "stays s (s\<lparr>app := b\<rparr>)" if "start_config msg a = Some b" for b
    using that a by (intro stays_app) (auto simp: start_config_def Let_def split: if_splits)
  have "stays s u" if "start_config msg a = Some b" and "stays (s\<lparr>app := b\<rparr>) u" for b u
    using b [OF that(1)] that(2) by (rule stays_trans)
  then show ?thesis
    using Some b stays_config_set [of "s\<lparr>app := b\<rparr>" msg for b] stays_config_clear [of "s\<lparr>app := b\<rparr>" msg for b]
    unfolding cloud_config_command_def Some option.case Let_def config_report_def
    by (intro opt_intro) (auto simp: option.pred_set case_prod_beta)
qed (simp add: cloud_config_command_refused)

lemma stays_slot: "pred_option (\<lambda>u. stays s (fst u)) (slot_command msg s)"
proof -
  have row: "stays s (s\<lparr>app := b\<rparr>)" if "slot_rows f g msg a = Some b" and "stays s (s\<lparr>app := a\<rparr>)" for f g a b
    using that by (auto simp: slot_rows_Some stays_def)
  have act: "pred_option (stays s) (slot_action msg t)" if "stays s t" for t
    using that unfolding slot_action_def Let_def
    by (auto simp: cancel_lend_def Let_def option.pred_set stays_def emit_def split: slot_cmd.splits if_splits)
  have "stays s (s\<lparr>app := note_traceId t b\<rparr>)" if "accept_opCode op a = Some b" and "stays s (s\<lparr>app := a\<rparr>)" for op a b t
    using that by (auto simp: accept_opCode_Some stays_def note_traceId_def)
  note acc = this
  show ?thesis
    unfolding slot_command_def
  proof (intro opt_intro, goal_cases)
    case (1 a)
    then show ?case using row by simp
  next
    case (2 a b c t)
    have "stays s (s\<lparr>app := c\<rparr>)" by (rule row [OF 2(3) acc [OF 2(2) row [OF 2(1)]]]) simp
    then show ?case using pred_optionD [OF act 2(4)] by simp
  qed
qed

lemma stays_cubby: "stays s (cubby_command msg s)"
  by (auto simp: cubby_command_def stays_def emit_def note_traceId_def Let_def accept_opCode_Some split: option.splits)

lemma stays_note: "stays s (upd_app (note_opCode op) s)" "stays s (upd_app (note_traceId t \<circ> note_opCode op) s)"
  by (simp_all add: stays_def note_opCode_def note_traceId_def accept_opCode_def)

lemma stays_device: "stays s (fst (device_command env msg s))"
  using stays_note(1) by (simp add: device_command_def Let_def)

lemma stays_ota: "pred_option (\<lambda>u. stays s (fst u)) (ota_command env msg s)"
proof -
  have "stays s (t\<lparr>app := a\<rparr>)" if "start_ota msg (app t) = Some a" and "stays s t" for a t
    using that by (auto simp: start_ota_def copy_string_def Let_def bind_eq_Some_conv stays_def split: if_splits)
  then show ?thesis
    using stays_note(2) unfolding ota_command_def Let_def
    by (intro opt_intro) (auto simp: option.pred_set split: if_splits)
qed

lemma stays_lowpower: "stays s (lowpower_command env msg s)"
  using stays_note(2) by (simp add: lowpower_command_def Let_def)

lemma stays_RspAnalyze: "pred_option (\<lambda>u. stays s (fst u)) (RspAnalyze env pk t d n s)"
proof -
  have "pred_option (\<lambda>u. stays s (fst u)) (run_command env kind d' s)" for kind d'
    unfolding run_command_def Let_def
    by (intro opt_intro stays_slot stays_config stays_ota) (simp_all add: stays_cubby stays_device stays_lowpower)
  then show ?thesis
    unfolding RspAnalyze_def Let_def by (intro opt_intro) (auto split: list.splits)
qed

section \<open>A requested update starts\<close>

text \<open>What one call changes besides the countdown.\<close>

definition inert :: "work \<Rightarrow> work \<Rightarrow> bool" where
  "inert w v \<longleftrightarrow> netWork (net_steps v) = netWork (net_steps w) \<and>
     (otaFlag (ota (app_of w)) = 1 \<longrightarrow> otaFlag (ota (app_of v)) = 1) \<and>
     (batLendingFlag (app_of w) = 0 \<longrightarrow> batLendingFlag (app_of v) = 0) \<and>
     ota_start_delay_time v = ota_start_delay_time w \<and> lendTimeout_wait_time v = lendTimeout_wait_time w"

lemma inert_refl [simp]: "inert w w"
  by (simp add: inert_def)

lemma inert_trans: "inert u v \<Longrightarrow> inert v w \<Longrightarrow> inert u w"
  by (auto simp: inert_def)

lemma inert_com [simp]: "netWork (steps (net (f (comm_of v)))) = netWork (net_steps v) \<Longrightarrow> inert w (upd_com f v) = inert w v"
  by (simp add: inert_def upd_com_def)

lemma inert_steps [simp]: "inert w (set_communicateStep i v) = inert w v"
  by (simp add: set_communicateStep_def)

lemma inert_stays: "stays (cs w) s \<Longrightarrow> inert w (w\<lparr>cs := s\<rparr>)"
  by (auto simp: inert_def stays_def)

lemma inert_fields [simp]: "inert w (v\<lparr>aes_state := a\<rparr>) = inert w v" "inert w (v\<lparr>g_payload := p\<rparr>) = inert w v"
  "inert w (v\<lparr>ping_send_flag := b\<rparr>) = inert w v"
  by (simp_all add: inert_def)

lemma inert_cs [simp]: "inert w (upd_cs (emit es) v) = inert w v" "inert w (upd_cs (report env r) v) = inert w v"
  by (simp_all add: inert_def upd_cs_def emit_def report_def)

lemma receive_inert: "pred_option (\<lambda>(v, lost). inert w v) (receive_round env m w)"
  unfolding receive_round_def
  by (intro opt_intro) (auto dest!: pred_optionD [OF receiver_effect])

lemma analyze_inert: "pred_option (\<lambda>(v, r). inert w v) (analyze env msg w)"
proof -
  have d: "pred_option (\<lambda>(v, n, k). inert w v) (decrypt_payload l p w)" for l p
    unfolding decrypt_payload_def Let_def by (intro opt_intro) auto
  have "inert w (v\<lparr>cs := s\<rparr>)" if "inert w v" and "stays (cs v) s" for v s
    using that(1) inert_stays [OF that(2)] by (rule inert_trans)
  moreover obtain t l b where "msg = (t, l, b)" by (cases msg)
  ultimately show ?thesis
    unfolding analyze_def
    by (simp, intro opt_intro) (auto dest!: pred_optionD [OF d] pred_optionD [OF stays_RspAnalyze])
qed

lemma take_message_inert: "pred_option (\<lambda>(v, r). inert w v) (take_message env m w)"
proof -
  have "inert w v" if "analyze env msg (upd_com (\<lambda>c. c\<lparr>cmds := f c\<rparr>) w) = Some (v, r)" for msg f v r
  proof -
    have "inert w (upd_com (\<lambda>c. c\<lparr>cmds := f c\<rparr>) w)" by simp
    moreover have "inert (upd_com (\<lambda>c. c\<lparr>cmds := f c\<rparr>) w) v" using pred_optionD [OF analyze_inert that] by simp
    ultimately show ?thesis by (rule inert_trans)
  qed
  then show ?thesis
    unfolding take_message_def Let_def by (intro opt_intro) (auto split: option.splits)
qed

lemma handle_inert:
  assumes "\<And>r v. pred_option (\<lambda>u. inert v (fst u)) (answer r v)"
  shows "pred_option (\<lambda>u. inert w (fst u)) (handle_message env m answer w)"
proof -
  have "inert w u" if "inert w v" and "answer r v = Some (u, p)" for u v r p
    using that pred_optionD [OF assms that(2)] inert_trans by auto
  then show ?thesis
    unfolding handle_message_def
    by (intro opt_intro) (auto simp: option.pred_set dest!: pred_optionD [OF take_message_inert] split: if_splits)
qed

lemma idle_inert: "pred_option (\<lambda>u. inert w (fst u)) (idle_round m w)"
  unfolding idle_round_def module_4g_get_cell_info_process_def by (intro opt_intro) (auto split: if_splits)

lemma publish_inert: "pred_option (\<lambda>u. inert w (fst u)) (publish_round env m also w)"
  unfolding publish_round_def Let_def by (intro opt_intro) auto

lemma wifi_inert: "pred_option (\<lambda>u. inert w (fst u)) (wifi_wanted r w)"
  unfolding wifi_wanted_def by (intro opt_intro) auto

text \<open>Calls until the update starts: the wait for a loan, and then the countdown.\<close>

definition ota_waiting :: "work \<Rightarrow> bool" where
  "ota_waiting w \<longleftrightarrow> otaFlag (ota (app_of w)) = 1 \<and> ota_start_delay_time w \<le> 5000 \<and> lendTimeout_wait_time w \<le> 6000"

definition ota_rank :: "work \<Rightarrow> nat" where
  "ota_rank w = (if batLendingFlag (app_of w) = 0 then 0 else 6001 - unat (lendTimeout_wait_time w)) +
     (5001 - unat (ota_start_delay_time w))"

lemma inert_rank:
  assumes "inert w v" and "ota_waiting w"
  shows "ota_waiting v" and "ota_rank v \<le> ota_rank w" and "get_net4g_work_step v = get_net4g_work_step w"
  using assms by (auto simp: inert_def ota_waiting_def ota_rank_def get_net4g_work_step_def)

lemma ota_countdown_rank:
  assumes "ota_waiting w" and "v = ota_countdown env m w"
  shows "get_net4g_work_step v = NETWORK_WORK_STEP__OTA \<or>
    ota_waiting v \<and> ota_rank v < ota_rank w \<and> get_net4g_work_step v = get_net4g_work_step w"
proof -
  let ?t = "ota_start_delay_time w" and ?l = "lendTimeout_wait_time w"
  have t: "unat ?t \<le> 5000" and l: "unat ?l \<le> 6000" and flag: "otaFlag (ota (app_of w)) = 1"
    using assms(1) by (simp_all add: ota_waiting_def word_le_nat_alt)
  consider (loan_over) "0 < batLendingFlag (app_of w)" "6000 \<le> ?l" | (loan) "0 < batLendingFlag (app_of w)" "\<not> 6000 \<le> ?l"
    | (start) "batLendingFlag (app_of w) = 0" "?t = 5000" | (count) "batLendingFlag (app_of w) = 0" "?t \<noteq> 5000"
    using word_neq_0_conv by blast
  then show ?thesis
  proof cases
    case loan_over
    then have "v = upd_cs (upd_app (\<lambda>a. a\<lparr>batLendingFlag := 0\<rparr>)) (w\<lparr>lendTimeout_wait_time := 0\<rparr>)"
      using flag assms(2) by (simp add: ota_countdown_def)
    then show ?thesis
      using loan_over assms(1) l
      by (auto simp: ota_waiting_def ota_rank_def upd_cs_def get_net4g_work_step_def word_neq_0_conv)
  next
    case loan
    then have v: "v = w\<lparr>lendTimeout_wait_time := ?l + 1\<rparr>" using flag assms(2) by (simp add: ota_countdown_def)
    have "unat ?l < 6000" using loan(2) by (simp add: word_le_nat_alt)
    then have "unat (?l + 1) = Suc (unat ?l)" by (simp add: unat_word_ariths)
    then show ?thesis
      using loan assms(1) \<open>unat ?l < 6000\<close>
      by (auto simp: v ota_waiting_def ota_rank_def get_net4g_work_step_def word_le_nat_alt word_neq_0_conv)
  next
    case start
    then have "v = (set_net4g_work_step NETWORK_WORK_STEP__OTA (w\<lparr>ota_start_delay_time := 0\<rparr>))\<lparr>ota_start_delay_time :=
        ota_start_delay_time (set_net4g_work_step NETWORK_WORK_STEP__OTA (w\<lparr>ota_start_delay_time := 0\<rparr>)) + 1\<rparr>"
      using flag assms(2) by (simp add: ota_countdown_def Let_def)
    then show ?thesis by (simp add: get_net4g_work_step_def set_net4g_work_step_def upd_com_def)
  next
    case count
    define u where "u = (if ?t = 500 then upd_cs (report (msgs env) (DeviceVersionReport 0 29 1)) w
      else if ?t = 1500 then blink_slots (send_disconnect m w) else w)"
    have u: "inert w u"
      by (simp add: u_def blink_slots_def send_disconnect_def upd_dev_def Let_def)
    have v: "v = u\<lparr>ota_start_delay_time := ?t + 1\<rparr>"
      using count flag assms(2) u by (auto simp: ota_countdown_def u_def Let_def inert_def)
    have "unat ?t \<noteq> 5000" using count(2) by (simp add: word_unat_eq_iff)
    then have lt: "unat ?t < 5000" using t by simp
    then have t1: "unat (?t + 1) = Suc (unat ?t)" by (simp add: unat_word_ariths)
    have eq: "otaFlag (ota (app_of v)) = 1" "batLendingFlag (app_of v) = 0" "lendTimeout_wait_time v = ?l"
      "ota_start_delay_time v = ?t + 1"
      using u count(1) flag by (simp_all add: v inert_def)
    have "ota_waiting v" unfolding ota_waiting_def eq using assms(1) lt t1 by (simp add: ota_waiting_def word_le_nat_alt)
    moreover have "ota_rank v < ota_rank w" unfolding ota_rank_def eq t1 using count(1) lt by simp
    ultimately have "ota_waiting v" "ota_rank v < ota_rank w" by simp_all
    then show ?thesis using u by (simp add: v get_net4g_work_step_def inert_def)
  qed
qed

lemma communication_rank:
  assumes "ota_waiting w"
  shows "pred_option (\<lambda>(v, p). p = PROCESS_NET_DISCONNECT \<or> get_net4g_work_step v = NETWORK_WORK_STEP__OTA \<or>
    ota_waiting v \<and> ota_rank v < ota_rank w) (module_4g_communication_process env m w)"
proof -
  have rest: "get_net4g_work_step v = NETWORK_WORK_STEP__OTA \<or> ota_waiting v \<and> ota_rank v < ota_rank w"
    if r: "receive_round env m w = Some (u, False)" and v: "inert (ota_countdown env m u) v" for u v
  proof -
    have u: "inert w u" using pred_optionD [OF receive_inert r] by simp
    note u = inert_rank [OF u assms]
    show ?thesis
      using ota_countdown_rank [OF u(1) refl, of env m]
    proof
      assume "get_net4g_work_step (ota_countdown env m u) = NETWORK_WORK_STEP__OTA"
      then show ?thesis using v by (simp add: inert_def get_net4g_work_step_def)
    next
      assume "ota_waiting (ota_countdown env m u) \<and> ota_rank (ota_countdown env m u) < ota_rank u \<and>
        get_net4g_work_step (ota_countdown env m u) = get_net4g_work_step u"
      then show ?thesis using inert_rank [OF v] u(2) by simp
    qed
  qed
  have start: "inert v (start_communication v)" for v by (simp add: start_communication_def)
  show ?thesis
    unfolding module_4g_communication_process_def
    by (intro opt_intro)
      (auto simp: Let_def option.pred_set dest: rest [OF _ start] rest [OF _ inert_refl]
        rest [OF _ pred_optionD [OF handle_inert [OF wifi_inert]]] rest [OF _ pred_optionD [OF idle_inert]]
        rest [OF _ pred_optionD [OF publish_inert]])
qed

text \<open>Calls until the connection is lost or the update has started, at most \<open>n\<close>.\<close>

fun communication_calls :: "work_env \<Rightarrow> module_type \<Rightarrow> nat \<Rightarrow> work \<Rightarrow> work_result" where
  "communication_calls env m 0 w = Some (w, PROCESS_WAIT)"
| "communication_calls env m (Suc n) w =
     Option.bind (module_4g_communication_process env m w) (\<lambda>(w, p).
     if p = PROCESS_NET_DISCONNECT \<or> get_net4g_work_step w = NETWORK_WORK_STEP__OTA then Some (w, p)
     else communication_calls env m n w)"

lemma communication_calls_end:
  "ota_waiting w \<Longrightarrow> ota_rank w < n \<Longrightarrow>
    pred_option (\<lambda>(v, p). p = PROCESS_NET_DISCONNECT \<or> get_net4g_work_step v = NETWORK_WORK_STEP__OTA) (communication_calls env m n w)"
proof (induction n arbitrary: w)
  case (Suc n)
  show ?case
  proof (simp, intro opt_intro, goal_cases)
    case (1 y v p)
    then show ?case by simp
  next
    case (2 y v p)
    then have "ota_waiting v \<and> ota_rank v < ota_rank w" using pred_optionD [OF communication_rank [OF Suc.prems(1)]] by fastforce
    then show ?case using Suc.IH [of v] Suc.prems(2) by simp
  qed
qed simp


section \<open>Concrete runs\<close>

text \<open>A device with the secret \<open>sample_key\<close> and, as its oldest message, an encrypted command on \<open>sample_topic\<close>.\<close>

definition sample_key :: bytes where
  "sample_key = replicate 16 7"

definition sample_slot :: cmd_slot where
  "sample_slot =
     \<lparr>qData = NET_MQTT_CTRL_CMD_HEAD NT26E @ concat (map (\<lambda>f. f @ [0x2C]) [asc ''0'', asc ''1'', asc ''2'']) @
        (0x22 # sample_topic @ [0x22]) @ 0x2C # decimal (length (encrypted sample_key [1])) @ 0x2C # 0x22 #
        encrypted sample_key [1] @ crlf @ 0 # [], qLen = 64\<rparr>"

definition sample_work :: work where
  "sample_work =
     \<lparr>cs = keyed_cloud
        \<lparr>com := (com keyed_cloud)\<lparr>net := (net (com keyed_cloud))\<lparr>dev := (dev (net (com keyed_cloud)))\<lparr>mqtt_secretKey := sample_key\<rparr>\<rparr>,
           cmds := \<lparr>cmdQ = [sample_slot, \<lparr>qData = [], qLen = 0\<rparr>], rHead = 0, rTail = 1\<rparr>\<rparr>\<rparr>,
      g_payload = replicate 500 0, aes_state = \<lparr>RoundKey_encrypt = [], RoundKey_decrypt = [], Iv = []\<rparr>,
      ota_start_delay_time = 1, lendTimeout_wait_time = 0, ping_send_flag = True, ota_step = OTA_STEP_INIT, error_step = 0,
      wait_timeout = 0, route_retry_times = 0, process_retry_times = 0, wait_report_ret = PROCESS_WAIT, wait_report_delay = 0,
      slave_addr_config_event = 0, powerOn_flag = 0, node_status_syn_enable_flag = 0, net4g_get_cell_info_time = 0\<rparr>"

definition sample_work_env :: work_env where
  "sample_work_env =
     \<lparr>cloud = sample_env\<lparr>pucProductkey := asc ''P''\<rparr>, msgs = sample_msgs, no_power_off = False,
      OTA_4G_DownloadData = \<lambda>s. (s, PROCESS_DONE)\<rparr>"

theorem cloud_message_delivered_witness:
  "\<exists>v. handle_message sample_work_env NT26E wifi_wanted sample_work = Some (v, PROCESS_WAIT) \<and>
    events (comm_of v) = [NODE_EVENT 0xFF NODE_ALL_SLOT_UP_EVT] \<and> rHead (cmds (comm_of v)) = 1"
proof -
  let ?msg = "\<lparr>opCode = 8, traceId = 1, cc_command = SLOT_CMD_ALL_SLOT_INFO_CHECK_RSP, cc_addr = 1\<rparr>"
  have slot: "cmdQ (cmds (comm_of sample_work)) ! rHead (cmds (comm_of sample_work)) = sample_slot"
    "rHead (cmds (comm_of sample_work)) < length (cmdQ (cmds (comm_of sample_work)))"
    by (simp_all add: sample_work_def)
  have data: "qData sample_slot = NET_MQTT_CTRL_CMD_HEAD NT26E @ concat (map (\<lambda>f. f @ [0x2C]) [asc ''0'', asc ''1'', asc ''2'']) @
      (0x22 # sample_topic @ [0x22]) @ 0x2C # decimal (length (encrypted sample_key [1])) @ 0x2C # 0x22 #
      encrypted sample_key [1] @ crlf @ 0 # []" by (simp add: sample_slot_def)
  have key: "secret sample_key sample_work" by (simp add: secret_def sample_work_def sample_key_def)
  have len: "length (encrypted sample_key [1]) = 16"
    using decrypt_encrypted(1) [of sample_key "[1]" "replicate 100 0"] by (simp add: sample_key_def pkcs7_def)
  have fs: "length [asc ''0'', asc ''1'', asc ''2''] = (if lierda NT26E then 3 else 2)"
    "list_all field [asc ''0'', asc ''1'', asc ''2'']" by (simp_all add: field_def asc_def lierda_def)
  have t: "field sample_topic" "\<not> at_blank (last sample_topic)" "length sample_topic < 100" by code_simp+
  have small: "length [1 :: u8] < 176" "length (encrypted sample_key [1]) + length crlf < 250" by (simp_all add: len crlf_def)
  let ?c = "\<lambda>q. (cs sample_work)\<lparr>com := (comm_of sample_work)\<lparr>cmds := q\<rparr>\<rparr>"
  have key': "has_key (asc ''K'') (?c q)" for q
    using keyed_cloud(1) by (simp add: has_key_def sample_work_def)
  have run: "RspAnalyze sample_msgs (asc ''P'') sample_topic [1] 1 (?c q) = Some (cubby_command ?msg (?c q), 0)" for q
    using RspAnalyze_dispatch [OF key' _ _ sample_levels, of 1 "[1]"] sample_run by (simp add: sample_topic_def)
  have cub: "com (cubby_command ?msg (?c q)) = (com (?c q))\<lparr>events := [NODE_EVENT 0xFF NODE_ALL_SLOT_UP_EVT]\<rparr>" for q
    by (simp add: cubby_command_def accept_opCode_def sample_work_def keyed_cloud(2) sample_app_def emit_def keyed_cloud_def
        upd_device_def upd_dev_def sample_comm_def)
  have env: "msgs sample_work_env = sample_msgs" "pucProductkey (cloud sample_work_env) = asc ''P''"
    by (simp_all add: sample_work_env_def)
  have queue: "rHead (cmds (comm_of sample_work)) = 0" "rTail (cmds (comm_of sample_work)) = 1" "length (cmdQ (cmds (comm_of sample_work))) = 2"
    by (simp_all add: sample_work_def)
  obtain q a p where q: "rHead q = 0" "rTail q = 1" "length (cmdQ q) = 2"
    and h: "handle_message sample_work_env NT26E wifi_wanted sample_work =
      wifi_wanted 0 (upd_com (\<lambda>c. c\<lparr>cmds := next_cmd (cmds c)\<rparr>) (sample_work\<lparr>aes_state := a, g_payload := p, cs := cubby_command ?msg (?c q)\<rparr>))"
    using cloud_message_delivered [OF slot data refl key small(1) fs t small(2), of sample_work_env wifi_wanted]
    by (auto simp: Let_def env run queue intro: that)
  show ?thesis
    unfolding h by (simp add: wifi_wanted_def upd_com_def next_cmd_def q cub)
qed


end
