(* ===== verification/NetWork.thy ===== *)
theory NetWork
  imports CommCorrect
begin

text \<open>
  The work process of the 4G module, \<open>net4G_work_process\<close> of \<^verbatim>\<open>src/ql_application/App_XD/netlink/app_net4g.c\<close>: from
  power on through configuration, routing and login to the connected device, with the wait before a new attempt,
  the download of an update and the change to WiFi.  The work steps are numbered in the order of their constructors.
\<close>

section \<open>Model\<close>

text \<open>\<open>net4G_process_steps.netWork++\<close> in the steps where the code has it.\<close>

fun next_work_step :: "NETWORK_WORK_STEP \<Rightarrow> NETWORK_WORK_STEP" where
  "next_work_step NETWORK_WORK_STEP__INIT = NETWORK_WORK_STEP__NETCONFIG"
| "next_work_step NETWORK_WORK_STEP__NETCONFIG = NETWORK_WORK_STEP__ACTIVE_ROUTE"
| "next_work_step NETWORK_WORK_STEP__ACTIVE_ROUTE = NETWORK_WORK_STEP__LOGIN"
| "next_work_step NETWORK_WORK_STEP__LOGIN = NETWORK_WORK_STEP__NORMAL"
| "next_work_step NETWORK_WORK_STEP__NORMAL = NETWORK_WORK_STEP__OTA"
| "next_work_step NETWORK_WORK_STEP__OTA = NETWORK_WORK_STEP__ERROR"
| "next_work_step NETWORK_WORK_STEP__ERROR = NETWORK_WORK_STEP__ERROR"

definition tell :: "event list \<Rightarrow> work \<Rightarrow> work" where
  "tell es = upd_cs (emit es)"

definition wait_ms :: "nat \<Rightarrow> work \<Rightarrow> work" where
  "wait_ms n = upd_com (upd_dev (app_delay_ms n))"

text \<open>A process on the connection, as one call of the work process.\<close>

definition net_round :: "net4g_process \<Rightarrow> work \<Rightarrow> work_result" where
  "net_round f w = map_option (\<lambda>(n, p). (upd_com (\<lambda>c. c\<lparr>net := n\<rparr>) w, p)) (f (net (comm_of w)))"

subsection \<open>Download of an update\<close>

definition module_4g_fw_download_process :: "work_env \<Rightarrow> work \<Rightarrow> work \<times> process_step_ret" where
  "module_4g_fw_download_process env w =
     (case ota_step w of
        OTA_STEP_INIT \<Rightarrow>
          (tell [UART_CB False]
             (w\<lparr>ota_step := (if otaType (ota (app_of w)) = UPDATE_4G_BOARD then OTA_STEP_DOWNLOAD_END else OTA_STEP_DOWNLOAD_DATA)\<rparr>),
           PROCESS_WAIT)
      | OTA_STEP_DOWNLOAD_DATA \<Rightarrow>
          (let (s, ret) = OTA_4G_DownloadData env (cs w) in
           (w\<lparr>cs := s, ota_step := (if ret = PROCESS_DONE then OTA_STEP_DOWNLOAD_END
              else if ret = PROCESS_ERROR then OTA_STEP_INIT else OTA_STEP_DOWNLOAD_DATA)\<rparr>, ret))
      | OTA_STEP_DOWNLOAD_END \<Rightarrow> (w\<lparr>ota_step := OTA_STEP_INIT\<rparr>, PROCESS_DONE))"

subsection \<open>The wait before a new attempt\<close>

text \<open>The module is off for two seconds, ten seconds or five minutes.\<close>

definition off_over :: "nat \<Rightarrow> u32 \<Rightarrow> bool" where
  "off_over retries t =
     (if retries < 5 then t = 2000 else if retries < 15 then t = 10000 else 300000 \<le> t)"

definition module_4g_error_handle_process :: "work \<Rightarrow> work \<times> process_step_ret" where
  "module_4g_error_handle_process w =
     (if error_step w = 0 then ((tell [POWER_CTRL False] w)\<lparr>error_step := 1\<rparr>, PROCESS_WAIT)
      else if error_step w = 1
      then let t = wait_timeout w + 1 in
           (w\<lparr>wait_timeout := t, error_step := (if off_over (route_retry_times w) t then 2 else 1)\<rparr>, PROCESS_WAIT)
      else if error_step w = 2 then (w\<lparr>error_step := 0, wait_timeout := 0\<rparr>, PROCESS_DONE)
      else (w, PROCESS_WAIT))"

subsection \<open>The change to WiFi\<close>

text \<open>After the report of a new configuration the module stays on for eight more calls, then the device restarts.\<close>

definition wifi_switch :: "module_type \<Rightarrow> work \<Rightarrow> work \<times> process_step_ret" where
  "wifi_switch m w =
     (if wait_report_delay w = 0 then (w, PROCESS_WAIT)
      else let w = (wait_ms 500 w)\<lparr>wait_report_delay := wait_report_delay w + 1\<rparr> in
        if wait_report_delay w < 9 then (w, PROCESS_WAIT)
        else let w = w\<lparr>wait_report_delay := 0\<rparr> in
          if wait_report_ret w \<noteq> PROCESS_NET_TYPE_WIFI then (w, PROCESS_WAIT)
          else let w = tell [POWER_CTRL False] (wait_ms 500 (send_disconnect m w));
                   w = (if wifi_state (app_of w) \<noteq> 0 then tell [WIFI_CONNECT_STATUS 0] w else w);
                   w = (tell [WIFI_COMMUNICATE_STEP 0] w)\<lparr>process_retry_times := 0, route_retry_times := 0,
                         wait_report_ret := PROCESS_WAIT\<rparr>
               in (tell [DEVICE_REBOOT] w, PROCESS_NET_TYPE_WIFI))"

subsection \<open>The work steps\<close>

text \<open>After a restart: the old connection is used if the cloud answers.\<close>

definition init_answer :: "work \<times> process_step_ret \<Rightarrow> work" where
  "init_answer = (\<lambda>(w, ret).
     if ret = PROCESS_NET_TYPE_WIFI then w\<lparr>wait_report_ret := PROCESS_NET_TYPE_WIFI, wait_report_delay := 1\<rparr>
     else if ret = PROCESS_NET_DISCONNECT
     then set_net4g_work_step NETWORK_WORK_STEP__NETCONFIG (tell [UART_CB False] w)
     else if ret = PROCESS_END
     then set_communicateStep 1 (set_net4g_work_step NETWORK_WORK_STEP__NORMAL
            (tell [UART_CB True, NODE_EVENT 0xFF NODE_BAT_POWER_CHECK_EVT, QR_CODE_LED 1]
              (w\<lparr>slave_addr_config_event := 0, powerOn_flag := 1, node_status_syn_enable_flag := 1\<rparr>)))
     else if ret \<noteq> PROCESS_WAIT then set_net4g_work_step NETWORK_WORK_STEP__NETCONFIG (tell [UART_CB False] w)
     else w)"

definition work_init :: "work_env \<Rightarrow> module_type \<Rightarrow> work \<Rightarrow> work_result" where
  "work_init env m w =
     (let w = tell [POWER_CTRL True] w in
      map_option (\<lambda>(w, ret). (w\<lparr>process_retry_times := 0\<rparr>, ret))
        (if no_power_off env
         then map_option (\<lambda>r. wifi_switch m (init_answer r)) (device_reboot_module_4g_communication_process env m w)
         else Some (set_net4g_work_step NETWORK_WORK_STEP__NETCONFIG w, PROCESS_WAIT)))"

definition work_config :: "module_type \<Rightarrow> work \<Rightarrow> work_result" where
  "work_config m w =
     map_option (\<lambda>(w, ret).
         (if ret = PROCESS_DONE then set_net4g_work_step (next_work_step (get_net4g_work_step w)) w
          else if ret \<noteq> PROCESS_WAIT then set_net4g_work_step NETWORK_WORK_STEP__ERROR w
          else w, PROCESS_WAIT))
       (net_round (module_4g_config_para_process m) w)"

definition count_route_retry :: "work \<Rightarrow> work" where
  "count_route_retry w = w\<lparr>route_retry_times := min 15 (Suc (route_retry_times w))\<rparr>"

definition work_active_route :: "work_env \<Rightarrow> module_type \<Rightarrow> work \<Rightarrow> work_result" where
  "work_active_route env m w =
     map_option (\<lambda>(w, ret).
         (if ret = PROCESS_DONE then (set_net4g_work_step (next_work_step (get_net4g_work_step w)) w)\<lparr>route_retry_times := 0\<rparr>
          else if ret \<noteq> PROCESS_WAIT then count_route_retry (set_net4g_work_step NETWORK_WORK_STEP__ERROR w)
          else w, PROCESS_WAIT))
       (net_round (module_4g_active_route_process (cloud env) m) w)"

definition work_login :: "work_env \<Rightarrow> module_type \<Rightarrow> work \<Rightarrow> work_result" where
  "work_login env m w =
     map_option (\<lambda>(w, ret).
         (if ret = PROCESS_DONE
          then (set_net4g_work_step (next_work_step (get_net4g_work_step w))
                 (upd_cs (upd_app (\<lambda>a. a\<lparr>net_type_4g := True\<rparr>)) (upd_com (upd_dev (\<lambda>d. d\<lparr>net4g_reconnect_flag := 1\<rparr>)) w)))
               \<lparr>route_retry_times := 0, net4g_get_cell_info_time := 1\<rparr>
          else if ret \<noteq> PROCESS_WAIT then count_route_retry (set_net4g_work_step NETWORK_WORK_STEP__ERROR w)
          else w, PROCESS_WAIT))
       (net_round (module_4g_cloud_logIn_process (cloud env) m) w)"

text \<open>A lost connection is built up again; the second time the device restarts.\<close>

definition restart :: "work_env \<Rightarrow> work \<Rightarrow> work" where
  "restart env w =
     tell ((if no_power_off env then [UART_CB True] else []) @ [DEVICE_REBOOT])
       (set_net4g_work_step NETWORK_WORK_STEP__INIT (w\<lparr>process_retry_times := 0\<rparr>))"

definition connection_lost :: "work_env \<Rightarrow> work \<Rightarrow> work" where
  "connection_lost env w =
     (let w = tell [POWER_CTRL True] (set_net4g_work_step NETWORK_WORK_STEP__NETCONFIG (tell [UART_CB False] w));
          w = w\<lparr>process_retry_times := Suc (process_retry_times w)\<rparr>
      in if 2 \<le> process_retry_times w
         then restart env (if wifi_state (app_of w) = 2 then wait_ms 500 (tell [WIFI_MQTT_DISCONNECT] w) else w)
         else w)"

definition work_normal :: "work_env \<Rightarrow> module_type \<Rightarrow> work \<Rightarrow> work_result" where
  "work_normal env m w =
     map_option (\<lambda>(w, ret). wifi_switch m
         (if ret = PROCESS_NET_TYPE_WIFI then w\<lparr>wait_report_ret := PROCESS_NET_TYPE_WIFI, wait_report_delay := 1\<rparr>
          else if ret = PROCESS_NET_DISCONNECT then connection_lost env w
          else if ret \<noteq> PROCESS_WAIT then set_net4g_work_step NETWORK_WORK_STEP__ERROR w
          else w))
       (module_4g_communication_process env m w)"

definition work_ota :: "work_env \<Rightarrow> work \<Rightarrow> work \<times> process_step_ret" where
  "work_ota env w =
     (let (w, ret) = module_4g_fw_download_process env w in
      if ret = PROCESS_DONE then (w, PROCESS_FW_UPGRADE)
      else if ret \<noteq> PROCESS_WAIT then (tell [OTA_DEVICE_REBOOT] w, PROCESS_WAIT)
      else (w, PROCESS_WAIT))"

definition work_error :: "work_env \<Rightarrow> work \<Rightarrow> work \<times> process_step_ret" where
  "work_error env w =
     (let (w, ret) = module_4g_error_handle_process w in
      if ret = PROCESS_WAIT then (w, PROCESS_WAIT)
      else let w = set_net4g_work_step NETWORK_WORK_STEP__NETCONFIG (tell [POWER_CTRL True, UART_CB False] w);
               w = w\<lparr>process_retry_times := Suc (process_retry_times w)\<rparr>
           in (if 1 \<le> process_retry_times w then restart env w else w, PROCESS_WAIT))"

definition net4G_work_process :: "work_env \<Rightarrow> module_type \<Rightarrow> work \<Rightarrow> work_result" where
  "net4G_work_process env m w =
     (case get_net4g_work_step w of
        NETWORK_WORK_STEP__INIT \<Rightarrow> work_init env m w
      | NETWORK_WORK_STEP__NETCONFIG \<Rightarrow> work_config m w
      | NETWORK_WORK_STEP__ACTIVE_ROUTE \<Rightarrow> work_active_route env m w
      | NETWORK_WORK_STEP__LOGIN \<Rightarrow> work_login env m w
      | NETWORK_WORK_STEP__NORMAL \<Rightarrow> work_normal env m w
      | NETWORK_WORK_STEP__OTA \<Rightarrow> Some (work_ota env w)
      | NETWORK_WORK_STEP__ERROR \<Rightarrow> Some (work_error env w))"

end
