(* ===== verification/NetCorrect.thy ===== *)
theory NetCorrect
  imports NetWork "HOL-Library.Sublist"
begin

text \<open>
  What the work process of \<open>NetWork\<close> promises: it refines an abstract machine of seven work steps, the device
  communicates only after configuration, routing and login, an error ends after an exact number of calls, and the
  retry counters stay in their ranges.
\<close>

section \<open>What the processes report and keep\<close>

abbreviation reports :: "process_step_ret set \<Rightarrow> work \<Rightarrow> work_result \<Rightarrow> bool" where
  "reports P w \<equiv> pred_option (\<lambda>(v, p). inert w v \<and> p \<in> P)"

lemma reports_mono: "reports P v r \<Longrightarrow> inert w v \<Longrightarrow> P \<subseteq> Q \<Longrightarrow> reports Q w r"
  by (auto simp: option.pred_set dest: inert_trans)

lemma handle_reports:
  assumes "\<And>r v. reports P v (answer r v)" and "{PROCESS_WAIT, PROCESS_NET_DISCONNECT} \<subseteq> P"
  shows "reports P w (handle_message env m answer w)"
proof -
  have "pred_option (\<lambda>u. inert v (fst u)) (answer r v)" for r v
    using assms(1) [of v r] by (auto simp: option.pred_set)
  then have "pred_option (\<lambda>u. inert w (fst u)) (handle_message env m answer w)" by (rule handle_inert)
  moreover have "pred_option (\<lambda>(v, p). p \<in> P) (handle_message env m answer w)"
    using assms unfolding handle_message_def
    by (intro opt_intro) (auto simp: option.pred_set split: if_splits)
  ultimately show ?thesis by (auto simp: option.pred_set)
qed

lemma idle_reports: "reports {PROCESS_WAIT} w (idle_round m w)"
  using idle_inert [of w m] by (auto simp: option.pred_set idle_round_def split: if_splits)

lemma publish_reports: "reports {PROCESS_WAIT, PROCESS_NET_DISCONNECT} w (publish_round env m b w)"
  using publish_inert [of w env m b] by (auto simp: option.pred_set publish_round_def Let_def split: if_splits)

lemma wifi_reports: "reports {PROCESS_WAIT, PROCESS_NET_DISCONNECT, PROCESS_NET_TYPE_WIFI} w (wifi_wanted r w)"
  using wifi_inert [of w r] by (auto simp: option.pred_set wifi_wanted_def split: if_splits)

lemma ping_reports: "reports {PROCESS_WAIT, PROCESS_NET_DISCONNECT, PROCESS_END} w (ping_answered r w)"
  by (simp add: ping_answered_def)

text \<open>Only the countdown of an update changes the work step of the connected device.\<close>

definition may_update :: "work \<Rightarrow> work \<Rightarrow> bool" where
  "may_update w v \<longleftrightarrow> get_net4g_work_step v \<in> {get_net4g_work_step w, NETWORK_WORK_STEP__OTA}"

lemma countdown_may_update: "may_update w (ota_countdown env m w)"
  by (simp add: may_update_def get_net4g_work_step_def ota_countdown_def Let_def blink_slots_def send_disconnect_def
      upd_cs_def upd_com_def set_net4g_work_step_def emit_def report_def upd_dev_def)

lemma may_update_inert: "inert w u \<Longrightarrow> may_update u v \<Longrightarrow> inert v x \<Longrightarrow> may_update w x"
  by (auto simp: may_update_def inert_def get_net4g_work_step_def)

lemma handle_wifi: "reports {PROCESS_WAIT, PROCESS_NET_DISCONNECT, PROCESS_NET_TYPE_WIFI} w (handle_message env m wifi_wanted w)"
  by (rule handle_reports, rule wifi_reports) simp

lemma handle_ping: "reports {PROCESS_WAIT, PROCESS_NET_DISCONNECT, PROCESS_END} w (handle_message env m ping_answered w)"
  by (rule handle_reports, rule ping_reports) simp

lemma communication_reports:
  "pred_option (\<lambda>(v, p). may_update w v \<and> p \<in> {PROCESS_WAIT, PROCESS_NET_DISCONNECT, PROCESS_NET_TYPE_WIFI})
     (module_4g_communication_process env m w)"
proof -
  let ?R = "{PROCESS_WAIT, PROCESS_NET_DISCONNECT, PROCESS_NET_TYPE_WIFI}"
  have go: "pred_option (\<lambda>(v, p). may_update w v \<and> p \<in> ?R) x"
    if r: "receive_round env m w = Some (u, False)" and v: "reports P (ota_countdown env m u) x" "P \<subseteq> ?R" for u x P
    using may_update_inert [OF _ countdown_may_update, of w u env m] pred_optionD [OF receive_inert r] v
    by (fastforce simp: option.pred_set)
  have lost: "may_update w (set_communicateStep 0 u)" if "receive_round env m w = Some (u, b)" for u b
    using pred_optionD [OF receive_inert that] by (auto simp: may_update_def inert_def get_net4g_work_step_def set_communicateStep_def upd_com_def)
  have stay: "reports {PROCESS_WAIT} v (Some (start_communication v, PROCESS_WAIT))" "reports {PROCESS_WAIT} v (Some (v, PROCESS_WAIT))" for v
    by (simp_all add: start_communication_def)
  show ?thesis
    unfolding module_4g_communication_process_def Let_def
  proof (intro opt_bind, clarify, goal_cases)
    case (1 u b)
    show ?case
    proof (cases b)
      case True
      then show ?thesis using lost [OF 1] by simp
    next
      case False
      have r: "receive_round env m w = Some (u, False)" using 1 False by simp
      note go = go [OF r]
      show ?thesis
        using False go [OF stay(1)] go [OF stay(2)] go [OF handle_wifi] go [OF idle_reports] go [OF publish_reports] by simp
    qed
  qed
qed

lemma reboot_reports:
  "reports {PROCESS_WAIT, PROCESS_NET_DISCONNECT, PROCESS_END} w (device_reboot_module_4g_communication_process env m w)"
proof -
  let ?P = "{PROCESS_WAIT, PROCESS_NET_DISCONNECT, PROCESS_END}"
  have go: "reports ?P w x"
    if r: "receive_round env m w = Some (u, b)"
      and v: "reports P (if ping_send_flag u then (upd_cs (report (msgs env) PingReport) u)\<lparr>ping_send_flag := False\<rparr> else u) x" "P \<subseteq> ?P"
    for u b x P
    using v pred_optionD [OF receive_inert r] by (intro reports_mono [OF v(1)]) simp_all
  have stay: "reports {PROCESS_WAIT} v (Some (set_communicateStep 1 (upd_cs (emit es) v), PROCESS_WAIT))"
    "reports {PROCESS_WAIT} v (Some (v, PROCESS_WAIT))" for v es by simp_all
  show ?thesis
    unfolding device_reboot_module_4g_communication_process_def Let_def
  proof (intro opt_bind, clarify, goal_cases)
    case (1 u b)
    define v where "v = (if ping_send_flag u then (upd_cs (report (msgs env) PingReport) u)\<lparr>ping_send_flag := False\<rparr> else u)"
    note go = go [OF 1, folded v_def]
    show ?case
      unfolding v_def [symmetric]
      using go [OF stay(1)] go [OF stay(2)] go [OF handle_ping] go [OF idle_reports] go [OF publish_reports]
        pred_optionD [OF receive_inert 1]
      by simp
  qed
qed

section \<open>The abstract machine\<close>

text \<open>One call in a work step, what it reports, and the next work step; \<open>kept\<close>: a restart keeps the module on.\<close>

definition connecting :: "NETWORK_WORK_STEP set" where
  "connecting = {NETWORK_WORK_STEP__NETCONFIG, NETWORK_WORK_STEP__ACTIVE_ROUTE, NETWORK_WORK_STEP__LOGIN}"

inductive net_step :: "bool \<Rightarrow> NETWORK_WORK_STEP \<Rightarrow> process_step_ret \<Rightarrow> NETWORK_WORK_STEP \<Rightarrow> bool" for kept where
  stay: "net_step kept a PROCESS_WAIT a"
| start: "net_step kept NETWORK_WORK_STEP__INIT PROCESS_WAIT NETWORK_WORK_STEP__NETCONFIG"
| resumed: "kept \<Longrightarrow> net_step kept NETWORK_WORK_STEP__INIT PROCESS_WAIT NETWORK_WORK_STEP__NORMAL"
| go_on: "a \<in> connecting \<Longrightarrow> net_step kept a PROCESS_WAIT (next_work_step a)"
| failed: "a \<in> connecting \<Longrightarrow> net_step kept a PROCESS_WAIT NETWORK_WORK_STEP__ERROR"
| lost: "net_step kept NETWORK_WORK_STEP__NORMAL PROCESS_WAIT NETWORK_WORK_STEP__NETCONFIG"
| lost_again: "net_step kept NETWORK_WORK_STEP__NORMAL PROCESS_WAIT NETWORK_WORK_STEP__INIT"
| update: "net_step kept NETWORK_WORK_STEP__NORMAL PROCESS_WAIT NETWORK_WORK_STEP__OTA"
| downloaded: "net_step kept NETWORK_WORK_STEP__OTA PROCESS_FW_UPGRADE NETWORK_WORK_STEP__OTA"
| recovered: "net_step kept NETWORK_WORK_STEP__ERROR PROCESS_WAIT NETWORK_WORK_STEP__INIT"
| wifi: "net_step kept a PROCESS_WAIT b \<Longrightarrow> a = NETWORK_WORK_STEP__NORMAL \<or> kept \<and> a = NETWORK_WORK_STEP__INIT \<Longrightarrow>
    net_step kept a PROCESS_NET_TYPE_WIFI b"

inductive_simps net_step_upgrade: "net_step kept a PROCESS_FW_UPGRADE b"
inductive_simps net_step_wait: "net_step kept a PROCESS_WAIT b"
inductive_cases net_step_normal: "net_step kept a p NETWORK_WORK_STEP__NORMAL"

lemma work_step_simps [simp]:
  "get_net4g_work_step (set_net4g_work_step st w) = st"
  "get_net4g_work_step (set_communicateStep i w) = get_net4g_work_step w"
  "get_net4g_work_step (tell es w) = get_net4g_work_step w"
  "get_net4g_work_step (wait_ms n w) = get_net4g_work_step w"
  "get_net4g_work_step (send_disconnect m w) = get_net4g_work_step w"
  "get_net4g_work_step (upd_cs (upd_app f) w) = get_net4g_work_step w"
  "get_net4g_work_step (upd_com (upd_dev g) w) = get_net4g_work_step w"
  "get_net4g_work_step (restart env w) = NETWORK_WORK_STEP__INIT"
  by (simp_all add: get_net4g_work_step_def set_net4g_work_step_def set_communicateStep_def upd_com_def upd_cs_def upd_dev_def
      tell_def wait_ms_def send_disconnect_def emit_def upd_app_def restart_def)

lemma work_step_fields [simp]:
  "get_net4g_work_step (w\<lparr>wait_report_ret := a\<rparr>) = get_net4g_work_step w"
  "get_net4g_work_step (w\<lparr>wait_report_delay := b\<rparr>) = get_net4g_work_step w"
  "get_net4g_work_step (w\<lparr>process_retry_times := c\<rparr>) = get_net4g_work_step w"
  "get_net4g_work_step (w\<lparr>route_retry_times := d\<rparr>) = get_net4g_work_step w"
  "get_net4g_work_step (w\<lparr>net4g_get_cell_info_time := e\<rparr>) = get_net4g_work_step w"
  "get_net4g_work_step (w\<lparr>slave_addr_config_event := f\<rparr>) = get_net4g_work_step w"
  "get_net4g_work_step (w\<lparr>powerOn_flag := g\<rparr>) = get_net4g_work_step w"
  "get_net4g_work_step (w\<lparr>node_status_syn_enable_flag := h\<rparr>) = get_net4g_work_step w"
  "get_net4g_work_step (w\<lparr>error_step := i\<rparr>) = get_net4g_work_step w"
  "get_net4g_work_step (w\<lparr>wait_timeout := j\<rparr>) = get_net4g_work_step w"
  "get_net4g_work_step (w\<lparr>ota_step := k\<rparr>) = get_net4g_work_step w"
  by (simp_all add: get_net4g_work_step_def)

lemma work_step_retry [simp]: "get_net4g_work_step (count_route_retry w) = get_net4g_work_step w"
  by (simp add: count_route_retry_def)

lemma inert_work_step: "inert w v \<Longrightarrow> get_net4g_work_step v = get_net4g_work_step w"
  by (simp add: inert_def get_net4g_work_step_def)

lemma wifi_switch_step: "wifi_switch m w = (v, p) \<Longrightarrow> get_net4g_work_step v = get_net4g_work_step w \<and> p \<in> {PROCESS_WAIT, PROCESS_NET_TYPE_WIFI}"
  by (auto simp: wifi_switch_def Let_def split: if_splits)

lemma net_round_step:
  assumes "\<And>s t p. f s = Some (t, p) \<Longrightarrow> netWork (steps t) = netWork (steps s)"
  shows "net_round f w = Some (v, p) \<Longrightarrow> get_net4g_work_step v = get_net4g_work_step w"
  using assms by (auto simp: net_round_def get_net4g_work_step_def upd_com_def)

lemma config_keeps: "module_4g_config_para_process m s = Some (t, p) \<Longrightarrow> netWork (steps t) = netWork (steps s)"
  by (auto simp: module_4g_config_para_process_def Let_def bind_eq_Some_conv split: if_splits)

lemma active_route_keeps: "module_4g_active_route_process env m s = Some (t, p) \<Longrightarrow> netWork (steps t) = netWork (steps s)"
  by (auto simp: module_4g_active_route_process_def device_active_process_def device_route_process_def set_ar_step_def
      split: NET4G_ACTIVE_ROUTE_STEP.splits if_splits)

lemma login_keeps: "module_4g_cloud_logIn_process env m s = Some (t, p) \<Longrightarrow> netWork (steps t) = netWork (steps s)"
  by (auto simp: module_4g_cloud_logIn_process_def)

lemma connect_keeps:
  "net_round (module_4g_config_para_process m) w = Some (v, p) \<Longrightarrow> get_net4g_work_step v = get_net4g_work_step w"
  "net_round (module_4g_active_route_process env m) w = Some (v, p) \<Longrightarrow> get_net4g_work_step v = get_net4g_work_step w"
  "net_round (module_4g_cloud_logIn_process env m) w = Some (v, p) \<Longrightarrow> get_net4g_work_step v = get_net4g_work_step w"
  by (rule net_round_step; use config_keeps active_route_keeps login_keeps in blast)+

text \<open>What is assumed of the download: it leaves the work step alone.\<close>

definition downloads_only :: "work_env \<Rightarrow> bool" where
  "downloads_only env \<longleftrightarrow>
     (\<forall>s. netWork (steps (net (com (fst (OTA_4G_DownloadData env s))))) = netWork (steps (net (com s))))"

lemma ota_work_step:
  assumes "downloads_only env" and "work_ota env w = (v, p)"
  shows "get_net4g_work_step v = get_net4g_work_step w" and "p \<in> {PROCESS_WAIT, PROCESS_FW_UPGRADE}"
proof -
  have "get_net4g_work_step u = get_net4g_work_step w" if "module_4g_fw_download_process env w = (u, q)" for u q
  proof (cases "ota_step w")
    case OTA_STEP_DOWNLOAD_DATA
    obtain s r where d: "OTA_4G_DownloadData env (cs w) = (s, r)" by (cases "OTA_4G_DownloadData env (cs w)")
    then have "netWork (steps (net (com s))) = netWork (net_steps w)" using assms(1) by (metis downloads_only_def fst_conv)
    then show ?thesis using that d OTA_STEP_DOWNLOAD_DATA by (auto simp: module_4g_fw_download_process_def get_net4g_work_step_def)
  qed (use that in \<open>auto simp: module_4g_fw_download_process_def\<close>)
  then show "get_net4g_work_step v = get_net4g_work_step w" "p \<in> {PROCESS_WAIT, PROCESS_FW_UPGRADE}"
    using assms(2) by (auto simp: work_ota_def split: prod.splits if_splits)
qed

text \<open>Each work step of the code is one of the machine.\<close>

abbreviation refined :: "work_env \<Rightarrow> work \<Rightarrow> work_result \<Rightarrow> bool" where
  "refined env w \<equiv> pred_option (\<lambda>(v, p). net_step (no_power_off env) (get_net4g_work_step w) p (get_net4g_work_step v))"

lemma switch_refines:
  assumes "net_step kept a PROCESS_WAIT (get_net4g_work_step w)" and "a = NETWORK_WORK_STEP__NORMAL \<or> kept \<and> a = NETWORK_WORK_STEP__INIT"
  shows "wifi_switch m w = (v, p) \<Longrightarrow> net_step kept a p (get_net4g_work_step v)"
  using wifi_switch_step [of m w v p] net_step.wifi [OF assms] assms(1) by auto

lemma init_refines:
  assumes "get_net4g_work_step w = NETWORK_WORK_STEP__INIT"
  shows "refined env w (work_init env m w)"
proof (cases "no_power_off env")
  case True
  have "net_step True NETWORK_WORK_STEP__INIT PROCESS_WAIT (get_net4g_work_step (init_answer (v, p)))"
    if "inert (tell [POWER_CTRL True] w) v" for v p
  proof -
    have "get_net4g_work_step v = NETWORK_WORK_STEP__INIT" using inert_work_step [OF that] assms by simp
    then show ?thesis by (simp add: init_answer_def net_step_wait connecting_def)
  qed
  note answer = switch_refines [OF this]
  have "net_step True NETWORK_WORK_STEP__INIT p (get_net4g_work_step v)"
    if "device_reboot_module_4g_communication_process env m (tell [POWER_CTRL True] w) = Some (u, q)"
      and "wifi_switch m (init_answer (u, q)) = (v, p)" for u q v p
    using answer [OF _ _ that(2)] pred_optionD [OF reboot_reports that(1)] by simp
  then show ?thesis
    using True assms by (auto simp: work_init_def Let_def option.pred_set)
next
  case False
  then show ?thesis using assms by (simp add: work_init_def net_step.start)
qed

lemma connect_refines:
  assumes "get_net4g_work_step w \<in> connecting"
  shows "refined env w (work_config m w)" and "refined env w (work_active_route env m w)" and "refined env w (work_login env m w)"
  using assms unfolding work_config_def work_active_route_def work_login_def
  by (auto simp: option.pred_set connect_keeps intro: net_step.stay net_step.go_on net_step.failed)

lemma normal_refines:
  assumes "get_net4g_work_step w = NETWORK_WORK_STEP__NORMAL"
  shows "refined env w (work_normal env m w)"
proof -
  let ?next = "\<lambda>v ret. if ret = PROCESS_NET_TYPE_WIFI then v\<lparr>wait_report_ret := PROCESS_NET_TYPE_WIFI, wait_report_delay := 1\<rparr>
    else if ret = PROCESS_NET_DISCONNECT then connection_lost env v
    else if ret \<noteq> PROCESS_WAIT then set_net4g_work_step NETWORK_WORK_STEP__ERROR v else v"
  have lost: "get_net4g_work_step (connection_lost env v) \<in> {NETWORK_WORK_STEP__NETCONFIG, NETWORK_WORK_STEP__INIT}" for v
    by (simp add: connection_lost_def Let_def)
  have "net_step kept NETWORK_WORK_STEP__NORMAL PROCESS_WAIT (get_net4g_work_step (?next v p))"
    if "module_4g_communication_process env m w = Some (v, p)" for v p kept
    using pred_optionD [OF communication_reports that] lost [of v] assms
    by (auto simp: may_update_def intro: net_step.stay net_step.lost net_step.lost_again net_step.update)
  note go = switch_refines [OF this disjI1 [OF refl]]
  show ?thesis
    unfolding work_normal_def assms by (intro opt_map, clarify) (rule go)
qed

lemma error_refines:
  assumes "get_net4g_work_step w = NETWORK_WORK_STEP__ERROR"
  shows "refined env w (Some (work_error env w))"
proof -
  have "get_net4g_work_step (fst (module_4g_error_handle_process w)) = NETWORK_WORK_STEP__ERROR"
    using assms by (simp add: module_4g_error_handle_process_def Let_def)
  then show ?thesis
    using assms by (auto simp: work_error_def Let_def intro: net_step.stay net_step.recovered split: prod.splits)
qed

lemma work_step_refines:
  assumes "downloads_only env"
  shows "refined env w (net4G_work_process env m w)"
proof (cases "get_net4g_work_step w")
  case NETWORK_WORK_STEP__OTA
  then show ?thesis
    using ota_work_step [OF assms, of w] by (cases "work_ota env w") (auto simp: net4G_work_process_def intro: net_step.stay net_step.downloaded)
qed (use init_refines [of w env m] connect_refines [of w env m] normal_refines [of w env m] error_refines [of w env]
  in \<open>simp_all add: net4G_work_process_def connecting_def del: option.pred_inject\<close>)

section \<open>Any number of calls\<close>

text \<open>The reports and work steps of \<open>n\<close> calls.\<close>

type_synonym work_trace = "(process_step_ret \<times> NETWORK_WORK_STEP) list"

fun work_calls :: "work_env \<Rightarrow> module_type \<Rightarrow> nat \<Rightarrow> work \<Rightarrow> (work_trace \<times> work) option" where
  "work_calls env m 0 w = Some ([], w)"
| "work_calls env m (Suc n) w =
     Option.bind (net4G_work_process env m w) (\<lambda>(v, p).
     map_option (\<lambda>(tr, u). ((p, get_net4g_work_step v) # tr, u)) (work_calls env m n v))"

inductive net_path :: "bool \<Rightarrow> NETWORK_WORK_STEP \<Rightarrow> work_trace \<Rightarrow> NETWORK_WORK_STEP \<Rightarrow> bool" for kept where
  none: "net_path kept a [] a"
| call: "net_step kept a p b \<Longrightarrow> net_path kept b tr c \<Longrightarrow> net_path kept a ((p, b) # tr) c"

lemma work_path:
  assumes "downloads_only env"
  shows "pred_option (\<lambda>(tr, v). net_path (no_power_off env) (get_net4g_work_step w) tr (get_net4g_work_step v)) (work_calls env m n w)"
proof (induction n arbitrary: w)
  case 0
  show ?case by (simp add: net_path.none)
next
  case (Suc n)
  show ?case
    using pred_optionD [OF work_step_refines [OF assms]] Suc by (fastforce simp: option.pred_set bind_eq_Some_conv intro: net_path.call)
qed

text \<open>C1. The work process refines the abstract machine: the reports and work steps of any number of calls, from any
  state and whatever the module and the cloud answer, are a path of the machine.  In particular a connected device
  never comes to the error step, and WiFi is only reported by a connected device or after a restart.\<close>

theorem work_refines:
  assumes "downloads_only env"
  shows "pred_option (\<lambda>(tr, v). net_path (no_power_off env) (get_net4g_work_step w) tr (get_net4g_work_step v)) (work_calls env m n w)"
  using assms by (rule work_path)

text \<open>The work steps that must lie behind a device that is switched on: the machine's way to each of them.\<close>

fun required :: "NETWORK_WORK_STEP \<Rightarrow> NETWORK_WORK_STEP list" where
  "required NETWORK_WORK_STEP__NETCONFIG = [NETWORK_WORK_STEP__NETCONFIG]"
| "required NETWORK_WORK_STEP__ACTIVE_ROUTE = [NETWORK_WORK_STEP__NETCONFIG, NETWORK_WORK_STEP__ACTIVE_ROUTE]"
| "required NETWORK_WORK_STEP__LOGIN =
     [NETWORK_WORK_STEP__NETCONFIG, NETWORK_WORK_STEP__ACTIVE_ROUTE, NETWORK_WORK_STEP__LOGIN]"
| "required NETWORK_WORK_STEP__NORMAL =
     [NETWORK_WORK_STEP__NETCONFIG, NETWORK_WORK_STEP__ACTIVE_ROUTE, NETWORK_WORK_STEP__LOGIN, NETWORK_WORK_STEP__NORMAL]"
| "required NETWORK_WORK_STEP__OTA =
     [NETWORK_WORK_STEP__NETCONFIG, NETWORK_WORK_STEP__ACTIVE_ROUTE, NETWORK_WORK_STEP__LOGIN, NETWORK_WORK_STEP__NORMAL,
      NETWORK_WORK_STEP__OTA]"
| "required _ = []"

lemma required_next: "net_step False a p b \<Longrightarrow> required b \<in> {required a, required a @ [b], [b], []}"
  by (induction rule: net_step.induct) (auto simp: connecting_def)

lemma required_step:
  assumes "net_step False a p b" and "subseq (required a) xs"
  shows "subseq (required b) (xs @ [b])"
proof -
  have "subseq (required a) (xs @ [b])" using assms(2) by (rule subseq_order.trans) (rule subseq_rev_drop_many, simp)
  moreover have "subseq (required a @ [b]) (xs @ [b])" using assms(2) by simp
  moreover have "subseq [b] (xs @ [b])" by (rule subseq_drop_many) simp
  ultimately show ?thesis using required_next [OF assms(1)] by auto
qed

lemma required_path: "net_path False a tr b \<Longrightarrow> subseq (required a) xs \<Longrightarrow> subseq (required b) (xs @ map snd tr)"
proof (induction arbitrary: xs rule: net_path.induct)
  case (call a p b tr c)
  then show ?case using call.IH [OF required_step [OF call.hyps(1) call.prems]] by simp
qed simp


section \<open>The wait before a new attempt\<close>

text \<open>How long the module stays off.\<close>

definition off_calls :: "nat \<Rightarrow> nat" where
  "off_calls retries = (if retries < 5 then 2000 else if retries < 15 then 10000 else 300000)"

lemma off_over_calls: "k \<le> off_calls r \<Longrightarrow> off_over r (of_nat k) = (k = off_calls r)"
  by (auto simp: off_over_def off_calls_def word_unat_eq_iff word_le_nat_alt unat_of_nat take_bit_nat_eq_self)

fun error_calls :: "work_env \<Rightarrow> nat \<Rightarrow> work \<Rightarrow> work" where
  "error_calls env 0 w = w"
| "error_calls env (Suc n) w = error_calls env n (fst (work_error env w))"

lemma error_calls_Suc: "error_calls env (Suc n) w = fst (work_error env (error_calls env n w))"
  by (induction n arbitrary: w) simp_all

lemma error_waits:
  assumes "error_step w = 0" and "wait_timeout w = 0" and "k \<le> off_calls (route_retry_times w)"
  shows "error_calls env (Suc k) w = (tell [POWER_CTRL False] w)
    \<lparr>wait_timeout := of_nat k, error_step := (if k = off_calls (route_retry_times w) then 2 else 1)\<rparr>"
  using assms(3)
proof (induction k)
  case 0
  have "0 < off_calls (route_retry_times w)" by (simp add: off_calls_def)
  then show ?case using assms(1,2) by (simp add: work_error_def module_4g_error_handle_process_def tell_def upd_cs_def)
next
  case (Suc k)
  have r: "route_retry_times (tell [POWER_CTRL False] w) = route_retry_times w" by (simp add: tell_def upd_cs_def)
  have "of_nat k + 1 = (of_nat (Suc k) :: u32)" by simp
  then show ?case
    using Suc off_over_calls [OF Suc.prems] unfolding error_calls_Suc [of env "Suc k"]
    by (simp add: work_error_def module_4g_error_handle_process_def r del: of_nat_Suc error_calls.simps)
qed

text \<open>C7. After an error the device waits with its module off for exactly 2000 calls, from the fifth failed attempt on
  for 10000 and from the fifteenth on for 300000, and then starts again from the first work step with the module on
  and the wait ready for the next error; before that it stays in the error step and reports nothing.\<close>

theorem error_recovers:
  assumes "get_net4g_work_step w = NETWORK_WORK_STEP__ERROR" and "error_step w = 0" and "wait_timeout w = 0"
  shows "(\<forall>k < off_calls (route_retry_times w) + 2. get_net4g_work_step (error_calls env k w) = NETWORK_WORK_STEP__ERROR \<and>
      net4G_work_process env m (error_calls env k w) = Some (error_calls env (Suc k) w, PROCESS_WAIT)) \<and>
    (let v = error_calls env (off_calls (route_retry_times w) + 2) w in
      get_net4g_work_step v = NETWORK_WORK_STEP__INIT \<and> error_step v = 0 \<and> wait_timeout v = 0 \<and>
      route_retry_times v = route_retry_times w \<and> process_retry_times v = 0 \<and>
      events (comm_of v) = events (comm_of w) @ [POWER_CTRL False, POWER_CTRL True, UART_CB False] @
        (if no_power_off env then [UART_CB True] else []) @ [DEVICE_REBOOT])"
proof -
  let ?n = "off_calls (route_retry_times w)"
  note waits = error_waits [OF assms(2,3), of _ env]
  have err: "get_net4g_work_step (error_calls env k w) = NETWORK_WORK_STEP__ERROR" if "k < ?n + 2" for k
    using that assms(1) waits [of "k - 1"] by (cases k) simp_all
  have silent: "snd (work_error env v) = PROCESS_WAIT" for v
    by (simp add: work_error_def case_prod_beta Let_def)
  have step: "net4G_work_process env m (error_calls env k w) = Some (error_calls env (Suc k) w, PROCESS_WAIT)" if "k < ?n + 2" for k
    using err [OF that] silent [of "error_calls env k w"]
    by (simp only: net4G_work_process_def NETWORK_WORK_STEP.case error_calls_Suc prod_eq_iff option.inject fst_conv snd_conv)
  have last: "error_calls env (Suc (Suc ?n)) w = fst (work_error env (error_calls env (Suc ?n) w))" by (rule error_calls_Suc)
  show ?thesis
    using err step waits [of ?n] unfolding add_2_eq_Suc' Let_def last
    by (auto simp: work_error_def module_4g_error_handle_process_def tell_def upd_cs_def emit_def restart_def set_net4g_work_step_def
        upd_com_def get_net4g_work_step_def simp del: error_calls.simps)
qed

section \<open>Counters\<close>

text \<open>What the work process itself counts; the processes of the connected device do not touch it.\<close>

definition counters :: "work \<Rightarrow> nat \<times> nat \<times> u16 \<times> nat \<times> u32" where
  "counters w = (route_retry_times w, process_retry_times w, wait_report_delay w, error_step w, wait_timeout w)"

lemma counters_simps [simp]: "counters (upd_com f w) = counters w" "counters (upd_cs g w) = counters w" "counters (w\<lparr>cs := s\<rparr>) = counters w"
  "counters (w\<lparr>aes_state := a\<rparr>) = counters w" "counters (w\<lparr>g_payload := b\<rparr>) = counters w"
  "counters (w\<lparr>ping_send_flag := c\<rparr>) = counters w" "counters (w\<lparr>ota_start_delay_time := t\<rparr>) = counters w"
  "counters (w\<lparr>lendTimeout_wait_time := t\<rparr>) = counters w" "counters (set_communicateStep i w) = counters w"
  "counters (set_net4g_work_step st w) = counters w" "counters (send_disconnect m w) = counters w" "counters (tell es w) = counters w"
  "counters (wait_ms n w) = counters w"
  by (simp_all add: counters_def upd_com_def upd_cs_def set_communicateStep_def set_net4g_work_step_def send_disconnect_def tell_def
      wait_ms_def)

abbreviation counted :: "work \<Rightarrow> (work \<times> 'a) option \<Rightarrow> bool" where
  "counted w \<equiv> pred_option (\<lambda>(v, _). counters v = counters w)"

lemma receive_counted: "counted w (receive_round env m w)"
  by (auto simp: receive_round_def option.pred_set)

lemma analyze_counted: "counted w (analyze env msg w)"
  by (auto simp: analyze_def decrypt_payload_def Let_def option.pred_set bind_eq_Some_conv split: if_splits prod.splits)

lemma take_counted: "counted w (take_message env m w)"
  unfolding take_message_def Let_def
  by (intro opt_intro) (auto dest!: pred_optionD [OF analyze_counted] split: option.splits)

lemma handle_counted:
  assumes "\<And>r v. counted v (answer r v)"
  shows "counted w (handle_message env m answer w)"
  unfolding handle_message_def
  by (intro opt_intro) (auto dest!: pred_optionD [OF take_counted] pred_optionD [OF assms] simp: option.pred_set split: if_splits)

lemma round_counted: "counted w (idle_round m w)" "counted w (publish_round env m b w)" "counted w (wifi_wanted r w)"
  "counted w (ping_answered r w)" "counters (ota_countdown env m w) = counters w" "counters (start_communication w) = counters w"
  by (auto simp: idle_round_def publish_round_def wifi_wanted_def ping_answered_def ota_countdown_def start_communication_def
      blink_slots_def Let_def option.pred_set split: if_splits)

lemma communication_counted: "counted w (module_4g_communication_process env m w)"
proof -
  have "counted v (handle_message env m wifi_wanted v)" for v by (rule handle_counted, rule round_counted)
  note rounds = pred_optionD [OF this] pred_optionD [OF round_counted(1)] pred_optionD [OF round_counted(2)]
  show ?thesis
    unfolding module_4g_communication_process_def Let_def
  proof (intro opt_bind, clarify, goal_cases)
    case (1 u b)
    then have u: "counters w = counters u" using pred_optionD [OF receive_counted 1] by simp
    show ?case unfolding u by (auto simp: option.pred_set round_counted(5,6) dest!: rounds)
  qed
qed

lemma reboot_counted: "counted w (device_reboot_module_4g_communication_process env m w)"
proof -
  have "counted v (handle_message env m ping_answered v)" for v by (rule handle_counted, rule round_counted)
  note rounds = pred_optionD [OF this] pred_optionD [OF round_counted(1)] pred_optionD [OF round_counted(2)]
  show ?thesis
    unfolding device_reboot_module_4g_communication_process_def Let_def
  proof (intro opt_bind, clarify, goal_cases)
    case (1 u b)
    then have u: "counters w = counters u" using pred_optionD [OF receive_counted 1] by simp
    show ?case unfolding u by (auto simp: option.pred_set round_counted(5,6) dest!: rounds)
  qed
qed

text \<open>The ranges of the counters; the wait for a new attempt only runs in the error step, from its beginning.\<close>

definition counters_ok :: "work \<Rightarrow> bool" where
  "counters_ok w \<longleftrightarrow> route_retry_times w \<le> 15 \<and> process_retry_times w \<le> 1 \<and> wait_report_delay w \<le> 8 \<and>
     error_step w \<le> 2 \<and> (error_step w = 0 \<longrightarrow> wait_timeout w = 0) \<and>
     (get_net4g_work_step w \<noteq> NETWORK_WORK_STEP__ERROR \<longrightarrow> error_step w = 0)"

lemmas counters_fields [simp] = counters_simps [unfolded counters_def prod.inject]

lemma counters_ok_cong:
  "counters v = counters w \<Longrightarrow> get_net4g_work_step v = get_net4g_work_step w \<or> error_step w = 0 \<Longrightarrow> counters_ok w \<Longrightarrow> counters_ok v"
  by (auto simp: counters_ok_def counters_def)

lemma switch_ok: "counters_ok w \<Longrightarrow> wifi_switch m w = (v, p) \<Longrightarrow> counters_ok v"
proof -
  have "wait_report_delay w + 1 < 9 \<Longrightarrow> wait_report_delay w + 1 \<le> 8" by (simp add: word_le_nat_alt word_less_nat_alt)
  then show "counters_ok w \<Longrightarrow> wifi_switch m w = (v, p) \<Longrightarrow> counters_ok v"
    by (auto simp: wifi_switch_def Let_def counters_ok_def split: if_splits)
qed

lemma switch_map_ok: "pred_option (\<lambda>r. counters_ok (f r)) x \<Longrightarrow>
    pred_option (\<lambda>(v, _). counters_ok v) (map_option (\<lambda>r. wifi_switch m (f r)) x)"
  by (auto simp: option.pred_set dest: switch_ok)

lemma init_ok:
  assumes "counters_ok w" and "get_net4g_work_step w = NETWORK_WORK_STEP__INIT"
  shows "pred_option (\<lambda>(v, _). counters_ok v) (work_init env m w)"
proof -
  have e: "error_step w = 0" using assms by (simp add: counters_ok_def)
  have reset: "counters_ok v \<Longrightarrow> counters_ok (v\<lparr>process_retry_times := 0\<rparr>)" for v by (simp add: counters_ok_def)
  have "counters_ok (init_answer (v, p))" if "counters v = counters w" for v p
  proof -
    have "counters_ok v" "error_step v = 0" using counters_ok_cong [OF that] e assms(1) that by (simp_all add: counters_def)
    then show ?thesis by (simp add: init_answer_def counters_ok_def)
  qed
  then have "pred_option (\<lambda>r. counters_ok (init_answer r)) (device_reboot_module_4g_communication_process env m (tell [POWER_CTRL True] w))"
    using reboot_counted [of "tell [POWER_CTRL True] w" env m] by (auto simp: option.pred_set)
  from switch_map_ok [OF this, of m] have "pred_option (\<lambda>(v, _). counters_ok v)
      (map_option (\<lambda>r. wifi_switch m (init_answer r)) (device_reboot_module_4g_communication_process env m (tell [POWER_CTRL True] w)))" .
  moreover have "counters_ok (set_net4g_work_step NETWORK_WORK_STEP__NETCONFIG (tell [POWER_CTRL True] w))"
    using assms e by (simp add: counters_ok_def)
  ultimately show ?thesis unfolding work_init_def Let_def by (auto simp: option.pred_set reset)
qed

lemma connect_ok:
  assumes "counters_ok w" and "get_net4g_work_step w \<in> connecting"
  shows "pred_option (\<lambda>(v, _). counters_ok v) (work_config m w)"
    and "pred_option (\<lambda>(v, _). counters_ok v) (work_active_route env m w)"
    and "pred_option (\<lambda>(v, _). counters_ok v) (work_login env m w)"
proof -
  have "counters_ok v \<and> error_step v = 0 \<and> error_step w = 0" if "net_round f w = Some (v, p)" for f v p
  proof -
    have c: "counters v = counters w" using that by (auto simp: net_round_def)
    have "error_step w = 0" using assms by (auto simp: counters_ok_def connecting_def)
    then show ?thesis using counters_ok_cong [OF c] assms(1) c by (simp add: counters_def)
  qed
  note r = this
  have after: "counters_ok v \<Longrightarrow> error_step v = 0 \<Longrightarrow> counters_ok (set_net4g_work_step st v)"
    "counters_ok v \<Longrightarrow> counters_ok (v\<lparr>route_retry_times := 0\<rparr>)" "counters_ok v \<Longrightarrow> counters_ok (v\<lparr>net4g_get_cell_info_time := t\<rparr>)"
    "counters_ok v \<Longrightarrow> counters_ok (count_route_retry v)" for st v t
    by (simp_all add: counters_ok_def count_route_retry_def)
  have "counters_ok v \<Longrightarrow> error_step v = 0 \<Longrightarrow> counters_ok (upd_cs f (upd_com g v))" for v f g
    by (rule counters_ok_cong) simp_all
  then show "pred_option (\<lambda>(v, _). counters_ok v) (work_config m w)" "pred_option (\<lambda>(v, _). counters_ok v) (work_active_route env m w)"
    "pred_option (\<lambda>(v, _). counters_ok v) (work_login env m w)"
    unfolding work_config_def work_active_route_def work_login_def
    by (auto simp: option.pred_set dest!: r intro!: after)
qed

lemma normal_ok:
  assumes "counters_ok w" and "get_net4g_work_step w = NETWORK_WORK_STEP__NORMAL"
  shows "pred_option (\<lambda>(v, _). counters_ok v) (work_normal env m w)"
proof -
  have e: "error_step w = 0" using assms by (simp add: counters_ok_def)
  have "counters_ok (connection_lost env v)" if "counters_ok v" and "error_step v = 0" for v
    using that by (simp add: counters_ok_def connection_lost_def restart_def Let_def)
  then have "counters_ok (if ret = PROCESS_NET_TYPE_WIFI then v\<lparr>wait_report_ret := PROCESS_NET_TYPE_WIFI, wait_report_delay := 1\<rparr>
      else if ret = PROCESS_NET_DISCONNECT then connection_lost env v
      else if ret \<noteq> PROCESS_WAIT then set_net4g_work_step NETWORK_WORK_STEP__ERROR v else v)"
    if "counters v = counters w" for v ret
  proof -
    have v: "counters_ok v" "error_step v = 0" using counters_ok_cong [OF that] e assms(1) that by (simp_all add: counters_def)
    then have "counters_ok (connection_lost env v)" by fact
    then show ?thesis using v by (simp add: counters_ok_def)
  qed
  then show ?thesis
    unfolding work_normal_def using communication_counted [of w env m]
    by (auto simp: option.pred_set dest!: switch_ok [rotated])
qed

text \<open>C11. The counters of the work process: whatever happens, the failed attempts are at most 15, the lost connections at
  most one, the delay of a change to WiFi at most eight, and the error step always begins with a fresh wait, so that
  its exact number of calls holds for every error.\<close>

theorem counters_invariant:
  assumes "downloads_only env" and "counters_ok w"
  shows "pred_option (\<lambda>(v, _). counters_ok v) (net4G_work_process env m w)"
proof (cases "get_net4g_work_step w")
  case NETWORK_WORK_STEP__OTA
  obtain v p where v: "work_ota env w = (v, p)" by (cases "work_ota env w")
  then have "counters v = counters w"
    by (auto simp: work_ota_def module_4g_fw_download_process_def counters_def tell_def upd_cs_def split: OTA_STEP.splits prod.splits if_splits)
  then have "counters_ok v" using counters_ok_cong ota_work_step(1) [OF assms(1) v] assms(2) by blast
  then show ?thesis using v NETWORK_WORK_STEP__OTA by (simp add: net4G_work_process_def)
next
  case NETWORK_WORK_STEP__ERROR
  have "counters_ok (fst (work_error env w))"
    using assms(2) NETWORK_WORK_STEP__ERROR
    by (auto simp: work_error_def module_4g_error_handle_process_def Let_def counters_ok_def restart_def)
  then show ?thesis using NETWORK_WORK_STEP__ERROR by (simp add: net4G_work_process_def case_prod_beta)
qed (use init_ok [of w env m] connect_ok(1) [of w m] connect_ok(2,3) [of w env m] normal_ok [of w env m] assms(2)
  in \<open>simp_all add: net4G_work_process_def connecting_def\<close>)

section \<open>Concrete runs\<close>

lemma sample_downloads: "downloads_only sample_work_env"
  by (simp add: downloads_only_def sample_work_env_def)

lemma sample_work_ok: "counters_ok sample_work" "get_net4g_work_step sample_work = NETWORK_WORK_STEP__INIT"
  by (simp_all add: counters_ok_def get_net4g_work_step_def sample_work_def keyed_cloud_def upd_device_def upd_dev_def sample_comm_def
      sample_net4g_def)

text \<open>An update of the 4G board needs no download: two calls.\<close>

theorem work_refines_witness:
  "\<exists>tr v. work_calls sample_work_env NT26E 2 (set_net4g_work_step NETWORK_WORK_STEP__OTA sample_work) = Some (tr, v) \<and>
    tr = [(PROCESS_WAIT, NETWORK_WORK_STEP__OTA), (PROCESS_FW_UPGRADE, NETWORK_WORK_STEP__OTA)] \<and>
    net_path False NETWORK_WORK_STEP__OTA tr (get_net4g_work_step v)"
proof -
  let ?w = "set_net4g_work_step NETWORK_WORK_STEP__OTA sample_work" and ?e = sample_work_env
  let ?v = "tell [UART_CB False] (?w\<lparr>ota_step := OTA_STEP_DOWNLOAD_END\<rparr>)"
  have w: "ota_step ?w = OTA_STEP_INIT" "otaType (ota (app_of ?w)) = UPDATE_4G_BOARD" "ota_step ?v = OTA_STEP_DOWNLOAD_END"
    by (simp_all add: set_net4g_work_step_def upd_com_def sample_work_def keyed_cloud(2) sample_app_def tell_def upd_cs_def)
  have "net4G_work_process ?e NT26E ?w = Some (?v, PROCESS_WAIT)"
    "net4G_work_process ?e NT26E ?v = Some (?v\<lparr>ota_step := OTA_STEP_INIT\<rparr>, PROCESS_FW_UPGRADE)"
    using w by (simp_all add: net4G_work_process_def work_ota_def module_4g_fw_download_process_def)
  then have run: "work_calls ?e NT26E 2 ?w
      = Some ([(PROCESS_WAIT, NETWORK_WORK_STEP__OTA), (PROCESS_FW_UPGRADE, NETWORK_WORK_STEP__OTA)], ?v\<lparr>ota_step := OTA_STEP_INIT\<rparr>)"
    by (simp add: numeral_2_eq_2)
  have "\<not> no_power_off ?e" by (simp add: sample_work_env_def)
  then show ?thesis
    using work_refines [OF sample_downloads, of ?w NT26E 2] unfolding run by simp
qed


theorem error_recovers_witness:
  "let w = set_net4g_work_step NETWORK_WORK_STEP__ERROR (sample_work\<lparr>route_retry_times := 5\<rparr>) in
    get_net4g_work_step (error_calls sample_work_env 10001 w) = NETWORK_WORK_STEP__ERROR \<and>
    get_net4g_work_step (error_calls sample_work_env 10002 w) = NETWORK_WORK_STEP__INIT"
proof -
  let ?w = "set_net4g_work_step NETWORK_WORK_STEP__ERROR (sample_work\<lparr>route_retry_times := 5\<rparr>)"
  have "get_net4g_work_step ?w = NETWORK_WORK_STEP__ERROR" "error_step ?w = 0" "wait_timeout ?w = 0" "off_calls (route_retry_times ?w) = 10000"
    by (simp_all add: sample_work_def off_calls_def)
  then show ?thesis using error_recovers [of ?w sample_work_env NT26E] by (simp add: Let_def)
qed

theorem counters_invariant_witness:
  "pred_option (\<lambda>(v, _). counters_ok v) (net4G_work_process sample_work_env NT26E sample_work)"
  by (rule counters_invariant [OF sample_downloads sample_work_ok(1)])

end
