(* ===== verification/PbStream.thy ===== *)
theory PbStream
  imports Prelude
begin

text \<open>
  The streams of the nanopb runtime, \<^verbatim>\<open>src/ql_application/App_XD/nanopb/pb_encode.c\<close> and
  \<^verbatim>\<open>pb_decode.c\<close>, in the configuration of \<^verbatim>\<open>pb.h\<close> (no allocation, error messages, 64-bit integers).  An operation
  takes the stream and gives its result and the stream afterwards; the result is a value, the return of \<open>false\<close>
  with the message left in the stream, or an access outside the memory of a buffer.
\<close>

section \<open>Results\<close>

type_synonym u64 = "64 word"

datatype 'a pb_result = Done 'a | Failed | Fault

definition pb_bind :: "('s \<Rightarrow> 'a pb_result \<times> 's) \<Rightarrow> ('a \<Rightarrow> 's \<Rightarrow> 'b pb_result \<times> 's) \<Rightarrow> 's \<Rightarrow> 'b pb_result \<times> 's" where
  "pb_bind m f s = (case m s of (Done x, t) \<Rightarrow> f x t | (Failed, t) \<Rightarrow> (Failed, t) | (Fault, t) \<Rightarrow> (Fault, t))"

definition pb_return :: "'a \<Rightarrow> 's \<Rightarrow> 'a pb_result \<times> 's" where
  "pb_return x s = (Done x, s)"

text \<open>Words as numbers.\<close>

lemma unat_u32_less [simp]: "unat (x :: u32) < 4294967296"
  using unsigned_less [of x] by simp

lemma unat_of_nat_u32: "n < 4294967296 \<Longrightarrow> unat (of_nat n :: u32) = n"
  by (simp add: unat_of_nat take_bit_nat_eq_self)

lemma unat_add_u32: "unat x + n < 4294967296 \<Longrightarrow> unat (x + of_nat n :: u32) = unat x + n"
  by (simp add: unat_word_ariths unat_of_nat take_bit_nat_eq_self)

lemma unat_drop_bit_less:
  assumes "w \<noteq> 0" and "0 < n"
  shows "unat (drop_bit n w) < unat (w :: 'a::len word)"
proof -
  have "0 < unat w" using assms(1) by (simp add: unat_gt_0)
  then have "unat w div 2 ^ n < unat w" using assms(2) by (auto intro!: div_less_dividend one_less_power)
  then show ?thesis by (metis unat_drop_bit_eq drop_bit_eq_div)
qed

section \<open>Output\<close>

text \<open>
  A stream writes to a buffer from \<open>state\<close> on, or it has no callback and only counts.  Sizes are \<open>size_t\<close>, 32 bits
  on this controller.
\<close>

datatype ostream_callback = NO_CALLBACK | BUF_WRITE

record pb_ostream =
  callback :: ostream_callback
  obuf :: bytes
  ostate :: nat
  max_size :: u32
  bytes_written :: u32
  oerrmsg :: "string option"

type_synonym 'a writer = "pb_ostream \<Rightarrow> 'a pb_result \<times> pb_ostream"

text \<open>\<open>PB_RETURN_ERROR\<close> keeps the first message.\<close>

definition pb_write_error :: "string \<Rightarrow> 'a writer" where
  "pb_write_error msg s = (Failed, s\<lparr>oerrmsg := (case oerrmsg s of None \<Rightarrow> Some msg | Some e \<Rightarrow> Some e)\<rparr>)"

definition pb_ostream_from_buffer :: "bytes \<Rightarrow> u32 \<Rightarrow> pb_ostream" where
  "pb_ostream_from_buffer buf bufsize =
     \<lparr>callback = BUF_WRITE, obuf = buf, ostate = 0, max_size = bufsize, bytes_written = 0, oerrmsg = None\<rparr>"

definition PB_OSTREAM_SIZING :: pb_ostream where
  "PB_OSTREAM_SIZING = \<lparr>callback = NO_CALLBACK, obuf = [], ostate = 0, max_size = 0, bytes_written = 0, oerrmsg = None\<rparr>"

definition buf_write :: "bytes \<Rightarrow> unit writer" where
  "buf_write src s =
     (if ostate s + length src \<le> length (obuf s)
      then (Done (), s\<lparr>obuf := blit (obuf s) (ostate s) src, ostate := ostate s + length src\<rparr>)
      else (Fault, s))"

text \<open>A sizing stream gets no data (\<open>None\<close>), only its size.\<close>

definition pb_write_count :: "bytes option \<Rightarrow> u32 \<Rightarrow> unit writer" where
  "pb_write_count src count s =
     (let counted = (Done (), s\<lparr>bytes_written := bytes_written s + count\<rparr>) in
      if 0 < count \<and> callback s \<noteq> NO_CALLBACK
      then (if bytes_written s + count < bytes_written s \<or> max_size s < bytes_written s + count
            then pb_write_error ''stream full'' s
            else case src of None \<Rightarrow> (Fault, s)
                 | Some bs \<Rightarrow> pb_bind (buf_write (take (unat count) bs))
                                (\<lambda>_ s. (Done (), s\<lparr>bytes_written := bytes_written s + count\<rparr>)) s)
      else counted)"

definition pb_write :: "bytes \<Rightarrow> unit writer" where
  "pb_write bs = pb_write_count (Some bs) (of_nat (length bs))"

section \<open>Input\<close>

text \<open>\<open>istate\<close> is the memory from the read pointer on.\<close>

record pb_istream =
  istate :: bytes
  bytes_left :: nat
  ierrmsg :: "string option"

type_synonym 'a reader = "pb_istream \<Rightarrow> 'a pb_result \<times> pb_istream"

definition pb_read_error :: "string \<Rightarrow> 'a reader" where
  "pb_read_error msg s = (Failed, s\<lparr>ierrmsg := (case ierrmsg s of None \<Rightarrow> Some msg | Some e \<Rightarrow> Some e)\<rparr>)"

definition pb_istream_from_buffer :: "bytes \<Rightarrow> nat \<Rightarrow> pb_istream" where
  "pb_istream_from_buffer buf msglen = \<lparr>istate = buf, bytes_left = msglen, ierrmsg = None\<rparr>"

text \<open>\<open>pb_read\<close>: a reader that passes no buffer ignores the bytes.\<close>

definition buf_read :: "nat \<Rightarrow> bytes reader" where
  "buf_read count s =
     (if count \<le> length (istate s) then (Done (take count (istate s)), s\<lparr>istate := drop count (istate s)\<rparr>) else (Fault, s))"

definition pb_read :: "nat \<Rightarrow> bytes reader" where
  "pb_read count s =
     (if count = 0 then (Done [], s)
      else if bytes_left s < count then pb_read_error ''end-of-stream'' s
      else pb_bind (buf_read count) (\<lambda>bs s. (Done bs, s\<lparr>bytes_left := bytes_left s - count\<rparr>)) s)"

definition pb_readbyte :: "u8 reader" where
  "pb_readbyte s =
     (if bytes_left s = 0 then pb_read_error ''end-of-stream'' s
      else pb_bind (buf_read 1) (\<lambda>bs s. (Done (hd bs), s\<lparr>bytes_left := bytes_left s - 1\<rparr>)) s)"

end
