(* ===== verification/PbWire.thy ===== *)
theory PbWire
  imports PbStream
begin

text \<open>
  The wire format of the nanopb runtime: variable-length and fixed-length integers, tags, strings and the skipping of
  unknown fields, of \<^verbatim>\<open>src/ql_application/App_XD/nanopb/pb_encode.c\<close> and \<^verbatim>\<open>pb_decode.c\<close>.
\<close>

section \<open>Model: encoding\<close>

text \<open>
  The two loops of \<open>pb_encode_varint_32\<close>; the first runs at most \<open>k = 4 - i\<close> times.  They give the bytes in
  \<open>buffer\<close> and the byte that is not stored yet.
\<close>

fun varint_low_loop :: "nat \<Rightarrow> u8 \<Rightarrow> u32 \<Rightarrow> u32 \<Rightarrow> bytes \<Rightarrow> bytes \<times> u8" where
  "varint_low_loop 0 byte low high buf = (buf, byte)"
| "varint_low_loop (Suc k) byte low high buf =
     (if low \<noteq> 0 \<or> high \<noteq> 0
      then varint_low_loop k (ucast (low AND 0x7F)) (drop_bit 7 low) high (buf @ [byte OR 0x80])
      else (buf, byte))"

function varint_high_loop :: "u8 \<Rightarrow> u32 \<Rightarrow> bytes \<Rightarrow> bytes \<times> u8" where
  "varint_high_loop byte high buf =
     (if high = 0 then (buf, byte)
      else varint_high_loop (ucast (high AND 0x7F)) (drop_bit 7 high) (buf @ [byte OR 0x80]))"
  by pat_completeness auto

termination
  by (relation "measure (\<lambda>(_, high, _). unat high)", simp) (unfold in_measure prod.case, rule unat_drop_bit_less, simp_all)

declare varint_high_loop.simps [simp del]

definition varint_32_bytes :: "u32 \<Rightarrow> u32 \<Rightarrow> bytes" where
  "varint_32_bytes low high =
     (let (buf, byte) = varint_low_loop 4 (ucast (low AND 0x7F)) (drop_bit 7 low) high [];
          (buf, byte) = (if high \<noteq> 0
                         then varint_high_loop (byte OR ucast (push_bit 4 (high AND 0x07))) (drop_bit 3 high) buf
                         else (buf, byte))
      in buf @ [byte])"

definition pb_encode_varint_32 :: "u32 \<Rightarrow> u32 \<Rightarrow> unit writer" where
  "pb_encode_varint_32 low high = pb_write (varint_32_bytes low high)"

definition pb_encode_varint :: "u64 \<Rightarrow> unit writer" where
  "pb_encode_varint v =
     (if v \<le> 0x7F then pb_write [ucast v] else pb_encode_varint_32 (ucast v) (ucast (drop_bit 32 v)))"

text \<open>A signed value is the word of its two's complement.\<close>

definition zigzag :: "u64 \<Rightarrow> u64" where
  "zigzag v = (if v <s 0 then NOT (push_bit 1 (v AND drop_bit 1 (- 1))) else push_bit 1 v)"

definition pb_encode_svarint :: "u64 \<Rightarrow> unit writer" where
  "pb_encode_svarint v = pb_encode_varint (zigzag v)"

definition pb_encode_fixed32 :: "u32 \<Rightarrow> unit writer" where
  "pb_encode_fixed32 v = pb_write (map (\<lambda>i. ucast (drop_bit (8 * i) v AND 0xFF)) [0..<4])"

definition pb_encode_fixed64 :: "u64 \<Rightarrow> unit writer" where
  "pb_encode_fixed64 v = pb_write (map (\<lambda>i. ucast (drop_bit (8 * i) v AND 0xFF)) [0..<8])"

text \<open>Wire types as numbers; a tag is a field number and a wire type.\<close>

abbreviation (input) PB_WT_VARINT :: u32 where "PB_WT_VARINT \<equiv> 0"
abbreviation (input) PB_WT_64BIT :: u32 where "PB_WT_64BIT \<equiv> 1"
abbreviation (input) PB_WT_STRING :: u32 where "PB_WT_STRING \<equiv> 2"
abbreviation (input) PB_WT_32BIT :: u32 where "PB_WT_32BIT \<equiv> 5"

definition pb_encode_tag :: "u32 \<Rightarrow> u32 \<Rightarrow> unit writer" where
  "pb_encode_tag wiretype field_number = pb_encode_varint (push_bit 3 (ucast field_number) OR ucast wiretype)"

definition pb_encode_string :: "bytes \<Rightarrow> unit writer" where
  "pb_encode_string bs = pb_bind (pb_encode_varint (of_nat (length bs))) (\<lambda>_. pb_write bs)"

section \<open>Model: decoding\<close>

lemma pb_bind_cong [fundef_cong]:
  "m s = n t \<Longrightarrow> (\<And>x u. n t = (Done x, u) \<Longrightarrow> f x u = g x u) \<Longrightarrow> pb_bind m f s = pb_bind n g t"
  by (auto simp: pb_bind_def split: prod.splits pb_result.splits)

lemma readbyte_left: "pb_readbyte s = (Done b, t) \<Longrightarrow> bytes_left t < bytes_left s"
  by (auto simp: pb_readbyte_def pb_bind_def buf_read_def pb_read_error_def split: if_splits)

function varint_loop :: "nat \<Rightarrow> u64 \<Rightarrow> u64 reader" where
  "varint_loop bitpos r s =
     pb_bind pb_readbyte (\<lambda>byte s.
       if 63 \<le> bitpos \<and> byte AND 0xFE \<noteq> 0 then pb_read_error ''varint overflow'' s
       else let r = r OR push_bit bitpos (ucast (byte AND 0x7F)) in
            if byte AND 0x80 \<noteq> 0 then varint_loop (bitpos + 7) r s else (Done r, s)) s"
  by pat_completeness auto

termination
  by (relation "measure (\<lambda>(_, _, s). bytes_left s)") (auto dest: readbyte_left)

declare varint_loop.simps [simp del]

definition pb_decode_varint :: "u64 reader" where
  "pb_decode_varint = varint_loop 0 0"

text \<open>A 32-bit value may be followed by bytes that only extend its sign to 64 bits.\<close>

definition varint32_step :: "nat \<Rightarrow> u32 \<Rightarrow> u8 \<Rightarrow> u32 option" where
  "varint32_step bitpos r byte =
     (if 32 \<le> bitpos
      then let sign_extension = (if bitpos < 63 then 0xFF else 0x01);
               valid = (byte AND 0x7F = 0 \<or> drop_bit 31 r \<noteq> 0 \<and> byte = sign_extension)
           in if 64 \<le> bitpos \<or> \<not> valid then None else Some r
      else if bitpos = 28
      then (if byte AND 0x70 \<noteq> 0 \<and> byte AND 0x78 \<noteq> 0x78 then None
            else Some (r OR push_bit bitpos (ucast (byte AND 0x0F))))
      else Some (r OR push_bit bitpos (ucast (byte AND 0x7F))))"

function varint32_loop :: "nat \<Rightarrow> u32 \<Rightarrow> u32 reader" where
  "varint32_loop bitpos r s =
     pb_bind pb_readbyte (\<lambda>byte s.
       case varint32_step bitpos r byte of
         None \<Rightarrow> pb_read_error ''varint overflow'' s
       | Some r \<Rightarrow> if byte AND 0x80 \<noteq> 0 then varint32_loop (bitpos + 7) r s else (Done r, s)) s"
  by pat_completeness auto

termination
  by (relation "measure (\<lambda>(_, _, s). bytes_left s)") (auto dest: readbyte_left)

declare varint32_loop.simps [simp del]

text \<open>With the flag that the stream ended before the first byte.\<close>

definition pb_decode_varint32_eof :: "pb_istream \<Rightarrow> (u32 pb_result \<times> pb_istream) \<times> bool" where
  "pb_decode_varint32_eof s =
     (pb_bind pb_readbyte (\<lambda>byte s. if byte AND 0x80 = 0 then (Done (ucast byte), s) else varint32_loop 7 (ucast (byte AND 0x7F)) s) s,
      (case pb_readbyte s of (Failed, t) \<Rightarrow> bytes_left t = 0 | _ \<Rightarrow> False))"

definition pb_decode_varint32 :: "u32 reader" where
  "pb_decode_varint32 s = fst (pb_decode_varint32_eof s)"

definition unzigzag :: "u64 \<Rightarrow> u64" where
  "unzigzag v = (if v AND 1 \<noteq> 0 then NOT (drop_bit 1 v) else drop_bit 1 v)"

definition pb_decode_svarint :: "u64 reader" where
  "pb_decode_svarint = pb_bind pb_decode_varint (\<lambda>v. pb_return (unzigzag v))"

definition pb_decode_bool :: "bool reader" where
  "pb_decode_bool = pb_bind pb_decode_varint32 (\<lambda>v. pb_return (v \<noteq> 0))"

definition le_bytes :: "bytes \<Rightarrow> 'a::len word" where
  "le_bytes bs = foldr (\<lambda>b w. ucast b OR push_bit 8 w) bs 0"

definition pb_decode_fixed32 :: "u32 reader" where
  "pb_decode_fixed32 = pb_bind (pb_read 4) (\<lambda>bs. pb_return (le_bytes bs))"

definition pb_decode_fixed64 :: "u64 reader" where
  "pb_decode_fixed64 = pb_bind (pb_read 8) (\<lambda>bs. pb_return (le_bytes bs))"

text \<open>Wire type and field number, and the flag that the stream ended.\<close>

definition pb_decode_tag :: "pb_istream \<Rightarrow> ((u32 \<times> u32) pb_result \<times> pb_istream) \<times> bool" where
  "pb_decode_tag s =
     (let (r, eof) = pb_decode_varint32_eof s in
      (pb_bind (\<lambda>_. r) (\<lambda>temp. pb_return (temp AND 7, drop_bit 3 temp)) s, eof))"

subsection \<open>Skipping\<close>

function pb_skip_varint :: "unit reader" where
  "pb_skip_varint s = pb_bind (pb_read 1) (\<lambda>bs s. if hd bs AND 0x80 \<noteq> 0 then pb_skip_varint s else (Done (), s)) s"
  by pat_completeness auto

lemma read_left: "pb_read n s = (Done bs, t) \<Longrightarrow> bytes_left t = bytes_left s - n \<and> n \<le> bytes_left s"
  by (auto simp: pb_read_def pb_bind_def buf_read_def pb_read_error_def split: if_splits)

termination pb_skip_varint
  by (relation "measure bytes_left") (auto dest: read_left)

declare pb_skip_varint.simps [simp del]

definition pb_skip_string :: "unit reader" where
  "pb_skip_string = pb_bind pb_decode_varint32 (\<lambda>n. pb_bind (pb_read (unat n)) (\<lambda>_. pb_return ()))"

definition pb_skip_field :: "u32 \<Rightarrow> unit reader" where
  "pb_skip_field wire_type =
     (if wire_type = PB_WT_VARINT then pb_skip_varint
      else if wire_type = PB_WT_64BIT then pb_bind (pb_read 8) (\<lambda>_. pb_return ())
      else if wire_type = PB_WT_STRING then pb_skip_string
      else if wire_type = PB_WT_32BIT then pb_bind (pb_read 4) (\<lambda>_. pb_return ())
      else pb_read_error ''invalid wire_type'')"

subsection \<open>Substreams\<close>

text \<open>The substream, and the stream it was taken from.\<close>

definition pb_make_string_substream :: "pb_istream reader" where
  "pb_make_string_substream =
     pb_bind pb_decode_varint32 (\<lambda>size s.
       if bytes_left s < unat size then pb_read_error ''parent stream too short'' s
       else (Done (s\<lparr>bytes_left := unat size\<rparr>), s\<lparr>bytes_left := bytes_left s - unat size\<rparr>))"

definition pb_close_string_substream :: "pb_istream \<Rightarrow> unit reader" where
  "pb_close_string_substream sub s =
     (case pb_read (bytes_left sub) sub of
        (Done _, sub) \<Rightarrow> (Done (), s\<lparr>istate := istate sub, ierrmsg := ierrmsg sub\<rparr>)
      | (Failed, _) \<Rightarrow> (Failed, s)
      | (Fault, _) \<Rightarrow> (Fault, s))"

end
