(* ===== verification/PbIter.thy ===== *)
theory PbIter
  imports PbStream "HOL-Library.Monad_Syntax"
begin

text \<open>
  Message descriptors and the iterator over their fields, \<^verbatim>\<open>src/ql_application/App_XD/nanopb/pb_common.c\<close> and the
  types of \<^verbatim>\<open>pb.h\<close>.  A descriptor is an array of words, each field packed in one, two, four or eight of them; a
  message is a structure in a flat memory, of which the iterator holds addresses (\<open>0\<close> is the null pointer).  An
  access outside an array or the memory is the result \<open>None\<close>.
\<close>

section \<open>Model: memory\<close>

type_synonym memory = bytes

definition load_bytes :: "memory \<Rightarrow> nat \<Rightarrow> nat \<Rightarrow> bytes option" where
  "load_bytes m a n = (if a \<noteq> 0 \<and> a + n \<le> length m then Some (take n (drop a m)) else None)"

definition load_word :: "nat \<Rightarrow> memory \<Rightarrow> nat \<Rightarrow> 'a::len word option" where
  "load_word n m a = map_option (\<lambda>bs. foldr (\<lambda>b w. ucast b OR push_bit 8 w) bs 0) (load_bytes m a n)"

definition load_pointer :: "memory \<Rightarrow> nat \<Rightarrow> nat option" where
  "load_pointer m a = map_option unat (load_word 4 m a :: u32 option)"

section \<open>Model: descriptors\<close>

type_synonym pb_type = u8

abbreviation (input) PB_LTYPE_MASK :: u8 where "PB_LTYPE_MASK \<equiv> 0x0F"
abbreviation (input) PB_HTYPE_MASK :: u8 where "PB_HTYPE_MASK \<equiv> 0x30"
abbreviation (input) PB_ATYPE_MASK :: u8 where "PB_ATYPE_MASK \<equiv> 0xC0"
abbreviation (input) PB_LTYPE_BOOL :: u8 where "PB_LTYPE_BOOL \<equiv> 0x00"
abbreviation (input) PB_LTYPE_VARINT :: u8 where "PB_LTYPE_VARINT \<equiv> 0x01"
abbreviation (input) PB_LTYPE_UVARINT :: u8 where "PB_LTYPE_UVARINT \<equiv> 0x02"
abbreviation (input) PB_LTYPE_SVARINT :: u8 where "PB_LTYPE_SVARINT \<equiv> 0x03"
abbreviation (input) PB_LTYPE_FIXED32 :: u8 where "PB_LTYPE_FIXED32 \<equiv> 0x04"
abbreviation (input) PB_LTYPE_FIXED64 :: u8 where "PB_LTYPE_FIXED64 \<equiv> 0x05"
abbreviation (input) PB_LTYPE_LAST_PACKABLE :: u8 where "PB_LTYPE_LAST_PACKABLE \<equiv> 0x05"
abbreviation (input) PB_LTYPE_BYTES :: u8 where "PB_LTYPE_BYTES \<equiv> 0x06"
abbreviation (input) PB_LTYPE_STRING :: u8 where "PB_LTYPE_STRING \<equiv> 0x07"
abbreviation (input) PB_LTYPE_SUBMESSAGE :: u8 where "PB_LTYPE_SUBMESSAGE \<equiv> 0x08"
abbreviation (input) PB_LTYPE_SUBMSG_W_CB :: u8 where "PB_LTYPE_SUBMSG_W_CB \<equiv> 0x09"
abbreviation (input) PB_LTYPE_EXTENSION :: u8 where "PB_LTYPE_EXTENSION \<equiv> 0x0A"
abbreviation (input) PB_LTYPE_FIXED_LENGTH_BYTES :: u8 where "PB_LTYPE_FIXED_LENGTH_BYTES \<equiv> 0x0B"
abbreviation (input) PB_HTYPE_REQUIRED :: u8 where "PB_HTYPE_REQUIRED \<equiv> 0x00"
abbreviation (input) PB_HTYPE_OPTIONAL :: u8 where "PB_HTYPE_OPTIONAL \<equiv> 0x10"
abbreviation (input) PB_HTYPE_REPEATED :: u8 where "PB_HTYPE_REPEATED \<equiv> 0x20"
abbreviation (input) PB_HTYPE_ONEOF :: u8 where "PB_HTYPE_ONEOF \<equiv> 0x30"
abbreviation (input) PB_ATYPE_STATIC :: u8 where "PB_ATYPE_STATIC \<equiv> 0x00"
abbreviation (input) PB_ATYPE_CALLBACK :: u8 where "PB_ATYPE_CALLBACK \<equiv> 0x40"
abbreviation (input) PB_ATYPE_POINTER :: u8 where "PB_ATYPE_POINTER \<equiv> 0x80"

definition PB_LTYPE :: "pb_type \<Rightarrow> u8" where "PB_LTYPE x = x AND PB_LTYPE_MASK"
definition PB_HTYPE :: "pb_type \<Rightarrow> u8" where "PB_HTYPE x = x AND PB_HTYPE_MASK"
definition PB_ATYPE :: "pb_type \<Rightarrow> u8" where "PB_ATYPE x = x AND PB_ATYPE_MASK"

definition PB_LTYPE_IS_SUBMSG :: "pb_type \<Rightarrow> bool" where
  "PB_LTYPE_IS_SUBMSG x \<longleftrightarrow> PB_LTYPE x = PB_LTYPE_SUBMESSAGE \<or> PB_LTYPE x = PB_LTYPE_SUBMSG_W_CB"

text \<open>The generated descriptors have neither default values nor callbacks of the message: \<open>field_callback\<close> is a name.\<close>

datatype pb_msgdesc =
  Msgdesc (field_info: "u32 list") (submsg_info: "pb_msgdesc list") (default_value: "bytes option")
    (field_callback: "nat option") (field_count: u16) (required_field_count: u16) (largest_tag: u16)

text \<open>
  \<open>pSize\<close> points into the message, to the iterator's own \<open>array_size\<close>, or in the decoder to its local counter
  \<open>fixed_count_size\<close>.
\<close>

datatype size_pointer = NULL_SIZE | SIZE_AT nat | ARRAY_SIZE | FIXED_COUNT

record pb_field_iter =
  descriptor :: pb_msgdesc
  msg_base :: nat
  index :: u16
  field_info_index :: u16
  required_field_index :: u16
  submessage_index :: u16
  tag :: u16
  data_size :: u16
  array_size :: u16
  ptype :: pb_type
  pField :: nat
  pData :: nat
  pSize :: size_pointer
  submsg_desc :: "pb_msgdesc option"

definition elem_at :: "'a list \<Rightarrow> nat \<Rightarrow> 'a option" where
  "elem_at xs i = (if i < length xs then Some (xs ! i) else None)"

text \<open>The four formats of a field: its array size, tag, size offset, data offset and data size.\<close>

definition field_words :: "u32 list \<Rightarrow> nat \<Rightarrow> u32 \<Rightarrow> (u16 \<times> u16 \<times> u8 \<times> u32 \<times> u16) option" where
  "field_words info i word0 =
     (if word0 AND 3 = 0 then
        Some (1, ucast (drop_bit 2 word0 AND 0x3F), ucast (drop_bit 24 word0 AND 0x0F), drop_bit 16 word0 AND 0xFF,
              ucast (drop_bit 28 word0 AND 0x0F))
      else if word0 AND 3 = 1 then do {
        word1 \<leftarrow> elem_at info (i + 1);
        Some (ucast (drop_bit 16 word0 AND 0x0FFF), ucast ((drop_bit 2 word0 AND 0x3F) OR push_bit 6 (drop_bit 28 word1)),
              ucast (drop_bit 28 word0 AND 0x0F), word1 AND 0xFFFF, ucast (drop_bit 16 word1 AND 0x0FFF)) }
      else if word0 AND 3 = 2 then do {
        word1 \<leftarrow> elem_at info (i + 1); word2 \<leftarrow> elem_at info (i + 2); word3 \<leftarrow> elem_at info (i + 3);
        Some (ucast (drop_bit 16 word0), ucast ((drop_bit 2 word0 AND 0x3F) OR push_bit 6 (drop_bit 8 word1)),
              ucast (word1 AND 0xFF), word2, ucast word3) }
      else do {
        word1 \<leftarrow> elem_at info (i + 1); word2 \<leftarrow> elem_at info (i + 2); word3 \<leftarrow> elem_at info (i + 3);
        word4 \<leftarrow> elem_at info (i + 4);
        Some (ucast word4, ucast ((drop_bit 2 word0 AND 0x3F) OR push_bit 6 (drop_bit 8 word1)),
              ucast (word1 AND 0xFF), word2, ucast word3) })"

definition field_type :: "u32 \<Rightarrow> pb_type" where
  "field_type word0 = ucast (drop_bit 8 word0 AND 0xFF)"

section \<open>Model: the iterator\<close>

text \<open>\<open>size_offset\<close> is a signed byte.\<close>

definition field_pointers :: "memory \<Rightarrow> u8 \<Rightarrow> u32 \<Rightarrow> pb_field_iter \<Rightarrow> pb_field_iter option" where
  "field_pointers m size_offset data_offset it =
     (if msg_base it = 0 then Some (it\<lparr>pField := 0, pSize := NULL_SIZE\<rparr>)
      else let it = it\<lparr>pField := msg_base it + unat data_offset\<rparr>;
               it = it\<lparr>pSize := (if size_offset \<noteq> 0 then SIZE_AT (nat (int (pField it) - sint size_offset))
                                 else if PB_HTYPE (ptype it) = PB_HTYPE_REPEATED \<and>
                                    (PB_ATYPE (ptype it) = PB_ATYPE_STATIC \<or> PB_ATYPE (ptype it) = PB_ATYPE_POINTER)
                                 then ARRAY_SIZE else NULL_SIZE)\<rparr>
           in if PB_ATYPE (ptype it) = PB_ATYPE_POINTER \<and> pField it \<noteq> 0
              then map_option (\<lambda>p. it\<lparr>pData := p\<rparr>) (load_pointer m (pField it))
              else Some (it\<lparr>pData := pField it\<rparr>))"

definition field_submsg :: "pb_field_iter \<Rightarrow> pb_field_iter option" where
  "field_submsg it =
     (if PB_LTYPE_IS_SUBMSG (ptype it)
      then map_option (\<lambda>d. it\<lparr>submsg_desc := Some d\<rparr>) (elem_at (submsg_info (descriptor it)) (unat (submessage_index it)))
      else Some (it\<lparr>submsg_desc := None\<rparr>))"

definition load_descriptor_values :: "memory \<Rightarrow> pb_field_iter \<Rightarrow> (bool \<times> pb_field_iter) option" where
  "load_descriptor_values m it =
     (if field_count (descriptor it) \<le> index it then Some (False, it)
      else do {
        let info = field_info (descriptor it);
        word0 \<leftarrow> elem_at info (unat (field_info_index it));
        (array_sz, tg, size_offset, data_offset, data_sz) \<leftarrow> field_words info (unat (field_info_index it)) word0;
        it \<leftarrow> field_pointers m size_offset data_offset
               (it\<lparr>ptype := field_type word0, array_size := array_sz, tag := tg, data_size := data_sz\<rparr>);
        it \<leftarrow> field_submsg it;
        Some (True, it) })"

definition advance_iterator :: "pb_field_iter \<Rightarrow> pb_field_iter option" where
  "advance_iterator it =
     (let it = it\<lparr>index := index it + 1\<rparr> in
      if field_count (descriptor it) \<le> index it
      then Some (it\<lparr>index := 0, field_info_index := 0, submessage_index := 0, required_field_index := 0\<rparr>)
      else do {
        prev_descriptor \<leftarrow> elem_at (field_info (descriptor it)) (unat (field_info_index it));
        let prev_type = field_type prev_descriptor;
        let descriptor_len = push_bit (unat (prev_descriptor AND 3)) 1;
        Some (it\<lparr>field_info_index := field_info_index it + descriptor_len,
                 required_field_index := required_field_index it + of_bool (PB_HTYPE prev_type = PB_HTYPE_REQUIRED),
                 submessage_index := submessage_index it + of_bool (PB_LTYPE_IS_SUBMSG prev_type)\<rparr>) })"

definition pb_field_iter_begin :: "memory \<Rightarrow> pb_msgdesc \<Rightarrow> nat \<Rightarrow> (bool \<times> pb_field_iter) option" where
  "pb_field_iter_begin m desc msg =
     load_descriptor_values m
       \<lparr>descriptor = desc, msg_base = msg, index = 0, field_info_index = 0, required_field_index = 0, submessage_index = 0,
        tag = 0, data_size = 0, array_size = 0, ptype = 0, pField = 0, pData = 0, pSize = NULL_SIZE, submsg_desc = None\<rparr>"

definition pb_field_iter_next :: "memory \<Rightarrow> pb_field_iter \<Rightarrow> (bool \<times> pb_field_iter) option" where
  "pb_field_iter_next m it = do {
     it \<leftarrow> advance_iterator it;
     (_, it) \<leftarrow> load_descriptor_values m it;
     Some (index it \<noteq> 0, it) }"

text \<open>The loops of the two searches may not end, so their value may be \<open>None\<close> for that too.\<close>

partial_function (option) find_loop :: "memory \<Rightarrow> u32 \<Rightarrow> u16 \<Rightarrow> pb_field_iter \<Rightarrow> (bool \<times> pb_field_iter) option" where
  "find_loop m tg start it = do {
     it \<leftarrow> advance_iterator it;
     fieldinfo \<leftarrow> elem_at (field_info (descriptor it)) (unat (field_info_index it));
     (found, it) \<leftarrow> (if drop_bit 2 fieldinfo AND 0x3F = tg AND 0x3F
                    then do { (_, it) \<leftarrow> load_descriptor_values m it;
                              Some (ucast (tag it) = tg \<and> PB_LTYPE (ptype it) \<noteq> PB_LTYPE_EXTENSION, it) }
                    else Some (False, it));
     if found then Some (True, it)
     else if index it \<noteq> start then find_loop m tg start it
     else do { (_, it) \<leftarrow> load_descriptor_values m it; Some (False, it) } }"

definition pb_field_iter_find :: "memory \<Rightarrow> u32 \<Rightarrow> pb_field_iter \<Rightarrow> (bool \<times> pb_field_iter) option" where
  "pb_field_iter_find m tg it =
     (if ucast (tag it) = tg then Some (True, it)
      else if ucast (largest_tag (descriptor it)) < tg then Some (False, it)
      else find_loop m tg (index it) (if tg < ucast (tag it) then it\<lparr>index := field_count (descriptor it)\<rparr> else it))"

partial_function (option) find_extension_loop :: "memory \<Rightarrow> u16 \<Rightarrow> pb_field_iter \<Rightarrow> (bool \<times> pb_field_iter) option" where
  "find_extension_loop m start it = do {
     it \<leftarrow> advance_iterator it;
     fieldinfo \<leftarrow> elem_at (field_info (descriptor it)) (unat (field_info_index it));
     if PB_LTYPE (field_type fieldinfo) = PB_LTYPE_EXTENSION then load_descriptor_values m it
     else if index it \<noteq> start then find_extension_loop m start it
     else do { (_, it) \<leftarrow> load_descriptor_values m it; Some (False, it) } }"

definition pb_field_iter_find_extension :: "memory \<Rightarrow> pb_field_iter \<Rightarrow> (bool \<times> pb_field_iter) option" where
  "pb_field_iter_find_extension m it =
     (if PB_LTYPE (ptype it) = PB_LTYPE_EXTENSION then Some (True, it) else find_extension_loop m (index it) it)"

declare find_loop.simps [code] find_extension_loop.simps [code]

end
