(* ===== verification/PbEncode.thy ===== *)
theory PbEncode
  imports PbWire PbIter
begin

text \<open>
  The encoder of messages, \<^verbatim>\<open>src/ql_application/App_XD/nanopb/pb_encode.c\<close>.  The message lies in a memory that the
  output does not overlap.  The depth \<open>k\<close> bounds the nesting of submessages; a message that nests deeper is a fault.
  What the application stores in a message as functions is a parameter: the callback of a descriptor (\<open>field_hook\<close>,
  by its name, \<open>0\<close> for \<open>pb_default_field_callback\<close>), whether that one has a function to call (\<open>hook_set\<close>), the
  callback of a submessage (\<open>message_hook\<close>) and the list of extensions (\<open>extension_hook\<close>).
\<close>

record pb_hooks =
  field_hook :: "nat \<Rightarrow> pb_field_iter \<Rightarrow> unit writer"
  hook_set :: "pb_field_iter \<Rightarrow> bool"
  message_hook :: "pb_field_iter \<Rightarrow> unit writer"
  extension_hook :: "pb_field_iter \<Rightarrow> unit writer"

section \<open>Model: reading the message\<close>

text \<open>A value from the memory; outside it the operation faults.\<close>

definition with_load :: "'a option \<Rightarrow> ('a \<Rightarrow> unit writer) \<Rightarrow> unit writer" where
  "with_load v f = (case v of None \<Rightarrow> (\<lambda>s. (Fault, s)) | Some x \<Rightarrow> f x)"

definition safe_read_bool :: "memory \<Rightarrow> nat \<Rightarrow> bool option" where
  "safe_read_bool m a = map_option (\<lambda>b :: u8. b \<noteq> 0) (load_word 1 m a)"

text \<open>\<open>pSize\<close> as a \<open>pb_size_t\<close> and as a \<open>bool\<close>.\<close>

definition read_size :: "memory \<Rightarrow> pb_field_iter \<Rightarrow> u16 option" where
  "read_size m it = (case pSize it of NULL_SIZE \<Rightarrow> None | SIZE_AT a \<Rightarrow> load_word 2 m a | ARRAY_SIZE \<Rightarrow> Some (array_size it)
     | FIXED_COUNT \<Rightarrow> None)"

definition read_has :: "memory \<Rightarrow> pb_field_iter \<Rightarrow> bool option" where
  "read_has m it =
     (case pSize it of NULL_SIZE \<Rightarrow> None | SIZE_AT a \<Rightarrow> safe_read_bool m a | ARRAY_SIZE \<Rightarrow> Some (array_size it AND 0xFF \<noteq> 0)
      | FIXED_COUNT \<Rightarrow> None)"

fun string_size :: "memory \<Rightarrow> nat \<Rightarrow> nat \<Rightarrow> nat option" where
  "string_size m n a =
     (if n = 0 then Some 0
      else do { b \<leftarrow> (load_word 1 m a :: u8 option);
                if b = 0 then Some 0 else map_option Suc (string_size m (n - 1) (a + 1)) })"

declare string_size.simps [simp del]

section \<open>Model: field encoders\<close>

definition pb_enc_bool :: "memory \<Rightarrow> pb_field_iter \<Rightarrow> unit writer" where
  "pb_enc_bool m it = with_load (safe_read_bool m (pData it)) (\<lambda>v. pb_encode_varint (if v then 1 else 0))"

definition read_unsigned :: "memory \<Rightarrow> pb_field_iter \<Rightarrow> u64 option" where
  "read_unsigned m it =
     (if data_size it = 1 then map_option (\<lambda>v :: u8. ucast v) (load_word 1 m (pData it))
      else if data_size it = 2 then map_option (\<lambda>v :: u16. ucast v) (load_word 2 m (pData it))
      else if data_size it = 4 then map_option (\<lambda>v :: u32. ucast v) (load_word 4 m (pData it))
      else load_word 8 m (pData it))"

definition read_signed :: "memory \<Rightarrow> pb_field_iter \<Rightarrow> u64 option" where
  "read_signed m it =
     (if data_size it = 1 then map_option (\<lambda>v :: u8. scast v) (load_word 1 m (pData it))
      else if data_size it = 2 then map_option (\<lambda>v :: u16. scast v) (load_word 2 m (pData it))
      else if data_size it = 4 then map_option (\<lambda>v :: u32. scast v) (load_word 4 m (pData it))
      else load_word 8 m (pData it))"

definition pb_enc_varint :: "memory \<Rightarrow> pb_field_iter \<Rightarrow> unit writer" where
  "pb_enc_varint m it =
     (if data_size it \<notin> {1, 2, 4, 8} then pb_write_error ''invalid data_size''
      else if PB_LTYPE (ptype it) = PB_LTYPE_UVARINT then with_load (read_unsigned m it) pb_encode_varint
      else with_load (read_signed m it)
             (if PB_LTYPE (ptype it) = PB_LTYPE_SVARINT then pb_encode_svarint else pb_encode_varint))"

definition pb_enc_fixed :: "memory \<Rightarrow> pb_field_iter \<Rightarrow> unit writer" where
  "pb_enc_fixed m it =
     (if data_size it = 4 then with_load (load_word 4 m (pData it)) pb_encode_fixed32
      else if data_size it = 8 then with_load (load_word 8 m (pData it)) pb_encode_fixed64
      else pb_write_error ''invalid data_size'')"

definition pb_enc_bytes :: "memory \<Rightarrow> pb_field_iter \<Rightarrow> unit writer" where
  "pb_enc_bytes m it =
     (if pData it = 0 then pb_encode_string []
      else with_load (load_word 2 m (pData it) :: u16 option) (\<lambda>size.
        if PB_ATYPE (ptype it) = PB_ATYPE_STATIC \<and> ucast (data_size it) - 2 < (ucast size :: u32)
        then pb_write_error ''bytes size exceeded''
        else with_load (load_bytes m (pData it + 2) (unat size)) pb_encode_string))"

definition pb_enc_string :: "memory \<Rightarrow> pb_field_iter \<Rightarrow> unit writer" where
  "pb_enc_string m it =
     (if PB_ATYPE (ptype it) \<noteq> PB_ATYPE_POINTER \<and> data_size it = 0 then pb_write_error ''zero-length string''
      else let max_sz = (if PB_ATYPE (ptype it) = PB_ATYPE_POINTER then 2 ^ 32 - 1 else unat (data_size it) - 1)
      in if pData it = 0 then pb_encode_string []
         else with_load (string_size m max_sz (pData it)) (\<lambda>size.
                with_load (load_word 1 m (pData it + size) :: u8 option) (\<lambda>b.
                  if b \<noteq> 0 then pb_write_error ''unterminated string''
                  else with_load (load_bytes m (pData it) size) pb_encode_string)))"

definition pb_enc_fixed_length_bytes :: "memory \<Rightarrow> pb_field_iter \<Rightarrow> unit writer" where
  "pb_enc_fixed_length_bytes m it = with_load (load_bytes m (pData it) (unat (data_size it))) pb_encode_string"

definition pb_encode_tag_for_field :: "pb_field_iter \<Rightarrow> unit writer" where
  "pb_encode_tag_for_field it =
     (let l = PB_LTYPE (ptype it); t = ucast (tag it) in
      if l = PB_LTYPE_BOOL \<or> l = PB_LTYPE_VARINT \<or> l = PB_LTYPE_UVARINT \<or> l = PB_LTYPE_SVARINT then pb_encode_tag PB_WT_VARINT t
      else if l = PB_LTYPE_FIXED32 then pb_encode_tag PB_WT_32BIT t
      else if l = PB_LTYPE_FIXED64 then pb_encode_tag PB_WT_64BIT t
      else if l = PB_LTYPE_BYTES \<or> l = PB_LTYPE_STRING \<or> l = PB_LTYPE_SUBMESSAGE \<or> l = PB_LTYPE_SUBMSG_W_CB \<or>
              l = PB_LTYPE_FIXED_LENGTH_BYTES then pb_encode_tag PB_WT_STRING t
      else pb_write_error ''invalid field type'')"

text \<open>A submessage is encoded twice: once to count, once to write at most as much.\<close>

definition write_submessage :: "(pb_msgdesc \<Rightarrow> nat \<Rightarrow> unit writer) \<Rightarrow> pb_msgdesc \<Rightarrow> nat \<Rightarrow> u32 \<Rightarrow> unit writer" where
  "write_submessage encode d a n s =
     (if callback s = NO_CALLBACK then pb_write_count None n s
      else if max_size s < bytes_written s + n then pb_write_error ''stream full'' s
      else case encode d a (s\<lparr>max_size := n, bytes_written := 0, oerrmsg := None\<rparr>) of (r, t) \<Rightarrow>
           let s = s\<lparr>obuf := obuf t, ostate := ostate t, bytes_written := bytes_written s + bytes_written t, oerrmsg := oerrmsg t\<rparr>
           in if r = Fault then (Fault, s)
              else if bytes_written t \<noteq> n then pb_write_error ''submsg size changed'' s
              else (r, s))"

definition pb_encode_submessage :: "(pb_msgdesc \<Rightarrow> nat \<Rightarrow> unit writer) \<Rightarrow> pb_msgdesc \<Rightarrow> nat \<Rightarrow> unit writer" where
  "pb_encode_submessage encode d a s =
     (case encode d a PB_OSTREAM_SIZING of
        (Fault, _) \<Rightarrow> (Fault, s)
      | (Failed, t) \<Rightarrow> (Failed, s\<lparr>oerrmsg := oerrmsg t\<rparr>)
      | (Done _, t) \<Rightarrow>
          pb_bind (pb_encode_varint (ucast (bytes_written t))) (\<lambda>_. write_submessage encode d a (bytes_written t)) s)"

definition pb_enc_submessage :: "(pb_msgdesc \<Rightarrow> nat \<Rightarrow> unit writer) \<Rightarrow> pb_hooks \<Rightarrow> pb_field_iter \<Rightarrow> unit writer" where
  "pb_enc_submessage encode h it =
     (case submsg_desc it of
        None \<Rightarrow> pb_write_error ''invalid field descriptor''
      | Some d \<Rightarrow>
          if PB_LTYPE (ptype it) = PB_LTYPE_SUBMSG_W_CB \<and> pSize it \<noteq> NULL_SIZE
          then pb_bind (message_hook h it) (\<lambda>_. pb_encode_submessage encode d (pData it))
          else pb_encode_submessage encode d (pData it))"

section \<open>Model: fields\<close>

definition encode_basic_field :: "(pb_msgdesc \<Rightarrow> nat \<Rightarrow> unit writer) \<Rightarrow> pb_hooks \<Rightarrow> memory \<Rightarrow> pb_field_iter \<Rightarrow> unit writer" where
  "encode_basic_field encode h m it =
     (if pData it = 0 then pb_return ()
      else pb_bind (pb_encode_tag_for_field it) (\<lambda>_.
        let l = PB_LTYPE (ptype it) in
        if l = PB_LTYPE_BOOL then pb_enc_bool m it
        else if l = PB_LTYPE_VARINT \<or> l = PB_LTYPE_UVARINT \<or> l = PB_LTYPE_SVARINT then pb_enc_varint m it
        else if l = PB_LTYPE_FIXED32 \<or> l = PB_LTYPE_FIXED64 then pb_enc_fixed m it
        else if l = PB_LTYPE_BYTES then pb_enc_bytes m it
        else if l = PB_LTYPE_STRING then pb_enc_string m it
        else if l = PB_LTYPE_SUBMESSAGE \<or> l = PB_LTYPE_SUBMSG_W_CB then pb_enc_submessage encode h it
        else if l = PB_LTYPE_FIXED_LENGTH_BYTES then pb_enc_fixed_length_bytes m it
        else pb_write_error ''invalid field type''))"

text \<open>The loops over the entries of an array.\<close>

fun each_entry :: "(pb_field_iter \<Rightarrow> unit writer) \<Rightarrow> nat \<Rightarrow> pb_field_iter \<Rightarrow> unit writer" where
  "each_entry f 0 it = pb_return ()"
| "each_entry f (Suc n) it = pb_bind (f it) (\<lambda>_. each_entry f n (it\<lparr>pData := pData it + unat (data_size it)\<rparr>))"

definition packed_size :: "memory \<Rightarrow> u16 \<Rightarrow> pb_field_iter \<Rightarrow> (u32 \<Rightarrow> unit writer) \<Rightarrow> unit writer" where
  "packed_size m count it f s =
     (if PB_LTYPE (ptype it) = PB_LTYPE_FIXED32 then f (4 * ucast count) s
      else if PB_LTYPE (ptype it) = PB_LTYPE_FIXED64 then f (8 * ucast count) s
      else case each_entry (pb_enc_varint m) (unat count) it PB_OSTREAM_SIZING of
             (Done _, t) \<Rightarrow> f (bytes_written t) s
           | (Failed, t) \<Rightarrow> pb_write_error (case oerrmsg t of None \<Rightarrow> ''(none)'' | Some e \<Rightarrow> e) s
           | (Fault, _) \<Rightarrow> (Fault, s))"

definition encode_packed :: "memory \<Rightarrow> u16 \<Rightarrow> pb_field_iter \<Rightarrow> unit writer" where
  "encode_packed m count it =
     pb_bind (pb_encode_tag PB_WT_STRING (ucast (tag it))) (\<lambda>_.
       packed_size m count it (\<lambda>size.
         pb_bind (pb_encode_varint (ucast size)) (\<lambda>_ s.
           if callback s = NO_CALLBACK then pb_write_count None size s
           else each_entry (if PB_LTYPE (ptype it) = PB_LTYPE_FIXED32 \<or> PB_LTYPE (ptype it) = PB_LTYPE_FIXED64
                            then pb_enc_fixed m else pb_enc_varint m) (unat count) it s)))"

definition encode_entry :: "(pb_msgdesc \<Rightarrow> nat \<Rightarrow> unit writer) \<Rightarrow> pb_hooks \<Rightarrow> memory \<Rightarrow> pb_field_iter \<Rightarrow> unit writer" where
  "encode_entry encode h m it =
     (if PB_ATYPE (ptype it) = PB_ATYPE_POINTER \<and> (PB_LTYPE (ptype it) = PB_LTYPE_STRING \<or> PB_LTYPE (ptype it) = PB_LTYPE_BYTES)
      then with_load (load_pointer m (pData it)) (\<lambda>p.
             if p = 0 then pb_bind (pb_encode_tag_for_field it) (\<lambda>_. pb_encode_varint 0)
             else encode_basic_field encode h m (it\<lparr>pData := p\<rparr>))
      else encode_basic_field encode h m it)"

definition encode_array :: "(pb_msgdesc \<Rightarrow> nat \<Rightarrow> unit writer) \<Rightarrow> pb_hooks \<Rightarrow> memory \<Rightarrow> pb_field_iter \<Rightarrow> unit writer" where
  "encode_array encode h m it =
     with_load (read_size m it) (\<lambda>count.
       if count = 0 then pb_return ()
       else if PB_ATYPE (ptype it) \<noteq> PB_ATYPE_POINTER \<and> array_size it < count then pb_write_error ''array max size exceeded''
       else if PB_LTYPE (ptype it) \<le> PB_LTYPE_LAST_PACKABLE then encode_packed m count it
       else each_entry (encode_entry encode h m) (unat count) it)"

text \<open>The check of proto3 fields for the zero value; \<open>check\<close> is the check of the fields of a submessage.\<close>

definition default_field :: "(pb_msgdesc \<Rightarrow> nat \<Rightarrow> bool option) \<Rightarrow> pb_hooks \<Rightarrow> memory \<Rightarrow> pb_field_iter \<Rightarrow> bool option" where
  "default_field check h m it =
     (let a = PB_ATYPE (ptype it); ht = PB_HTYPE (ptype it); l = PB_LTYPE (ptype it) in
      if a = PB_ATYPE_STATIC then
        (if ht = PB_HTYPE_REQUIRED then Some False
         else if ht = PB_HTYPE_REPEATED \<or> ht = PB_HTYPE_ONEOF then map_option (\<lambda>n. n = 0) (read_size m it)
         else if ht = PB_HTYPE_OPTIONAL \<and> pSize it \<noteq> NULL_SIZE then map_option Not (read_has m it)
         else if default_value (descriptor it) \<noteq> None then Some False
         else if l \<le> PB_LTYPE_LAST_PACKABLE
           then map_option (list_all (\<lambda>b. b = 0)) (load_bytes m (pData it) (unat (data_size it)))
         else if l = PB_LTYPE_BYTES then map_option (\<lambda>n :: u16. n = 0) (load_word 2 m (pData it))
         else if l = PB_LTYPE_STRING then map_option (\<lambda>b :: u8. b = 0) (load_word 1 m (pData it))
         else if l = PB_LTYPE_FIXED_LENGTH_BYTES then Some (data_size it = 0)
         else if PB_LTYPE_IS_SUBMSG (ptype it) then Option.bind (submsg_desc it) (\<lambda>d. check d (pData it))
         else Some False)
      else if a = PB_ATYPE_POINTER then Some (pData it = 0)
      else if a = PB_ATYPE_CALLBACK then
        (if l = PB_LTYPE_EXTENSION then map_option (\<lambda>p. p = 0) (load_pointer m (pData it))
         else if field_callback (descriptor it) = Some 0 then Some (\<not> hook_set h it)
         else Some (field_callback (descriptor it) = None))
      else Some False)"

fun all_default :: "(pb_field_iter \<Rightarrow> bool option) \<Rightarrow> memory \<Rightarrow> nat \<Rightarrow> pb_field_iter \<Rightarrow> bool option" where
  "all_default f m 0 it = None"
| "all_default f m (Suc n) it = do {
     z \<leftarrow> f it;
     if \<not> z then Some False
     else do { (again, it) \<leftarrow> pb_field_iter_next m it; if again then all_default f m n it else Some True } }"

definition check_message :: "(pb_field_iter \<Rightarrow> bool option) \<Rightarrow> memory \<Rightarrow> pb_msgdesc \<Rightarrow> nat \<Rightarrow> bool option" where
  "check_message f m d a = do {
     (ok, it) \<leftarrow> pb_field_iter_begin m d a;
     if ok then all_default f m (unat (field_count d)) it else Some True }"

fun pb_check_proto3_default_value :: "pb_hooks \<Rightarrow> memory \<Rightarrow> nat \<Rightarrow> pb_field_iter \<Rightarrow> bool option" where
  "pb_check_proto3_default_value h m 0 = (\<lambda>it. None)"
| "pb_check_proto3_default_value h m (Suc k) = default_field (check_message (pb_check_proto3_default_value h m k) m) h m"

definition encode_callback_field :: "pb_hooks \<Rightarrow> pb_field_iter \<Rightarrow> unit writer" where
  "encode_callback_field h it s =
     (case field_callback (descriptor it) of
        None \<Rightarrow> (Done (), s)
      | Some c \<Rightarrow> (case field_hook h c it s of (Failed, s) \<Rightarrow> pb_write_error ''callback error'' s | r \<Rightarrow> r))"

text \<open>Whether the field is in the message.\<close>

definition field_present :: "pb_hooks \<Rightarrow> memory \<Rightarrow> nat \<Rightarrow> pb_field_iter \<Rightarrow> bool option" where
  "field_present h m k it =
     (if PB_HTYPE (ptype it) = PB_HTYPE_ONEOF then map_option (\<lambda>n. n = tag it) (read_size m it)
      else if PB_HTYPE (ptype it) = PB_HTYPE_OPTIONAL then
        (if pSize it \<noteq> NULL_SIZE then read_has m it
         else if PB_ATYPE (ptype it) = PB_ATYPE_STATIC then map_option Not (pb_check_proto3_default_value h m k it)
         else Some True)
      else Some True)"

definition encode_field :: "(pb_msgdesc \<Rightarrow> nat \<Rightarrow> unit writer) \<Rightarrow> pb_hooks \<Rightarrow> memory \<Rightarrow> nat \<Rightarrow> pb_field_iter \<Rightarrow> unit writer" where
  "encode_field encode h m k it =
     with_load (field_present h m k it) (\<lambda>present.
       if \<not> present then pb_return ()
       else if pData it = 0 then
         (if PB_HTYPE (ptype it) = PB_HTYPE_REQUIRED then pb_write_error ''missing required field'' else pb_return ())
       else if PB_ATYPE (ptype it) = PB_ATYPE_CALLBACK then encode_callback_field h it
       else if PB_HTYPE (ptype it) = PB_HTYPE_REPEATED then encode_array encode h m it
       else encode_basic_field encode h m it)"

section \<open>Model: messages\<close>

fun encode_fields :: "(pb_field_iter \<Rightarrow> unit writer) \<Rightarrow> memory \<Rightarrow> nat \<Rightarrow> pb_field_iter \<Rightarrow> unit writer" where
  "encode_fields f m 0 it = (\<lambda>s. (Fault, s))"
| "encode_fields f m (Suc n) it =
     pb_bind (f it) (\<lambda>_.
       case pb_field_iter_next m it of
         None \<Rightarrow> (\<lambda>s. (Fault, s))
       | Some (again, it) \<Rightarrow> if again then encode_fields f m n it else pb_return ())"

definition encode_message :: "(pb_msgdesc \<Rightarrow> nat \<Rightarrow> unit writer) \<Rightarrow> pb_hooks \<Rightarrow> memory \<Rightarrow> nat \<Rightarrow> pb_msgdesc \<Rightarrow> nat \<Rightarrow> unit writer" where
  "encode_message encode h m k d a =
     (case pb_field_iter_begin m d a of
        None \<Rightarrow> (\<lambda>s. (Fault, s))
      | Some (ok, it) \<Rightarrow>
          if \<not> ok then pb_return ()
          else encode_fields (\<lambda>it. if PB_LTYPE (ptype it) = PB_LTYPE_EXTENSION then extension_hook h it
                                   else encode_field encode h m k it) m (unat (field_count d)) it)"

fun pb_encode :: "pb_hooks \<Rightarrow> memory \<Rightarrow> nat \<Rightarrow> pb_msgdesc \<Rightarrow> nat \<Rightarrow> unit writer" where
  "pb_encode h m 0 d a = (\<lambda>s. (Fault, s))"
| "pb_encode h m (Suc k) d a = encode_message (pb_encode h m k) h m (Suc k) d a"

datatype encode_mode = PLAIN | PB_ENCODE_DELIMITED | PB_ENCODE_NULLTERMINATED

definition pb_encode_ex :: "pb_hooks \<Rightarrow> memory \<Rightarrow> nat \<Rightarrow> pb_msgdesc \<Rightarrow> nat \<Rightarrow> encode_mode \<Rightarrow> unit writer" where
  "pb_encode_ex h m k d a flags =
     (case flags of
        PB_ENCODE_DELIMITED \<Rightarrow> pb_encode_submessage (pb_encode h m k) d a
      | PB_ENCODE_NULLTERMINATED \<Rightarrow> pb_bind (pb_encode h m k d a) (\<lambda>_. pb_write [0])
      | PLAIN \<Rightarrow> pb_encode h m k d a)"

definition pb_get_encoded_size :: "pb_hooks \<Rightarrow> memory \<Rightarrow> nat \<Rightarrow> pb_msgdesc \<Rightarrow> nat \<Rightarrow> u32 pb_result" where
  "pb_get_encoded_size h m k d a =
     (case pb_encode h m k d a PB_OSTREAM_SIZING of (Done _, s) \<Rightarrow> Done (bytes_written s) | (Failed, _) \<Rightarrow> Failed | (Fault, _) \<Rightarrow> Fault)"

end
