(* ===== verification/PbCodec.thy ===== *)
theory PbCodec
  imports PbWire
begin

text \<open>
  What the wire format of \<open>PbWire\<close> promises.  \<open>writes m bs\<close> and \<open>reads m bs x\<close> say that an operation writes exactly
  \<open>bs\<close>, or reads exactly \<open>bs\<close> as the value \<open>x\<close>; both are closed under sequencing.  A codec is an encoder and a
  decoder with the same bytes; the locale gives the round trip through a buffer once for all of them.
\<close>

section \<open>Exact reading and writing\<close>

named_theorems pb_exact \<open>what the operations read and write\<close>

definition reads :: "'a reader \<Rightarrow> bytes \<Rightarrow> 'a \<Rightarrow> bool" where
  "reads m bs x \<longleftrightarrow> (\<forall>s rest. istate s = bs @ rest \<longrightarrow> length bs \<le> bytes_left s \<longrightarrow>
     m s = (Done x, s\<lparr>istate := rest, bytes_left := bytes_left s - length bs\<rparr>))"

lemma readsD: "reads m bs x \<Longrightarrow> istate s = bs @ rest \<Longrightarrow> length bs \<le> bytes_left s \<Longrightarrow>
    m s = (Done x, s\<lparr>istate := rest, bytes_left := bytes_left s - length bs\<rparr>)"
  by (simp add: reads_def)

lemma reads_return [pb_exact]: "reads (pb_return x) [] x"
  by (simp add: reads_def pb_return_def)

lemma reads_bind:
  assumes "reads m xs x" and "reads (f x) ys y"
  shows "reads (pb_bind m f) (xs @ ys) y"
  using assms by (simp add: reads_def pb_bind_def)

lemma reads_then: "reads m bs x \<Longrightarrow> reads (pb_bind m (\<lambda>y. pb_return (f y))) bs (f x)"
  using reads_bind [of m bs x "\<lambda>y. pb_return (f y)" "[]" "f x"] reads_return [of "f x"] by simp

lemma reads_read: "n = length bs \<Longrightarrow> reads (pb_read n) bs bs"
  by (auto simp: reads_def pb_read_def pb_bind_def buf_read_def)

lemma reads_byte: "reads pb_readbyte [b] b"
  by (auto simp: reads_def pb_readbyte_def pb_bind_def buf_read_def Suc_le_eq)

text \<open>A stream without an error that has room for \<open>n\<close> more bytes.\<close>

definition room :: "pb_ostream \<Rightarrow> nat \<Rightarrow> bool" where
  "room s n \<longleftrightarrow> oerrmsg s = None \<and> (callback s = BUF_WRITE \<longrightarrow>
     unat (bytes_written s) + n \<le> unat (max_size s) \<and> ostate s + n \<le> length (obuf s))"

definition wrote :: "pb_ostream \<Rightarrow> bytes \<Rightarrow> pb_ostream" where
  "wrote s bs =
     (if callback s = BUF_WRITE then s\<lparr>obuf := blit (obuf s) (ostate s) bs, ostate := ostate s + length bs\<rparr> else s)
     \<lparr>bytes_written := bytes_written s + of_nat (length bs)\<rparr>"

definition writes :: "unit writer \<Rightarrow> bytes \<Rightarrow> bool" where
  "writes m bs \<longleftrightarrow> (\<forall>s. room s (length bs) \<longrightarrow> m s = (Done (), wrote s bs))"

lemma blit_blit: "i + length xs + length ys \<le> length b \<Longrightarrow> blit (blit b i xs) (i + length xs) ys = blit b i (xs @ ys)"
  by (simp add: blit_def add.assoc add.commute [of "length ys"])

lemma blit_nil [simp]: "blit b i [] = b"
  by (simp add: blit_def)

lemma wrote_nil [simp]: "wrote s [] = s"
  by (simp add: wrote_def)

lemma room_split:
  assumes "room s (length xs + n)"
  shows "room s (length xs)" and "room (wrote s xs) n"
proof -
  show "room s (length xs)" using assms by (auto simp: room_def)
  have "unat (bytes_written s + of_nat (length xs)) = unat (bytes_written s) + length xs"
    if "unat (bytes_written s) + (length xs + n) \<le> unat (max_size s)"
    using that unat_u32_less [of "max_size s"] by (intro unat_add_u32) linarith
  then show "room (wrote s xs) n" using assms by (auto simp: room_def wrote_def)
qed

lemma wrote_wrote: "room s (length xs + length ys) \<Longrightarrow> wrote (wrote s xs) ys = wrote s (xs @ ys)"
  by (auto simp: room_def wrote_def blit_blit add.assoc)

lemma writes_bind:
  assumes "writes m xs" and "writes m' ys"
  shows "writes (pb_bind m (\<lambda>_. m')) (xs @ ys)"
  using assms room_split wrote_wrote by (fastforce simp: writes_def pb_bind_def)

lemma writes_write [pb_exact]:
  assumes "length bs < 2 ^ 32"
  shows "writes (pb_write bs) bs"
proof -
  have "pb_write bs s = (Done (), wrote s bs)" if r: "room s (length bs)" for s
  proof (cases "callback s = BUF_WRITE \<and> bs \<noteq> []")
    case True
    then have fits: "unat (bytes_written s) + length bs \<le> unat (max_size s)" "ostate s + length bs \<le> length (obuf s)"
      using r by (simp_all add: room_def)
    have sum: "unat (bytes_written s + of_nat (length bs)) = unat (bytes_written s) + length bs"
      using fits(1) unat_u32_less [of "max_size s"] by (intro unat_add_u32) linarith
    have n: "unat (of_nat (length bs) :: u32) = length bs" using assms by (simp add: unat_of_nat_u32)
    then have pos: "(0 :: u32) < of_nat (length bs)" using True by (simp add: word_less_nat_alt)
    have "\<not> bytes_written s + of_nat (length bs) < bytes_written s" "\<not> max_size s < bytes_written s + of_nat (length bs)"
      using sum fits(1) by (simp_all add: word_less_nat_alt)
    then show ?thesis
      using True pos n fits(2) by (simp add: pb_write_def pb_write_count_def pb_bind_def buf_write_def wrote_def Let_def)
  next
    case False
    then show ?thesis by (cases "callback s") (auto simp: pb_write_def pb_write_count_def wrote_def Let_def)
  qed
  then show ?thesis by (simp add: writes_def)
qed

section \<open>The bytes of a variable-length integer\<close>

text \<open>The reference: seven bits per byte, the low ones first, the top bit set in all but the last.\<close>

function varint_bytes :: "u64 \<Rightarrow> bytes" where
  "varint_bytes v = (if v \<le> 0x7F then [ucast v] else (ucast v OR 0x80) # varint_bytes (drop_bit 7 v))"
  by pat_completeness auto

termination
  by (relation "measure unat", simp) (unfold in_measure, rule unat_drop_bit_less, auto)

declare varint_bytes.simps [simp del]

lemma and_7F: "(w AND 0x7F) = take_bit 7 (w :: 'a::len word)"
  by (simp add: take_bit_eq_mask mask_numeral)

lemma or_80: "(w OR 0x80) = set_bit 7 (w :: 'a::len word)"
  by (simp add: set_bit_eq_or)

lemma le_7F: "v \<le> 0x7F \<longleftrightarrow> drop_bit 7 v = (0 :: u64)"
proof -
  have "unat (drop_bit 7 v) = unat v div 2 ^ 7" by (metis unat_drop_bit_eq drop_bit_eq_div)
  then have "unat (drop_bit 7 v) = 0 \<longleftrightarrow> unat v < 128" by (simp add: div_eq_0_iff)
  then have "drop_bit 7 v = 0 \<longleftrightarrow> unat v < 128" by (simp only: unat_eq_zero)
  then show ?thesis by (auto simp: word_le_nat_alt)
qed

lemma varint_last: "drop_bit 7 v = 0 \<Longrightarrow> (ucast v :: u8) = ucast (v AND 0x7F :: u64)"
proof -
  assume z: "drop_bit 7 v = 0"
  have "\<not> bit v n" if "7 \<le> n" for n
  proof -
    have "\<not> bit (drop_bit 7 v) (n - 7)" unfolding z by simp
    then show ?thesis using that by (simp add: bit_drop_bit_eq)
  qed
  then show ?thesis
    by (intro bit_word_eqI) (auto simp: and_7F bit_simps, meson not_le)
qed

lemma varint_top: "(ucast v OR 0x80 :: u8) = ucast (v AND 0x7F :: u64) OR 0x80"
  by (rule bit_word_eqI) (auto simp: and_7F or_80 bit_simps)

lemma varint_step: "drop_bit 7 v \<noteq> 0 \<Longrightarrow>
    varint_bytes v = (ucast (v AND 0x7F :: u64) OR 0x80) # varint_bytes (drop_bit 7 v)"
  by (subst varint_bytes.simps) (simp add: le_7F flip: varint_top)

lemma varint_end: "drop_bit 7 v = 0 \<Longrightarrow> varint_bytes v = [ucast (v AND 0x7F :: u64)]"
  by (subst varint_bytes.simps) (simp add: le_7F flip: varint_last)

text \<open>The loop over the high word, when \<open>r\<close> is what is left to write.\<close>

lemma high_loop:
  "ucast high = drop_bit 7 r \<Longrightarrow> byte = ucast (r AND 0x7F) \<Longrightarrow>
    (case varint_high_loop byte high buf of (buf, b) \<Rightarrow> buf @ [b]) = buf @ varint_bytes r"
proof (induction byte high buf arbitrary: r rule: varint_high_loop.induct)
  case (1 byte high buf)
  show ?case
  proof (cases "high = 0")
    case True
    then show ?thesis using 1(2,3) by (simp add: varint_end varint_high_loop.simps)
  next
    case False
    have "drop_bit 7 r \<noteq> 0"
    proof
      assume "drop_bit 7 r = 0"
      then have "(ucast high :: u64) = 0" using 1(2) by simp
      moreover have "ucast (ucast high :: u64) = high" by (rule bit_word_eqI) (simp add: bit_simps)
      ultimately show False using False by simp
    qed
    moreover have "(ucast (high AND 0x7F) :: u8) = ucast (drop_bit 7 r AND 0x7F)"
      by (subst 1(2) [symmetric]) (rule bit_word_eqI, auto simp: and_7F bit_simps)
    moreover have "(ucast (drop_bit 7 high) :: u64) = drop_bit 7 (drop_bit 7 r)"
      by (subst 1(2) [symmetric]) (rule bit_word_eqI, auto simp: bit_simps dest: bit_imp_le_length)
    ultimately show ?thesis
      using 1(1) [OF False, of "drop_bit 7 r"] 1(3) False by (subst varint_high_loop.simps) (simp add: varint_step)
  qed
qed

text \<open>The loop over the low word: \<open>j\<close> bytes are stored.\<close>

definition two_words :: "u32 \<Rightarrow> u32 \<Rightarrow> u64" where
  "two_words low high = ucast low OR push_bit 32 (ucast high)"

lemma bit_two_words: "bit (two_words low high) n = (if n < 32 then bit low n else bit high (n - 32))"
  by (auto simp: two_words_def bit_simps dest: bit_imp_le_length)

lemma two_words_split: "two_words (ucast v) (ucast (drop_bit 32 v)) = v"
  by (rule bit_word_eqI) (auto simp: bit_two_words bit_simps)

lemma drop_bit_0_iff: "drop_bit m v = 0 \<longleftrightarrow> (\<forall>n\<ge>m. \<not> bit (v :: 'a::len word) n)"
proof
  assume z: "drop_bit m v = 0"
  show "\<forall>n\<ge>m. \<not> bit v n"
  proof (intro allI impI)
    fix n
    assume "m \<le> n"
    moreover have "\<not> bit (drop_bit m v) (n - m)" unfolding z by simp
    ultimately show "\<not> bit v n" by (simp add: bit_drop_bit_eq)
  qed
qed (auto intro!: bit_word_eqI simp: bit_simps)

lemma low_part:
  assumes "m \<le> 32"
  shows "drop_bit m (two_words low high) = 0 \<longleftrightarrow> drop_bit m low = 0 \<and> high = 0"
proof -
  have len: "bit low n \<Longrightarrow> n < 32" for n using bit_imp_le_length [of low n] by simp
  have "(\<forall>n\<ge>m. \<not> bit (two_words low high) n) \<longleftrightarrow> (\<forall>n\<ge>m. \<not> bit low n) \<and> (\<forall>n. \<not> bit high n)"
  proof (intro iffI conjI allI impI)
    fix n assume *: "\<forall>n\<ge>m. \<not> bit (two_words low high) n"
    show "\<not> bit high n" using assms * [rule_format, of "n + 32"] by (simp add: bit_two_words)
    show "\<not> bit low n" if "m \<le> n" using * that len [of n] by (auto simp: bit_two_words)
  qed (simp add: bit_two_words)
  moreover have "(\<forall>n. \<not> bit high n) \<longleftrightarrow> high = 0" by (auto intro: bit_word_eqI)
  ultimately show ?thesis by (simp add: drop_bit_0_iff)
qed

lemma low_byte: "m + 7 \<le> 32 \<Longrightarrow> (ucast (drop_bit m (two_words low high) AND 0x7F) :: u8) = ucast (drop_bit m low AND 0x7F)"
  by (rule bit_word_eqI) (auto simp: and_7F bit_simps bit_two_words)

lemma low_loop:
  "j + k = 4 \<Longrightarrow> varint_low_loop k (ucast (drop_bit (7 * j) low AND 0x7F)) (drop_bit (7 * j + 7) low) high buf = (buf', byte) \<Longrightarrow>
    (case if high \<noteq> 0 then varint_high_loop (byte OR ucast (push_bit 4 (high AND 0x07))) (drop_bit 3 high) buf' else (buf', byte)
     of (buf, b) \<Rightarrow> buf @ [b]) = buf @ varint_bytes (drop_bit (7 * j) (two_words low high))"
proof (induction k arbitrary: j buf)
  case 0
  then have j: "j = 4" and b: "buf' = buf" "byte = ucast (drop_bit 28 low AND 0x7F)" by simp_all
  have three: "high AND 7 = take_bit 3 high" by (simp add: take_bit_eq_mask mask_numeral)
  have byte: "byte OR ucast (push_bit 4 (high AND 7)) = ucast (drop_bit 28 (two_words low high) AND 0x7F)"
    unfolding b(2) three by (rule bit_word_eqI) (auto simp: and_7F bit_simps bit_two_words dest: bit_imp_le_length)
  have rest: "ucast (drop_bit 3 high) = drop_bit 7 (drop_bit 28 (two_words low high))"
    by (rule bit_word_eqI) (auto simp: bit_simps bit_two_words dest: bit_imp_le_length)
  show ?case
  proof (cases "high = 0")
    case True
    then have "drop_bit 7 (drop_bit 28 (two_words low high)) = 0" using rest by simp
    then show ?thesis using True byte by (simp add: j b(1) varint_end)
  next
    case False
    then show ?thesis using high_loop [OF rest byte, of buf] by (simp add: j b(1))
  qed
next
  case (Suc k)
  let ?v = "two_words low high"
  have small: "7 * j + 7 \<le> 32" using Suc.prems(1) by simp
  note part = low_part [OF small, of low high]
  show ?case
  proof (cases "drop_bit (7 * j + 7) low = 0 \<and> high = 0")
    case True
    then have "drop_bit 7 (drop_bit (7 * j) ?v) = 0" using part by (simp add: add.commute)
    then show ?thesis using Suc.prems(2) True small by (auto simp: varint_end low_byte)
  next
    case False
    then have "drop_bit 7 (drop_bit (7 * j) ?v) \<noteq> 0" using part by (simp add: add.commute)
    then have "varint_bytes (drop_bit (7 * j) ?v)
        = (ucast (drop_bit (7 * j) low AND 0x7F) OR 0x80) # varint_bytes (drop_bit (7 * Suc j) ?v)"
      using small by (simp add: varint_step low_byte add.commute)
    moreover have "varint_low_loop k (ucast (drop_bit (7 * Suc j) low AND 0x7F)) (drop_bit (7 * Suc j + 7) low) high
        (buf @ [ucast (drop_bit (7 * j) low AND 0x7F) OR 0x80]) = (buf', byte)"
      using Suc.prems(2) False by (auto simp: add.commute)
    ultimately show ?thesis using Suc.IH [of "Suc j"] Suc.prems(1) by simp
  qed
qed

lemma varint_32_bytes_eq: "varint_32_bytes low high = varint_bytes (two_words low high)"
proof (cases "varint_low_loop 4 (ucast (low AND 0x7F)) (drop_bit 7 low) high []")
  case (Pair buf' byte)
  have "varint_low_loop 4 (ucast (drop_bit (7 * 0) low AND 0x7F)) (drop_bit (7 * 0 + 7) low) high [] = (buf', byte)"
    using Pair by simp
  from low_loop [OF _ this] show ?thesis
    unfolding varint_32_bytes_def Let_def Pair prod.case by (simp only: case_prod_beta mult_0_right drop_bit_0 id_apply append_Nil)
qed

text \<open>At most ten bytes.\<close>

lemma length_varint_bytes: "unat v < 2 ^ (7 * Suc n) \<Longrightarrow> length (varint_bytes v) \<le> Suc n"
proof (induction n arbitrary: v)
  case 0
  then show ?case by (subst varint_bytes.simps) (simp add: word_le_nat_alt)
next
  case (Suc n)
  have "unat (drop_bit 7 v) = unat v div 2 ^ 7" by (metis unat_drop_bit_eq drop_bit_eq_div)
  also have "\<dots> < 2 ^ (7 * Suc n)" using Suc.prems by (intro less_mult_imp_div_less) (simp add: power_add algebra_simps)
  finally show ?case using Suc.IH [of "drop_bit 7 v"] by (subst varint_bytes.simps) simp
qed

lemma length_varint_le_10: "length (varint_bytes v) \<le> 10"
proof -
  have "unat v < 2 ^ 64" using unsigned_less [of v, where ?'a = nat] by simp
  then show ?thesis using length_varint_bytes [of v 9] by simp
qed

lemma varint_small: "v \<le> 0x7F \<Longrightarrow> varint_bytes v = [ucast v]"
  by (subst varint_bytes.simps) simp

lemma encode_varint_eq: "pb_encode_varint v = pb_write (varint_bytes v)"
  by (simp add: pb_encode_varint_def pb_encode_varint_32_def varint_32_bytes_eq two_words_split varint_small [symmetric])

lemma writes_varint [pb_exact]: "writes (pb_encode_varint v) (varint_bytes v)"
  unfolding encode_varint_eq using length_varint_le_10 [of v] by (intro writes_write) simp

text \<open>Decoding: \<open>w\<close> is left to read, at bit \<open>p\<close>.\<close>

lemma reads_step: "reads pb_readbyte [b] b \<Longrightarrow> reads (f b) bs x \<Longrightarrow> reads (pb_bind pb_readbyte f) (b # bs) x"
  using reads_bind [of pb_readbyte "[b]" b f bs x] by simp

lemma reads_cong: "(\<And>s. m s = m' s) \<Longrightarrow> reads m bs x = reads m' bs x"
  by (simp add: reads_def)

lemma varint_loop_unfold: "varint_loop p r = pb_bind pb_readbyte (\<lambda>byte s.
       if 63 \<le> p \<and> byte AND 0xFE \<noteq> 0 then pb_read_error ''varint overflow'' s
       else let r = r OR push_bit p (ucast (byte AND 0x7F)) in
            if byte AND 0x80 \<noteq> 0 then varint_loop (p + 7) r s else (Done r, s))"
  by (rule ext) (rule varint_loop.simps)

lemma and_80: "(b AND 0x80 \<noteq> 0) = bit (b :: u8) 7"
  using and_exp_eq_0_iff_not_bit [of b 7] by simp

lemma reads_varint_loop:
  "\<forall>n\<ge>64 - p. \<not> bit w n \<Longrightarrow> p \<le> 63 \<Longrightarrow> reads (varint_loop p r) (varint_bytes w) (r OR push_bit p w)"
proof (induction w arbitrary: p r rule: varint_bytes.induct)
  case (1 w)
  show ?case
  proof (cases "w \<le> 0x7F")
    case True
    have top: "\<not> bit w n" if "7 \<le> n" for n using True that by (simp add: le_7F drop_bit_0_iff)
    have no: "\<not> (63 \<le> p \<and> (ucast w :: u8) AND 0xFE \<noteq> 0)"
    proof
      assume a: "63 \<le> p \<and> (ucast w :: u8) AND 0xFE \<noteq> 0"
      then have z: "\<not> bit w n" if "1 \<le> n" for n using 1(2,3) that by auto
      have "(ucast w :: u8) AND 0xFE = 0"
      proof (rule bit_word_eqI)
        fix n assume "n < LENGTH(8)"
        show "bit ((ucast w :: u8) AND 0xFE) n = bit (0 :: u8) n" using z [of n] by (cases n) (auto simp: bit_simps)
      qed
      then show False using a by simp
    qed
    have seven: "\<not> bit (ucast w :: u8) 7" using top [of 7] by (simp add: bit_simps)
    have val: "ucast ((ucast w :: u8) AND 0x7F) = w"
    proof (rule bit_word_eqI)
      fix n :: nat assume "n < LENGTH(64)"
      then show "bit (ucast ((ucast w :: u8) AND 0x7F) :: u64) n = bit w n"
        using top [of n] by (cases "n < 7") (auto simp: and_7F bit_simps)
    qed
    have "reads (\<lambda>s. (Done (r OR push_bit p w), s)) [] (r OR push_bit p w)" by (simp add: reads_def)
    then show ?thesis
      unfolding varint_small [OF True] varint_loop_unfold [of p r]
      by (intro reads_step reads_byte) (simp add: no and_80 seven val)
  next
    case False
    then obtain n where n: "7 \<le> n" "bit w n" by (auto simp: le_7F drop_bit_0_iff)
    then have "n < 64 - p" using 1(2) by (meson not_le)
    then have p: "p \<le> 56" using n(1) by simp
    let ?b = "ucast w OR 0x80 :: u8"
    have val: "ucast (?b AND 0x7F) = w AND 0x7F" by (rule bit_word_eqI) (auto simp: and_7F or_80 bit_simps)
    have cont: "bit ?b 7" by (simp add: or_80 bit_simps)
    have sum: "(r OR push_bit p (w AND 0x7F)) OR push_bit (p + 7) (drop_bit 7 w) = r OR push_bit p w"
    proof (rule bit_word_eqI)
      fix n :: nat assume "n < LENGTH(64)"
      then show "bit ((r OR push_bit p (w AND 0x7F)) OR push_bit (p + 7) (drop_bit 7 w)) n = bit (r OR push_bit p w) n"
      proof (cases "p + 7 \<le> n")
        case True
        then have "7 + (n - (p + 7)) = n - p" by simp
        then show ?thesis using True \<open>n < LENGTH(64)\<close> by (auto simp: and_7F bit_simps)
      qed (auto simp: and_7F bit_simps)
    qed
    have "reads (varint_loop (p + 7) (r OR push_bit p (w AND 0x7F))) (varint_bytes (drop_bit 7 w)) (r OR push_bit p w)"
    proof (rule 1(1) [OF False, of "p + 7" "r OR push_bit p (w AND 0x7F)", unfolded sum])
      show "\<forall>n\<ge>64 - (p + 7). \<not> bit (drop_bit 7 w) n" using 1(2) p by (simp add: bit_drop_bit_eq)
    qed (use p in simp)
    moreover have "varint_bytes w = ?b # varint_bytes (drop_bit 7 w)" using False by (subst varint_bytes.simps) simp
    ultimately show ?thesis
      unfolding varint_loop_unfold [of p r] using p by (simp only:) (intro reads_step reads_byte, simp add: and_80 cont val)
  qed
qed

lemma reads_varint [pb_exact]: "reads pb_decode_varint (varint_bytes v) v"
  using reads_varint_loop [of 0 v 0] bit_imp_le_length [of v] by (fastforce simp: pb_decode_varint_def)

end
