(* ===== verification/PbCodec32.thy ===== *)
theory PbCodec32
  imports PbCodec
begin

text \<open>
  The 32-bit decoder of \<open>PbWire\<close>: it reads the bytes of every 64-bit value that is a 32-bit word extended by zeroes or
  by its sign.
\<close>

lemma all_8: "(\<forall>n<8::nat. P n) \<longleftrightarrow> P 0 \<and> P 1 \<and> P 2 \<and> P 3 \<and> P 4 \<and> P 5 \<and> P 6 \<and> P 7"
  by (simp add: numeral_eq_Suc All_less_Suc) blast

lemma byte_eq: "(x :: u8) = y \<longleftrightarrow> (\<forall>n<8. bit x n = bit y n)"
  by (auto intro!: bit_word_eqI)

lemma and_70: "(b AND 0x70 = 0) = (\<not> bit (b :: u8) 4 \<and> \<not> bit b 5 \<and> \<not> bit b 6)"
  unfolding byte_eq all_8 by (auto simp: bit_simps)

lemma and_78: "(b AND 0x78 = 0x78) = (bit (b :: u8) 3 \<and> bit b 4 \<and> bit b 5 \<and> bit b 6)"
  unfolding byte_eq all_8 by (auto simp: bit_simps)

lemma and_0F: "(w AND 0x0F) = take_bit 4 (w :: 'a::len word)"
  by (simp add: take_bit_eq_mask mask_numeral)

text \<open>\<open>V\<close> extends \<open>v\<close>.\<close>

definition extends :: "bool \<Rightarrow> u32 \<Rightarrow> u64 \<Rightarrow> bool" where
  "extends sx v V \<longleftrightarrow> (\<forall>n. bit V n \<longleftrightarrow> (if n < 32 then bit v n else n < 64 \<and> sx \<and> bit v 31))"

lemma extends_ucast: "extends False v (ucast v)"
  by (auto simp: extends_def bit_simps dest: bit_imp_le_length)

lemma extends_scast: "extends True v (scast v)"
proof -
  have "bit (scast v :: u64) n \<longleftrightarrow> (if n < 32 then bit v n else n < 64 \<and> bit v 31)" for n
  proof (cases n "31 :: nat" rule: linorder_cases)
    case greater
    then show ?thesis by (auto simp: bit_simps)
  qed (auto simp: bit_simps)
  then show ?thesis by (simp add: extends_def)
qed

lemma varint32_step_extends:
  assumes e: "extends sx v V"
    and b: "\<And>n. bit b n \<longleftrightarrow> n < 7 \<and> bit V (7 * i + n) \<or> n = 7 \<and> drop_bit 7 (drop_bit (7 * i) V) \<noteq> 0"
    and i: "i \<le> 9"
  shows "varint32_step (7 * i) (take_bit (7 * i) v) b = Some (take_bit (7 * i + 7) v)"
proof -
  have V: "bit V n \<longleftrightarrow> (if n < 32 then bit v n else n < 64 \<and> sx \<and> bit v 31)" for n
    using e by (simp add: extends_def)
  consider "i \<le> 3" | "i = 4" | "5 \<le> i" by linarith
  then show ?thesis
  proof cases
    case 1
    have "take_bit (7 * i) v OR push_bit (7 * i) (ucast (b AND 0x7F)) = take_bit (7 * i + 7) v"
      using 1 by (intro bit_word_eqI) (auto simp: and_7F bit_simps b V)
    then show ?thesis using 1 by (simp add: varint32_step_def)
  next
    case 2
    have "b AND 0x78 = 0x78" if "b AND 0x70 \<noteq> 0"
      using that unfolding and_70 and_78 using 2 by (auto simp: b V)
    moreover have "take_bit 28 v OR push_bit 28 (ucast (b AND 0x0F)) = take_bit 35 v"
    proof (rule bit_word_eqI)
      fix n assume "n < LENGTH(32)"
      then show "bit (take_bit 28 v OR push_bit 28 (ucast (b AND 0x0F))) n = bit (take_bit 35 v) n"
        using 2 by (cases "n < 28") (auto simp: and_0F bit_simps b V)
    qed
    ultimately show ?thesis using 2 by (auto simp: varint32_step_def)
  next
    case 3
    have v: "take_bit (7 * i) v = v" "take_bit (7 * i + 7) v = v"
      using 3 by (auto intro!: bit_word_eqI simp: bit_simps)
    have "b AND 0x7F = 0 \<or> drop_bit 31 v \<noteq> 0 \<and> b = (if 7 * i < 63 then 0xFF else 0x01)"
    proof (cases "sx \<and> bit v 31")
      case True
      have "bit (drop_bit 31 v) 0" using True by (simp add: bit_simps)
      then have "drop_bit 31 v \<noteq> 0" by auto
      moreover have "b = (if 7 * i < 63 then 0xFF else 0x01)"
      proof (cases "i = 9")
        case True
        have "\<not> bit V n" if "64 \<le> n" for n using that by (simp add: V)
        then have "drop_bit 7 (drop_bit (7 * i) V) = 0" using True by (auto simp: drop_bit_0_iff bit_simps)
        then show ?thesis
          using True \<open>sx \<and> bit v 31\<close> unfolding byte_eq all_8 by (simp add: b V)
      next
        case False
        have "bit (drop_bit (7 * i) V) 7" using False i 3 True by (simp add: bit_simps V)
        then have "drop_bit 7 (drop_bit (7 * i) V) \<noteq> 0" unfolding drop_bit_0_iff by blast
        then show ?thesis
          using False True i 3 unfolding byte_eq all_8 by (simp add: b V)
      qed
      ultimately show ?thesis by simp
    next
      case False
      then have "b AND 0x7F = 0" using 3 by (intro bit_word_eqI) (auto simp: and_7F bit_simps b V)
      then show ?thesis by simp
    qed
    then show ?thesis using 3 i by (simp add: varint32_step_def v)
  qed
qed

lemma varint32_loop_unfold: "varint32_loop p r = pb_bind pb_readbyte (\<lambda>byte s.
       case varint32_step p r byte of
         None \<Rightarrow> pb_read_error ''varint overflow'' s
       | Some r \<Rightarrow> if byte AND 0x80 \<noteq> 0 then varint32_loop (p + 7) r s else (Done r, s))"
  by (rule ext) (rule varint32_loop.simps)

lemma bit_ucast_7F: "bit (ucast (w AND 0x7F :: u64) :: u8) n \<longleftrightarrow> n < 7 \<and> bit w n"
  by (auto simp: and_7F bit_simps)

lemma bit_or_80: "bit (b OR 0x80 :: u8) n \<longleftrightarrow> bit b n \<or> n = 7"
  by (auto simp: or_80 bit_simps dest: bit_imp_le_length)

lemma reads_varint32_loop:
  assumes e: "extends sx v V"
  shows "i + k = 9 \<Longrightarrow> 0 < i \<Longrightarrow> reads (varint32_loop (7 * i) (take_bit (7 * i) v)) (varint_bytes (drop_bit (7 * i) V)) v"
proof (induction k arbitrary: i)
  case 0
  have "drop_bit 7 (drop_bit (7 * i) V) = 0"
    using 0 by (auto simp: drop_bit_0_iff bit_simps dest: bit_imp_le_length)
  moreover have "take_bit (7 * i + 7) v = v" using 0 by (auto intro!: bit_word_eqI simp: bit_simps)
  moreover have "varint32_step (7 * i) (take_bit (7 * i) v) (ucast (drop_bit (7 * i) V AND 0x7F)) = Some (take_bit (7 * i + 7) v)"
    by (rule varint32_step_extends [OF e], unfold bit_ucast_7F) (use 0 calculation(1) in \<open>auto simp: bit_simps\<close>)
  moreover have "reads (\<lambda>s. (Done v, s)) [] v" by (simp add: reads_def)
  ultimately show ?case
    unfolding varint32_loop_unfold [of "7 * i"] varint_end
    by (simp only: varint_end) (intro reads_step reads_byte, simp add: and_80 bit_ucast_7F)
next
  case (Suc k)
  let ?w = "drop_bit (7 * i) V" and ?b = "ucast (drop_bit (7 * i) V AND 0x7F) :: u8"
  show ?case
  proof (cases "drop_bit 7 ?w = 0")
    case True
    have stp: "varint32_step (7 * i) (take_bit (7 * i) v) ?b = Some (take_bit (7 * i + 7) v)"
      by (rule varint32_step_extends [OF e], unfold bit_ucast_7F) (use Suc.prems True in \<open>auto simp: bit_simps\<close>)
    have "take_bit (7 * i + 7) v = v"
    proof (rule bit_word_eqI)
      fix n assume n: "n < LENGTH(32)"
      have "\<not> bit V n" if "7 * i + 7 \<le> n" using True that by (simp add: drop_bit_0_iff add.commute)
      then show "bit (take_bit (7 * i + 7) v) n = bit v n"
        using n e by (auto simp: bit_simps extends_def intro: leI)
    qed
    moreover have "reads (\<lambda>s. (Done v, s)) [] v" by (simp add: reads_def)
    ultimately show ?thesis
      unfolding varint32_loop_unfold [of "7 * i"] varint_end [OF True]
      by (intro reads_step reads_byte) (simp add: stp and_80 bit_ucast_7F)
  next
    case False
    have stp: "varint32_step (7 * i) (take_bit (7 * i) v) (?b OR 0x80) = Some (take_bit (7 * i + 7) v)"
      by (rule varint32_step_extends [OF e], unfold bit_ucast_7F bit_or_80) (use Suc.prems False in \<open>auto simp: bit_simps\<close>)
    have IH: "reads (varint32_loop (7 * i + 7) (take_bit (7 * i + 7) v)) (varint_bytes (drop_bit 7 ?w)) v"
      using Suc.IH [of "Suc i"] Suc.prems by (simp add: add.commute)
    have cont: "bit (?b OR 0x80) 7" by (simp add: bit_or_80)
    show ?thesis
      unfolding varint32_loop_unfold [of "7 * i"] varint_step [OF False]
      by (intro reads_step reads_byte) (simp only: stp and_80 cont option.case if_True IH)
  qed
qed

lemma pb_decode_varint32_eq: "pb_decode_varint32 =
    pb_bind pb_readbyte (\<lambda>byte s. if byte AND 0x80 = 0 then (Done (ucast byte), s) else varint32_loop 7 (ucast (byte AND 0x7F)) s)"
  by (rule ext) (simp add: pb_decode_varint32_def pb_decode_varint32_eof_def)

lemma reads_varint32:
  assumes e: "extends sx v V"
  shows "reads pb_decode_varint32 (varint_bytes V) v"
proof (cases "drop_bit 7 V = 0")
  case True
  have "(ucast (ucast (V AND 0x7F) :: u8) :: u32) = v"
  proof (rule bit_word_eqI)
    fix n assume n: "n < LENGTH(32)"
    have "bit v n = bit V n" using e n by (simp add: extends_def)
    then show "bit (ucast (ucast (V AND 0x7F) :: u8) :: u32) n = bit v n"
      using True n by (cases "n < 7") (auto simp: bit_simps and_7F drop_bit_0_iff)
  qed
  moreover have "\<not> bit (ucast (V AND 0x7F) :: u8) 7" by (simp add: bit_ucast_7F)
  moreover have "reads (\<lambda>s. (Done v, s)) [] v" by (simp add: reads_def)
  ultimately show ?thesis
    unfolding pb_decode_varint32_eq varint_end [OF True]
    by (intro reads_step reads_byte) (simp add: and_80 [unfolded not_def] flip: and_80)
next
  case False
  let ?b = "ucast (V AND 0x7F) OR 0x80 :: u8"
  have cont: "(?b AND 0x80 = 0) = False" using and_80 [of ?b] by (simp add: bit_or_80)
  have low: "ucast (?b AND 0x7F) = take_bit 7 v"
    using e by (intro bit_word_eqI) (auto simp: and_7F bit_simps bit_or_80 extends_def)
  have base: "reads (varint32_loop 7 (take_bit 7 v)) (varint_bytes (drop_bit 7 V)) v"
    using reads_varint32_loop [OF e, of 1 8] by simp
  show ?thesis
    unfolding pb_decode_varint32_eq varint_step [OF False]
    by (intro reads_step reads_byte) (simp only: cont low if_False base)
qed

end
