(* ===== verification/PbCorrect.thy ===== *)
theory PbCorrect
  imports PbCodec32
begin

text \<open>
  The correctness of the wire format: every encoder and its decoder form a codec, whose round trip through a buffer and
  whose size on a counting stream are proved once in a locale; a field that is skipped is passed over exactly.
\<close>

section \<open>The other encodings\<close>

lemma sless_0: "(v :: u64) <s 0 \<longleftrightarrow> bit v 63"
  by (simp add: word_sless_alt bit_last_iff flip: bit_last_iff)

lemma bit_zigzag: "bit (zigzag v) n \<longleftrightarrow> n < 64 \<and> (if n = 0 then bit v 63 else bit v (n - 1) \<noteq> bit v 63)"
  unfolding zigzag_def sless_0
  by (simp only: if_distrib [of "\<lambda>w. bit w n"] bit_not_iff bit_push_bit_iff bit_and_iff bit_drop_bit_eq o_apply)
    (auto simp: bit_simps not_le)

lemma unzigzag_zigzag [simp]: "unzigzag (zigzag v) = v"
proof (rule bit_word_eqI)
  fix n assume n: "n < LENGTH(64)"
  have "zigzag v AND 1 \<noteq> 0 \<longleftrightarrow> bit v 63"
    using and_exp_eq_0_iff_not_bit [of "zigzag v" 0] by (simp add: bit_zigzag)
  then show "bit (unzigzag (zigzag v)) n = bit v n"
    using n by (cases "n = 63") (auto simp: unzigzag_def bit_simps bit_zigzag)
qed

lemma writes_svarint [pb_exact]: "writes (pb_encode_svarint v) (varint_bytes (zigzag v))"
  by (simp add: pb_encode_svarint_def pb_exact)

lemma reads_svarint [pb_exact]: "reads pb_decode_svarint (varint_bytes (zigzag v)) v"
  using reads_then [OF reads_varint [of "zigzag v"], of unzigzag] by (simp add: pb_decode_svarint_def)

definition fixed_bytes :: "nat \<Rightarrow> 'a::len word \<Rightarrow> bytes" where
  "fixed_bytes n v = map (\<lambda>i. ucast (drop_bit (8 * i) v)) [0..<n]"

lemma and_FF: "(ucast (w AND 0xFF :: 'a::len word) :: u8) = ucast w"
proof -
  have "w AND 0xFF = take_bit 8 w" by (simp add: take_bit_eq_mask mask_numeral)
  then show ?thesis by (simp) (rule bit_word_eqI, auto simp: bit_simps)
qed

lemma length_fixed_bytes [simp]: "length (fixed_bytes n v) = n"
  by (simp add: fixed_bytes_def)

lemma take_bit_32: "take_bit 32 (w :: u32) = w"
  by (rule bit_word_eqI) (simp add: bit_simps)

lemma take_bit_64: "take_bit 64 (w :: u64) = w"
  by (rule bit_word_eqI) (simp add: bit_simps)

lemma writes_fixed32 [pb_exact]: "writes (pb_encode_fixed32 v) (fixed_bytes 4 v)"
  unfolding pb_encode_fixed32_def and_FF fixed_bytes_def by (rule writes_write) simp

lemma writes_fixed64 [pb_exact]: "writes (pb_encode_fixed64 v) (fixed_bytes 8 v)"
  unfolding pb_encode_fixed64_def and_FF fixed_bytes_def by (rule writes_write) simp

lemma le_fixed_bytes: "le_bytes (fixed_bytes n v) = take_bit (8 * n) (v :: 'a::len word)"
proof (induction n arbitrary: v)
  case 0
  then show ?case by (simp add: le_bytes_def fixed_bytes_def)
next
  case (Suc n)
  have "fixed_bytes (Suc n) v = ucast v # fixed_bytes n (drop_bit 8 v)"
    by (simp add: fixed_bytes_def upt_conv_Cons add.commute map_Suc_upt [symmetric] del: upt_Suc)
  then have "le_bytes (fixed_bytes (Suc n) v) = (ucast (ucast v :: u8) :: 'a word) OR push_bit 8 (take_bit (8 * n) (drop_bit 8 v))"
    using Suc.IH [of "drop_bit 8 v"] by (simp add: le_bytes_def)
  also have "\<dots> = take_bit (8 * Suc n) v"
    by (rule bit_word_eqI) (auto simp: bit_simps)
  finally show ?case .
qed

lemma reads_fixed32 [pb_exact]: "reads pb_decode_fixed32 (fixed_bytes 4 v) v"
  using reads_then [OF reads_read [of 4 "fixed_bytes 4 v"], of "le_bytes :: _ \<Rightarrow> u32"]
  by (simp add: pb_decode_fixed32_def le_fixed_bytes take_bit_32)

lemma reads_fixed64 [pb_exact]: "reads pb_decode_fixed64 (fixed_bytes 8 v) v"
  using reads_then [OF reads_read [of 8 "fixed_bytes 8 v"], of "le_bytes :: _ \<Rightarrow> u64"]
  by (simp add: pb_decode_fixed64_def le_fixed_bytes take_bit_64)

text \<open>A tag is a field number of at most 29 bits and a wire type of three.\<close>

definition tag_word :: "u32 \<times> u32 \<Rightarrow> u64" where
  "tag_word t = push_bit 3 (ucast (snd t)) OR ucast (fst t)"

definition tag_ok :: "u32 \<times> u32 \<Rightarrow> bool" where
  "tag_ok t \<longleftrightarrow> take_bit 3 (fst t) = fst t \<and> take_bit 29 (snd t) = snd t"

lemma writes_tag [pb_exact]: "writes (pb_encode_tag wt n) (varint_bytes (tag_word (wt, n)))"
  by (simp add: pb_encode_tag_def tag_word_def pb_exact)

definition read_tag :: "(u32 \<times> u32) reader" where
  "read_tag s = fst (pb_decode_tag s)"

lemma read_tag_eq: "read_tag = pb_bind pb_decode_varint32 (\<lambda>temp. pb_return (temp AND 7, drop_bit 3 temp))"
  by (rule ext) (simp add: read_tag_def pb_decode_tag_def pb_decode_varint32_def pb_bind_def case_prod_beta)

lemma reads_tag [pb_exact]:
  assumes "tag_ok t"
  shows "reads read_tag (varint_bytes (tag_word t)) t"
proof -
  obtain wt n where t: "t = (wt, n)" by (cases t)
  have wt: "bit wt i \<Longrightarrow> i < 3" and n: "bit n i \<Longrightarrow> i < 29" for i
    using assms bit_take_bit_iff [of 3 wt i] bit_take_bit_iff [of 29 n i] by (simp_all add: tag_ok_def t)
  let ?v = "push_bit 3 n OR wt"
  have "extends False ?v (tag_word t)"
    unfolding extends_def
  proof
    fix i
    show "bit (tag_word t) i \<longleftrightarrow> (if i < 32 then bit ?v i else i < 64 \<and> False \<and> bit ?v 31)"
      using wt [of i] n [of "i - 3"] by (auto simp: tag_word_def t bit_simps)
  qed
  then have "reads read_tag (varint_bytes (tag_word t)) (?v AND 7, drop_bit 3 ?v)"
    unfolding read_tag_eq by (rule reads_then [OF reads_varint32])
  moreover have "?v AND 7 = wt"
  proof -
    have "?v AND 7 = take_bit 3 ?v" by (simp add: take_bit_eq_mask mask_numeral)
    then show ?thesis by simp (rule bit_word_eqI, auto simp: bit_simps dest: wt)
  qed
  moreover have "drop_bit 3 ?v = n"
  proof (rule bit_word_eqI)
    fix i assume "i < LENGTH(32)"
    show "bit (drop_bit 3 ?v) i = bit n i" using n [of i] wt [of "3 + i"] by (auto simp: bit_simps)
  qed
  ultimately show ?thesis by (simp add: t)
qed

section \<open>Codecs\<close>

text \<open>
  The contract of an encoder and its decoder: \<open>enc x\<close> writes exactly \<open>wire x\<close>, which \<open>dec\<close> reads as \<open>x\<close>, whatever
  follows it.  Then decoding what was written to a buffer recovers the value and leaves nothing.
\<close>

definition recovers :: "('a \<Rightarrow> unit writer) \<Rightarrow> 'a reader \<Rightarrow> 'a \<Rightarrow> bytes \<Rightarrow> bool" where
  "recovers enc dec x buf \<longleftrightarrow>
     (case enc x (pb_ostream_from_buffer buf (of_nat (length buf))) of (r, t) \<Rightarrow> r = Done () \<and>
        (case dec (pb_istream_from_buffer (obuf t) (unat (bytes_written t))) of (r, u) \<Rightarrow> r = Done x \<and> bytes_left u = 0))"

locale codec =
  fixes enc :: "'a \<Rightarrow> unit writer"
    and dec :: "'a reader"
    and wire :: "'a \<Rightarrow> bytes"
    and ok :: "'a \<Rightarrow> bool"
  assumes enc: "ok x \<Longrightarrow> writes (enc x) (wire x)"
    and dec: "ok x \<Longrightarrow> reads dec (wire x) x"
begin

lemma encode_to_buffer:
  assumes "ok x" and "length (wire x) \<le> length buf" and "length buf < 2 ^ 32"
  shows "enc x (pb_ostream_from_buffer buf (of_nat (length buf)))
    = (Done (), (pb_ostream_from_buffer (wire x @ drop (length (wire x)) buf) (of_nat (length buf)))
        \<lparr>ostate := length (wire x), bytes_written := of_nat (length (wire x))\<rparr>)"
  using enc [OF assms(1)] assms(2,3)
  by (simp add: writes_def room_def wrote_def pb_ostream_from_buffer_def unat_of_nat_u32 blit_def)

text \<open>The round trip: decoding the bytes written gives the value and leaves nothing.\<close>

lemma roundtrip:
  assumes "ok x" and "length (wire x) \<le> length buf" and "length buf < 2 ^ 32"
  shows "recovers enc dec x buf"
proof -
  let ?s = "pb_istream_from_buffer (wire x @ drop (length (wire x)) buf) (length (wire x))"
  have "dec ?s = (Done x, ?s\<lparr>istate := drop (length (wire x)) buf, bytes_left := bytes_left ?s - length (wire x)\<rparr>)"
    using dec [OF assms(1)] by (rule readsD) (simp_all add: pb_istream_from_buffer_def)
  then show ?thesis
    using assms(2,3) encode_to_buffer [OF assms]
    by (simp add: recovers_def unat_of_nat_u32 pb_ostream_from_buffer_def) (simp add: pb_istream_from_buffer_def)
qed

text \<open>A stream that only counts gets the same size.\<close>

lemma sizing: "ok x \<Longrightarrow> enc x PB_OSTREAM_SIZING
    = (Done (), PB_OSTREAM_SIZING\<lparr>bytes_written := of_nat (length (wire x))\<rparr>)"
  using enc by (simp add: writes_def room_def wrote_def PB_OSTREAM_SIZING_def)

text \<open>Two values after each other.\<close>

lemma dec_dec: "ok x \<Longrightarrow> ok y \<Longrightarrow> reads (pb_bind dec (\<lambda>x. pb_bind dec (\<lambda>y. pb_return (x, y)))) (wire x @ wire y) (x, y)"
  using dec reads_then [of dec "wire y" y "Pair x"] by (intro reads_bind) simp_all

end

text \<open>A value whose field a reader that does not know it can skip.\<close>

locale skippable = codec +
  fixes wt :: u32
  assumes skip: "ok x \<Longrightarrow> reads (pb_skip_field wt) (wire x) ()"
begin

lemma skip_rest: "ok x \<Longrightarrow> istate s = wire x @ rest \<Longrightarrow> length (wire x) \<le> bytes_left s \<Longrightarrow>
    pb_skip_field wt s = (Done (), s\<lparr>istate := rest, bytes_left := bytes_left s - length (wire x)\<rparr>)"
  using skip by (rule readsD)

end

section \<open>Skipping\<close>

lemma skip_varint_unfold: "pb_skip_varint =
    pb_bind (pb_read 1) (\<lambda>bs s. if hd bs AND 0x80 \<noteq> 0 then pb_skip_varint s else (Done (), s))"
  by (rule ext) (rule pb_skip_varint.simps)

lemma reads_one: "reads (f [b]) bs x \<Longrightarrow> reads (pb_bind (pb_read 1) f) (b # bs) x"
  using reads_bind [OF reads_read [of 1 "[b]"], of f bs x] by simp

lemma skip_varint: "reads pb_skip_varint (varint_bytes v) ()"
proof (induction v rule: varint_bytes.induct)
  case (1 v)
  show ?case
  proof (cases "drop_bit 7 v = 0")
    case True
    have "\<not> bit (ucast (v AND 0x7F) :: u8) 7" by (simp add: bit_ucast_7F)
    then have byte: "((ucast (v AND 0x7F) :: u8) AND 0x80 \<noteq> 0) = False" by (simp only: and_80)
    have "reads (\<lambda>s. (Done (), s)) [] ()" by (simp add: reads_def)
    then show ?thesis
      unfolding varint_end [OF True] by (subst skip_varint_unfold, intro reads_one) (simp only: list.sel byte if_False)
  next
    case False
    have byte: "(((ucast (v AND 0x7F) :: u8) OR 0x80) AND 0x80 \<noteq> 0) = True" by (simp only: and_80 bit_or_80 simp_thms)
    show ?thesis
      unfolding varint_step [OF False] using 1 False
      by (subst skip_varint_unfold, intro reads_one) (simp only: list.sel byte if_True le_7F not_False_eq_True)
  qed
qed

definition string_wire :: "bytes \<Rightarrow> bytes" where
  "string_wire bs = varint_bytes (of_nat (length bs)) @ bs"

definition read_string :: "bytes reader" where
  "read_string = pb_bind pb_decode_varint32 (\<lambda>n. pb_read (unat n))"

lemma reads_length:
  assumes "n < 2 ^ 32"
  shows "reads pb_decode_varint32 (varint_bytes (of_nat n)) (of_nat n)"
proof (rule reads_varint32)
  have "unat (of_nat n :: u32) = n" using assms by (simp add: unat_of_nat_u32)
  then have "(of_nat n :: u64) = ucast (of_nat n :: u32)" by (metis of_nat_unat)
  then show "extends False (of_nat n) (of_nat n)" by (simp only: extends_ucast)
qed

lemma writes_string: "length bs < 2 ^ 32 \<Longrightarrow> writes (pb_encode_string bs) (string_wire bs)"
  unfolding pb_encode_string_def string_wire_def by (intro writes_bind pb_exact)

lemma reads_string: "length bs < 2 ^ 32 \<Longrightarrow> reads read_string (string_wire bs) bs"
  unfolding read_string_def string_wire_def
  by (intro reads_bind [OF reads_length] reads_read) (simp_all add: unat_of_nat_u32)

lemma skip_fixed: "n = length bs \<Longrightarrow> reads (pb_bind (pb_read n) (\<lambda>_. pb_return ())) bs ()"
  using reads_then [OF reads_read, of n bs "\<lambda>_. ()"] by simp

lemma skip_string: "length bs < 2 ^ 32 \<Longrightarrow> reads pb_skip_string (string_wire bs) ()"
  unfolding pb_skip_string_def string_wire_def
  by (intro reads_bind [OF reads_length] skip_fixed) (simp_all add: unat_of_nat_u32)

interpretation varint: skippable pb_encode_varint pb_decode_varint varint_bytes "\<lambda>_. True" PB_WT_VARINT
  by unfold_locales (simp_all add: pb_exact pb_skip_field_def skip_varint)

interpretation svarint: skippable pb_encode_svarint pb_decode_svarint "\<lambda>v. varint_bytes (zigzag v)" "\<lambda>_. True" PB_WT_VARINT
  by unfold_locales (simp_all add: pb_exact pb_skip_field_def skip_varint)

interpretation fixed32: skippable pb_encode_fixed32 pb_decode_fixed32 "fixed_bytes 4" "\<lambda>_. True" PB_WT_32BIT
  by unfold_locales (simp_all add: pb_exact pb_skip_field_def skip_fixed)

interpretation fixed64: skippable pb_encode_fixed64 pb_decode_fixed64 "fixed_bytes 8" "\<lambda>_. True" PB_WT_64BIT
  by unfold_locales (simp_all add: pb_exact pb_skip_field_def skip_fixed)

interpretation lstring: skippable pb_encode_string read_string string_wire "\<lambda>bs. length bs < 2 ^ 32" PB_WT_STRING
  by unfold_locales (simp_all add: writes_string reads_string pb_skip_field_def skip_string)

interpretation wire_tag: codec "\<lambda>(wt, n). pb_encode_tag wt n" read_tag "\<lambda>t. varint_bytes (tag_word t)" tag_ok
  by unfold_locales (auto simp: writes_tag reads_tag)

section \<open>Properties\<close>

text \<open>C13. A number written to a buffer of ten bytes or more is recovered from it by its decoder, in every encoding:
variable-length, signed, and of fixed length, for all values of 64 and 32 bits.\<close>

theorem numbers_round_trip:
  assumes "10 \<le> length buf" and "length buf < 2 ^ 32"
  shows "recovers pb_encode_varint pb_decode_varint v buf \<and> recovers pb_encode_svarint pb_decode_svarint v buf \<and>
    recovers pb_encode_fixed32 pb_decode_fixed32 w buf \<and> recovers pb_encode_fixed64 pb_decode_fixed64 v buf"
proof (intro conjI)
  have len: "length (varint_bytes u) \<le> length buf" for u
    using assms(1) length_varint_le_10 [of u] by linarith
  show "recovers pb_encode_varint pb_decode_varint v buf" by (rule varint.roundtrip) (use len assms in simp_all)
  show "recovers pb_encode_svarint pb_decode_svarint v buf" by (rule svarint.roundtrip) (use len assms in simp_all)
  show "recovers pb_encode_fixed32 pb_decode_fixed32 w buf" by (rule fixed32.roundtrip) (use assms in simp_all)
  show "recovers pb_encode_fixed64 pb_decode_fixed64 v buf" by (rule fixed64.roundtrip) (use assms in simp_all)
qed

lemma numbers_round_trip_witness:
  "recovers pb_encode_varint pb_decode_varint 300 (replicate 10 0) \<and> recovers pb_encode_svarint pb_decode_svarint 300 (replicate 10 0) \<and>
    recovers pb_encode_fixed32 pb_decode_fixed32 7 (replicate 10 0) \<and> recovers pb_encode_fixed64 pb_decode_fixed64 300 (replicate 10 0)"
  using numbers_round_trip [of "replicate 10 0" 300 7] by simp

text \<open>A 32-bit number is read from its own bytes and from those of its extension to 64 bits by zeroes or by its
sign, up to ten bytes.\<close>

lemma varint32_reads_extensions:
  "reads pb_decode_varint32 (varint_bytes (ucast v)) v \<and> reads pb_decode_varint32 (varint_bytes (scast v)) v"
  using reads_varint32 [OF extends_ucast] reads_varint32 [OF extends_scast] by blast

text \<open>Other bytes are accepted too: a number of 35 bits is read as its low 32 bits.\<close>

lemma varint32_drops_bits:
  "pb_decode_varint32 (pb_istream_from_buffer [0x80, 0x80, 0x80, 0x80, 0x78] 5)
     = (Done 0x80000000, (pb_istream_from_buffer [] 0)) \<and>
   pb_decode_varint (pb_istream_from_buffer [0x80, 0x80, 0x80, 0x80, 0x78] 5)
     = (Done 0x780000000, (pb_istream_from_buffer [] 0))"
  by (simp add: pb_decode_varint32_eq pb_decode_varint_def pb_istream_from_buffer_def varint32_loop.simps varint_loop.simps
      pb_bind_def pb_readbyte_def buf_read_def varint32_step_def Let_def)

text \<open>A string field: its bytes, and what a reader makes of them.\<close>

definition field_wire :: "u32 \<Rightarrow> bytes \<Rightarrow> bytes" where
  "field_wire n bs = varint_bytes (tag_word (PB_WT_STRING, n)) @ string_wire bs"

lemma writes_field: "length bs < 2 ^ 32 \<Longrightarrow>
    writes (pb_bind (pb_encode_tag PB_WT_STRING n) (\<lambda>_. pb_encode_string bs)) (field_wire n bs)"
  unfolding field_wire_def by (intro writes_bind writes_tag writes_string)

lemma length_string_wire: "length (string_wire bs) \<le> 10 + length bs"
  using length_varint_le_10 by (simp add: string_wire_def)

lemma length_field_wire: "length (field_wire n bs) \<le> 20 + length bs"
  unfolding field_wire_def length_append using length_string_wire [of bs] length_varint_le_10 [of "tag_word (PB_WT_STRING, n)"] by linarith

lemma tag_ok_string: "take_bit 29 n = n \<Longrightarrow> tag_ok (PB_WT_STRING, n)"
  by (simp add: tag_ok_def)

lemma decode_tag:
  assumes "tag_ok t" and "istate s = varint_bytes (tag_word t) @ rest" and "length (varint_bytes (tag_word t)) \<le> bytes_left s"
  shows "pb_decode_tag s = ((Done t, s\<lparr>istate := rest, bytes_left := bytes_left s - length (varint_bytes (tag_word t))\<rparr>), False)"
proof -
  have pos: "varint_bytes w \<noteq> []" for w by (subst varint_bytes.simps) simp
  then have "0 < length (varint_bytes (tag_word t))" by simp
  then have "bytes_left s \<noteq> 0" using assms(3) by linarith
  moreover have "istate s \<noteq> []" using assms(2) pos by simp
  ultimately have "\<not> snd (pb_decode_varint32_eof s)"
    by (simp add: pb_decode_varint32_eof_def pb_readbyte_def pb_bind_def buf_read_def Suc_le_eq)
  then have eof: "snd (pb_decode_tag s) = False"
    by (simp add: pb_decode_tag_def case_prod_beta)
  have "fst (pb_decode_tag s) = (Done t, s\<lparr>istate := rest, bytes_left := bytes_left s - length (varint_bytes (tag_word t))\<rparr>)"
    using readsD [OF reads_tag [OF assms(1)] assms(2,3)] by (simp add: read_tag_def)
  then show ?thesis using eof by (metis prod.collapse)
qed

lemma make_substream:
  assumes "length bs < 2 ^ 32" and "istate s = string_wire bs @ rest" and "length (string_wire bs) \<le> bytes_left s"
  shows "pb_make_string_substream s =
    (Done (s\<lparr>istate := bs @ rest, bytes_left := length bs\<rparr>),
     s\<lparr>istate := bs @ rest, bytes_left := bytes_left s - length (string_wire bs)\<rparr>)"
proof -
  let ?t = "s\<lparr>istate := bs @ rest, bytes_left := bytes_left s - length (varint_bytes (of_nat (length bs)))\<rparr>"
  have size: "pb_decode_varint32 s = (Done (of_nat (length bs)), ?t)"
    using assms by (intro readsD [OF reads_length]) (simp_all add: string_wire_def)
  have "\<not> bytes_left s - length (varint_bytes (of_nat (length bs))) < length bs"
    using assms(3) by (simp add: string_wire_def)
  then show ?thesis
    using assms by (simp add: pb_make_string_substream_def pb_bind_def size unat_of_nat_u32 string_wire_def)
qed

lemma close_substream:
  assumes "k \<le> length bs"
  shows "pb_close_string_substream (s\<lparr>istate := drop k bs @ rest, bytes_left := length bs - k\<rparr>) t
    = (Done (), t\<lparr>istate := rest, ierrmsg := ierrmsg s\<rparr>)"
proof -
  let ?sub = "s\<lparr>istate := drop k bs @ rest, bytes_left := length bs - k\<rparr>"
  have "pb_read (length bs - k) ?sub = (Done (drop k bs), ?sub\<lparr>istate := rest, bytes_left := 0\<rparr>)"
    using assms readsD [OF reads_read [of "length bs - k" "drop k bs"], of ?sub rest] by simp
  then show ?thesis by (simp add: pb_close_string_substream_def)
qed

text \<open>C25. A string field written to a buffer that has room for it is read back: the tag gives its number, the string is
a substream of exactly its bytes, closing the substream after any part of it was read leaves the message behind the
field, and a reader that does not know the field skips exactly it.\<close>

theorem string_field_round_trip:
  assumes "take_bit 29 n = n" and "length bs + 20 \<le> length buf" and "length buf < 2 ^ 32" and "k \<le> length bs"
    and "pb_bind (pb_encode_tag PB_WT_STRING n) (\<lambda>_. pb_encode_string bs) (pb_ostream_from_buffer buf (of_nat (length buf))) = (r, t)"
  shows "r = Done () \<and>
    (\<exists>u v w. pb_decode_tag (pb_istream_from_buffer (obuf t) (unat (bytes_written t))) = ((Done (PB_WT_STRING, n), u), False) \<and>
      pb_make_string_substream u = (Done v, w) \<and> take (bytes_left v) (istate v) = bs \<and> bytes_left v = length bs \<and>
      pb_close_string_substream (v\<lparr>istate := drop k (istate v), bytes_left := bytes_left v - k\<rparr>) w = pb_skip_field PB_WT_STRING u \<and>
      (\<exists>x. pb_skip_field PB_WT_STRING u = (Done (), x) \<and> bytes_left x = 0))"
proof -
  let ?w = "field_wire n bs"
  have len: "length ?w \<le> length buf" "length bs < 2 ^ 32" using length_field_wire [of n bs] assms(2,3) by linarith+
  have wr: "r = Done () \<and> t = wrote (pb_ostream_from_buffer buf (of_nat (length buf))) ?w"
    using assms(3,5) writes_field [OF len(2), of n] len
    by (simp add: writes_def room_def pb_ostream_from_buffer_def unat_of_nat_u32)
  define rest where "rest = drop (length ?w) buf"
  define tagb where "tagb = varint_bytes (tag_word (PB_WT_STRING, n))"
  let ?s = "pb_istream_from_buffer (tagb @ string_wire bs @ rest) (length tagb + length (string_wire bs))"
  have s: "pb_istream_from_buffer (obuf t) (unat (bytes_written t)) = ?s"
  proof -
    have "obuf t = ?w @ rest" "bytes_written t = of_nat (length ?w)"
      using wr by (simp_all add: wrote_def pb_ostream_from_buffer_def blit_def rest_def)
    moreover have "unat (of_nat (length ?w) :: u32) = length ?w" using len assms(3) by (intro unat_of_nat_u32) simp
    ultimately show ?thesis by (simp add: pb_istream_from_buffer_def) (simp add: field_wire_def tagb_def)
  qed
  let ?u = "?s\<lparr>istate := string_wire bs @ rest, bytes_left := length (string_wire bs)\<rparr>"
  have "pb_decode_tag ?s = ((Done (PB_WT_STRING, n), ?u), False)"
    using decode_tag [OF tag_ok_string [OF assms(1)], of ?s "string_wire bs @ rest"]
    by (simp add: pb_istream_from_buffer_def tagb_def)
  moreover have "pb_make_string_substream ?u = (Done (?s\<lparr>istate := bs @ rest, bytes_left := length bs\<rparr>), ?s\<lparr>istate := bs @ rest, bytes_left := 0\<rparr>)"
    using make_substream [OF len(2), of ?u rest] by simp
  moreover have "pb_skip_field PB_WT_STRING ?u = (Done (), ?s\<lparr>istate := rest, bytes_left := 0\<rparr>)"
    using lstring.skip_rest [OF len(2), of ?u rest] by simp
  moreover have "pb_close_string_substream (?s\<lparr>istate := drop k (bs @ rest), bytes_left := length bs - k\<rparr>) (?s\<lparr>istate := bs @ rest, bytes_left := 0\<rparr>)
      = (Done (), ?s\<lparr>istate := rest, bytes_left := 0\<rparr>)"
    using close_substream [OF assms(4), where s = ?s and rest = rest and t = "?s\<lparr>istate := bs @ rest, bytes_left := 0\<rparr>"] assms(4) by (simp add: pb_istream_from_buffer_def)
  ultimately show ?thesis using wr s by simp
qed

lemma string_field_round_trip_witness:
  "\<exists>r t. pb_bind (pb_encode_tag PB_WT_STRING 3) (\<lambda>_. pb_encode_string [65, 66, 67]) (pb_ostream_from_buffer (replicate 30 0) (of_nat (length (replicate 30 (0 :: u8))))) = (r, t) \<and>
    r = Done ()"
proof -
  obtain r t where e: "pb_bind (pb_encode_tag PB_WT_STRING 3) (\<lambda>_. pb_encode_string [65, 66, 67])
      (pb_ostream_from_buffer (replicate 30 0) (of_nat (length (replicate 30 (0 :: u8))))) = (r, t)" by force
  have "r = Done ()"
    using string_field_round_trip [OF _ _ _ _ e, of 2] by (simp add: take_bit_eq_mask mask_numeral)
  then show ?thesis using e by blast
qed

end
