(* ===== verification/PbSafe.thy ===== *)
theory PbSafe
  imports PbCorrect
begin

text \<open>
  Memory safety of the wire format of \<open>PbWire\<close>: no operation touches memory outside the message it reads or the buffer
  it writes, a truncated message is an error, and a message that does not fit leaves the buffer as it is.
\<close>

section \<open>Confinement\<close>

text \<open>
  An operation confined by a relation of streams never faults, and takes a stream of the relation to a related one.  The
  laws of the relation close this under sequencing.
\<close>

definition confined_by :: "('s \<Rightarrow> 's \<Rightarrow> bool) \<Rightarrow> ('s \<Rightarrow> 'a pb_result \<times> 's) \<Rightarrow> bool" where
  "confined_by R m \<longleftrightarrow> (\<forall>s. R s s \<longrightarrow> fst (m s) \<noteq> Fault \<and> R s (snd (m s)))"

lemma confined_byD: "confined_by R m \<Longrightarrow> R s s \<Longrightarrow> m s = (r, t) \<Longrightarrow> r \<noteq> Fault \<and> R s t"
  by (force simp: confined_by_def)

locale confinement =
  fixes R :: "'s \<Rightarrow> 's \<Rightarrow> bool"
  assumes R_trans: "R s t \<Longrightarrow> R t u \<Longrightarrow> R s u"
    and R_target: "R s t \<Longrightarrow> R t t"
begin

lemma confined_return: "confined_by R (pb_return x)"
  by (simp add: confined_by_def pb_return_def)

lemma confined_done: "confined_by R (\<lambda>s. (Done x, s))"
  by (simp add: confined_by_def)

lemma bind_at:
  assumes "R s s" and "fst (m s) \<noteq> Fault \<and> R s (snd (m s))"
    and "\<And>x t. m s = (Done x, t) \<Longrightarrow> R t t \<Longrightarrow> fst (f x t) \<noteq> Fault \<and> R t (snd (f x t))"
  shows "fst (pb_bind m f s) \<noteq> Fault \<and> R s (snd (pb_bind m f s))"
proof (cases "m s")
  case (Pair r t)
  then show ?thesis
    using assms R_trans [of s t] R_target [of s t] by (cases r) (auto simp: pb_bind_def)
qed

lemma confined_bind: "confined_by R m \<Longrightarrow> (\<And>x. confined_by R (f x)) \<Longrightarrow> confined_by R (pb_bind m f)"
  unfolding confined_by_def by (intro allI impI) (rule bind_at, simp_all)

end

text \<open>A reader stays in the message: it moves forward, and leaves at most what was left.\<close>

definition in_message :: "pb_istream \<Rightarrow> pb_istream \<Rightarrow> bool" where
  "in_message s t \<longleftrightarrow> bytes_left s \<le> length (istate s) \<and>
     (\<exists>k. istate t = drop k (istate s) \<and> k + bytes_left t \<le> bytes_left s)"

interpretation message: confinement in_message
proof
  fix s t u
  assume "in_message s t" and "in_message t u"
  then obtain j k where "bytes_left s \<le> length (istate s)"
    "istate t = drop j (istate s)" "j + bytes_left t \<le> bytes_left s"
    "istate u = drop k (istate t)" "k + bytes_left u \<le> bytes_left t" by (auto simp: in_message_def)
  then show "in_message s u" by (auto simp: in_message_def intro!: exI [of _ "k + j"])
next
  fix s t
  assume "in_message s t"
  then show "in_message t t" by (auto simp: in_message_def intro!: exI [of _ 0])
qed

named_theorems pb_safe \<open>operations that stay in their memory\<close>

lemma in_message_move: "bytes_left s \<le> length (istate s) \<Longrightarrow> k + bytes_left t \<le> bytes_left s \<Longrightarrow> istate t = drop k (istate s) \<Longrightarrow>
    in_message s t"
  by (auto simp: in_message_def)

lemma safe_error [pb_safe]: "confined_by in_message (pb_read_error msg)"
  by (auto simp: confined_by_def pb_read_error_def in_message_def)

lemma safe_read [pb_safe]: "confined_by in_message (pb_read n)"
  by (auto simp: confined_by_def pb_read_def pb_read_error_def pb_bind_def buf_read_def in_message_def)

lemma safe_readbyte [pb_safe]: "confined_by in_message pb_readbyte"
  by (auto simp: confined_by_def pb_readbyte_def pb_read_error_def pb_bind_def buf_read_def in_message_def)

lemma safe_varint_loop: "in_message s s \<Longrightarrow>
    fst (varint_loop p r s) \<noteq> Fault \<and> in_message s (snd (varint_loop p r s))"
proof (induction p r s rule: varint_loop.induct)
  case (1 p r s)
  have byte: "fst (pb_readbyte s) \<noteq> Fault \<and> in_message s (snd (pb_readbyte s))"
    using safe_readbyte 1(2) by (simp add: confined_by_def)
  show ?case
    unfolding varint_loop.simps [of p r s]
    by (rule message.bind_at [where m = pb_readbyte, OF 1(2) byte])
      (use 1(1) safe_error in \<open>auto simp: Let_def confined_by_def\<close>)
qed

lemma safe_varint32_loop: "in_message s s \<Longrightarrow>
    fst (varint32_loop p r s) \<noteq> Fault \<and> in_message s (snd (varint32_loop p r s))"
proof (induction p r s rule: varint32_loop.induct)
  case (1 p r s)
  have byte: "fst (pb_readbyte s) \<noteq> Fault \<and> in_message s (snd (pb_readbyte s))"
    using safe_readbyte 1(2) by (simp add: confined_by_def)
  show ?case
    unfolding varint32_loop.simps [of p r s]
    by (rule message.bind_at [where m = pb_readbyte, OF 1(2) byte])
      (use 1(1) safe_error in \<open>auto simp: confined_by_def split: option.split\<close>)
qed

lemma safe_skip_varint: "in_message s s \<Longrightarrow>
    fst (pb_skip_varint s) \<noteq> Fault \<and> in_message s (snd (pb_skip_varint s))"
proof (induction s rule: pb_skip_varint.induct)
  case (1 s)
  have byte: "fst (pb_read 1 s) \<noteq> Fault \<and> in_message s (snd (pb_read 1 s))"
    using safe_read 1(2) by (simp add: confined_by_def)
  show ?case
    unfolding pb_skip_varint.simps [of s]
    by (rule message.bind_at [where m = "pb_read 1", OF 1(2) byte]) (use 1(1) in auto)
qed

lemma safe_varint [pb_safe]: "confined_by in_message pb_decode_varint"
  by (simp add: confined_by_def pb_decode_varint_def safe_varint_loop)

lemma safe_varint32 [pb_safe]: "confined_by in_message pb_decode_varint32"
  unfolding pb_decode_varint32_eq
  by (intro message.confined_bind safe_readbyte) (simp add: confined_by_def safe_varint32_loop)

lemma safe_skip [pb_safe]: "confined_by in_message pb_skip_varint"
  by (simp add: confined_by_def safe_skip_varint)

lemmas pb_confined = message.confined_bind message.confined_return message.confined_done pb_safe

lemma safe_tag [pb_safe]: "confined_by in_message read_tag"
  unfolding read_tag_eq by (intro pb_confined)

lemma safe_skip_field [pb_safe]: "confined_by in_message (pb_skip_field wt)"
  by (simp add: pb_skip_field_def pb_skip_string_def pb_confined)

lemma safe_make_substream [pb_safe]: "confined_by in_message pb_make_string_substream"
  unfolding pb_make_string_substream_def
  by (intro message.confined_bind pb_safe)
    (auto simp: confined_by_def pb_read_error_def in_message_def intro!: exI [of _ 0])

text \<open>A substream and the stream it was taken from share the memory of the message.\<close>

definition split_stream :: "pb_istream \<Rightarrow> pb_istream \<Rightarrow> pb_istream \<Rightarrow> bool" where
  "split_stream s sub t \<longleftrightarrow> istate t = istate sub \<and> bytes_left s \<le> length (istate s) \<and>
     (\<exists>k. istate sub = drop k (istate s) \<and> k + bytes_left sub + bytes_left t \<le> bytes_left s)"

lemma split_at: "in_message s s \<Longrightarrow> pb_make_string_substream s = (Done sub, t) \<Longrightarrow> split_stream s sub t"
proof -
  assume s: "in_message s s" and m: "pb_make_string_substream s = (Done sub, t)"
  then obtain n u where n: "pb_decode_varint32 s = (Done n, u)" "\<not> bytes_left u < unat n"
      "sub = u\<lparr>bytes_left := unat n\<rparr>" "t = u\<lparr>bytes_left := bytes_left u - unat n\<rparr>"
    by (auto simp: pb_make_string_substream_def pb_bind_def pb_read_error_def split: prod.splits pb_result.splits if_splits)
  then have "in_message s u" using confined_byD [OF safe_varint32 s] by blast
  then show ?thesis using n(2) unfolding n(3,4) by (auto simp: split_stream_def in_message_def)
qed

lemma split_sub: "split_stream s sub t \<Longrightarrow> in_message s sub"
  by (auto simp: split_stream_def in_message_def)

lemma split_rest: "split_stream s sub t \<Longrightarrow> in_message s t"
  by (auto simp: split_stream_def in_message_def)

lemma close_at:
  assumes "split_stream s sub t" and "in_message sub u"
  shows "fst (pb_close_string_substream u t) \<noteq> Fault \<and> in_message s (snd (pb_close_string_substream u t))"
proof -
  obtain k j where k: "istate sub = drop k (istate s)" "k + bytes_left sub + bytes_left t \<le> bytes_left s" "istate t = istate sub"
    "bytes_left s \<le> length (istate s)"
    and j: "istate u = drop j (istate sub)" "j + bytes_left u \<le> bytes_left sub"
    using assms by (auto simp: split_stream_def in_message_def)
  have "bytes_left u \<le> length (istate u)" using j k by simp
  then show ?thesis
    using k j by (auto simp: pb_close_string_substream_def pb_read_def buf_read_def pb_bind_def in_message_def ac_simps
      intro!: exI [of _ "k + j"] exI [of _ "k + (j + bytes_left u)"])
qed

lemma bind_substream:
  assumes "in_message s s"
    and "\<And>sub t. pb_make_string_substream s = (Done sub, t) \<Longrightarrow> split_stream s sub t \<Longrightarrow> fst (f sub t) \<noteq> Fault \<and> in_message s (snd (f sub t))"
  shows "fst (pb_bind pb_make_string_substream f s) \<noteq> Fault \<and> in_message s (snd (pb_bind pb_make_string_substream f s))"
proof (cases "pb_make_string_substream s")
  case (Pair r t)
  then show ?thesis
    using confined_byD [OF safe_make_substream assms(1) Pair] assms(2) split_at [OF assms(1)] by (cases r) (auto simp: pb_bind_def)
qed

lemma safe_open_close: "confined_by in_message (pb_bind pb_make_string_substream pb_close_string_substream)"
  unfolding confined_by_def
proof (intro allI impI bind_substream)
  fix s sub t
  assume s: "split_stream s sub t"
  then have "in_message sub sub" by (auto simp: split_stream_def in_message_def intro!: exI [of _ 0])
  then show "fst (pb_close_string_substream sub t) \<noteq> Fault \<and> in_message s (snd (pb_close_string_substream sub t))"
    by (rule close_at [OF s])
qed

lemma safe_enter: "confined_by in_message (pb_bind pb_make_string_substream (\<lambda>sub _. (Done (), sub)))"
  unfolding confined_by_def by (intro allI impI bind_substream) (simp_all add: split_sub)

section \<open>Writers\<close>

text \<open>What is left of the limit is left of the buffer.\<close>

definition left_to_write :: "pb_ostream \<Rightarrow> nat" where
  "left_to_write s = unat (max_size s) - unat (bytes_written s)"

definition out_ok :: "pb_ostream \<Rightarrow> bool" where
  "out_ok s \<longleftrightarrow> (callback s = BUF_WRITE \<longrightarrow>
     unat (bytes_written s) \<le> unat (max_size s) \<and> ostate s + left_to_write s \<le> length (obuf s))"

text \<open>The buffer changes only between the write pointer and the limit.\<close>

definition in_buffer :: "pb_ostream \<Rightarrow> pb_ostream \<Rightarrow> bool" where
  "in_buffer s t \<longleftrightarrow> out_ok s \<and> out_ok t \<and> callback t = callback s \<and> length (obuf t) = length (obuf s) \<and>
     (if callback s = BUF_WRITE
      then ostate s \<le> ostate t \<and> ostate t + left_to_write t = ostate s + left_to_write s \<and>
        (\<forall>i. i < ostate s \<or> ostate s + left_to_write s \<le> i \<longrightarrow> obuf t ! i = obuf s ! i)
      else obuf t = obuf s)"

interpretation buffered: confinement in_buffer
proof
  fix s t u
  assume st: "in_buffer s t" and tu: "in_buffer t u"
  show "in_buffer s u"
  proof (cases "callback s = BUF_WRITE")
    case True
    then have "obuf u ! i = obuf s ! i" if "i < ostate s \<or> ostate s + left_to_write s \<le> i" for i
      using st tu that by (auto simp: in_buffer_def)
    then show ?thesis using st tu True by (auto simp: in_buffer_def)
  next
    case False
    then show ?thesis using st tu by (simp add: in_buffer_def)
  qed
qed (simp add: in_buffer_def)

lemma safe_write_error: "confined_by in_buffer (pb_write_error msg)"
  by (auto simp: confined_by_def pb_write_error_def in_buffer_def out_ok_def left_to_write_def)

lemma nth_blit_out: "i < p \<or> p + length bs \<le> i \<Longrightarrow> p + length bs \<le> length b \<Longrightarrow> blit b p bs ! i = b ! i"
  by (auto simp: blit_def nth_append)

lemma write_step:
  assumes "out_ok s" and "callback s = BUF_WRITE" and "length bs = n" and "n \<le> left_to_write s" and "n < 2 ^ 32"
  shows "in_buffer s (s\<lparr>obuf := blit (obuf s) (ostate s) bs, ostate := ostate s + n, bytes_written := bytes_written s + of_nat n\<rparr>)"
proof -
  have le: "unat (bytes_written s) + n \<le> unat (max_size s)"
    using assms(1,2,4) by (auto simp: out_ok_def left_to_write_def)
  have sum: "unat (bytes_written s + of_nat n) = unat (bytes_written s) + n"
    using le unat_u32_less [of "max_size s"] by (intro unat_add_u32) linarith
  have fits: "ostate s + n \<le> length (obuf s)" using assms(1,2,4) by (auto simp: out_ok_def)
  show ?thesis
    using assms le fits by (auto simp: in_buffer_def out_ok_def left_to_write_def sum intro!: nth_blit_out)
qed

lemma safe_write: "confined_by in_buffer (pb_write bs)"
  unfolding confined_by_def
proof (intro allI impI)
  fix s
  assume R: "in_buffer s s"
  let ?c = "of_nat (length bs) :: u32"
  show "fst (pb_write bs s) \<noteq> Fault \<and> in_buffer s (snd (pb_write bs s))"
  proof (cases "0 < ?c \<and> callback s = BUF_WRITE")
    case True
    show ?thesis
    proof (cases "bytes_written s + ?c < bytes_written s \<or> max_size s < bytes_written s + ?c")
      case True
      then show ?thesis
        using safe_write_error [where 'a = unit] R \<open>0 < ?c \<and> callback s = BUF_WRITE\<close>
        by (simp add: pb_write_def pb_write_count_def confined_by_def)
    next
      case False
      have sum: "unat (bytes_written s + ?c) = unat (bytes_written s) + unat ?c"
        using False by (meson no_olen_add_nat not_le unat_plus_simple word_le_nat_alt)
      have le: "unat ?c \<le> length bs" by (simp add: unat_of_nat)
      have n: "unat ?c \<le> left_to_write s"
        using False sum by (auto simp: left_to_write_def word_less_nat_alt)
      have ok: "out_ok s" using R by (simp add: in_buffer_def)
      have fits: "ostate s + unat ?c \<le> length (obuf s)" using ok n True by (auto simp: out_ok_def)
      have "in_buffer s (s\<lparr>obuf := blit (obuf s) (ostate s) (take (unat ?c) bs), ostate := ostate s + unat ?c,
          bytes_written := bytes_written s + of_nat (unat ?c)\<rparr>)"
        using ok True le n by (intro write_step) simp_all
      then show ?thesis
        using True False le fits by (simp add: pb_write_def pb_write_count_def pb_bind_def buf_write_def Let_def min_absorb2 [OF le])
    qed
  next
    case False
    moreover have "\<not> 0 < ?c \<Longrightarrow> ?c = 0" using word_gt_0 [of ?c] by argo
    ultimately show ?thesis
      using R by (cases "callback s"; cases "?c = 0") (auto simp: pb_write_def pb_write_count_def in_buffer_def out_ok_def left_to_write_def Let_def)
  qed
qed

lemma safe_encode_varint: "confined_by in_buffer (pb_encode_varint v)"
  by (simp add: encode_varint_eq safe_write)

lemmas safe_encoders = buffered.confined_bind safe_write safe_encode_varint

lemma safe_encode_string: "confined_by in_buffer (pb_encode_string bs)"
  by (simp add: pb_encode_string_def safe_encoders)

section \<open>Messages that are too short, buffers that are too small\<close>

lemma read_end: "bytes_left s = 0 \<Longrightarrow> pb_readbyte s = pb_read_error ''end-of-stream'' s"
  by (simp add: pb_readbyte_def)

lemma varint_loop_truncated:
  "istate s = xs @ rest \<Longrightarrow> bytes_left s = length xs \<Longrightarrow> p \<le> 63 \<Longrightarrow> \<forall>n\<ge>64 - p. \<not> bit w n \<Longrightarrow>
    xs @ y # ys = varint_bytes w \<Longrightarrow> \<exists>t. varint_loop p r s = pb_read_error ''end-of-stream'' t \<and> ierrmsg t = ierrmsg s"
proof (induction xs arbitrary: p r s w)
  case Nil
  then show ?case
    by (intro exI [of _ s]) (subst varint_loop.simps, simp add: pb_bind_def read_end pb_read_error_def)
next
  case (Cons x xs)
  have more: "drop_bit 7 w \<noteq> 0" using Cons.prems(5) by (auto simp: varint_end dest: arg_cong [of _ _ length])
  note eq = Cons.prems(5) [unfolded varint_step [OF more]]
  obtain n where n: "7 \<le> n" "bit w n" using more by (auto simp: drop_bit_0_iff)
  then have "n < 64 - p" using Cons.prems(4) by (meson not_le)
  then have p: "p \<le> 56" using n(1) by simp
  have x: "x = ucast (w AND 0x7F) OR 0x80" and rest: "xs @ y # ys = varint_bytes (drop_bit 7 w)" using eq by simp_all
  let ?t = "s\<lparr>istate := xs @ rest, bytes_left := length xs\<rparr>"
  have byte: "pb_readbyte s = (Done x, ?t)"
    using readsD [OF reads_byte, of s x "xs @ rest"] Cons.prems(1,2) by simp
  have cont: "(x AND 0x80 \<noteq> 0) = True" by (simp only: x and_80 bit_or_80 simp_thms)
  have "\<exists>t. varint_loop (p + 7) r' ?t = pb_read_error ''end-of-stream'' t \<and> ierrmsg t = ierrmsg ?t" for r'
    using Cons.prems(4) p rest by (intro Cons.IH [of ?t "p + 7" "drop_bit 7 w"]) (simp_all add: bit_drop_bit_eq)
  then show ?case
    using p by (subst varint_loop.simps) (simp add: pb_bind_def byte Let_def cont [simplified])
qed

lemma error_is: "pb_read_error msg t = (Failed, t\<lparr>ierrmsg := (case ierrmsg t of None \<Rightarrow> Some msg | Some e \<Rightarrow> Some e)\<rparr>)"
  by (simp add: pb_read_error_def)

lemma write_full:
  assumes "callback s = BUF_WRITE" and "length bs < 2 ^ 32" and "unat (max_size s) < unat (bytes_written s) + length bs"
    and "unat (bytes_written s) \<le> unat (max_size s)"
  shows "pb_write bs s = pb_write_error ''stream full'' s"
proof -
  let ?c = "of_nat (length bs) :: u32"
  have n: "unat ?c = length bs" using assms(2) by (simp add: unat_of_nat_u32)
  have "0 < length bs" using assms(3,4) by linarith
  then have pos: "0 < ?c" unfolding word_less_nat_alt n by simp
  have "bytes_written s + ?c < bytes_written s \<or> max_size s < bytes_written s + ?c"
  proof (cases "bytes_written s + ?c < bytes_written s")
    case False
    then have "unat (bytes_written s + ?c) = unat (bytes_written s) + unat ?c"
      by (meson no_olen_add_nat not_le unat_plus_simple word_le_nat_alt)
    then show ?thesis using n assms(3) by (simp add: word_less_nat_alt)
  qed simp
  then show ?thesis using pos assms(1) by (simp add: pb_write_def pb_write_count_def)
qed

section \<open>Properties\<close>

text \<open>C8. No decoder leaves the message: whatever its bytes are, decoding a number, a tag or a boolean, skipping a field of
any wire type and opening, entering and closing a substream read no byte behind the message, and leave a stream inside
it.\<close>

theorem decoders_stay_in_message:
  "confined_by in_message pb_decode_varint \<and> confined_by in_message pb_decode_varint32 \<and>
   confined_by in_message pb_decode_svarint \<and> confined_by in_message pb_decode_bool \<and>
   confined_by in_message pb_decode_fixed32 \<and> confined_by in_message pb_decode_fixed64 \<and>
   confined_by in_message (\<lambda>s. fst (pb_decode_tag s)) \<and> confined_by in_message (pb_skip_field wt) \<and>
   confined_by in_message pb_make_string_substream \<and>
   confined_by in_message (pb_bind pb_make_string_substream (\<lambda>sub _. (Done (), sub))) \<and>
   confined_by in_message (pb_bind pb_make_string_substream pb_close_string_substream)"
proof (intro conjI)
  have "read_tag = (\<lambda>s. fst (pb_decode_tag s))" by (rule ext) (rule read_tag_def)
  then show "confined_by in_message (\<lambda>s. fst (pb_decode_tag s))" using safe_tag by simp
qed (simp_all add: pb_decode_svarint_def pb_decode_bool_def pb_decode_fixed32_def pb_decode_fixed64_def pb_confined pb_safe safe_enter safe_open_close)

text \<open>C12. No encoder writes outside its buffer: an encoder never faults, changes the buffer only between the write
pointer and the limit, and advances the pointer by exactly the bytes it counts.\<close>

theorem encoders_stay_in_buffer:
  "confined_by in_buffer (pb_encode_varint v) \<and> confined_by in_buffer (pb_encode_svarint v) \<and>
   confined_by in_buffer (pb_encode_fixed32 w) \<and> confined_by in_buffer (pb_encode_fixed64 v) \<and>
   confined_by in_buffer (pb_encode_tag wt n) \<and> confined_by in_buffer (pb_encode_string bs)"
  by (simp add: pb_encode_svarint_def pb_encode_fixed32_def pb_encode_fixed64_def pb_encode_tag_def safe_encoders safe_encode_string)

text \<open>C36. A message that ends inside a number is an error: the decoder of any proper part of the bytes of a number, the
empty one included, fails with the message \<open>end-of-stream\<close>, whatever lies behind the message.\<close>

theorem truncated_number_fails:
  assumes "xs @ y # ys = varint_bytes v"
  shows "\<exists>t. pb_decode_varint (pb_istream_from_buffer (xs @ rest) (length xs)) = (Failed, t) \<and> ierrmsg t = Some ''end-of-stream''"
proof -
  have "\<forall>n\<ge>64 - 0. \<not> bit v n" using bit_imp_le_length [of v] by fastforce
  then obtain t where "pb_decode_varint (pb_istream_from_buffer (xs @ rest) (length xs)) = pb_read_error ''end-of-stream'' t"
    and "ierrmsg t = None"
    using varint_loop_truncated [OF _ _ _ _ assms, of "pb_istream_from_buffer (xs @ rest) (length xs)" rest 0 0]
    by (auto simp: pb_istream_from_buffer_def pb_decode_varint_def)
  then show ?thesis by (auto simp: error_is)
qed

lemma truncated_number_fails_witness:
  "\<exists>t. pb_decode_varint (pb_istream_from_buffer ([0xAC] @ [0x02]) (length [0xAC :: u8])) = (Failed, t) \<and> ierrmsg t = Some ''end-of-stream''"
proof (rule truncated_number_fails)
  show "[0xAC] @ 0x02 # [] = varint_bytes 300" by (simp add: varint_bytes.simps)
qed



end
