(* ===== verification/PbFind.thy ===== *)
theory PbFind
  imports PbIter
begin

text \<open>
  The iterator of \<open>PbIter\<close> on well-formed descriptors: it stands on the fields one after the other, and its search,
  which starts from any field, skips by the low bits of the tags and goes round the end of the descriptor, is the linear
  search through all fields.
\<close>

section \<open>Positions\<close>

text \<open>Where field \<open>i\<close> begins in \<open>field_info\<close>, and how many required fields and submessages are before it.\<close>

primrec start_of :: "pb_msgdesc \<Rightarrow> nat \<Rightarrow> nat \<times> nat \<times> nat" where
  "start_of d 0 = (0, 0, 0)"
| "start_of d (Suc i) =
     (case start_of d i of (f, r, s) \<Rightarrow>
        let w = field_info d ! f in
        (f + 2 ^ unat (w AND 3), r + of_bool (PB_HTYPE (field_type w) = PB_HTYPE_REQUIRED),
         s + of_bool (PB_LTYPE_IS_SUBMSG (field_type w))))"

definition word0_at :: "pb_msgdesc \<Rightarrow> nat \<Rightarrow> u32" where
  "word0_at d i = field_info d ! fst (start_of d i)"

definition words_at :: "pb_msgdesc \<Rightarrow> nat \<Rightarrow> (u16 \<times> u16 \<times> u8 \<times> u32 \<times> u16) option" where
  "words_at d i = field_words (field_info d) (fst (start_of d i)) (word0_at d i)"

definition tag_at :: "pb_msgdesc \<Rightarrow> nat \<Rightarrow> u16" where
  "tag_at d i = (case words_at d i of Some (_, t, _) \<Rightarrow> t | None \<Rightarrow> 0)"

abbreviation n_fields :: "pb_msgdesc \<Rightarrow> nat" where
  "n_fields d \<equiv> unat (field_count d)"

definition wf_desc :: "pb_msgdesc \<Rightarrow> bool" where
  "wf_desc d \<longleftrightarrow> 0 < n_fields d \<and> n_fields d < 65535 \<and> length (field_info d) < 65536 \<and>
     (\<forall>i<n_fields d. fst (start_of d i) < length (field_info d) \<and> words_at d i \<noteq> None \<and>
        (PB_LTYPE_IS_SUBMSG (field_type (word0_at d i)) \<longrightarrow> snd (snd (start_of d i)) < length (submsg_info d)) \<and>
        tag_at d i \<le> largest_tag d) \<and>
     (\<forall>i<n_fields d. \<forall>j<i. tag_at d j < tag_at d i)"

definition placed :: "pb_msgdesc \<Rightarrow> nat \<Rightarrow> nat \<Rightarrow> pb_field_iter \<Rightarrow> bool" where
  "placed d b i it \<longleftrightarrow> i < n_fields d \<and> descriptor it = d \<and> msg_base it = b \<and> index it = of_nat i \<and>
     (case start_of d i of (f, r, s) \<Rightarrow>
        field_info_index it = of_nat f \<and> required_field_index it = of_nat r \<and> submessage_index it = of_nat s) \<and>
     (b = 0 \<longrightarrow> pData it = 0)"

definition blank :: "pb_msgdesc \<Rightarrow> nat \<Rightarrow> nat \<Rightarrow> pb_field_iter" where
  "blank d b i =
     (case start_of d i of (f, r, s) \<Rightarrow>
       \<lparr>descriptor = d, msg_base = b, index = of_nat i, field_info_index = of_nat f, required_field_index = of_nat r,
        submessage_index = of_nat s, tag = 0, data_size = 0, array_size = 0, ptype = 0, pField = 0, pData = 0,
        pSize = NULL_SIZE, submsg_desc = None\<rparr>)"

text \<open>The iterator that stands on field \<open>i\<close>.\<close>

definition on_field :: "memory \<Rightarrow> pb_msgdesc \<Rightarrow> nat \<Rightarrow> nat \<Rightarrow> pb_field_iter" where
  "on_field m d b i = snd (the (load_descriptor_values m (blank d b i)))"

text \<open>The pointers stored in the message are inside the memory.\<close>

definition readable :: "memory \<Rightarrow> pb_msgdesc \<Rightarrow> nat \<Rightarrow> bool" where
  "readable m d b \<longleftrightarrow> (\<forall>i<n_fields d. load_descriptor_values m (blank d b i) \<noteq> None)"

lemma unat_u16_less [simp]: "unat (x :: u16) < 65536"
  using unsigned_less [of x] by simp

lemma unat_of_nat_u16: "n < 65536 \<Longrightarrow> unat (of_nat n :: u16) = n"
  by (simp add: unat_of_nat take_bit_nat_eq_self)

lemma of_nat_u16_eq: "i < 65536 \<Longrightarrow> j < 65536 \<Longrightarrow> (of_nat i :: u16) = of_nat j \<longleftrightarrow> i = j"
  by (metis unat_of_nat_u16)

lemma start_le: "start_of d i = (f, r, s) \<Longrightarrow> r \<le> i \<and> s \<le> i"
  by (induction i arbitrary: f r s) (force simp: Let_def split: prod.splits)+

lemma placed_blank: "i < n_fields d \<Longrightarrow> placed d b i (blank d b i)"
  by (simp add: placed_def blank_def split: prod.splits)

lemma wf_desc_field:
  assumes "wf_desc d" and "i < n_fields d"
  obtains f r s where "start_of d i = (f, r, s)" and "f < length (field_info d)" and "f < 65536" and "r < 65536" and "s < 65536"
    and "PB_LTYPE_IS_SUBMSG (field_type (word0_at d i)) \<Longrightarrow> s < length (submsg_info d)" and "words_at d i \<noteq> None"
proof -
  obtain f r s where e: "start_of d i = (f, r, s)" by (cases "start_of d i")
  moreover have "r \<le> i \<and> s \<le> i" by (rule start_le [OF e])
  moreover have "i < 65535" using assms by (simp add: wf_desc_def)
  moreover have "f < length (field_info d)" "length (field_info d) < 65536"
    using assms e by (auto simp: wf_desc_def)
  ultimately show ?thesis
    using assms by (intro that [of f r s]) (auto simp: wf_desc_def)
qed

section \<open>One step\<close>

lemma in_range: "i < n_fields d \<Longrightarrow> \<not> field_count d \<le> (of_nat i :: u16)"
proof -
  assume i: "i < n_fields d"
  then have "i < 65536" using unat_u16_less [of "field_count d"] by linarith
  then show ?thesis using i by (simp add: word_le_nat_alt unat_of_nat_u16)
qed

text \<open>Loading depends on the position only.\<close>

lemma load_placed:
  assumes "placed d b i it"
  shows "load_descriptor_values m it = load_descriptor_values m (blank d b i)"
proof -
  obtain f r s where e: "start_of d i = (f, r, s)" by (cases "start_of d i")
  have n: "\<not> field_count d \<le> (of_nat i :: u16)" using assms by (simp add: placed_def in_range)
  have p: "descriptor it = d" "msg_base it = b" "index it = of_nat i" "field_info_index it = of_nat f"
    "required_field_index it = of_nat r" "submessage_index it = of_nat s" "b = 0 \<longrightarrow> pData it = 0"
    using assms e by (auto simp: placed_def)
  show ?thesis
  proof (cases "elem_at (field_info d) (unat (of_nat f :: u16))")
    case None
    then show ?thesis using e n p by (simp add: load_descriptor_values_def blank_def)
  next
    case (Some w0)
    then show ?thesis
      using e n p
      by (cases it; cases "field_words (field_info d) (unat (of_nat f :: u16)) w0")
        (auto simp: load_descriptor_values_def blank_def field_pointers_def field_submsg_def Let_def map_option_bind bind_map_option o_def split: bind_splits)
  qed
qed

text \<open>What the iterator has after loading.\<close>

lemma field_pointers_keeps: "field_pointers m so off it = Some it' \<Longrightarrow>
    descriptor it' = descriptor it \<and> msg_base it' = msg_base it \<and> index it' = index it \<and>
    field_info_index it' = field_info_index it \<and> required_field_index it' = required_field_index it \<and>
    submessage_index it' = submessage_index it \<and> tag it' = tag it \<and> ptype it' = ptype it \<and>
    (msg_base it = 0 \<longrightarrow> pData it' = pData it)"
  by (auto simp: field_pointers_def Let_def split: if_splits)

lemma field_submsg_keeps: "field_submsg it = Some it' \<Longrightarrow>
    descriptor it' = descriptor it \<and> msg_base it' = msg_base it \<and> index it' = index it \<and>
    field_info_index it' = field_info_index it \<and> required_field_index it' = required_field_index it \<and>
    submessage_index it' = submessage_index it \<and> tag it' = tag it \<and> ptype it' = ptype it \<and> pData it' = pData it"
  by (auto simp: field_submsg_def split: if_splits)

lemma load_blank_eq:
  assumes "wf_desc d" and i: "i < n_fields d" and w: "words_at d i = Some (a, t, so, off, sz)"
  shows "load_descriptor_values m (blank d b i) =
    field_pointers m so off ((blank d b i)\<lparr>ptype := field_type (word0_at d i), array_size := a, tag := t, data_size := sz\<rparr>)
      \<bind> (\<lambda>it. field_submsg it \<bind> (\<lambda>it. Some (True, it)))"
proof -
  obtain f r s where e: "start_of d i = (f, r, s)" and f: "f < length (field_info d)" "f < 65536"
    using wf_desc_field [OF assms(1) i] by metis
  have "descriptor (blank d b i) = d" "index (blank d b i) = of_nat i" "field_info_index (blank d b i) = of_nat f"
    by (simp_all add: blank_def e)
  then show ?thesis
    using f w e in_range [OF i] by (simp add: load_descriptor_values_def elem_at_def unat_of_nat_u16 words_at_def word0_at_def)
qed

text \<open>A message is readable if its pointers are inside the memory.\<close>

lemma readableI:
  assumes "wf_desc d" and "\<And>i a t so off sz. i < n_fields d \<Longrightarrow> words_at d i = Some (a, t, so, off, sz) \<Longrightarrow>
      PB_ATYPE (field_type (word0_at d i)) = PB_ATYPE_POINTER \<Longrightarrow> b + unat off + 4 \<le> length m"
  shows "readable m d b"
  unfolding readable_def
proof (intro allI impI)
  fix i
  assume i: "i < n_fields d"
  have "words_at d i \<noteq> None" using assms(1) i by (auto simp: wf_desc_def)
  then obtain a t so off sz where w: "words_at d i = Some (a, t, so, off, sz)" by (metis option.exhaust prod_cases5)
  let ?it = "(blank d b i)\<lparr>ptype := field_type (word0_at d i), array_size := a, tag := t, data_size := sz\<rparr>"
  obtain f r s where e: "start_of d i = (f, r, s)" and s: "s < 65536" "PB_LTYPE_IS_SUBMSG (field_type (word0_at d i)) \<Longrightarrow> s < length (submsg_info d)"
    using wf_desc_field [OF assms(1) i] by metis
  have it: "msg_base ?it = b" "descriptor ?it = d" "submessage_index ?it = of_nat s" "ptype ?it = field_type (word0_at d i)"
    by (simp_all add: blank_def e)
  have "field_pointers m so off ?it \<noteq> None"
    using assms(2) [OF i w] it(1,4) by (auto simp: field_pointers_def load_pointer_def load_word_def load_bytes_def Let_def)
  then obtain it' where it': "field_pointers m so off ?it = Some it'" by blast
  have "field_submsg it' \<noteq> None"
    using field_pointers_keeps [OF it'] it s by (simp add: field_submsg_def elem_at_def unat_of_nat_u16)
  then show "load_descriptor_values m (blank d b i) \<noteq> None"
    unfolding load_blank_eq [OF assms(1) i w] it' by auto
qed

lemma load_blank:
  assumes "wf_desc d" and "readable m d b" and i: "i < n_fields d"
  shows "load_descriptor_values m (blank d b i) = Some (True, on_field m d b i)"
    and "placed d b i (on_field m d b i)"
    and "tag (on_field m d b i) = tag_at d i"
    and "ptype (on_field m d b i) = field_type (word0_at d i)"
proof -
  obtain f r s where e: "start_of d i = (f, r, s)" by (cases "start_of d i")
  obtain q where q: "load_descriptor_values m (blank d b i) = Some q"
    using assms(2) i by (auto simp: readable_def)
  have "words_at d i \<noteq> None" using assms(1) i by (auto simp: wf_desc_def)
  then obtain a t so off sz where w: "words_at d i = Some (a, t, so, off, sz)" by (metis option.exhaust prod_cases5)
  have t: "tag_at d i = t" by (simp add: tag_at_def w)
  let ?it = "(blank d b i)\<lparr>ptype := field_type (word0_at d i), array_size := a, tag := t, data_size := sz\<rparr>"
  note load_blank_eq [OF assms(1) i w, of m b]
  then have "field_pointers m so off ?it \<bind> (\<lambda>it. field_submsg it \<bind> (\<lambda>it. Some (True, it))) = Some q" using q by simp
  then obtain it1 it2 where 1: "field_pointers m so off ?it = Some it1" and 2: "field_submsg it1 = Some it2" and q2: "q = (True, it2)"
    by (auto simp: bind_eq_Some_conv)
  then have on: "on_field m d b i = it2" using q by (simp add: on_field_def)
  show "load_descriptor_values m (blank d b i) = Some (True, on_field m d b i)" using q q2 on by simp
  show "placed d b i (on_field m d b i)"
    using field_pointers_keeps [OF 1] field_submsg_keeps [OF 2] e i on by (simp add: placed_def blank_def)
  show "tag (on_field m d b i) = tag_at d i" "ptype (on_field m d b i) = field_type (word0_at d i)"
    using field_pointers_keeps [OF 1] field_submsg_keeps [OF 2] on t by simp_all
qed

lemma load_on_field:
  assumes "wf_desc d" and "readable m d b" and "placed d b i it"
  shows "load_descriptor_values m it = Some (True, on_field m d b i)"
  using load_placed [OF assms(3)] load_blank(1) [OF assms(1,2)] assms(3) by (simp add: placed_def)

text \<open>Advancing goes to the next field, and from the last field and from behind it to the first.\<close>

lemma advance_last:
  assumes "descriptor it = d" and "wf_desc d" and "index it = of_nat i" and "Suc i = n_fields d \<or> i = n_fields d"
    and "msg_base it = b" and "b = 0 \<longrightarrow> pData it = 0"
  shows "\<exists>it'. advance_iterator it = Some it' \<and> placed d b 0 it'"
proof -
  have n: "n_fields d < 65535" using assms(2) by (simp add: wf_desc_def)
  have "unat (of_nat i + 1 :: u16) = Suc i"
    using n assms(4) unat_of_nat_u16 [of "Suc i"] by (auto simp: add.commute)
  then have "field_count d \<le> index it + 1" using assms(3,4) by (auto simp: word_le_nat_alt)
  then show ?thesis
    using assms by (auto simp: advance_iterator_def placed_def wf_desc_def)
qed

lemma advance_inside:
  assumes "wf_desc d" and "placed d b i it" and "Suc i < n_fields d"
  shows "\<exists>it'. advance_iterator it = Some it' \<and> placed d b (Suc i) it'"
proof -
  have i: "i < n_fields d" using assms(3) by simp
  obtain f r s where e: "start_of d i = (f, r, s)" and f: "f < length (field_info d)" "f < 65536" and rs: "r < 65536" "s < 65536"
    using wf_desc_field [OF assms(1) i] by metis
  have p: "descriptor it = d" "msg_base it = b" "index it = of_nat i" "field_info_index it = of_nat f"
    "required_field_index it = of_nat r" "submessage_index it = of_nat s" "b = 0 \<longrightarrow> pData it = 0"
    using assms(2) e by (auto simp: placed_def)
  have inr: "\<not> field_count d \<le> (of_nat i + 1 :: u16)" using in_range [OF assms(3)] by (simp add: add.commute)
  have len: "(push_bit n 1 :: u16) = of_nat (2 ^ n)" for n by (simp add: push_bit_eq_mult)
  show ?thesis
    using p e f assms(3) inr
    by (simp add: advance_iterator_def elem_at_def unat_of_nat_u16 placed_def Let_def len add.commute)
qed

lemma advance_placed:
  assumes "wf_desc d" and "placed d b i it"
  shows "\<exists>it'. advance_iterator it = Some it' \<and> placed d b (Suc i mod n_fields d) it'"
proof (cases "Suc i = n_fields d")
  case True
  then show ?thesis using advance_last [of it d i b] assms by (auto simp: placed_def)
next
  case False
  then have "Suc i < n_fields d" using assms(2) by (simp add: placed_def)
  then show ?thesis using advance_inside [OF assms] by simp
qed

section \<open>The search\<close>

text \<open>The fast check passes for the field that is looked for: the low bits of its tag are in its first word.\<close>

lemma fast_check:
  assumes "words_at d i \<noteq> None"
  shows "drop_bit 2 (word0_at d i) AND 0x3F = (ucast (tag_at d i) :: u32) AND 0x3F"
proof -
  have m: "w AND 0x3F = take_bit 6 w" for w :: u32 by (simp add: take_bit_eq_mask mask_numeral)
  have *: "take_bit 6 (ucast (ucast w :: u16) :: u32) = take_bit 6 w" for w :: u32
    by (rule bit_word_eqI) (auto simp: bit_simps)
  have **: "take_bit 6 x OR take_bit 6 (push_bit 6 y) = take_bit 6 (x :: u32)" for x y
    by (rule bit_word_eqI) (auto simp: bit_simps)
  show ?thesis
    using assms unfolding words_at_def tag_at_def
    by (auto simp: field_words_def m * ** bind_eq_Some_conv split: if_splits)
qed

definition is_field :: "pb_msgdesc \<Rightarrow> u32 \<Rightarrow> nat \<Rightarrow> bool" where
  "is_field d tg i \<longleftrightarrow> ucast (tag_at d i) = tg \<and> PB_LTYPE (field_type (word0_at d i)) \<noteq> PB_LTYPE_EXTENSION"

definition find_result :: "memory \<Rightarrow> pb_msgdesc \<Rightarrow> nat \<Rightarrow> nat \<Rightarrow> nat option \<Rightarrow> bool \<times> pb_field_iter" where
  "find_result m d b start r = (case r of Some j \<Rightarrow> (True, on_field m d b j) | None \<Rightarrow> (False, on_field m d b start))"

lemma placed_word:
  assumes "wf_desc d" and "placed d b j it"
  shows "elem_at (field_info (descriptor it)) (unat (field_info_index it)) = Some (word0_at d j)"
proof -
  have j: "j < n_fields d" and d: "descriptor it = d" using assms(2) by (simp_all add: placed_def)
  obtain f r s where e: "start_of d j = (f, r, s)" and f: "f < length (field_info d)" "f < 65536"
    using wf_desc_field [OF assms(1) j] by metis
  have "field_info_index it = of_nat f" using assms(2) e by (simp add: placed_def)
  then show ?thesis using f d by (simp add: elem_at_def unat_of_nat_u16 word0_at_def e)
qed

lemma find_body:
  assumes "wf_desc d" and "readable m d b" and "advance_iterator it = Some it'" and "placed d b j it'"
  obtains x where "placed d b j x" and "find_loop m tg start it =
    (if is_field d tg j then Some (True, on_field m d b j)
     else if of_nat j \<noteq> start then find_loop m tg start x
     else Some (False, on_field m d b j))"
proof -
  have j: "j < n_fields d" and d: "descriptor it' = d" using assms(4) by (simp_all add: placed_def)
  note w0 = placed_word [OF assms(1,4)]
  note load = load_on_field [OF assms(1,2)]
  note on = load_blank(2-4) [OF assms(1,2) j]
  have words: "words_at d j \<noteq> None" using assms(1) j by (auto simp: wf_desc_def)
  have idx: "placed d b j x \<Longrightarrow> index x = of_nat j" for x by (simp add: placed_def)
  show ?thesis
  proof (cases "drop_bit 2 (word0_at d j) AND 0x3F = tg AND 0x3F")
    case True
    then have "find_loop m tg start it =
      (if is_field d tg j then Some (True, on_field m d b j)
       else if of_nat j \<noteq> start then find_loop m tg start (on_field m d b j)
       else Some (False, on_field m d b j))"
      by (subst find_loop.simps)
        (simp add: assms(3) w0 load [OF assms(4)] load [OF on(1)] on(2,3) idx [OF on(1)] is_field_def)
    then show ?thesis using on(1) that by blast
  next
    case False
    then have "ucast (tag_at d j) \<noteq> tg" using fast_check [OF words] by auto
    then have "find_loop m tg start it =
      (if is_field d tg j then Some (True, on_field m d b j)
       else if of_nat j \<noteq> start then find_loop m tg start it'
       else Some (False, on_field m d b j))"
      using False by (subst find_loop.simps)
        (simp add: assms(3) w0 load [OF assms(4)] idx [OF assms(4)] is_field_def)
    then show ?thesis using assms(4) that by blast
  qed
qed

lemma find_loop_round:
  assumes "wf_desc d" and "readable m d b" and "start < n_fields d"
  shows "advance_iterator it = Some it' \<Longrightarrow> placed d b j it' \<Longrightarrow> k < n_fields d \<Longrightarrow> (j + k) mod n_fields d = start \<Longrightarrow>
    find_loop m tg (of_nat start) it =
      Some (find_result m d b start (List.find (is_field d tg) (map (\<lambda>l. (j + l) mod n_fields d) [0..<Suc k])))"
proof (induction k arbitrary: j it it')
  case 0
  then have j: "j = start" by (simp add: placed_def)
  obtain x where "find_loop m tg (of_nat start) it =
    (if is_field d tg j then Some (True, on_field m d b j)
     else if of_nat j \<noteq> (of_nat start :: u16) then find_loop m tg (of_nat start) x
     else Some (False, on_field m d b j))"
    using find_body [OF assms(1,2) 0(1,2)] by metis
  then show ?case using j assms(3) by (simp add: find_result_def)
next
  case (Suc k)
  let ?n = "n_fields d"
  have j: "j < ?n" and n: "?n < 65535" using Suc.prems(2) assms(1) by (simp_all add: placed_def wf_desc_def)
  obtain x where x: "placed d b j x" and body: "find_loop m tg (of_nat start) it =
    (if is_field d tg j then Some (True, on_field m d b j)
     else if of_nat j \<noteq> (of_nat start :: u16) then find_loop m tg (of_nat start) x
     else Some (False, on_field m d b j))"
    using find_body [OF assms(1,2) Suc.prems(1,2)] by metis
  have split: "map (\<lambda>l. (j + l) mod ?n) [0..<Suc (Suc k)] = j # map (\<lambda>l. (Suc j mod ?n + l) mod ?n) [0..<Suc k]"
  proof -
    have "[0..<Suc (Suc k)] = 0 # map Suc [0..<Suc k]" by (subst upt_conv_Cons) (simp_all add: map_Suc_upt del: upt_Suc)
    then show ?thesis using j by (simp del: upt_Suc add: mod_simps)
  qed
  show ?case
  proof (cases "is_field d tg j")
    case True
    then show ?thesis unfolding split body by (simp add: find_result_def)
  next
    case False
    have "start \<noteq> j"
    proof
      assume "start = j"
      then have same: "(j + Suc k) mod ?n = j" using Suc.prems(4) by simp
      show False
      proof (cases "j + Suc k < ?n")
        case True
        then show ?thesis using same by simp
      next
        case False
        then have "(j + Suc k) mod ?n = j + Suc k - ?n" using j Suc.prems(3) by (simp add: le_mod_geq)
        then show ?thesis using same Suc.prems(3) False by linarith
      qed
    qed
    then have ne: "of_nat j \<noteq> (of_nat start :: u16)" using j n assms(3) by (subst of_nat_u16_eq) auto
    obtain x' where x': "advance_iterator x = Some x'" "placed d b (Suc j mod ?n) x'"
      using advance_placed [OF assms(1) x] by blast
    have "find_loop m tg (of_nat start) x =
      Some (find_result m d b start (List.find (is_field d tg) (map (\<lambda>l. (Suc j mod ?n + l) mod ?n) [0..<Suc k])))"
      using Suc.prems(3,4) by (intro Suc.IH [OF x']) (simp_all add: mod_simps)
    then show ?thesis unfolding split body using False ne by simp
  qed
qed

text \<open>The search that the loop performs is the linear one, because the tags ascend.\<close>

lemma find_the:
  assumes "i \<in> set xs" and "P i" and "\<forall>j\<in>set xs. P j \<longrightarrow> j = i"
  shows "List.find P xs = Some i"
proof (cases "List.find P xs")
  case None
  then show ?thesis using assms(1,2) by (simp add: find_None_iff)
next
  case (Some j)
  then have "j \<in> set xs \<and> P j" by (auto simp: find_Some_iff)
  then show ?thesis using assms(3) Some by blast
qed

lemma find_in:
  assumes "\<And>i j. i \<in> set ys \<Longrightarrow> j \<in> set ys \<Longrightarrow> P i \<Longrightarrow> P j \<Longrightarrow> i = j" and "\<And>i. P i \<Longrightarrow> i \<in> set ys \<Longrightarrow> i \<in> set xs"
    and "set xs \<subseteq> set ys"
  shows "List.find P xs = List.find P ys"
proof (cases "\<exists>i\<in>set ys. P i")
  case True
  then obtain i where i: "i \<in> set ys" "P i" by blast
  then have "List.find P ys = Some i" using assms(1) by (intro find_the) auto
  moreover have "List.find P xs = Some i" using i assms by (intro find_the) auto
  ultimately show ?thesis by simp
next
  case False
  then have "List.find P ys = None" by (auto simp: find_None_iff)
  moreover have "List.find P xs = None" using False assms(3) by (auto simp: find_None_iff)
  ultimately show ?thesis by simp
qed

lemma tag_unique: "wf_desc d \<Longrightarrow> i < n_fields d \<Longrightarrow> j < n_fields d \<Longrightarrow> tag_at d i = tag_at d j \<Longrightarrow> i = j"
  unfolding wf_desc_def by (metis less_irrefl linorder_neqE_nat)

lemma ucast_tag_eq: "(ucast x :: u32) = ucast y \<Longrightarrow> x = (y :: u16)"
proof -
  assume "(ucast x :: u32) = ucast y"
  then have "(ucast (ucast x :: u32) :: u16) = ucast (ucast y :: u32)" by simp
  moreover have "(ucast (ucast w :: u32) :: u16) = w" for w :: u16 by (rule bit_word_eqI) (simp add: bit_simps)
  ultimately show ?thesis by simp
qed

lemma ucast_tag_le: "x \<le> y \<Longrightarrow> (ucast (x :: u16) :: u32) \<le> ucast y"
proof -
  have "unat w < 4294967296" for w :: u16 using unat_u16_less [of w] by linarith
  then have "unat (ucast w :: u32) = unat w" for w :: u16
    by (simp add: unsigned_ucast_eq take_bit_nat_eq_self)
  then show "x \<le> y \<Longrightarrow> (ucast x :: u32) \<le> ucast y" by (simp add: word_le_nat_alt)
qed

lemma is_field_unique: "wf_desc d \<Longrightarrow> i < n_fields d \<Longrightarrow> j < n_fields d \<Longrightarrow> is_field d tg i \<Longrightarrow> is_field d tg j \<Longrightarrow> i = j"
  by (rule tag_unique) (auto simp: is_field_def dest: ucast_tag_eq)

lemma find_from:
  assumes "wf_desc d" and "readable m d b" and p: "placed d b i it" and tg: "tg \<le> ucast (largest_tag d)" "ucast (tag_at d i) \<noteq> tg"
  shows "find_loop m tg (of_nat i) (if tg < ucast (tag_at d i) then it\<lparr>index := field_count d\<rparr> else it)
    = Some (find_result m d b i (List.find (is_field d tg) [0..<n_fields d]))"
proof -
  have i: "i < n_fields d" using p by (simp add: placed_def)
  show ?thesis
proof (cases "tg < ucast (tag_at d i)")
  case True
  let ?it = "it\<lparr>index := field_count d\<rparr>"
  obtain it' where it': "advance_iterator ?it = Some it'" "placed d b 0 it'"
    using advance_last [of ?it d "n_fields d" b] assms(1) p by (auto simp: placed_def)
  have below: "j < i" if "is_field d tg j" "j < n_fields d" for j
  proof (rule ccontr)
    assume "\<not> j < i"
    then have "tag_at d i \<le> tag_at d j"
      using assms(1) that(2) i unfolding wf_desc_def by (metis le_less linorder_neqE_nat order_refl)
    then have "(ucast (tag_at d i) :: u32) \<le> ucast (tag_at d j)" by (rule ucast_tag_le)
    then show False using that(1) True by (auto simp: is_field_def)
  qed
  have "find_loop m tg (of_nat i) ?it
      = Some (find_result m d b i (List.find (is_field d tg) (map (\<lambda>l. (0 + l) mod n_fields d) [0..<Suc i])))"
    using i by (intro find_loop_round [OF assms(1,2) i it']) auto
  also have "map (\<lambda>l. (0 + l) mod n_fields d) [0..<Suc i] = [0..<Suc i]"
    using i by (intro map_idI) auto
  also have "List.find (is_field d tg) [0..<Suc i] = List.find (is_field d tg) [0..<n_fields d]"
    using i by (intro find_in) (auto dest: below is_field_unique [OF assms(1)])
  finally show ?thesis using True by simp
next
  case False
  let ?n = "n_fields d"
  obtain it' where it': "advance_iterator it = Some it'" "placed d b (Suc i mod ?n) it'"
    using advance_placed [OF assms(1) p] by blast
  have all: "j \<in> (\<lambda>l. (Suc i mod ?n + l) mod ?n) ` {0..<Suc (?n - 1)}" if "j < ?n" for j
  proof (cases "Suc i \<le> j")
    case True
    then show ?thesis using that by (intro image_eqI [of _ _ "j - Suc i"]) auto
  next
    case False
    then show ?thesis
    proof (cases "Suc i = ?n")
      case True
      then show ?thesis using that by (intro image_eqI [of _ _ j]) auto
    next
      case False
      then show ?thesis using that i \<open>\<not> Suc i \<le> j\<close> by (intro image_eqI [of _ _ "?n + j - Suc i"]) auto
    qed
  qed
  have "find_loop m tg (of_nat i) it
      = Some (find_result m d b i (List.find (is_field d tg) (map (\<lambda>l. (Suc i mod ?n + l) mod ?n) [0..<Suc (?n - 1)])))"
  proof (intro find_loop_round [OF assms(1,2) i it'])
    show "(Suc i mod ?n + (?n - 1)) mod ?n = i" using i by (cases "Suc i = ?n") auto
  qed (use i in simp)
  also have "List.find (is_field d tg) (map (\<lambda>l. (Suc i mod ?n + l) mod ?n) [0..<Suc (?n - 1)]) = List.find (is_field d tg) [0..<?n]"
    using i by (intro find_in) (use all in \<open>auto dest: is_field_unique [OF assms(1)]\<close>)
  finally show ?thesis using False by simp
qed
qed

text \<open>The search from an iterator of which the caller has changed the pointers.\<close>

lemma find_placed:
  assumes "wf_desc d" and "readable m d b" and p: "placed d b i it" and t: "tag it = tag_at d i"
  shows "pb_field_iter_find m tg it =
    Some (if ucast (tag_at d i) = tg then (True, it) else if ucast (largest_tag d) < tg then (False, it)
          else find_result m d b i (List.find (is_field d tg) [0..<n_fields d]))"
  using find_from [OF assms(1,2) p, of tg] p t by (auto simp: pb_field_iter_find_def placed_def)

lemma find_extension_round:
  assumes "wf_desc d" and "readable m d b" and "start < n_fields d"
    and none: "\<And>j. j < n_fields d \<Longrightarrow> PB_LTYPE (field_type (word0_at d j)) \<noteq> PB_LTYPE_EXTENSION"
  shows "advance_iterator it = Some it' \<Longrightarrow> placed d b j it' \<Longrightarrow> k < n_fields d \<Longrightarrow> (j + k) mod n_fields d = start \<Longrightarrow>
    find_extension_loop m (of_nat start) it = Some (False, on_field m d b start)"
proof (induction k arbitrary: j it it')
  case 0
  have j: "j < n_fields d" "descriptor it' = d" using 0(2) by (simp_all add: placed_def)
  have w0: "elem_at (field_info (descriptor it')) (unat (field_info_index it')) = Some (word0_at d j)"
    by (rule placed_word [OF assms(1) 0(2)])
  have "index it' = of_nat start" "j = start" using 0(2,4) j by (auto simp: placed_def)
  then show ?case
    using none [OF j(1)] load_on_field [OF assms(1,2) 0(2)] by (subst find_extension_loop.simps) (simp add: 0(1) w0)
next
  case (Suc k)
  have j: "j < n_fields d" using Suc.prems(2) by (simp add: placed_def)
  have w0: "elem_at (field_info (descriptor it')) (unat (field_info_index it')) = Some (word0_at d j)"
    by (rule placed_word [OF assms(1) Suc.prems(2)])
  obtain x where x: "advance_iterator it' = Some x" "placed d b (Suc j mod n_fields d) x"
    using advance_placed [OF assms(1) Suc.prems(2)] by blast
  have rest: "find_extension_loop m (of_nat start) it' = Some (False, on_field m d b start)"
    using Suc.prems by (intro Suc.IH [OF x]) (simp_all add: mod_simps)
  have idx: "index it' = of_nat j" using Suc.prems(2) by (simp add: placed_def)
  have "j < 65536" "start < 65536" using j assms(1,3) unfolding wf_desc_def by linarith+
  then have same: "of_nat j = (of_nat start :: u16) \<longleftrightarrow> j = start" by (rule of_nat_u16_eq)
  show ?case
    using none [OF j] load_on_field [OF assms(1,2) Suc.prems(2)] rest
    by (subst find_extension_loop.simps) (simp add: Suc.prems(1) w0 idx same)
qed

lemma find_no_extension:
  assumes "wf_desc d" and "readable m d b" and p: "placed d b i it" and "PB_LTYPE (ptype it) \<noteq> PB_LTYPE_EXTENSION"
    and "\<And>j. j < n_fields d \<Longrightarrow> PB_LTYPE (field_type (word0_at d j)) \<noteq> PB_LTYPE_EXTENSION"
  shows "pb_field_iter_find_extension m it = Some (False, on_field m d b i)"
proof -
  let ?n = "n_fields d"
  have i: "i < ?n" "index it = of_nat i" using p by (simp_all add: placed_def)
  obtain it' where it': "advance_iterator it = Some it'" "placed d b (Suc i mod ?n) it'"
    using advance_placed [OF assms(1) p] by blast
  have "(Suc i mod ?n + (?n - 1)) mod ?n = i" using i(1) by (cases "Suc i = ?n") auto
  then have "find_extension_loop m (of_nat i) it = Some (False, on_field m d b i)"
    using i(1) assms(5) by (intro find_extension_round [OF assms(1,2) i(1) _ it', of "?n - 1"]) simp_all
  then show ?thesis using assms(4) i(2) by (simp add: pb_field_iter_find_extension_def)
qed

lemma next_placed:
  assumes "wf_desc d" and "readable m d b" and "placed d b i it"
  shows "pb_field_iter_next m it = Some (Suc i < n_fields d, on_field m d b (Suc i mod n_fields d))"
proof -
  have i: "i < n_fields d" using assms(3) by (simp add: placed_def)
  obtain it' where it': "advance_iterator it = Some it'" "placed d b (Suc i mod n_fields d) it'"
    using advance_placed [OF assms(1,3)] by blast
  let ?j = "Suc i mod n_fields d"
  have j: "?j < n_fields d" using i by simp
  have "index (on_field m d b ?j) = of_nat ?j" using load_blank(2) [OF assms(1,2) j] by (simp add: placed_def)
  moreover have "n_fields d < 65535" using assms(1) by (simp add: wf_desc_def)
  then have "?j < 65536" using j by linarith
  then have "(of_nat ?j :: u16) = 0 \<longleftrightarrow> ?j = 0" using of_nat_u16_eq [of ?j 0] by simp
  moreover have "?j = 0 \<longleftrightarrow> \<not> Suc i < n_fields d" using i by (cases "Suc i = n_fields d") auto
  ultimately show ?thesis
    by (simp add: pb_field_iter_next_def it'(1) load_on_field [OF assms(1,2) it'(2)])
qed

lemma next_on_field:
  assumes "wf_desc d" and "readable m d b" and "i < n_fields d"
  shows "pb_field_iter_next m (on_field m d b i) = Some (Suc i < n_fields d, on_field m d b (Suc i mod n_fields d))"
  by (rule next_placed [OF assms(1,2) load_blank(2) [OF assms]])

section \<open>Properties\<close>


text \<open>C23. From any field, the search for a tag ends and gives what a linear search through all fields gives: the iterator
on the field with that tag, or the answer no and the iterator where it was.  A field that has the tag already is taken
as it is.\<close>

theorem find_is_linear_search:
  assumes "wf_desc d" and "readable m d b" and "i < n_fields d"
  shows "pb_field_iter_find m tg (on_field m d b i) =
    Some (if ucast (tag_at d i) = tg then (True, on_field m d b i)
          else find_result m d b i (List.find (is_field d tg) [0..<n_fields d]))"
proof -
  note on = load_blank [OF assms]
  have d: "descriptor (on_field m d b i) = d" "index (on_field m d b i) = of_nat i" using on(2) by (simp_all add: placed_def)
  show ?thesis
  proof (cases "ucast (largest_tag d) < tg")
    case True
    have "\<not> is_field d tg j" if "j < n_fields d" for j
    proof -
      have "tag_at d j \<le> largest_tag d" using assms(1) that by (simp add: wf_desc_def)
      then have "(ucast (tag_at d j) :: u32) \<le> ucast (largest_tag d)" by (rule ucast_tag_le)
      then show ?thesis using True by (auto simp: is_field_def)
    qed
    then have "List.find (is_field d tg) [0..<n_fields d] = None" by (simp add: find_None_iff)
    then show ?thesis using True d on(3) by (simp add: pb_field_iter_find_def find_result_def)
  next
    case False
    then show ?thesis using find_from [OF assms(1,2) on(2), of tg] d on(3) by (auto simp: pb_field_iter_find_def)
  qed
qed

end
