(* ===== verification/PbDesc.thy ===== *)
theory PbDesc
  imports PbFind
begin

text \<open>
  The macros of \<^verbatim>\<open>src/ql_application/App_XD/nanopb/pb.h\<close> that turn the field list of a message into its descriptor,
  and the descriptors of \<^verbatim>\<open>common_pb.h\<close>.  Every descriptor that passes the compile-time assertions and has ascending
  tags is well-formed, and the iterator reads back from it what the field list says.
\<close>

section \<open>Model: one field\<close>

datatype proto_type =
    PT_BOOL | PT_BYTES | PT_DOUBLE | PT_ENUM | PT_UENUM | PT_FIXED32 | PT_FIXED64 | PT_FLOAT | PT_INT32 | PT_INT64
  | PT_MESSAGE | PT_MSG_W_CB | PT_SFIXED32 | PT_SFIXED64 | PT_SINT32 | PT_SINT64 | PT_STRING | PT_UINT32 | PT_UINT64
  | PT_EXTENSION | PT_FIXED_LENGTH_BYTES

fun PB_LTYPE_MAP :: "proto_type \<Rightarrow> u8" where
  "PB_LTYPE_MAP PT_BOOL = PB_LTYPE_BOOL"
| "PB_LTYPE_MAP PT_BYTES = PB_LTYPE_BYTES"
| "PB_LTYPE_MAP PT_DOUBLE = PB_LTYPE_FIXED64"
| "PB_LTYPE_MAP PT_ENUM = PB_LTYPE_VARINT"
| "PB_LTYPE_MAP PT_UENUM = PB_LTYPE_UVARINT"
| "PB_LTYPE_MAP PT_FIXED32 = PB_LTYPE_FIXED32"
| "PB_LTYPE_MAP PT_FIXED64 = PB_LTYPE_FIXED64"
| "PB_LTYPE_MAP PT_FLOAT = PB_LTYPE_FIXED32"
| "PB_LTYPE_MAP PT_INT32 = PB_LTYPE_VARINT"
| "PB_LTYPE_MAP PT_INT64 = PB_LTYPE_VARINT"
| "PB_LTYPE_MAP PT_MESSAGE = PB_LTYPE_SUBMESSAGE"
| "PB_LTYPE_MAP PT_MSG_W_CB = PB_LTYPE_SUBMSG_W_CB"
| "PB_LTYPE_MAP PT_SFIXED32 = PB_LTYPE_FIXED32"
| "PB_LTYPE_MAP PT_SFIXED64 = PB_LTYPE_FIXED64"
| "PB_LTYPE_MAP PT_SINT32 = PB_LTYPE_SVARINT"
| "PB_LTYPE_MAP PT_SINT64 = PB_LTYPE_SVARINT"
| "PB_LTYPE_MAP PT_STRING = PB_LTYPE_STRING"
| "PB_LTYPE_MAP PT_UINT32 = PB_LTYPE_UVARINT"
| "PB_LTYPE_MAP PT_UINT64 = PB_LTYPE_UVARINT"
| "PB_LTYPE_MAP PT_EXTENSION = PB_LTYPE_EXTENSION"
| "PB_LTYPE_MAP PT_FIXED_LENGTH_BYTES = PB_LTYPE_FIXED_LENGTH_BYTES"

definition wide_type :: "proto_type \<Rightarrow> bool" where
  "wide_type t \<longleftrightarrow> t \<in> {PT_BYTES, PT_MESSAGE, PT_MSG_W_CB, PT_STRING, PT_FIXED_LENGTH_BYTES}"

text \<open>Widths in words.\<close>

definition PB_FIELDINFO_WIDTH_AUTO :: "u8 \<Rightarrow> u8 \<Rightarrow> proto_type \<Rightarrow> nat" where
  "PB_FIELDINFO_WIDTH_AUTO atype htype ltype =
     (if atype = PB_ATYPE_CALLBACK then 2
      else if htype = PB_HTYPE_REPEATED then 2
      else if wide_type ltype then 2 else 1)"

record field_spec =
  fs_width :: nat
  fs_tag :: u32
  fs_type :: u8
  fs_offset :: u32
  fs_size :: u32
  fs_size_offset :: u32
  fs_array :: u32
  fs_submsg :: "pb_msgdesc option"

definition first_word :: "u32 \<Rightarrow> field_spec \<Rightarrow> u32" where
  "first_word len f = (len OR (push_bit 2 (fs_tag f) AND 0xFF)) OR push_bit 8 (ucast (fs_type f))"

definition PB_FIELDINFO_1 :: "field_spec \<Rightarrow> u32 list" where
  "PB_FIELDINFO_1 f =
     [first_word 0 f OR push_bit 16 (fs_offset f AND 0xFF) OR push_bit 24 (fs_size_offset f AND 0x0F) OR
      push_bit 28 (fs_size f AND 0x0F)]"

definition PB_FIELDINFO_2 :: "field_spec \<Rightarrow> u32 list" where
  "PB_FIELDINFO_2 f =
     [first_word 1 f OR push_bit 16 (fs_array f AND 0xFFF) OR push_bit 28 (fs_size_offset f AND 0x0F),
      (fs_offset f AND 0xFFFF) OR push_bit 16 (fs_size f AND 0xFFF) OR push_bit 22 (fs_tag f AND 0x3C0)]"

definition PB_FIELDINFO_4 :: "field_spec \<Rightarrow> u32 list" where
  "PB_FIELDINFO_4 f =
     [first_word 2 f OR push_bit 16 (fs_array f AND 0xFFFF),
      scast (ucast (fs_size_offset f) :: u8) OR (push_bit 2 (fs_tag f) AND 0xFFFFFF00), fs_offset f, fs_size f]"

definition PB_FIELDINFO_8 :: "field_spec \<Rightarrow> u32 list" where
  "PB_FIELDINFO_8 f =
     [first_word 3 f, scast (ucast (fs_size_offset f) :: u8) OR (push_bit 2 (fs_tag f) AND 0xFFFFFF00), fs_offset f,
      fs_size f, fs_array f, 0, 0, 0]"

text \<open>The assertions.\<close>

definition PB_FITS :: "u32 \<Rightarrow> nat \<Rightarrow> bool" where
  "PB_FITS v bits \<longleftrightarrow> v < push_bit bits 1"

definition PB_FIELDINFO_ASSERT :: "field_spec \<Rightarrow> bool" where
  "PB_FIELDINFO_ASSERT f \<longleftrightarrow>
     (if fs_width f = 1 then
        PB_FITS (fs_tag f) 6 \<and> PB_FITS (fs_offset f) 8 \<and> PB_FITS (fs_size_offset f) 4 \<and> PB_FITS (fs_size f) 4 \<and>
        PB_FITS (fs_array f) 1
      else if fs_width f = 2 then
        PB_FITS (fs_tag f) 10 \<and> PB_FITS (fs_offset f) 16 \<and> PB_FITS (fs_size_offset f) 4 \<and> PB_FITS (fs_size f) 12 \<and>
        PB_FITS (fs_array f) 12
      else
        PB_FITS (fs_tag f) 16 \<and> PB_FITS (fs_offset f) 16 \<and> PB_FITS (scast (ucast (fs_size_offset f) :: u8)) 8 \<and>
        PB_FITS (fs_size f) 16 \<and> PB_FITS (fs_array f) 16)"

section \<open>Model: a message\<close>

text \<open>The largest tag is a sum of all tags in which all but the last are multiplied by zero.\<close>

definition PB_GEN_FIELD_INFO :: "field_spec \<Rightarrow> u32 list" where
  "PB_GEN_FIELD_INFO f =
     (if fs_width f = 1 then PB_FIELDINFO_1 f else if fs_width f = 2 then PB_FIELDINFO_2 f
      else if fs_width f = 4 then PB_FIELDINFO_4 f else PB_FIELDINFO_8 f)"

definition PB_GEN_SUBMSG_INFO :: "field_spec \<Rightarrow> pb_msgdesc list" where
  "PB_GEN_SUBMSG_INFO f = (case fs_submsg f of None \<Rightarrow> [] | Some d \<Rightarrow> [d])"

definition PB_BIND :: "field_spec list \<Rightarrow> pb_msgdesc" where
  "PB_BIND fs =
     Msgdesc (concat (map PB_GEN_FIELD_INFO fs) @ [0]) (concat (map PB_GEN_SUBMSG_INFO fs)) None None
       (of_nat (length fs)) (of_nat (length (filter (\<lambda>f. PB_HTYPE (fs_type f) = PB_HTYPE_REQUIRED) fs)))
       (if fs = [] then 0 else ucast (fs_tag (last fs)))"

section \<open>One field is read back\<close>

lemma fits_iff: "n < 32 \<Longrightarrow> PB_FITS v n \<longleftrightarrow> take_bit n v = v"
proof -
  assume n: "n < 32"
  have "(2 :: nat) ^ n < 2 ^ 32" using n by (intro power_strict_increasing) simp_all
  then have "unat (of_nat (2 ^ n) :: u32) = 2 ^ n" by (intro unat_of_nat_u32) simp
  then have "unat (push_bit n 1 :: u32) = 2 ^ n" by simp
  then have "PB_FITS v n \<longleftrightarrow> unat v < 2 ^ n" by (simp add: PB_FITS_def word_less_nat_alt)
  also have "\<dots> \<longleftrightarrow> take_bit n (unat v) = unat v" by (simp add: take_bit_nat_eq_self_iff)
  also have "\<dots> \<longleftrightarrow> unat (take_bit n v) = unat v" by (simp add: unsigned_take_bit_eq)
  also have "\<dots> \<longleftrightarrow> take_bit n v = v" by (rule word_unat_eq_iff [symmetric])
  finally show ?thesis .
qed

lemma fits_bit: "n < 32 \<Longrightarrow> PB_FITS v n \<Longrightarrow> bit v i \<Longrightarrow> i < n"
  by (metis bit_take_bit_iff fits_iff)

lemma masks:
  "w AND 3 = take_bit 2 w" "w AND 0x0F = take_bit 4 w" "w AND 0x3F = take_bit 6 w" "w AND 0xFF = take_bit 8 w"
  "w AND 0xFFF = take_bit 12 w" "w AND 0xFFFF = take_bit 16 w" for w :: u32
  by (simp_all add: take_bit_eq_mask mask_numeral)

lemma mask_3C0: "w AND 0x3C0 = push_bit 6 (take_bit 4 (drop_bit 6 (w :: u32)))"
proof -
  have m: "(0x3C0 :: u32) = push_bit 6 (mask 4)" by (simp add: mask_numeral push_bit_eq_mult)
  show ?thesis
    by (rule bit_word_eqI, unfold m bit_and_iff bit_push_bit_iff bit_mask_iff bit_take_bit_iff bit_drop_bit_eq o_apply) auto
qed

lemma mask_high: "w AND 0xFFFFFF00 = push_bit 8 (drop_bit 8 (w :: u32))"
proof -
  have m: "(0xFFFFFF00 :: u32) = push_bit 8 (mask 24)" by (simp add: mask_numeral push_bit_eq_mult)
  show ?thesis
    by (rule bit_word_eqI, unfold m bit_and_iff bit_push_bit_iff bit_mask_iff bit_drop_bit_eq o_apply) auto
qed

lemma first_word_fields:
  assumes "take_bit 2 len = len"
  shows "take_bit 2 (first_word len f OR push_bit 16 x) = len"
    and "field_type (first_word len f OR push_bit 16 x) = fs_type f"
    and "take_bit 6 (drop_bit 2 (first_word len f OR push_bit 16 x)) = take_bit 6 (fs_tag f)"
    and "drop_bit 16 (first_word len f OR push_bit 16 x) = take_bit 16 x"
proof -
  have len: "bit len i \<Longrightarrow> i < 2" for i using assms by (metis bit_take_bit_iff)
  have fw: "first_word len f = (len OR push_bit 2 (take_bit 6 (fs_tag f))) OR push_bit 8 (ucast (fs_type f))"
    unfolding first_word_def masks by (rule bit_word_eqI) (auto simp: bit_simps)
  have bits: "bit (first_word len f OR push_bit 16 x) i \<longleftrightarrow> i < 32 \<and>
      (bit len i \<or> 2 \<le> i \<and> i < 8 \<and> bit (fs_tag f) (i - 2) \<or> 8 \<le> i \<and> i < 16 \<and> bit (fs_type f) (i - 8) \<or> 16 \<le> i \<and> bit x (i - 16))" for i
    by (auto simp: fw bit_simps dest: len bit_imp_le_length)
  show "take_bit 2 (first_word len f OR push_bit 16 x) = len"
    by (rule bit_word_eqI, unfold bit_take_bit_iff bits) (auto dest: len)
  show "field_type (first_word len f OR push_bit 16 x) = fs_type f"
    unfolding field_type_def masks
    by (rule bit_word_eqI, unfold bit_ucast_iff bit_take_bit_iff bit_drop_bit_eq o_apply bits) (auto dest: len)
  show "take_bit 6 (drop_bit 2 (first_word len f OR push_bit 16 x)) = take_bit 6 (fs_tag f)"
    by (rule bit_word_eqI, unfold bit_take_bit_iff bit_drop_bit_eq o_apply bits) (auto dest: len)
  show "drop_bit 16 (first_word len f OR push_bit 16 x) = take_bit 16 x"
    by (rule bit_word_eqI, unfold bit_take_bit_iff bit_drop_bit_eq o_apply bits) (auto dest: len)
qed

lemma first_word_high: "take_bit 2 len = len \<Longrightarrow> bit (first_word len f OR push_bit 16 x) (16 + k) \<longleftrightarrow> k < 16 \<and> bit x k"
  using arg_cong [OF first_word_fields(4) [of len f x], of "\<lambda>y. bit y k"]
  unfolding bit_drop_bit_eq bit_take_bit_iff o_apply .

text \<open>What the iterator is to find; in one word there is no place for the size of an array, which is 1.\<close>

definition spec_values :: "field_spec \<Rightarrow> u16 \<times> u16 \<times> u8 \<times> u32 \<times> u16" where
  "spec_values f = (ucast (fs_array f), ucast (fs_tag f), ucast (fs_size_offset f), fs_offset f, ucast (fs_size f))"

definition spec_ok :: "field_spec \<Rightarrow> bool" where
  "spec_ok f \<longleftrightarrow> PB_FIELDINFO_ASSERT f \<and> fs_width f \<in> {1, 2, 4, 8} \<and> (fs_width f = 1 \<longrightarrow> fs_array f = 1) \<and>
     (fs_submsg f \<noteq> None \<longleftrightarrow> PB_LTYPE_IS_SUBMSG (fs_type f))"

lemma length_field_info [simp]: "spec_ok f \<Longrightarrow> length (PB_GEN_FIELD_INFO f) = fs_width f"
  by (auto simp: spec_ok_def PB_GEN_FIELD_INFO_def PB_FIELDINFO_1_def PB_FIELDINFO_2_def PB_FIELDINFO_4_def PB_FIELDINFO_8_def)

text \<open>The words of a field at index \<open>i\<close>.\<close>

definition stored_at :: "u32 list \<Rightarrow> nat \<Rightarrow> u32 list \<Rightarrow> bool" where
  "stored_at info i ws \<longleftrightarrow> take (length ws) (drop i info) = ws"

lemma stored_elem: "stored_at info i ws \<Longrightarrow> k < length ws \<Longrightarrow> elem_at info (i + k) = Some (ws ! k)"
proof -
  assume s: "stored_at info i ws" and k: "k < length ws"
  then have "length ws \<le> length (drop i info)" unfolding stored_at_def by (metis length_take min.cobounded1)
  then have "i + k < length info" using k by simp
  moreover have "drop i info ! k = ws ! k" using s k unfolding stored_at_def by (metis nth_take)
  ultimately show ?thesis by (simp add: elem_at_def)
qed

lemma read_1:
  assumes "PB_FITS (fs_tag f) 6" and "PB_FITS (fs_offset f) 8" and "PB_FITS (fs_size_offset f) 4" and "PB_FITS (fs_size f) 4"
    and "fs_array f = 1" and "stored_at info i (PB_FIELDINFO_1 f)"
  shows "field_words info i (hd (PB_FIELDINFO_1 f)) = Some (spec_values f) \<and> field_type (hd (PB_FIELDINFO_1 f)) = fs_type f \<and>
    hd (PB_FIELDINFO_1 f) AND 3 = 0"
proof -
  let ?x = "take_bit 8 (fs_offset f) OR push_bit 8 (take_bit 4 (fs_size_offset f)) OR push_bit 12 (take_bit 4 (fs_size f))"
  have w: "hd (PB_FIELDINFO_1 f) = first_word 0 f OR push_bit 16 ?x"
    unfolding PB_FIELDINFO_1_def masks list.sel or.assoc by (rule arg_cong [of _ _ "\<lambda>y. first_word 0 f OR y"]) (rule bit_word_eqI, auto simp: bit_simps)
  note fw = first_word_fields [of 0 f ?x, unfolded w [symmetric]]
  note fit = assms(1-4) [unfolded fits_iff [of 6, simplified] fits_iff [of 8, simplified] fits_iff [of 4, simplified]]
  have hi: "bit (hd (PB_FIELDINFO_1 f)) (16 + k) \<longleftrightarrow> k < 16 \<and> bit ?x k" for k
    unfolding w by (rule first_word_high) simp
  have so: "take_bit 4 (drop_bit 24 (hd (PB_FIELDINFO_1 f))) = fs_size_offset f"
  proof (rule bit_word_eqI)
    fix k assume "k < LENGTH(32)"
    show "bit (take_bit 4 (drop_bit 24 (hd (PB_FIELDINFO_1 f)))) k = bit (fs_size_offset f) k"
      using hi [of "8 + k"] fits_bit [OF _ assms(3), of k] by (cases "k < 4") (auto simp: bit_simps)
  qed
  have sz: "take_bit 4 (drop_bit 28 (hd (PB_FIELDINFO_1 f))) = fs_size f"
  proof (rule bit_word_eqI)
    fix k assume "k < LENGTH(32)"
    show "bit (take_bit 4 (drop_bit 28 (hd (PB_FIELDINFO_1 f)))) k = bit (fs_size f) k"
      using hi [of "12 + k"] fits_bit [OF _ assms(4), of k] by (cases "k < 4") (auto simp: bit_simps)
  qed
  have off: "take_bit 8 (drop_bit 16 (hd (PB_FIELDINFO_1 f))) = fs_offset f"
  proof (rule bit_word_eqI)
    fix k assume "k < LENGTH(32)"
    show "bit (take_bit 8 (drop_bit 16 (hd (PB_FIELDINFO_1 f)))) k = bit (fs_offset f) k"
      using hi [of k] fits_bit [OF _ assms(2), of k] by (cases "k < 8") (auto simp: bit_simps)
  qed
  show ?thesis
    using fw(1-3) fit assms(5) so sz off by (simp add: field_words_def masks spec_values_def)
qed

lemma elem_1: "stored_at info i (PB_FIELDINFO_2 f) \<Longrightarrow> elem_at info (i + 1) = Some (PB_FIELDINFO_2 f ! 1)"
  by (rule stored_elem) (simp_all add: PB_FIELDINFO_2_def)

lemma read_2:
  assumes "PB_FITS (fs_tag f) 10" and "PB_FITS (fs_offset f) 16" and "PB_FITS (fs_size_offset f) 4" and "PB_FITS (fs_size f) 12"
    and "PB_FITS (fs_array f) 12" and "stored_at info i (PB_FIELDINFO_2 f)"
  shows "field_words info i (hd (PB_FIELDINFO_2 f)) = Some (spec_values f) \<and> field_type (hd (PB_FIELDINFO_2 f)) = fs_type f \<and>
    hd (PB_FIELDINFO_2 f) AND 3 = 1"
proof -
  let ?x = "take_bit 12 (fs_array f) OR push_bit 12 (take_bit 4 (fs_size_offset f))"
  let ?w = "hd (PB_FIELDINFO_2 f)"
  have w: "?w = first_word 1 f OR push_bit 16 ?x"
    unfolding PB_FIELDINFO_2_def masks list.sel or.assoc by (rule arg_cong [of _ _ "\<lambda>y. first_word 1 f OR y"]) (rule bit_word_eqI, auto simp: bit_simps)
  have one: "take_bit 2 (1 :: u32) = 1" by simp
  note fw = first_word_fields [OF one, of f ?x, folded w]
  have hi: "bit ?w (16 + k) \<longleftrightarrow> k < 16 \<and> bit ?x k" for k
    unfolding w by (rule first_word_high) simp
  have so: "take_bit 4 (drop_bit 28 ?w) = fs_size_offset f"
  proof (rule bit_word_eqI)
    fix k assume "k < LENGTH(32)"
    show "bit (take_bit 4 (drop_bit 28 ?w)) k = bit (fs_size_offset f) k"
      using hi [of "12 + k"] fits_bit [OF _ assms(3), of k] by (cases "k < 4") (auto simp: bit_simps)
  qed
  have arr: "take_bit 12 (drop_bit 16 ?w) = fs_array f"
  proof (rule bit_word_eqI)
    fix k assume "k < LENGTH(32)"
    show "bit (take_bit 12 (drop_bit 16 ?w)) k = bit (fs_array f) k"
      using hi [of k] fits_bit [OF _ assms(5), of k] by (cases "k < 12") (auto simp: bit_simps)
  qed
  let ?v = "PB_FIELDINFO_2 f ! 1"
  have v: "?v = take_bit 16 (fs_offset f) OR push_bit 16 (take_bit 12 (fs_size f)) OR push_bit 28 (take_bit 4 (drop_bit 6 (fs_tag f)))"
    unfolding PB_FIELDINFO_2_def masks mask_3C0 by simp
  have bv: "bit ?v k \<longleftrightarrow> k < 32 \<and> (k < 16 \<and> bit (fs_offset f) k \<or> 16 \<le> k \<and> k < 28 \<and> bit (fs_size f) (k - 16) \<or> 28 \<le> k \<and> bit (fs_tag f) (k - 22))" for k
    unfolding v by (auto simp: bit_simps dest: bit_imp_le_length)
  have off: "take_bit 16 ?v = fs_offset f"
    by (rule bit_word_eqI, unfold bit_take_bit_iff bv) (use fits_bit [OF _ assms(2)] in auto)
  have sz: "take_bit 12 (drop_bit 16 ?v) = fs_size f"
  proof (rule bit_word_eqI)
    fix k :: nat
    show "bit (take_bit 12 (drop_bit 16 ?v)) k = bit (fs_size f) k"
      unfolding bit_take_bit_iff bit_drop_bit_eq o_apply bv using fits_bit [OF _ assms(4), of k] by auto
  qed
  have tg: "take_bit 6 (drop_bit 2 ?w) OR push_bit 6 (drop_bit 28 ?v) = fs_tag f"
    unfolding fw(3)
  proof (rule bit_word_eqI)
    fix k :: nat
    show "bit (take_bit 6 (fs_tag f) OR push_bit 6 (drop_bit 28 ?v)) k = bit (fs_tag f) k"
      unfolding bit_or_iff bit_push_bit_iff bit_take_bit_iff bit_drop_bit_eq o_apply bv
      using fits_bit [OF _ assms(1), of k] by auto
  qed
  show ?thesis
    using fw(1,2) so arr off sz tg elem_1 [OF assms(6)] by (simp add: field_words_def masks spec_values_def)
qed

text \<open>The second word of the two long formats.\<close>

definition long_word :: "field_spec \<Rightarrow> u32" where
  "long_word f = scast (ucast (fs_size_offset f) :: u8) OR (push_bit 2 (fs_tag f) AND 0xFFFFFF00)"

lemma long_word_fields:
  assumes "PB_FITS (fs_tag f) 16" and "PB_FITS (scast (ucast (fs_size_offset f) :: u8)) 8"
  shows "ucast (long_word f AND 0xFF) = (ucast (fs_size_offset f) :: u8)"
    and "take_bit 6 (fs_tag f) OR push_bit 6 (drop_bit 8 (long_word f)) = fs_tag f"
proof -
  let ?b = "ucast (fs_size_offset f) :: u8"
  have sc: "bit (scast ?b :: u32) k \<longleftrightarrow> k < 32 \<and> bit ?b (if k < 8 then k else 7)" for k
  proof (cases k "7 :: nat" rule: linorder_cases)
    case greater
    then show ?thesis by (auto simp: bit_simps)
  qed (auto simp: bit_simps)
  have b7: "\<not> bit ?b 7"
  proof
    assume "bit ?b 7"
    then have "bit (scast ?b :: u32) 8" by (simp add: sc)
    then show False using fits_bit [OF _ assms(2), of 8] by simp
  qed
  have bits: "bit (long_word f) k \<longleftrightarrow> k < 32 \<and> (if k < 8 then bit ?b k else bit (fs_tag f) (k - 2))" for k
    unfolding long_word_def mask_high using b7 by (cases "k < 8") (auto simp: bit_or_iff sc bit_push_bit_iff bit_drop_bit_eq)
  show "ucast (long_word f AND 0xFF) = ?b"
    unfolding masks by (rule bit_word_eqI, unfold bit_ucast_iff bit_take_bit_iff bits) (auto simp: bit_simps)
  show "take_bit 6 (fs_tag f) OR push_bit 6 (drop_bit 8 (long_word f)) = fs_tag f"
  proof (rule bit_word_eqI)
    fix k :: nat
    show "bit (take_bit 6 (fs_tag f) OR push_bit 6 (drop_bit 8 (long_word f))) k = bit (fs_tag f) k"
      unfolding bit_or_iff bit_push_bit_iff bit_take_bit_iff bit_drop_bit_eq o_apply bits
      using fits_bit [OF _ assms(1), of k] by auto
  qed
qed

lemma read_4:
  assumes "PB_FITS (fs_tag f) 16" and "PB_FITS (scast (ucast (fs_size_offset f) :: u8)) 8" and "PB_FITS (fs_array f) 16"
    and "stored_at info i (PB_FIELDINFO_4 f)"
  shows "field_words info i (hd (PB_FIELDINFO_4 f)) = Some (spec_values f) \<and> field_type (hd (PB_FIELDINFO_4 f)) = fs_type f \<and>
    hd (PB_FIELDINFO_4 f) AND 3 = 2"
proof -
  have w: "hd (PB_FIELDINFO_4 f) = first_word 2 f OR push_bit 16 (take_bit 16 (fs_array f))"
    by (simp add: PB_FIELDINFO_4_def masks)
  have two: "take_bit 2 (2 :: u32) = 2" by simp
  note fw = first_word_fields [OF two, of f "take_bit 16 (fs_array f)", folded w]
  have "elem_at info (i + 1) = Some (long_word f)" "elem_at info (i + 2) = Some (fs_offset f)" "elem_at info (i + 3) = Some (fs_size f)"
    using stored_elem [OF assms(4), of 1] stored_elem [OF assms(4), of 2] stored_elem [OF assms(4), of 3]
    by (simp_all add: PB_FIELDINFO_4_def long_word_def)
  moreover have "take_bit 16 (fs_array f) = fs_array f" using assms(3) by (simp add: fits_iff)
  moreover have "(2 :: u32) \<noteq> 0 \<and> (2 :: u32) \<noteq> 1" by simp
  ultimately show ?thesis
    using fw long_word_fields [OF assms(1,2)] by (simp add: field_words_def masks(1,3) spec_values_def)
qed

lemma read_8:
  assumes "PB_FITS (fs_tag f) 16" and "PB_FITS (scast (ucast (fs_size_offset f) :: u8)) 8"
    and "stored_at info i (PB_FIELDINFO_8 f)"
  shows "field_words info i (hd (PB_FIELDINFO_8 f)) = Some (spec_values f) \<and> field_type (hd (PB_FIELDINFO_8 f)) = fs_type f \<and>
    hd (PB_FIELDINFO_8 f) AND 3 = 3"
proof -
  have w: "hd (PB_FIELDINFO_8 f) = first_word 3 f OR push_bit 16 0" by (simp add: PB_FIELDINFO_8_def)
  have three: "take_bit 2 (3 :: u32) = 3" by simp
  note fw = first_word_fields [OF three, of f 0, folded w]
  have "elem_at info (i + 1) = Some (long_word f)" "elem_at info (i + 2) = Some (fs_offset f)" "elem_at info (i + 3) = Some (fs_size f)"
    "elem_at info (i + 4) = Some (fs_array f)"
    using stored_elem [OF assms(3), of 1] stored_elem [OF assms(3), of 2] stored_elem [OF assms(3), of 3] stored_elem [OF assms(3), of 4]
    by (simp_all add: PB_FIELDINFO_8_def long_word_def)
  then show ?thesis
    using fw long_word_fields [OF assms(1,2)] by (simp add: field_words_def masks(1,3) spec_values_def)
qed

text \<open>Every field is read back as it was given, and the iterator sees how many words it has.\<close>

lemma read_back:
  assumes "spec_ok f" and "stored_at info i (PB_GEN_FIELD_INFO f)"
  shows "field_words info i (hd (PB_GEN_FIELD_INFO f)) = Some (spec_values f)"
    and "field_type (hd (PB_GEN_FIELD_INFO f)) = fs_type f"
    and "2 ^ unat (hd (PB_GEN_FIELD_INFO f) AND 3) = fs_width f"
proof -
  have "field_words info i (hd (PB_GEN_FIELD_INFO f)) = Some (spec_values f) \<and> field_type (hd (PB_GEN_FIELD_INFO f)) = fs_type f \<and>
    2 ^ unat (hd (PB_GEN_FIELD_INFO f) AND 3) = fs_width f"
  proof -
    consider "fs_width f = 1" | "fs_width f = 2" | "fs_width f = 4" | "fs_width f = 8" using assms(1) by (auto simp: spec_ok_def)
    then show ?thesis
    proof cases
      case 1
      then show ?thesis using assms read_1 [of f info i] by (simp add: spec_ok_def PB_GEN_FIELD_INFO_def PB_FIELDINFO_ASSERT_def)
    next
      case 2
      then show ?thesis using assms read_2 [of f info i] by (simp add: spec_ok_def PB_GEN_FIELD_INFO_def PB_FIELDINFO_ASSERT_def)
    next
      case 3
      then show ?thesis using assms read_4 [of f info i] by (simp add: spec_ok_def PB_GEN_FIELD_INFO_def PB_FIELDINFO_ASSERT_def)
    next
      case 4
      then show ?thesis using assms read_8 [of f info i] by (simp add: spec_ok_def PB_GEN_FIELD_INFO_def PB_FIELDINFO_ASSERT_def)
    qed
  qed
  then show "field_words info i (hd (PB_GEN_FIELD_INFO f)) = Some (spec_values f)"
    "field_type (hd (PB_GEN_FIELD_INFO f)) = fs_type f" "2 ^ unat (hd (PB_GEN_FIELD_INFO f) AND 3) = fs_width f" by simp_all
qed

section \<open>A whole descriptor\<close>

text \<open>Field lists as the generator writes them: fields that pass the assertions, in the order of their tags.\<close>

definition specs_ok :: "field_spec list \<Rightarrow> bool" where
  "specs_ok fs \<longleftrightarrow> fs \<noteq> [] \<and> length fs < 8000 \<and> (\<forall>f\<in>set fs. spec_ok f) \<and> sorted_wrt (<) (map fs_tag fs)"

definition offset_of :: "field_spec list \<Rightarrow> nat \<Rightarrow> nat" where
  "offset_of fs i = length (concat (map PB_GEN_FIELD_INFO (take i fs)))"

definition submsgs_before :: "field_spec list \<Rightarrow> nat \<Rightarrow> nat" where
  "submsgs_before fs i = length (concat (map PB_GEN_SUBMSG_INFO (take i fs)))"

lemma take_step: "i < length fs \<Longrightarrow> take (Suc i) fs = take i fs @ [fs ! i]"
  by (rule take_Suc_conv_app_nth)

lemma info_split: "i < length fs \<Longrightarrow> concat (map PB_GEN_FIELD_INFO fs) @ [0] =
    concat (map PB_GEN_FIELD_INFO (take i fs)) @ PB_GEN_FIELD_INFO (fs ! i) @ (concat (map PB_GEN_FIELD_INFO (drop (Suc i) fs)) @ [0])"
  by (subst (1) id_take_nth_drop [of i fs]) simp_all

lemma field_stored: "i < length fs \<Longrightarrow> stored_at (field_info (PB_BIND fs)) (offset_of fs i) (PB_GEN_FIELD_INFO (fs ! i))"
  by (simp add: PB_BIND_def stored_at_def offset_of_def info_split)

lemma info_nonempty: "PB_GEN_FIELD_INFO f \<noteq> []"
  by (simp add: PB_GEN_FIELD_INFO_def PB_FIELDINFO_1_def PB_FIELDINFO_2_def PB_FIELDINFO_4_def PB_FIELDINFO_8_def)

lemma field_head:
  assumes "i < length fs" and "spec_ok (fs ! i)"
  shows "field_info (PB_BIND fs) ! offset_of fs i = hd (PB_GEN_FIELD_INFO (fs ! i))" and "offset_of fs i < length (field_info (PB_BIND fs))"
  using info_nonempty [of "fs ! i"] unfolding PB_BIND_def offset_of_def pb_msgdesc.sel info_split [OF assms(1)]
  by (simp_all add: hd_append hd_conv_nth nth_append)

lemma start_of_bind:
  assumes "\<forall>f\<in>set fs. spec_ok f" and "i \<le> length fs"
  shows "\<exists>r. start_of (PB_BIND fs) i = (offset_of fs i, r, submsgs_before fs i)"
  using assms(2)
proof (induction i)
  case 0
  then show ?case by (simp add: offset_of_def submsgs_before_def)
next
  case (Suc i)
  then have i: "i < length fs" by simp
  then have ok: "spec_ok (fs ! i)" using assms(1) by simp
  note rb = read_back [OF ok field_stored [OF i]]
  have "length (PB_GEN_SUBMSG_INFO (fs ! i)) = of_bool (PB_LTYPE_IS_SUBMSG (fs_type (fs ! i)))"
    using ok by (auto simp: PB_GEN_SUBMSG_INFO_def spec_ok_def split: option.splits)
  then show ?case
    using Suc i rb field_head(1) [OF i ok] length_field_info [OF ok]
    by (auto simp: offset_of_def submsgs_before_def take_step Let_def)
qed

lemma words_bind:
  assumes "\<forall>f\<in>set fs. spec_ok f" and i: "i < length fs"
  shows "words_at (PB_BIND fs) i = Some (spec_values (fs ! i))" and "field_type (word0_at (PB_BIND fs) i) = fs_type (fs ! i)"
    and "tag_at (PB_BIND fs) i = ucast (fs_tag (fs ! i))"
proof -
  have ok: "spec_ok (fs ! i)" using assms by simp
  obtain r where "start_of (PB_BIND fs) i = (offset_of fs i, r, submsgs_before fs i)"
    using start_of_bind [OF assms(1), of i] i by auto
  then have w0: "word0_at (PB_BIND fs) i = hd (PB_GEN_FIELD_INFO (fs ! i))" and f: "fst (start_of (PB_BIND fs) i) = offset_of fs i"
    by (simp_all add: word0_at_def field_head(1) [OF i ok])
  show 1: "words_at (PB_BIND fs) i = Some (spec_values (fs ! i))"
    unfolding words_at_def f w0 by (rule read_back [OF ok field_stored [OF i]])
  show "field_type (word0_at (PB_BIND fs) i) = fs_type (fs ! i)"
    unfolding w0 by (rule read_back [OF ok field_stored [OF i]])
  show "tag_at (PB_BIND fs) i = ucast (fs_tag (fs ! i))" by (simp add: tag_at_def 1 spec_values_def)
qed

lemma length_infos: "\<forall>f\<in>set fs. spec_ok f \<Longrightarrow> length (concat (map PB_GEN_FIELD_INFO fs)) \<le> 8 * length fs"
proof (induction fs)
  case (Cons f fs)
  then have "fs_width f \<le> 8" by (auto simp: spec_ok_def)
  then show ?case using Cons by simp
qed simp

lemma tag_fits: "spec_ok f \<Longrightarrow> unat (ucast (fs_tag f) :: u16) = unat (fs_tag f)"
proof -
  assume ok: "spec_ok f"
  then have "PB_FITS (fs_tag f) 6 \<or> PB_FITS (fs_tag f) 10 \<or> PB_FITS (fs_tag f) 16"
    by (auto simp: spec_ok_def PB_FIELDINFO_ASSERT_def split: if_splits)
  then have "bit (fs_tag f) k \<Longrightarrow> k < 16" for k
    using fits_bit [of 6 "fs_tag f" k] fits_bit [of 10 "fs_tag f" k] fits_bit [of 16 "fs_tag f" k] by auto
  then have "take_bit 16 (fs_tag f) = fs_tag f" by (intro bit_word_eqI) (auto simp: bit_take_bit_iff)
  then have "take_bit 16 (unat (fs_tag f)) = unat (fs_tag f)" by (metis unsigned_take_bit_eq)
  then show ?thesis by (simp add: unsigned_ucast_eq)
qed

lemma tag_less:
  assumes "specs_ok fs" and "i < j" and "j < length fs"
  shows "tag_at (PB_BIND fs) i < tag_at (PB_BIND fs) j"
proof -
  have ok: "\<forall>f\<in>set fs. spec_ok f" using assms(1) by (simp add: specs_ok_def)
  have "fs_tag (fs ! i) < fs_tag (fs ! j)"
    using assms sorted_wrt_nth_less [of "(<)" "map fs_tag fs" i j] by (simp add: specs_ok_def)
  then show ?thesis
    using ok assms(2,3) words_bind(3) [OF ok] by (simp add: word_less_nat_alt tag_fits)
qed

lemma wf_bind:
  assumes "specs_ok fs"
  shows "wf_desc (PB_BIND fs)" and "n_fields (PB_BIND fs) = length fs"
proof -
  let ?d = "PB_BIND fs"
  have ok: "\<forall>f\<in>set fs. spec_ok f" and ne: "fs \<noteq> []" and n: "length fs < 8000" using assms by (simp_all add: specs_ok_def)
  show fields: "n_fields ?d = length fs" using n by (simp add: PB_BIND_def unat_of_nat_u16)
  have len: "length (field_info ?d) < 65536"
    using length_infos [OF ok] n unfolding PB_BIND_def pb_msgdesc.sel length_append by simp
  have start: "fst (start_of ?d i) = offset_of fs i" "snd (snd (start_of ?d i)) = submsgs_before fs i" if "i < length fs" for i
    using start_of_bind [OF ok, of i] that by auto
  have sub: "submsgs_before fs i < length (submsg_info ?d)"
    if i: "i < length fs" and s: "PB_LTYPE_IS_SUBMSG (field_type (word0_at ?d i))" for i
  proof -
    have "length (PB_GEN_SUBMSG_INFO (fs ! i)) = 1"
      using s ok i words_bind(2) [OF ok i] by (auto simp: PB_GEN_SUBMSG_INFO_def spec_ok_def split: option.splits)
    moreover have "concat (map PB_GEN_SUBMSG_INFO fs) = concat (map PB_GEN_SUBMSG_INFO (take i fs)) @ PB_GEN_SUBMSG_INFO (fs ! i) @
        concat (map PB_GEN_SUBMSG_INFO (drop (Suc i) fs))"
      by (subst (1) id_take_nth_drop [OF i]) simp
    ultimately show ?thesis by (simp add: PB_BIND_def submsgs_before_def)
  qed
  have last: "largest_tag ?d = tag_at ?d (length fs - 1)"
    using ne words_bind(3) [OF ok, of "length fs - 1"] by (simp add: PB_BIND_def last_conv_nth)
  have "tag_at ?d i \<le> largest_tag ?d" if "i < length fs" for i
  proof (cases "i = length fs - 1")
    case False
    then have "tag_at ?d i < tag_at ?d (length fs - 1)" using that by (intro tag_less [OF assms]) linarith+
    then show ?thesis unfolding last by (rule less_imp_le)
  qed (simp add: last)
  then show "wf_desc ?d"
    unfolding wf_desc_def fields using ne n len start sub field_head(2) ok words_bind(1) [OF ok] tag_less [OF assms]
    by auto
qed

section \<open>The descriptors of \<^verbatim>\<open>common_pb.h\<close>\<close>

text \<open>With the layout of the structures on a 32-bit controller.\<close>

definition PB_GEN_FIELD_INFO_AUTO :: "u8 \<Rightarrow> u8 \<Rightarrow> proto_type \<Rightarrow> u32 \<Rightarrow> u32 \<Rightarrow> u32 \<Rightarrow> u32 \<Rightarrow> u32 \<Rightarrow> pb_msgdesc option \<Rightarrow> field_spec" where
  "PB_GEN_FIELD_INFO_AUTO atype htype ltype tg data_offset data_sz size_offset array_sz sub =
     \<lparr>fs_width = PB_FIELDINFO_WIDTH_AUTO atype htype ltype, fs_tag = tg, fs_type = atype OR htype OR PB_LTYPE_MAP ltype,
      fs_offset = data_offset, fs_size = data_sz, fs_size_offset = size_offset, fs_array = array_sz, fs_submsg = sub\<rparr>"

definition sysReq_FIELDLIST :: "field_spec list" where
  "sysReq_FIELDLIST =
     [PB_GEN_FIELD_INFO_AUTO PB_ATYPE_STATIC PB_HTYPE_OPTIONAL PT_INT64 1 0 8 0 1 None,
      PB_GEN_FIELD_INFO_AUTO PB_ATYPE_POINTER PB_HTYPE_OPTIONAL PT_STRING 2 8 1 0 1 None]"

definition sysRsp_FIELDLIST :: "field_spec list" where
  "sysRsp_FIELDLIST =
     [PB_GEN_FIELD_INFO_AUTO PB_ATYPE_STATIC PB_HTYPE_OPTIONAL PT_INT64 1 0 8 0 1 None,
      PB_GEN_FIELD_INFO_AUTO PB_ATYPE_POINTER PB_HTYPE_OPTIONAL PT_STRING 2 8 1 0 1 None,
      PB_GEN_FIELD_INFO_AUTO PB_ATYPE_STATIC PB_HTYPE_OPTIONAL PT_INT32 3 12 2 0 1 None]"

definition sysReq_msg :: pb_msgdesc where
  "sysReq_msg = PB_BIND sysReq_FIELDLIST"

definition sysRsp_msg :: pb_msgdesc where
  "sysRsp_msg = PB_BIND sysRsp_FIELDLIST"

lemmas auto_field = PB_GEN_FIELD_INFO_AUTO_def PB_FIELDINFO_WIDTH_AUTO_def wide_type_def

lemma sysRsp_ok: "specs_ok sysRsp_FIELDLIST"
  by (simp add: sysRsp_FIELDLIST_def auto_field specs_ok_def spec_ok_def PB_FIELDINFO_ASSERT_def PB_FITS_def
      PB_LTYPE_IS_SUBMSG_def PB_LTYPE_def push_bit_eq_mult)

lemma sysReq_ok: "specs_ok sysReq_FIELDLIST"
  by (simp add: sysReq_FIELDLIST_def auto_field specs_ok_def spec_ok_def PB_FIELDINFO_ASSERT_def PB_FITS_def
      PB_LTYPE_IS_SUBMSG_def PB_LTYPE_def push_bit_eq_mult)

text \<open>An empty message of this type, eight bytes behind the null pointer.\<close>

definition sample_memory :: memory where
  "sample_memory = replicate 24 0"

lemma sysRsp_wf: "wf_desc sysRsp_msg" "n_fields sysRsp_msg = 3"
  using wf_bind [OF sysRsp_ok] by (simp_all add: sysRsp_msg_def) (simp add: sysRsp_FIELDLIST_def)

lemma sysRsp_readable_in:
  assumes "24 \<le> length m"
  shows "readable m sysRsp_msg 8"
proof (rule readableI [OF sysRsp_wf(1)])
  fix i a t so off sz
  assume i: "i < n_fields sysRsp_msg" and w: "words_at sysRsp_msg i = Some (a, t, so, off, sz)"
  have ok: "\<forall>f\<in>set sysRsp_FIELDLIST. spec_ok f" and len: "i < length sysRsp_FIELDLIST"
    using sysRsp_ok i sysRsp_wf(2) by (simp_all add: specs_ok_def) (simp add: sysRsp_FIELDLIST_def)
  have "off = fs_offset (sysRsp_FIELDLIST ! i)"
    using words_bind(1) [OF ok len] w by (simp add: sysRsp_msg_def spec_values_def)
  moreover have "i = 0 \<or> i = 1 \<or> i = 2" using i sysRsp_wf(2) by linarith
  ultimately show "8 + unat off + 4 \<le> length m"
    using assms by (auto simp: sysRsp_FIELDLIST_def PB_GEN_FIELD_INFO_AUTO_def)
qed

lemma sysRsp_readable: "readable sample_memory sysRsp_msg 8"
  by (rule sysRsp_readable_in) (simp add: sample_memory_def)

section \<open>Properties\<close>

text \<open>C24. The descriptor the macros build from a field list that passes the compile-time assertions, with ascending tags, is
well-formed, and the iterator reads from it for every field exactly the tag, the type, the offsets and the sizes of the
list, whichever of the four formats holds them.\<close>

theorem bound_descriptor:
  assumes "specs_ok fs" and "i < length fs"
  shows "wf_desc (PB_BIND fs) \<and> n_fields (PB_BIND fs) = length fs \<and> words_at (PB_BIND fs) i = Some (spec_values (fs ! i)) \<and>
    field_type (word0_at (PB_BIND fs) i) = fs_type (fs ! i) \<and> fst (start_of (PB_BIND fs) i) = sum_list (map fs_width (take i fs))"
proof -
  have ok: "\<forall>f\<in>set fs. spec_ok f" using assms(1) by (simp add: specs_ok_def)
  have "length (concat (map PB_GEN_FIELD_INFO gs)) = sum_list (map fs_width gs)" if "\<forall>f\<in>set gs. spec_ok f" for gs
    using that by (induction gs) auto
  moreover have "\<forall>f\<in>set (take i fs). spec_ok f" using ok by (blast dest: in_set_takeD)
  ultimately have off: "offset_of fs i = sum_list (map fs_width (take i fs))" by (simp add: offset_of_def)
  obtain r where "start_of (PB_BIND fs) i = (offset_of fs i, r, submsgs_before fs i)"
    using start_of_bind [OF ok, of i] assms(2) by (meson less_imp_le)
  then show ?thesis by (simp add: off wf_bind [OF assms(1)] words_bind [OF ok assms(2)])
qed

lemma bound_descriptor_witness:
  "wf_desc (PB_BIND sysRsp_FIELDLIST) \<and> n_fields (PB_BIND sysRsp_FIELDLIST) = length sysRsp_FIELDLIST \<and>
    words_at (PB_BIND sysRsp_FIELDLIST) 2 = Some (spec_values (sysRsp_FIELDLIST ! 2)) \<and>
    field_type (word0_at (PB_BIND sysRsp_FIELDLIST) 2) = fs_type (sysRsp_FIELDLIST ! 2) \<and>
    fst (start_of (PB_BIND sysRsp_FIELDLIST) 2) = sum_list (map fs_width (take 2 sysRsp_FIELDLIST))"
  by (rule bound_descriptor [OF sysRsp_ok]) (simp add: sysRsp_FIELDLIST_def)


lemma find_is_linear_search_witness:
  "pb_field_iter_find sample_memory 1 (on_field sample_memory sysRsp_msg 8 2) =
    Some (if ucast (tag_at sysRsp_msg 2) = (1 :: u32) then (True, on_field sample_memory sysRsp_msg 8 2)
          else find_result sample_memory sysRsp_msg 8 2 (List.find (is_field sysRsp_msg 1) [0..<n_fields sysRsp_msg]))"
  by (rule find_is_linear_search [OF sysRsp_wf(1) sysRsp_readable]) (simp add: sysRsp_wf)

end
