(* ===== verification/PbMessage.thy ===== *)
theory PbMessage
  imports PbEncode PbSafe PbDesc
begin

text \<open>
  The encoder of messages implements the wire format: \<open>message_bytes\<close> says which bytes a message has, without streams,
  counting passes or limits, and \<open>encodes w bs\<close> that an operation writes exactly \<open>bs\<close> where they fit, and where they do
  not fit fails without a byte outside the buffer.
\<close>

section \<open>Operations that encode\<close>

text \<open>A stream on this controller: sizes below \<open>2 ^ 31\<close>, so that no sum of two of them wraps.\<close>

definition sound :: "pb_ostream \<Rightarrow> bool" where
  "sound s \<longleftrightarrow> out_ok s \<and> oerrmsg s = None \<and> unat (max_size s) < 2 ^ 31"

definition encodes :: "unit writer \<Rightarrow> bytes \<Rightarrow> bool" where
  "encodes w bs \<longleftrightarrow> length bs < 2 ^ 31 \<longrightarrow> (\<forall>s. sound s \<longrightarrow>
     (if room s (length bs) then w s = (Done (), wrote s bs) else fst (w s) = Failed \<and> in_buffer s (snd (w s))))"

lemma encodesI: "(\<And>s. length bs < 2 ^ 31 \<Longrightarrow> sound s \<Longrightarrow> room s (length bs) \<Longrightarrow> w s = (Done (), wrote s bs)) \<Longrightarrow>
    (\<And>s. length bs < 2 ^ 31 \<Longrightarrow> sound s \<Longrightarrow> \<not> room s (length bs) \<Longrightarrow> fst (w s) = Failed \<and> in_buffer s (snd (w s))) \<Longrightarrow> encodes w bs"
  by (simp add: encodes_def)

lemma encodes_room: "encodes w bs \<Longrightarrow> length bs < 2 ^ 31 \<Longrightarrow> sound s \<Longrightarrow> room s (length bs) \<Longrightarrow> w s = (Done (), wrote s bs)"
  by (simp add: encodes_def)

lemma encodes_full: "encodes w bs \<Longrightarrow> length bs < 2 ^ 31 \<Longrightarrow> sound s \<Longrightarrow> \<not> room s (length bs) \<Longrightarrow>
    fst (w s) = Failed \<and> in_buffer s (snd (w s))"
  by (simp add: encodes_def)

lemma in_buffer_refl: "out_ok s \<Longrightarrow> in_buffer s s"
  by (simp add: in_buffer_def)

lemma no_room: "sound s \<Longrightarrow> \<not> room s n \<Longrightarrow> callback s = BUF_WRITE \<and> unat (max_size s) < unat (bytes_written s) + n"
  by (auto simp: sound_def room_def out_ok_def left_to_write_def)

lemma wrote_fields [simp]:
  "callback (wrote s bs) = callback s" "max_size (wrote s bs) = max_size s" "oerrmsg (wrote s bs) = oerrmsg s"
  "bytes_written (wrote s bs) = bytes_written s + of_nat (length bs)"
  by (simp_all add: wrote_def)

lemma count_wrote: "callback s = BUF_WRITE \<Longrightarrow> room s n \<Longrightarrow> unat (bytes_written s + of_nat n) = unat (bytes_written s) + n"
proof -
  assume "callback s = BUF_WRITE" and "room s n"
  then have "unat (bytes_written s) + n \<le> unat (max_size s)" by (simp add: room_def)
  then show ?thesis by (intro unat_add_u32 le_less_trans [OF _ unat_u32_less])
qed

lemma wrote_in_buffer:
  assumes "out_ok s" and "room s (length bs)"
  shows "in_buffer s (wrote s bs)"
proof (cases "callback s = BUF_WRITE")
  case True
  have n: "length bs < 2 ^ 32" "length bs \<le> left_to_write s"
  proof -
    have le: "unat (bytes_written s) + length bs \<le> unat (max_size s)" using assms(2) True by (simp add: room_def)
    then have "length bs < 4294967296" using unat_u32_less [of "max_size s"] by linarith
    then show "length bs < 2 ^ 32" by simp
    show "length bs \<le> left_to_write s" using le by (simp add: left_to_write_def)
  qed
  show ?thesis using write_step [OF assms(1) True refl n(2,1)] True by (simp add: wrote_def)
next
  case False
  then show ?thesis by (simp add: in_buffer_def wrote_def out_ok_def)
qed

lemma sound_wrote: "sound s \<Longrightarrow> room s (length bs) \<Longrightarrow> sound (wrote s bs)"
  using wrote_in_buffer [of s bs] by (auto simp: sound_def in_buffer_def)

lemma encodes_return: "encodes (pb_return ()) []"
proof (rule encodesI)
  fix s
  assume "sound s" and "\<not> room s (length ([] :: bytes))"
  then have False using no_room [of s 0] by (auto simp: sound_def out_ok_def)
  then show "fst (pb_return () s) = Failed \<and> in_buffer s (snd (pb_return () s))" ..
qed (simp add: pb_return_def)

lemma encodes_bind:
  assumes "encodes w xs" and "encodes w' ys"
  shows "encodes (pb_bind w (\<lambda>_. w')) (xs @ ys)"
proof (rule encodesI)
  fix s
  assume len: "length (xs @ ys) < 2 ^ 31" and s: "sound s" and r: "room s (length (xs @ ys))"
  note split = room_split [of s xs "length ys", OF r [unfolded length_append]]
  have "w s = (Done (), wrote s xs)" using assms(1) len s split(1) by (intro encodes_room) simp_all
  moreover have "w' (wrote s xs) = (Done (), wrote (wrote s xs) ys)"
    using assms(2) len s split sound_wrote by (intro encodes_room) simp_all
  ultimately show "pb_bind w (\<lambda>_. w') s = (Done (), wrote s (xs @ ys))"
    using r by (simp add: pb_bind_def wrote_wrote)
next
  fix s
  assume len: "length (xs @ ys) < 2 ^ 31" and s: "sound s" and n: "\<not> room s (length (xs @ ys))"
  show "fst (pb_bind w (\<lambda>_. w') s) = Failed \<and> in_buffer s (snd (pb_bind w (\<lambda>_. w') s))"
  proof (cases "room s (length xs)")
    case True
    have 1: "w s = (Done (), wrote s xs)" using assms(1) len s True by (intro encodes_room) simp_all
    have "\<not> room (wrote s xs) (length ys)"
    proof
      assume "room (wrote s xs) (length ys)"
      then have "room s (length xs + length ys)"
        using True s count_wrote [of s "length xs"] by (auto simp: room_def wrote_def)
      then show False using n by simp
    qed
    then have 2: "fst (w' (wrote s xs)) = Failed \<and> in_buffer (wrote s xs) (snd (w' (wrote s xs)))"
      using assms(2) len sound_wrote [OF s True] by (intro encodes_full) simp_all
    have "in_buffer s (wrote s xs)" using s True by (intro wrote_in_buffer) (simp_all add: sound_def)
    then show ?thesis using 1 2 buffered.R_trans [of s "wrote s xs"] by (cases "w' (wrote s xs)") (auto simp: pb_bind_def)
  next
    case False
    then have "fst (w s) = Failed \<and> in_buffer s (snd (w s))" using assms(1) len s by (intro encodes_full) simp_all
    then show ?thesis by (cases "w s") (simp add: pb_bind_def)
  qed
qed

lemma encodes_write: "encodes (pb_write bs) bs"
proof (rule encodesI)
  fix s
  assume len: "length bs < 2 ^ 31" and s: "sound s" and n: "\<not> room s (length bs)"
  have "pb_write bs s = pb_write_error ''stream full'' s"
    using no_room [OF s n] len s by (intro write_full) (auto simp: sound_def out_ok_def)
  moreover have "in_buffer s (snd (pb_write bs s))"
    using safe_write s by (simp add: confined_by_def in_buffer_refl sound_def)
  ultimately show "fst (pb_write bs s) = Failed \<and> in_buffer s (snd (pb_write bs s))" by (simp add: pb_write_error_def)
qed (use writes_write in \<open>auto simp: writes_def\<close>)

lemma encodes_varint: "encodes (pb_encode_varint v) (varint_bytes v)"
  unfolding encode_varint_eq by (rule encodes_write)

lemma encodes_string: "encodes (pb_encode_string bs) (string_wire bs)"
  unfolding pb_encode_string_def string_wire_def by (intro encodes_bind encodes_varint encodes_write)

lemma encodes_tag: "encodes (pb_encode_tag wt n) (varint_bytes (tag_word (wt, n)))"
  by (simp add: pb_encode_tag_def tag_word_def encodes_varint)

lemma encodes_fixed32: "encodes (pb_encode_fixed32 v) (fixed_bytes 4 v)"
  unfolding pb_encode_fixed32_def and_FF fixed_bytes_def by (rule encodes_write)

lemma encodes_fixed64: "encodes (pb_encode_fixed64 v) (fixed_bytes 8 v)"
  unfolding pb_encode_fixed64_def and_FF fixed_bytes_def by (rule encodes_write)

subsection \<open>Counting first\<close>

lemma sound_sizing: "sound PB_OSTREAM_SIZING" "room PB_OSTREAM_SIZING n"
  by (simp_all add: sound_def out_ok_def room_def PB_OSTREAM_SIZING_def)

lemma counted:
  assumes "encodes w bs" and "length bs < 2 ^ 31"
  shows "w PB_OSTREAM_SIZING = (Done (), PB_OSTREAM_SIZING\<lparr>bytes_written := of_nat (length bs)\<rparr>)"
  using encodes_room [OF assms sound_sizing] by (simp add: wrote_def PB_OSTREAM_SIZING_def)

lemma ucast_of_nat: "n < 2 ^ 31 \<Longrightarrow> (ucast (of_nat n :: u32) :: u64) = of_nat n"
proof -
  assume "n < 2 ^ 31"
  then have "unat (of_nat n :: u32) = n" by (intro unat_of_nat_u32) simp
  then show ?thesis by (metis of_nat_unat)
qed

text \<open>A stream that only counts is given the size instead of the data.\<close>

lemma encodes_counting:
  assumes "encodes w bs"
  shows "encodes (\<lambda>s. if callback s = NO_CALLBACK then pb_write_count None (of_nat (length bs)) s else w s) bs"
proof (rule encodesI)
  fix s
  assume "length bs < 2 ^ 31" and "sound s" and "room s (length bs)"
  then show "(if callback s = NO_CALLBACK then pb_write_count None (of_nat (length bs)) s else w s) = (Done (), wrote s bs)"
    using encodes_room [OF assms] by (simp add: pb_write_count_def wrote_def)
next
  fix s
  assume a: "length bs < 2 ^ 31" "sound s" "\<not> room s (length bs)"
  then have "callback s \<noteq> NO_CALLBACK" using no_room [OF a(2,3)] by simp
  then show "fst (if callback s = NO_CALLBACK then pb_write_count None (of_nat (length bs)) s else w s) = Failed \<and>
      in_buffer s (snd (if callback s = NO_CALLBACK then pb_write_count None (of_nat (length bs)) s else w s))"
    using encodes_full [OF assms a] by simp
qed

lemma no_wrap: "sound s \<Longrightarrow> callback s = BUF_WRITE \<Longrightarrow> n < 2 ^ 31 \<Longrightarrow>
    (max_size s < bytes_written s + of_nat n) = (unat (max_size s) < unat (bytes_written s) + n)"
proof -
  assume s: "sound s" "callback s = BUF_WRITE" and n: "n < 2 ^ 31"
  have "unat (bytes_written s) < 2 ^ 31" using s by (auto simp: sound_def out_ok_def)
  then have "unat (bytes_written s + of_nat n) = unat (bytes_written s) + n" using n by (intro unat_add_u32) simp
  then show ?thesis by (simp add: word_less_nat_alt)
qed

text \<open>The second pass, with a limit of its own.\<close>

lemma encodes_second_pass:
  assumes "encodes (encode d a) bs"
  shows "encodes (write_submessage encode d a (of_nat (length bs))) bs"
    (is "encodes ?w bs")
proof (rule encodesI)
  fix s
  assume len: "length bs < 2 ^ 31" and s: "sound s" and r: "room s (length bs)"
  show "?w s = (Done (), wrote s bs)"
  proof (cases "callback s")
    case NO_CALLBACK
    then show ?thesis by (simp add: write_submessage_def pb_write_count_def wrote_def)
  next
    case BUF_WRITE
    let ?s = "s\<lparr>max_size := of_nat (length bs), bytes_written := 0, oerrmsg := None\<rparr>"
    have n: "unat (of_nat (length bs) :: u32) = length bs" using len by (intro unat_of_nat_u32) simp
    have "sound ?s" "room ?s (length bs)"
      using r BUF_WRITE len by (simp_all add: sound_def out_ok_def room_def left_to_write_def n)
    then have "encode d a ?s = (Done (), wrote ?s bs)" using encodes_room [OF assms len] by simp
    moreover have "\<not> max_size s < bytes_written s + of_nat (length bs)"
      using r BUF_WRITE by (simp add: no_wrap [OF s BUF_WRITE len] room_def)
    ultimately show ?thesis
      using BUF_WRITE s by (simp add: write_submessage_def wrote_def sound_def Let_def)
  qed
next
  fix s
  assume a: "length bs < 2 ^ 31" "sound s" "\<not> room s (length bs)"
  have "callback s = BUF_WRITE" "max_size s < bytes_written s + of_nat (length bs)"
    using no_room [OF a(2,3)] no_wrap [OF a(2) _ a(1)] by simp_all
  then have "?w s = pb_write_error ''stream full'' s" by (simp add: write_submessage_def)
  moreover have "in_buffer s s" using a(2) by (simp add: sound_def in_buffer_refl)
  ultimately show "fst (?w s) = Failed \<and> in_buffer s (snd (?w s))"
    using safe_write_error [where 'a = unit] by (simp add: confined_by_def) (simp add: pb_write_error_def)
qed

lemma encodes_submessage:
  assumes "encodes (encode d a) bs"
  shows "encodes (pb_encode_submessage encode d a) (string_wire bs)"
proof (cases "length bs < 2 ^ 31")
  case True
  have "pb_encode_submessage encode d a =
      pb_bind (pb_encode_varint (of_nat (length bs))) (\<lambda>_. write_submessage encode d a (of_nat (length bs)))"
    by (rule ext) (simp add: pb_encode_submessage_def counted [OF assms True] ucast_of_nat [OF True])
  then show ?thesis
    unfolding string_wire_def by (simp add: encodes_bind encodes_varint encodes_second_pass [of encode d a bs, OF assms])
next
  case False
  then show ?thesis by (simp add: encodes_def string_wire_def)
qed

section \<open>The bytes of a message\<close>

text \<open>All or nothing.\<close>

fun join :: "bytes option list \<Rightarrow> bytes option" where
  "join [] = Some []"
| "join (x # xs) = (case (x, join xs) of (Some b, Some bs) \<Rightarrow> Some (b @ bs) | _ \<Rightarrow> None)"

lemma join_Cons: "join (x # xs) = Some bs \<longleftrightarrow> (\<exists>b c. x = Some b \<and> join xs = Some c \<and> bs = b @ c)"
  by (auto split: option.splits)

text \<open>The contents of a number, in the sizes an integer may have.\<close>

definition signed_wire :: "pb_type \<Rightarrow> u64 \<Rightarrow> u64" where
  "signed_wire t v = (if PB_LTYPE t = PB_LTYPE_SVARINT then zigzag v else v)"

definition number_bytes :: "memory \<Rightarrow> pb_field_iter \<Rightarrow> bytes option" where
  "number_bytes m it =
     (if data_size it \<notin> {1, 2, 4, 8} then None
      else if PB_LTYPE (ptype it) = PB_LTYPE_UVARINT then map_option varint_bytes (read_unsigned m it)
      else map_option (\<lambda>v. varint_bytes (signed_wire (ptype it) v)) (read_signed m it))"

definition fixed_number :: "memory \<Rightarrow> pb_field_iter \<Rightarrow> bytes option" where
  "fixed_number m it =
     (if data_size it = 4 then map_option (\<lambda>v :: u32. fixed_bytes 4 v) (load_word 4 m (pData it))
      else if data_size it = 8 then map_option (\<lambda>v :: u64. fixed_bytes 8 v) (load_word 8 m (pData it))
      else None)"

text \<open>The contents of a string: up to its terminator, which must be there.\<close>

definition bytes_content :: "memory \<Rightarrow> pb_field_iter \<Rightarrow> bytes option" where
  "bytes_content m it =
     (if pData it = 0 then Some []
      else do { n \<leftarrow> (load_word 2 m (pData it) :: u16 option);
                if PB_ATYPE (ptype it) = PB_ATYPE_STATIC \<and> ucast (data_size it) - 2 < (ucast n :: u32) then None
                else load_bytes m (pData it + 2) (unat n) })"

definition string_content :: "memory \<Rightarrow> pb_field_iter \<Rightarrow> bytes option" where
  "string_content m it =
     (if PB_ATYPE (ptype it) \<noteq> PB_ATYPE_POINTER \<and> data_size it = 0 then None
      else if pData it = 0 then Some []
      else do { n \<leftarrow> string_size m (if PB_ATYPE (ptype it) = PB_ATYPE_POINTER then 2 ^ 32 - 1 else unat (data_size it) - 1) (pData it);
                b \<leftarrow> (load_word 1 m (pData it + n) :: u8 option);
                if b \<noteq> 0 then None else load_bytes m (pData it) n })"

definition payload :: "(pb_msgdesc \<Rightarrow> nat \<Rightarrow> bytes option) \<Rightarrow> memory \<Rightarrow> pb_field_iter \<Rightarrow> bytes option" where
  "payload sub m it =
     (let l = PB_LTYPE (ptype it) in
      if l = PB_LTYPE_BOOL then map_option (\<lambda>v. varint_bytes (of_bool v)) (safe_read_bool m (pData it))
      else if l = PB_LTYPE_VARINT \<or> l = PB_LTYPE_UVARINT \<or> l = PB_LTYPE_SVARINT then number_bytes m it
      else if l = PB_LTYPE_FIXED32 \<or> l = PB_LTYPE_FIXED64 then fixed_number m it
      else if l = PB_LTYPE_BYTES then map_option string_wire (bytes_content m it)
      else if l = PB_LTYPE_STRING then map_option string_wire (string_content m it)
      else if l = PB_LTYPE_SUBMESSAGE then do { d \<leftarrow> submsg_desc it; map_option string_wire (sub d (pData it)) }
      else if l = PB_LTYPE_FIXED_LENGTH_BYTES then map_option string_wire (load_bytes m (pData it) (unat (data_size it)))
      else None)"

definition wire_type :: "pb_type \<Rightarrow> u32" where
  "wire_type t =
     (let l = PB_LTYPE t in
      if l \<le> PB_LTYPE_SVARINT then PB_WT_VARINT else if l = PB_LTYPE_FIXED32 then PB_WT_32BIT
      else if l = PB_LTYPE_FIXED64 then PB_WT_64BIT else PB_WT_STRING)"

definition tag_bytes :: "u32 \<Rightarrow> pb_field_iter \<Rightarrow> bytes" where
  "tag_bytes wt it = varint_bytes (tag_word (wt, ucast (tag it)))"

definition entry_bytes :: "(pb_msgdesc \<Rightarrow> nat \<Rightarrow> bytes option) \<Rightarrow> memory \<Rightarrow> pb_field_iter \<Rightarrow> bytes option" where
  "entry_bytes sub m it =
     (if pData it = 0 then Some [] else map_option (\<lambda>bs. tag_bytes (wire_type (ptype it)) it @ bs) (payload sub m it))"

text \<open>Arrays: packed in one string where the type allows it, and field by field otherwise.\<close>

definition entry_at :: "pb_field_iter \<Rightarrow> nat \<Rightarrow> pb_field_iter" where
  "entry_at it i = it\<lparr>pData := pData it + i * unat (data_size it)\<rparr>"

definition packed_entry :: "memory \<Rightarrow> pb_field_iter \<Rightarrow> bytes option" where
  "packed_entry m it =
     (if PB_LTYPE (ptype it) = PB_LTYPE_FIXED32 then (if data_size it = 4 then fixed_number m it else None)
      else if PB_LTYPE (ptype it) = PB_LTYPE_FIXED64 then (if data_size it = 8 then fixed_number m it else None)
      else number_bytes m it)"

definition array_entry :: "(pb_msgdesc \<Rightarrow> nat \<Rightarrow> bytes option) \<Rightarrow> memory \<Rightarrow> pb_field_iter \<Rightarrow> bytes option" where
  "array_entry sub m it =
     (if PB_ATYPE (ptype it) = PB_ATYPE_POINTER \<and> (PB_LTYPE (ptype it) = PB_LTYPE_STRING \<or> PB_LTYPE (ptype it) = PB_LTYPE_BYTES)
      then do { p \<leftarrow> load_pointer m (pData it);
                if p = 0 then Some (tag_bytes PB_WT_STRING it @ string_wire []) else entry_bytes sub m (it\<lparr>pData := p\<rparr>) }
      else entry_bytes sub m it)"

definition array_bytes :: "(pb_msgdesc \<Rightarrow> nat \<Rightarrow> bytes option) \<Rightarrow> memory \<Rightarrow> pb_field_iter \<Rightarrow> bytes option" where
  "array_bytes sub m it = do {
     count \<leftarrow> read_size m it;
     if count = 0 then Some []
     else if PB_ATYPE (ptype it) \<noteq> PB_ATYPE_POINTER \<and> array_size it < count then None
     else if PB_LTYPE (ptype it) \<le> PB_LTYPE_LAST_PACKABLE
       then map_option (\<lambda>bs. tag_bytes PB_WT_STRING it @ string_wire bs) (join (map (\<lambda>i. packed_entry m (entry_at it i)) [0..<unat count]))
     else join (map (\<lambda>i. array_entry sub m (entry_at it i)) [0..<unat count]) }"

text \<open>A field; one with a callback of the application has bytes only when there is no callback.\<close>

definition field_bytes :: "(pb_msgdesc \<Rightarrow> nat \<Rightarrow> bytes option) \<Rightarrow> pb_hooks \<Rightarrow> memory \<Rightarrow> nat \<Rightarrow> pb_field_iter \<Rightarrow> bytes option" where
  "field_bytes sub h m k it = do {
     present \<leftarrow> field_present h m k it;
     if PB_LTYPE (ptype it) = PB_LTYPE_EXTENSION then None
     else if \<not> present then Some []
     else if pData it = 0 then (if PB_HTYPE (ptype it) = PB_HTYPE_REQUIRED then None else Some [])
     else if PB_ATYPE (ptype it) = PB_ATYPE_CALLBACK then (if field_callback (descriptor it) = None then Some [] else None)
     else if PB_HTYPE (ptype it) = PB_HTYPE_REPEATED then array_bytes sub m it
     else entry_bytes sub m it }"

fun message_bytes :: "pb_hooks \<Rightarrow> memory \<Rightarrow> nat \<Rightarrow> pb_msgdesc \<Rightarrow> nat \<Rightarrow> bytes option" where
  "message_bytes h m 0 d a = None"
| "message_bytes h m (Suc k) d a =
     (if field_count d = 0 then Some []
      else if wf_desc d \<and> readable m d a
      then join (map (\<lambda>i. field_bytes (message_bytes h m k) h m (Suc k) (on_field m d a i)) [0..<n_fields d])
      else None)"

section \<open>The encoder writes them\<close>

lemma with_load [simp]: "with_load (Some x) f = f x"
  by (simp add: with_load_def)

lemma encodes_signed:
  "PB_LTYPE t = PB_LTYPE_SVARINT \<Longrightarrow> encodes (pb_encode_svarint v) (varint_bytes (signed_wire t v))"
  "PB_LTYPE t \<noteq> PB_LTYPE_SVARINT \<Longrightarrow> encodes (pb_encode_varint v) (varint_bytes (signed_wire t v))"
  by (simp_all add: signed_wire_def pb_encode_svarint_def encodes_varint)

lemma encodes_number: "number_bytes m it = Some bs \<Longrightarrow> encodes (pb_enc_varint m it) bs"
  by (auto simp: number_bytes_def pb_enc_varint_def encodes_varint encodes_signed split: if_splits)

lemma encodes_fixed: "fixed_number m it = Some bs \<Longrightarrow> encodes (pb_enc_fixed m it) bs"
  by (auto simp: fixed_number_def pb_enc_fixed_def encodes_fixed32 encodes_fixed64 split: if_splits)

lemma encodes_bool: "safe_read_bool m (pData it) = Some v \<Longrightarrow> encodes (pb_enc_bool m it) (varint_bytes (of_bool v))"
  by (cases v) (simp_all add: pb_enc_bool_def encodes_varint)

lemma encodes_bytes: "bytes_content m it = Some bs \<Longrightarrow> encodes (pb_enc_bytes m it) (string_wire bs)"
  by (auto simp: bytes_content_def pb_enc_bytes_def encodes_string bind_eq_Some_conv split: if_splits)

lemma encodes_text: "string_content m it = Some bs \<Longrightarrow> encodes (pb_enc_string m it) (string_wire bs)"
  by (auto simp: string_content_def pb_enc_string_def encodes_string bind_eq_Some_conv Let_def split: if_splits)

lemma encodes_tag_for_field:
  "payload sub m it = Some bs \<Longrightarrow> encodes (pb_encode_tag_for_field it) (tag_bytes (wire_type (ptype it)) it)"
  by (auto simp: payload_def pb_encode_tag_for_field_def tag_bytes_def wire_type_def encodes_tag Let_def split: if_splits)

text \<open>What holds of the encoder of submessages.\<close>

definition implements :: "(pb_msgdesc \<Rightarrow> nat \<Rightarrow> unit writer) \<Rightarrow> (pb_msgdesc \<Rightarrow> nat \<Rightarrow> bytes option) \<Rightarrow> bool" where
  "implements encode sub \<longleftrightarrow> (\<forall>d a bs. sub d a = Some bs \<longrightarrow> encodes (encode d a) bs)"

lemma encodes_entry:
  assumes "implements encode sub" and "entry_bytes sub m it = Some bs"
  shows "encodes (encode_basic_field encode h m it) bs"
proof (cases "pData it = 0")
  case True
  then show ?thesis using assms(2) by (simp add: entry_bytes_def encode_basic_field_def encodes_return)
next
  case False
  then obtain p where p: "payload sub m it = Some p" and bs: "bs = tag_bytes (wire_type (ptype it)) it @ p"
    using assms(2) by (auto simp: entry_bytes_def)
  have sub: "encodes (pb_enc_submessage encode h it) p"
    if "PB_LTYPE (ptype it) = PB_LTYPE_SUBMESSAGE"
    using p that assms(1)
    by (auto simp: payload_def pb_enc_submessage_def implements_def bind_eq_Some_conv intro!: encodes_submessage)
  show ?thesis
    unfolding bs encode_basic_field_def using False
    by (simp, intro encodes_bind encodes_tag_for_field [OF p])
      (use p sub in \<open>auto simp: payload_def Let_def pb_enc_fixed_length_bytes_def split: if_splits
        intro: encodes_number encodes_fixed encodes_bool encodes_bytes encodes_text encodes_string\<close>)
qed

lemma encodes_each:
  assumes "\<And>i b. i < n \<Longrightarrow> g (entry_at it i) = Some b \<Longrightarrow> encodes (f (entry_at it i)) b"
  shows "join (map (\<lambda>i. g (entry_at it i)) [0..<n]) = Some bs \<Longrightarrow> encodes (each_entry f n it) bs"
  using assms
proof (induction n arbitrary: it bs)
  case 0
  then show ?case by (simp add: encodes_return)
next
  case (Suc n)
  have shift: "entry_at (it\<lparr>pData := pData it + unat (data_size it)\<rparr>) i = entry_at it (Suc i)" for i
    by (simp add: entry_at_def add.assoc)
  have "[0..<Suc n] = 0 # map Suc [0..<n]" by (simp add: upt_conv_Cons map_Suc_upt del: upt_Suc)
  then have "join (g (entry_at it 0) # map (\<lambda>i. g (entry_at it (Suc i))) [0..<n]) = Some bs"
    using Suc.prems(1) by (simp add: o_def)
  then obtain b c where b: "g (entry_at it 0) = Some b" "join (map (\<lambda>i. g (entry_at it (Suc i))) [0..<n]) = Some c" "bs = b @ c"
    unfolding join_Cons by blast
  have "encodes (f it) b" using Suc.prems(2) [OF _ b(1)] by (simp add: entry_at_def)
  moreover have "encodes (each_entry f n (it\<lparr>pData := pData it + unat (data_size it)\<rparr>)) c"
    using b(2) Suc.prems(2) [of "Suc i" for i] by (intro Suc.IH) (simp_all add: shift)
  ultimately show ?case unfolding b(3) by (simp add: encodes_bind)
qed

lemma entry_at_fields [simp]:
  "ptype (entry_at it i) = ptype it" "data_size (entry_at it i) = data_size it" "tag (entry_at it i) = tag it"
  by (simp_all add: entry_at_def)

lemma encodes_packed_entry:
  "packed_entry m it = Some b \<Longrightarrow>
    encodes ((if PB_LTYPE (ptype it) = PB_LTYPE_FIXED32 \<or> PB_LTYPE (ptype it) = PB_LTYPE_FIXED64 then pb_enc_fixed m else pb_enc_varint m) it) b"
  by (auto simp: packed_entry_def encodes_fixed encodes_number split: if_splits)

lemma length_fixed_entries:
  assumes "\<And>i b. g i = Some b \<Longrightarrow> length b = w"
  shows "join (map g xs) = Some bs \<Longrightarrow> length bs = w * length xs"
proof (induction xs arbitrary: bs)
  case (Cons x xs)
  then obtain b c where "g x = Some b" "join (map g xs) = Some c" "bs = b @ c" by (auto simp: join_Cons simp del: join.simps)
  then show ?case using assms Cons.IH by simp
qed simp

text \<open>The size announced is the size of what follows.\<close>

lemma packed_size_is:
  assumes "join (map (\<lambda>i. packed_entry m (entry_at it i)) [0..<unat count]) = Some bs" and "length bs < 2 ^ 31"
  shows "packed_size m count it f = f (of_nat (length bs))"
proof -
  have len: "length b = (if PB_LTYPE (ptype it) = PB_LTYPE_FIXED32 then 4 else 8)"
    if "packed_entry m (entry_at it i) = Some b" "PB_LTYPE (ptype it) = PB_LTYPE_FIXED32 \<or> PB_LTYPE (ptype it) = PB_LTYPE_FIXED64" for i b
    using that by (auto simp: packed_entry_def fixed_number_def split: if_splits)
  show ?thesis
  proof (cases "PB_LTYPE (ptype it) = PB_LTYPE_FIXED32 \<or> PB_LTYPE (ptype it) = PB_LTYPE_FIXED64")
    case True
    have "length bs = (if PB_LTYPE (ptype it) = PB_LTYPE_FIXED32 then 4 else 8) * unat count"
      using length_fixed_entries [OF len assms(1)] True by simp
    moreover have "(of_nat (unat count) :: u32) = ucast count" by (rule of_nat_unat)
    ultimately show ?thesis using True by (auto simp: packed_size_def)
  next
    case False
    have "encodes (each_entry (pb_enc_varint m) (unat count) it) bs"
      using encodes_packed_entry [of m "entry_at it i" for i] False by (intro encodes_each [OF _ assms(1)]) auto
    from counted [OF this assms(2)] have "each_entry (pb_enc_varint m) (unat count) it PB_OSTREAM_SIZING
        = (Done (), PB_OSTREAM_SIZING\<lparr>bytes_written := of_nat (length bs)\<rparr>)" .
    then show ?thesis using False by (intro ext) (simp add: packed_size_def)
  qed
qed

lemma encodes_packed:
  assumes "join (map (\<lambda>i. packed_entry m (entry_at it i)) [0..<unat count]) = Some bs"
  shows "encodes (encode_packed m count it) (tag_bytes PB_WT_STRING it @ string_wire bs)"
proof (cases "length bs < 2 ^ 31")
  case True
  let ?f = "if PB_LTYPE (ptype it) = PB_LTYPE_FIXED32 \<or> PB_LTYPE (ptype it) = PB_LTYPE_FIXED64 then pb_enc_fixed m else pb_enc_varint m"
  have each: "encodes (each_entry ?f (unat count) it) bs"
    using encodes_packed_entry [of m "entry_at it i" for i] by (intro encodes_each [OF _ assms]) simp
  show ?thesis
    unfolding encode_packed_def packed_size_is [OF assms True] ucast_of_nat [OF True] tag_bytes_def string_wire_def
    by (intro encodes_bind encodes_tag encodes_varint encodes_counting each)
next
  case False
  then show ?thesis by (simp add: encodes_def string_wire_def)
qed

lemma encodes_array_entry:
  assumes "implements encode sub" and "array_entry sub m it = Some bs"
  shows "encodes (encode_entry encode h m it) bs"
proof (cases "PB_ATYPE (ptype it) = PB_ATYPE_POINTER \<and> (PB_LTYPE (ptype it) = PB_LTYPE_STRING \<or> PB_LTYPE (ptype it) = PB_LTYPE_BYTES)")
  case True
  then obtain p where p: "load_pointer m (pData it) = Some p"
    using assms(2) by (auto simp: array_entry_def bind_eq_Some_conv)
  have "encodes (pb_bind (pb_encode_tag_for_field it) (\<lambda>_. pb_encode_varint 0)) (tag_bytes PB_WT_STRING it @ string_wire [])"
    using True encodes_bind [OF encodes_tag encodes_varint, of PB_WT_STRING "ucast (tag it)" 0]
    by (auto simp: pb_encode_tag_for_field_def tag_bytes_def string_wire_def Let_def)
  then show ?thesis
    using True p assms encodes_entry [OF assms(1)] by (auto simp: array_entry_def encode_entry_def split: if_splits)
next
  case False
  then have "array_entry sub m it = entry_bytes sub m it" "encode_entry encode h m it = encode_basic_field encode h m it"
    unfolding array_entry_def encode_entry_def by (simp_all only: if_False)
  then show ?thesis using assms encodes_entry by simp
qed

lemma encodes_array:
  assumes "implements encode sub" and "array_bytes sub m it = Some bs"
  shows "encodes (encode_array encode h m it) bs"
proof -
  obtain count where c: "read_size m it = Some count" using assms(2) by (auto simp: array_bytes_def bind_eq_Some_conv)
  have each: "encodes (each_entry (encode_entry encode h m) (unat count) it) bs"
    if "join (map (\<lambda>i. array_entry sub m (entry_at it i)) [0..<unat count]) = Some bs"
    using that by (intro encodes_each [OF encodes_array_entry [OF assms(1)]]) simp
  show ?thesis
    using assms(2) c each encodes_packed [of m it count]
    by (auto simp: array_bytes_def encode_array_def encodes_return split: if_splits)
qed

lemma encodes_field:
  assumes "implements encode sub" and "field_bytes sub h m k it = Some bs"
  shows "encodes (if PB_LTYPE (ptype it) = PB_LTYPE_EXTENSION then extension_hook h it else encode_field encode h m k it) bs"
proof -
  obtain present where p: "field_present h m k it = Some present" using assms(2) by (auto simp: field_bytes_def bind_eq_Some_conv)
  have cb: "encodes (encode_callback_field h it) []" if "field_callback (descriptor it) = None"
    using encodes_return that by (simp add: encode_callback_field_def [abs_def] pb_return_def [abs_def])
  show ?thesis
    using assms(2) p cb encodes_entry [OF assms(1)] encodes_array [OF assms(1)]
    by (auto simp: field_bytes_def encode_field_def encodes_return split: if_splits)
qed

lemma encodes_fields:
  assumes "wf_desc d" and "readable m d a" and "\<And>i b. i < n_fields d \<Longrightarrow> g i = Some b \<Longrightarrow> encodes (f (on_field m d a i)) b"
  shows "i + Suc n = n_fields d \<Longrightarrow> join (map g [i..<n_fields d]) = Some bs \<Longrightarrow>
    encodes (encode_fields f m (Suc n) (on_field m d a i)) bs"
proof (induction n arbitrary: i bs)
  case 0
  then have i: "i < n_fields d" "\<not> Suc i < n_fields d" "[i..<n_fields d] = [i]" by (simp_all add: upt_rec)
  then obtain b where "g i = Some b" "bs = b" using 0(2) by (auto split: option.splits)
  then have "encodes (pb_bind (f (on_field m d a i)) (\<lambda>_. pb_return ())) (bs @ [])"
    using assms(3) i by (intro encodes_bind encodes_return) simp
  then show ?case using next_on_field [OF assms(1,2) i(1)] i(2) by simp
next
  case (Suc n)
  then have i: "i < n_fields d" "Suc i < n_fields d" "[i..<n_fields d] = i # [Suc i..<n_fields d]" by (simp_all add: upt_conv_Cons)
  then obtain b c where b: "g i = Some b" "join (map g [Suc i..<n_fields d]) = Some c" "bs = b @ c"
    using Suc.prems(2) join_Cons [of "g i" "map g [Suc i..<n_fields d]" bs] by (auto simp del: join.simps)
  have "encodes (encode_fields f m (Suc n) (on_field m d a (Suc i))) c" using Suc.prems b(2) by (intro Suc.IH) simp_all
  then have "encodes (pb_bind (f (on_field m d a i)) (\<lambda>_. encode_fields f m (Suc n) (on_field m d a (Suc i)))) (b @ c)"
    using assms(3) i b(1) by (intro encodes_bind) simp_all
  then show ?case using next_on_field [OF assms(1,2) i(1)] i(2) b(3) by simp
qed

lemma implements_encode: "implements (pb_encode h m k) (message_bytes h m k)"
proof (induction k)
  case 0
  then show ?case by (simp add: implements_def)
next
  case (Suc k)
  have "encodes (pb_encode h m (Suc k) d a) bs" if bytes: "message_bytes h m (Suc k) d a = Some bs" for d a bs
  proof (cases "field_count d = 0")
    case True
    then show ?thesis using bytes by (simp add: encode_message_def pb_field_iter_begin_def load_descriptor_values_def encodes_return)
  next
    case False
    then have wf: "wf_desc d" "readable m d a"
      and join: "join (map (\<lambda>i. field_bytes (message_bytes h m k) h m (Suc k) (on_field m d a i)) [0..<n_fields d]) = Some bs"
      using bytes by (simp_all split: if_splits)
    obtain n where n: "n_fields d = Suc n" using wf(1) by (auto simp: wf_desc_def gr0_conv_Suc)
    have "pb_field_iter_begin m d a = Some (True, on_field m d a 0)"
      using load_blank(1) [OF wf, of 0] n by (simp add: pb_field_iter_begin_def blank_def)
    moreover have "encodes (encode_fields (\<lambda>it. if PB_LTYPE (ptype it) = PB_LTYPE_EXTENSION then extension_hook h it
        else encode_field (pb_encode h m k) h m (Suc k) it) m (Suc n) (on_field m d a 0)) bs"
      using join n
      by (intro encodes_fields [OF wf, where g = "\<lambda>i. field_bytes (message_bytes h m k) h m (Suc k) (on_field m d a i)"])
        (simp_all add: encodes_field [OF Suc.IH])
    ultimately show ?thesis by (simp add: encode_message_def n)
  qed
  then show ?case by (simp add: implements_def)
qed

section \<open>A message of the repository\<close>

text \<open>A response with the code 200, the text ``ok'' and the value 1, in memory.\<close>

definition example_memory :: memory where
  "example_memory = [0, 0, 0, 0, 0, 0, 0, 0,  200, 0, 0, 0, 0, 0, 0, 0,  24, 0, 0, 0,  1, 0, 0, 0,  111, 107, 0]"

definition example_hooks :: pb_hooks where
  "example_hooks = \<lparr>field_hook = (\<lambda>_ _ s. (Failed, s)), hook_set = (\<lambda>_. False), message_hook = (\<lambda>_ s. (Failed, s)), extension_hook = (\<lambda>_ s. (Failed, s))\<rparr>"

lemma example_text:
  "(load_word 1 example_memory 24 :: u8 option) = Some 111" "(load_word 1 example_memory 25 :: u8 option) = Some 107"
  "(load_word 1 example_memory 26 :: u8 option) = Some 0" "load_bytes example_memory 24 2 = Some [111, 107]"
  by (code_simp, code_simp, code_simp, code_simp)

lemma example_second_field:
  "pData (on_field example_memory sysRsp_msg 8 1) = 24" "PB_ATYPE (ptype (on_field example_memory sysRsp_msg 8 1)) = PB_ATYPE_POINTER"
  "PB_LTYPE (ptype (on_field example_memory sysRsp_msg 8 1)) = PB_LTYPE_STRING"
  "PB_HTYPE (ptype (on_field example_memory sysRsp_msg 8 1)) = PB_HTYPE_OPTIONAL"
  "tag_bytes (wire_type (ptype (on_field example_memory sysRsp_msg 8 1))) (on_field example_memory sysRsp_msg 8 1) = [18]"
  "field_present example_hooks example_memory 1 (on_field example_memory sysRsp_msg 8 1) = Some True"
  by (code_simp, code_simp, code_simp, code_simp, code_simp, code_simp)

lemma example_fields:
  "field_bytes (message_bytes example_hooks example_memory 0) example_hooks example_memory 1 (on_field example_memory sysRsp_msg 8 0) = Some [8, 200, 1]"
  "field_bytes (message_bytes example_hooks example_memory 0) example_hooks example_memory 1 (on_field example_memory sysRsp_msg 8 2) = Some [24, 1]"
  by (code_simp, code_simp)

lemma example_size: "0 < n \<Longrightarrow> 0 < n - 1 \<Longrightarrow> 0 < n - 1 - 1 \<Longrightarrow> string_size example_memory n 24 = Some 2"
  by (simp add: example_text [unfolded One_nat_def] string_size.simps)

lemma example_string: "string_content example_memory (on_field example_memory sysRsp_msg 8 1) = Some [111, 107]"
  by (simp add: string_content_def example_second_field example_text example_size del: One_nat_def)

lemma example_string_field:
  "field_bytes (message_bytes example_hooks example_memory 0) example_hooks example_memory 1 (on_field example_memory sysRsp_msg 8 1) = Some [18, 2, 111, 107]"
proof -
  have "string_wire [111, 107] = [2, 111, 107]" by code_simp
  then show ?thesis
    by (simp add: field_bytes_def entry_bytes_def payload_def example_second_field example_string del: One_nat_def)
qed

lemma example_bytes: "message_bytes example_hooks example_memory 1 sysRsp_msg 8 = Some [8, 200, 1, 18, 2, 111, 107, 24, 1]"
proof -
  have "[0..<n_fields sysRsp_msg] = [0, 1, 2]" by (simp add: sysRsp_wf upt_rec)
  moreover have "readable example_memory sysRsp_msg 8" by (rule sysRsp_readable_in) (simp add: example_memory_def)
  moreover have "field_count sysRsp_msg \<noteq> 0" using sysRsp_wf(2) by auto
  ultimately show ?thesis using example_fields example_string_field sysRsp_wf(1) by (simp add: message_bytes.simps(2) [of _ _ 0, folded One_nat_def] del: message_bytes.simps One_nat_def)
qed

section \<open>Properties\<close>



text \<open>C26.  The size that is computed without a buffer is the size of what the encoder writes, and the delimited and
  null-terminated forms are the message behind its size and in front of a zero byte.\<close>
theorem encoded_size:
  assumes "message_bytes h m k d a = Some bs" and "length bs < 2 ^ 31 - 10" and "sound s"
    and "room s (length (string_wire bs))"
  shows "pb_get_encoded_size h m k d a = Done (of_nat (length bs)) \<and>
    pb_encode_ex h m k d a PB_ENCODE_DELIMITED s = (Done (), wrote s (string_wire bs)) \<and>
    pb_encode_ex h m k d a PB_ENCODE_NULLTERMINATED s = (Done (), wrote s (bs @ [0]))"
proof (intro conjI)
  have pos: "varint_bytes w \<noteq> []" for w by (subst varint_bytes.simps) simp
  have e: "encodes (pb_encode h m k d a) bs" using implements_encode assms(1) unfolding implements_def by blast
  show "pb_get_encoded_size h m k d a = Done (of_nat (length bs))"
    using counted [OF e] assms(2) by (simp add: pb_get_encoded_size_def)
  have len: "length (string_wire bs) < 2 ^ 31" "length (bs @ [0]) \<le> length (string_wire bs)"
    using assms(2) length_varint_le_10 [of "of_nat (length bs)"] pos [of "of_nat (length bs)"]
    by (simp_all add: string_wire_def Suc_le_eq)
  show "pb_encode_ex h m k d a PB_ENCODE_DELIMITED s = (Done (), wrote s (string_wire bs))"
    using encodes_room [OF encodes_submessage [of "pb_encode h m k" d a bs, OF e] len(1) assms(3,4)] by (simp add: pb_encode_ex_def)
  have "room s (length (bs @ [0 :: u8]))" using assms(4) len(2) by (auto simp: room_def)
  then show "pb_encode_ex h m k d a PB_ENCODE_NULLTERMINATED s = (Done (), wrote s (bs @ [0]))"
    using encodes_room [OF encodes_bind [OF e encodes_write [of "[0]"]]] len assms(3) by (simp add: pb_encode_ex_def)
qed

lemma encoded_size_witness:
  "pb_get_encoded_size example_hooks example_memory 1 sysRsp_msg 8 = Done 9 \<and>
   pb_encode_ex example_hooks example_memory 1 sysRsp_msg 8 PB_ENCODE_DELIMITED (pb_ostream_from_buffer (replicate 10 255) 10)
     = (Done (), \<lparr>callback = BUF_WRITE, obuf = [9, 8, 200, 1, 18, 2, 111, 107, 24, 1], ostate = 10, max_size = 10,
                  bytes_written = 10, oerrmsg = None\<rparr>) \<and>
   pb_encode_ex example_hooks example_memory 1 sysRsp_msg 8 PB_ENCODE_NULLTERMINATED (pb_ostream_from_buffer (replicate 10 255) 10)
     = (Done (), \<lparr>callback = BUF_WRITE, obuf = [8, 200, 1, 18, 2, 111, 107, 24, 1, 0], ostate = 10, max_size = 10,
                  bytes_written = 10, oerrmsg = None\<rparr>)"
proof -
  let ?bs = "[8, 200, 1, 18, 2, 111, 107, 24, 1] :: bytes" and ?s = "pb_ostream_from_buffer (replicate 10 255) 10"
  have w: "wrote ?s (string_wire ?bs) = \<lparr>callback = BUF_WRITE, obuf = [9, 8, 200, 1, 18, 2, 111, 107, 24, 1], ostate = 10, max_size = 10,
      bytes_written = 10, oerrmsg = None\<rparr>" "length (string_wire ?bs) = 10"
    "wrote ?s (?bs @ [0]) = \<lparr>callback = BUF_WRITE, obuf = [8, 200, 1, 18, 2, 111, 107, 24, 1, 0], ostate = 10, max_size = 10,
      bytes_written = 10, oerrmsg = None\<rparr>"
    by (code_simp, code_simp, code_simp)
  have "sound ?s" "room ?s (length (string_wire ?bs))"
    by (simp_all add: sound_def out_ok_def room_def left_to_write_def pb_ostream_from_buffer_def w(2))
  then show ?thesis using encoded_size [OF example_bytes _ \<open>sound ?s\<close>] unfolding w(1,3) by simp
qed

end
