(* ===== verification/PbDecode.thy ===== *)
theory PbDecode
  imports PbEncode
begin

text \<open>
  The decoder of messages over descriptors, \<^verbatim>\<open>src/ql_application/App_XD/nanopb/pb_decode.c\<close>, without allocation.
  Where the C code passes pointers, an operation here takes a state and gives its result and the state afterwards: the
  memory with the message, the stream, the iterator, and the local counter of an array of fixed length.  A fault is an
  access outside the memory or the message.  Callbacks of the application and extensions are parameters.
\<close>

section \<open>Model: state\<close>

record decoder =
  dmem :: memory
  dstream :: pb_istream
  diter :: pb_field_iter
  fixed_count_size :: u16

type_synonym 'a decoding = "decoder \<Rightarrow> 'a pb_result \<times> decoder"

text \<open>An operation on the memory and a stream: a callback, or the decoder of a submessage.\<close>

type_synonym handler = "memory \<Rightarrow> pb_istream \<Rightarrow> unit pb_result \<times> memory \<times> pb_istream"

record decode_hooks =
  field_decoder :: "nat \<Rightarrow> pb_field_iter \<Rightarrow> handler"
  message_decoder :: "pb_field_iter \<Rightarrow> handler option"
  extension_decoder :: "nat \<Rightarrow> u32 \<Rightarrow> u32 \<Rightarrow> handler"
  extension_default :: "nat \<Rightarrow> memory \<Rightarrow> unit pb_result \<times> memory"

definition reading :: "'a reader \<Rightarrow> 'a decoding" where
  "reading r d = (case r (dstream d) of (x, s) \<Rightarrow> (x, d\<lparr>dstream := s\<rparr>))"

definition decode_error :: "string \<Rightarrow> 'a decoding" where
  "decode_error msg = reading (pb_read_error msg)"

definition fetch :: "(memory \<Rightarrow> 'a option) \<Rightarrow> 'a decoding" where
  "fetch f d = (case f (dmem d) of None \<Rightarrow> (Fault, d) | Some x \<Rightarrow> (Done x, d))"

definition store_bytes :: "memory \<Rightarrow> nat \<Rightarrow> bytes \<Rightarrow> memory option" where
  "store_bytes m a bs = (if a \<noteq> 0 \<and> a + length bs \<le> length m then Some (blit m a bs) else None)"

definition poke :: "nat \<Rightarrow> bytes \<Rightarrow> unit decoding" where
  "poke a bs d = (case store_bytes (dmem d) a bs of None \<Rightarrow> (Fault, d) | Some m \<Rightarrow> (Done (), d\<lparr>dmem := m\<rparr>))"

definition word_bytes :: "nat \<Rightarrow> 'a::len word \<Rightarrow> bytes" where
  "word_bytes n w = map (\<lambda>i. ucast (drop_bit (8 * i) w)) [0..<n]"

definition iter_field :: "(pb_field_iter \<Rightarrow> 'a decoding) \<Rightarrow> 'a decoding" where
  "iter_field f d = f (diter d) d"

definition set_pData :: "nat \<Rightarrow> unit decoding" where
  "set_pData a d = (Done (), d\<lparr>diter := (diter d)\<lparr>pData := a\<rparr>\<rparr>)"

text \<open>The counter \<open>pSize\<close> points to, as \<open>pb_size_t\<close>.\<close>

definition get_count :: "u16 decoding" where
  "get_count d =
     (case pSize (diter d) of
        NULL_SIZE \<Rightarrow> (Fault, d)
      | SIZE_AT a \<Rightarrow> fetch (\<lambda>m. load_word 2 m a) d
      | ARRAY_SIZE \<Rightarrow> (Done (array_size (diter d)), d)
      | FIXED_COUNT \<Rightarrow> (Done (fixed_count_size d), d))"

definition set_count :: "u16 \<Rightarrow> unit decoding" where
  "set_count n d =
     (case pSize (diter d) of
        NULL_SIZE \<Rightarrow> (Fault, d)
      | SIZE_AT a \<Rightarrow> poke a (word_bytes 2 n) d
      | ARRAY_SIZE \<Rightarrow> (Done (), d\<lparr>diter := (diter d)\<lparr>array_size := n\<rparr>\<rparr>)
      | FIXED_COUNT \<Rightarrow> (Done (), d\<lparr>fixed_count_size := n\<rparr>))"

text \<open>And as \<open>bool\<close>.\<close>

definition set_has :: "bool \<Rightarrow> unit decoding" where
  "set_has b d = (case pSize (diter d) of
        NULL_SIZE \<Rightarrow> (Done (), d)
      | SIZE_AT a \<Rightarrow> poke a [of_bool b] d
      | ARRAY_SIZE \<Rightarrow> (Done (), d\<lparr>diter := (diter d)\<lparr>array_size := (array_size (diter d) AND 0xFF00) OR of_bool b\<rparr>\<rparr>)
      | FIXED_COUNT \<Rightarrow> (Done (), d\<lparr>fixed_count_size := (fixed_count_size d AND 0xFF00) OR of_bool b\<rparr>))"

section \<open>Model: basic fields\<close>

text \<open>Bytes read into the memory.\<close>

definition read_into :: "nat \<Rightarrow> nat \<Rightarrow> unit decoding" where
  "read_into a n = pb_bind (reading (pb_read n)) (\<lambda>bs. if n = 0 then pb_return () else poke a bs)"

definition pb_dec_bool :: "pb_field_iter \<Rightarrow> unit decoding" where
  "pb_dec_bool it = pb_bind (reading pb_decode_bool) (\<lambda>v. poke (pData it) [of_bool v])"

definition dec_fixed32 :: "pb_field_iter \<Rightarrow> unit decoding" where
  "dec_fixed32 it = pb_bind (reading pb_decode_fixed32) (\<lambda>v. poke (pData it) (word_bytes 4 v))"

definition dec_fixed64 :: "pb_field_iter \<Rightarrow> unit decoding" where
  "dec_fixed64 it = pb_bind (reading pb_decode_fixed64) (\<lambda>v. poke (pData it) (word_bytes 8 v))"

text \<open>A number is stored first and then compared with what was stored.\<close>

definition store_number :: "(u64 \<Rightarrow> u64) \<Rightarrow> pb_field_iter \<Rightarrow> u64 \<Rightarrow> unit decoding" where
  "store_number clamp it v =
     pb_bind (poke (pData it) (word_bytes (unat (data_size it)) v))
       (\<lambda>_. if clamp v \<noteq> v then decode_error ''integer too large'' else pb_return ())"

definition clamp_unsigned :: "u16 \<Rightarrow> u64 \<Rightarrow> u64" where
  "clamp_unsigned n v =
     (if n = 8 then v else if n = 4 then ucast (ucast v :: u32) else if n = 2 then ucast (ucast v :: u16) else ucast (ucast v :: u8))"

definition clamp_signed :: "u16 \<Rightarrow> u64 \<Rightarrow> u64" where
  "clamp_signed n v =
     (if n = 8 then v else if n = 4 then scast (ucast v :: u32) else if n = 2 then scast (ucast v :: u16) else scast (ucast v :: u8))"

definition pb_dec_varint :: "pb_field_iter \<Rightarrow> unit decoding" where
  "pb_dec_varint it =
     (let n = data_size it in
      if PB_LTYPE (ptype it) = PB_LTYPE_UVARINT then
        pb_bind (reading pb_decode_varint) (\<lambda>v.
          if n \<notin> {1, 2, 4, 8} then decode_error ''invalid data_size'' else store_number (clamp_unsigned n) it v)
      else
        pb_bind (if PB_LTYPE (ptype it) = PB_LTYPE_SVARINT then reading pb_decode_svarint
                 else pb_bind (reading pb_decode_varint) (\<lambda>v. pb_return (if n = 8 then v else scast (ucast v :: u32)))) (\<lambda>v.
          if n \<notin> {1, 2, 4, 8} then decode_error ''invalid data_size'' else store_number (clamp_signed n) it v))"

text \<open>Strings and bytes in the message itself; for a pointer there is no memory to allocate.\<close>

definition pb_dec_bytes :: "pb_field_iter \<Rightarrow> unit decoding" where
  "pb_dec_bytes it =
     pb_bind (reading pb_decode_varint32) (\<lambda>n.
       if 65535 < n then decode_error ''bytes overflow''
       else if PB_ATYPE (ptype it) = PB_ATYPE_POINTER then decode_error ''no malloc support''
       else if ucast (data_size it) < n + 2 then decode_error ''bytes overflow''
       else pb_bind (poke (pData it) (word_bytes 2 n)) (\<lambda>_. read_into (pData it + 2) (unat n)))"

definition pb_dec_string :: "pb_field_iter \<Rightarrow> unit decoding" where
  "pb_dec_string it =
     pb_bind (reading pb_decode_varint32) (\<lambda>n.
       if n = - 1 then decode_error ''size too large''
       else if PB_ATYPE (ptype it) = PB_ATYPE_POINTER then decode_error ''no malloc support''
       else if ucast (data_size it) < n + 1 then decode_error ''string overflow''
       else pb_bind (poke (pData it + unat n) [0]) (\<lambda>_. read_into (pData it) (unat n)))"

definition pb_dec_fixed_length_bytes :: "pb_field_iter \<Rightarrow> unit decoding" where
  "pb_dec_fixed_length_bytes it =
     pb_bind (reading pb_decode_varint32) (\<lambda>n.
       if 65535 < n then decode_error ''bytes overflow''
       else if n = 0 then poke (pData it) (replicate (unat (data_size it)) 0)
       else if n \<noteq> ucast (data_size it) then decode_error ''incorrect fixed length bytes size''
       else read_into (pData it) (unat (data_size it)))"

section \<open>Model: submessages\<close>

text \<open>\<open>inner flags d a\<close> decodes a message of the descriptor \<open>d\<close> at the address \<open>a\<close>.\<close>

type_synonym inner = "u32 \<Rightarrow> pb_msgdesc \<Rightarrow> nat \<Rightarrow> handler"

abbreviation (input) PB_DECODE_NOINIT :: u32 where "PB_DECODE_NOINIT \<equiv> 1"
abbreviation (input) PB_DECODE_DELIMITED :: u32 where "PB_DECODE_DELIMITED \<equiv> 2"
abbreviation (input) PB_DECODE_NULLTERMINATED :: u32 where "PB_DECODE_NULLTERMINATED \<equiv> 4"

text \<open>Closing the substream that is left gives its result unless this fails itself.\<close>

definition close_substream :: "'a pb_result \<Rightarrow> pb_istream \<Rightarrow> 'a decoding" where
  "close_substream r sub d =
     (if r = Fault then (Fault, d) else pb_bind (reading (pb_close_string_substream sub)) (\<lambda>_ d. (r, d)) d)"

definition submessage_flags :: "pb_type \<Rightarrow> u32" where
  "submessage_flags t = (if PB_ATYPE t = PB_ATYPE_STATIC \<and> PB_HTYPE t \<noteq> PB_HTYPE_REPEATED then PB_DECODE_NOINIT else 0)"

definition message_callback :: "decode_hooks \<Rightarrow> pb_field_iter \<Rightarrow> memory \<Rightarrow> pb_istream \<Rightarrow> (unit pb_result \<times> memory \<times> pb_istream) \<times> bool" where
  "message_callback h it m s =
     (if PB_LTYPE (ptype it) = PB_LTYPE_SUBMSG_W_CB \<and> pSize it \<noteq> NULL_SIZE
      then case message_decoder h it of
             None \<Rightarrow> ((Done (), m, s), False)
           | Some f \<Rightarrow> (case f m s of (r, m, s) \<Rightarrow> ((r, m, s), bytes_left s = 0))
      else ((Done (), m, s), False))"

definition submessage_of :: "inner \<Rightarrow> decode_hooks \<Rightarrow> pb_field_iter \<Rightarrow> pb_istream \<Rightarrow> unit decoding" where
  "submessage_of inner h it sub =
     (case submsg_desc it of
        None \<Rightarrow> decode_error ''invalid field descriptor''
      | Some sd \<Rightarrow> (\<lambda>d.
          let ((r, m, s), consumed) = message_callback h it (dmem d) sub;
              (r, m, s) = (if r = Done () \<and> \<not> consumed then inner (submessage_flags (ptype it)) sd (pData it) m s else (r, m, s))
          in close_substream r s (d\<lparr>dmem := m\<rparr>)))"

definition pb_dec_submessage :: "inner \<Rightarrow> decode_hooks \<Rightarrow> pb_field_iter \<Rightarrow> unit decoding" where
  "pb_dec_submessage inner h it = pb_bind (reading pb_make_string_substream) (submessage_of inner h it)"

section \<open>Model: fields\<close>

abbreviation (input) PB_WT_PACKED :: u32 where "PB_WT_PACKED \<equiv> 255"

definition wire_check :: "u32 set \<Rightarrow> u32 \<Rightarrow> unit decoding \<Rightarrow> unit decoding" where
  "wire_check ok wire f = (if wire \<in> ok then f else decode_error ''wrong wire type'')"

definition decode_basic_field :: "inner \<Rightarrow> decode_hooks \<Rightarrow> u32 \<Rightarrow> unit decoding" where
  "decode_basic_field inner h wire =
     iter_field (\<lambda>it.
       let l = PB_LTYPE (ptype it) in
       if l = PB_LTYPE_BOOL then wire_check {PB_WT_VARINT, PB_WT_PACKED} wire (pb_dec_bool it)
       else if l = PB_LTYPE_VARINT \<or> l = PB_LTYPE_UVARINT \<or> l = PB_LTYPE_SVARINT
         then wire_check {PB_WT_VARINT, PB_WT_PACKED} wire (pb_dec_varint it)
       else if l = PB_LTYPE_FIXED32 then wire_check {PB_WT_32BIT, PB_WT_PACKED} wire (dec_fixed32 it)
       else if l = PB_LTYPE_FIXED64 then wire_check {PB_WT_64BIT, PB_WT_PACKED} wire (dec_fixed64 it)
       else if l = PB_LTYPE_BYTES then wire_check {PB_WT_STRING} wire (pb_dec_bytes it)
       else if l = PB_LTYPE_STRING then wire_check {PB_WT_STRING} wire (pb_dec_string it)
       else if l = PB_LTYPE_SUBMESSAGE \<or> l = PB_LTYPE_SUBMSG_W_CB then wire_check {PB_WT_STRING} wire (pb_dec_submessage inner h it)
       else if l = PB_LTYPE_FIXED_LENGTH_BYTES then wire_check {PB_WT_STRING} wire (pb_dec_fixed_length_bytes it)
       else decode_error ''invalid field type'')"

text \<open>
  The loop over a packed array runs on the substream; its result is the status, which the caller looks at only after
  the substream is checked.  Every entry takes a byte, so one more step than the substream has bytes is enough.
\<close>

fun packed_loop :: "unit decoding \<Rightarrow> nat \<Rightarrow> unit decoding" where
  "packed_loop f 0 = (\<lambda>d. (Fault, d))"
| "packed_loop f (Suc n) =
     pb_bind get_count (\<lambda>c d.
       if 0 < bytes_left (dstream d) \<and> c < array_size (diter d)
       then pb_bind f (\<lambda>_. pb_bind get_count (\<lambda>c. pb_bind (set_count (c + 1)) (\<lambda>_.
              pb_bind (iter_field (\<lambda>it. set_pData (pData it + unat (data_size it)))) (\<lambda>_. packed_loop f n)))) d
       else (Done (), d))"

definition array_position :: "u16 decoding" where
  "array_position =
     pb_bind get_count (\<lambda>c. pb_bind (iter_field (\<lambda>it. set_pData (pField it + unat (data_size it) * unat c))) (\<lambda>_. pb_return c))"

definition packed_of :: "inner \<Rightarrow> decode_hooks \<Rightarrow> pb_istream \<Rightarrow> unit decoding" where
  "packed_of inner h sub d =
     (case packed_loop (decode_basic_field inner h PB_WT_PACKED) (Suc (bytes_left sub)) (d\<lparr>dstream := sub\<rparr>) of (r, e) \<Rightarrow>
        let s = dstream e; e = e\<lparr>dstream := dstream d\<rparr> in
        if r = Fault then (Fault, e)
        else if bytes_left s \<noteq> 0 then decode_error ''array overflow'' e
        else close_substream r s e)"

definition decode_packed :: "inner \<Rightarrow> decode_hooks \<Rightarrow> unit decoding" where
  "decode_packed inner h = pb_bind array_position (\<lambda>_. pb_bind (reading pb_make_string_substream) (packed_of inner h))"

definition decode_repeated :: "inner \<Rightarrow> decode_hooks \<Rightarrow> u32 \<Rightarrow> unit decoding" where
  "decode_repeated inner h wire =
     pb_bind array_position (\<lambda>c. pb_bind (set_count (c + 1)) (\<lambda>_. iter_field (\<lambda>it.
       if array_size it \<le> c then decode_error ''array overflow'' else decode_basic_field inner h wire)))"

text \<open>\<open>defaults it\<close> sets the message an iterator stands in to its default values.\<close>

type_synonym defaulter = "pb_field_iter \<Rightarrow> memory \<Rightarrow> unit pb_result \<times> memory"

definition needs_defaults :: "pb_msgdesc \<Rightarrow> bool" where
  "needs_defaults d \<longleftrightarrow> default_value d \<noteq> None \<or> field_callback d \<noteq> None \<or> submsg_info d \<noteq> []"

definition submessage_defaults :: "defaulter \<Rightarrow> pb_msgdesc \<Rightarrow> nat \<Rightarrow> memory \<Rightarrow> unit pb_result \<times> memory" where
  "submessage_defaults defaults sd a m =
     (case pb_field_iter_begin m sd a of
        None \<Rightarrow> (Fault, m)
      | Some (ok, it) \<Rightarrow> if ok then defaults it m else (Done (), m))"

definition in_memory :: "(memory \<Rightarrow> 'a pb_result \<times> memory) \<Rightarrow> 'a decoding" where
  "in_memory f d = (case f (dmem d) of (r, m) \<Rightarrow> (r, d\<lparr>dmem := m\<rparr>))"

text \<open>A failure with a message of its own.\<close>

definition or_error :: "string \<Rightarrow> unit decoding \<Rightarrow> unit decoding" where
  "or_error msg f d = (case f d of (Failed, e) \<Rightarrow> decode_error msg e | r \<Rightarrow> r)"

definition decode_oneof :: "inner \<Rightarrow> defaulter \<Rightarrow> decode_hooks \<Rightarrow> u32 \<Rightarrow> unit decoding" where
  "decode_oneof inner defaults h wire =
     iter_field (\<lambda>it.
       pb_bind (if PB_LTYPE_IS_SUBMSG (ptype it)
                then pb_bind get_count (\<lambda>which.
                  if which \<noteq> tag it
                  then pb_bind (poke (pData it) (replicate (unat (data_size it)) 0)) (\<lambda>_.
                    case submsg_desc it of
                      None \<Rightarrow> (\<lambda>d. (Fault, d))
                    | Some sd \<Rightarrow>
                        if needs_defaults sd
                        then or_error ''failed to set defaults'' (in_memory (submessage_defaults defaults sd (pData it)))
                        else pb_return ())
                  else pb_return ())
                else pb_return ()) (\<lambda>_.
       pb_bind (set_count (tag it)) (\<lambda>_. decode_basic_field inner h wire)))"

definition decode_static_field :: "inner \<Rightarrow> defaulter \<Rightarrow> decode_hooks \<Rightarrow> u32 \<Rightarrow> unit decoding" where
  "decode_static_field inner defaults h wire =
     iter_field (\<lambda>it.
       let ht = PB_HTYPE (ptype it) in
       if ht = PB_HTYPE_REQUIRED then decode_basic_field inner h wire
       else if ht = PB_HTYPE_OPTIONAL then pb_bind (set_has True) (\<lambda>_. decode_basic_field inner h wire)
       else if ht = PB_HTYPE_REPEATED then
         (if wire = PB_WT_STRING \<and> PB_LTYPE (ptype it) \<le> PB_LTYPE_LAST_PACKABLE then decode_packed inner h
          else decode_repeated inner h wire)
       else decode_oneof inner defaults h wire)"

definition decode_pointer_field :: "unit decoding" where
  "decode_pointer_field = decode_error ''no malloc support''"

text \<open>The callback of a field runs on its string until it makes no progress, or on the bytes of one number.\<close>

fun raw_varint :: "nat \<Rightarrow> bytes \<Rightarrow> bytes reader" where
  "raw_varint 0 acc = pb_read_error ''varint overflow''"
| "raw_varint (Suc n) acc =
     pb_bind (pb_read 1) (\<lambda>b. if hd b AND 0x80 \<noteq> 0 then raw_varint n (acc @ b) else pb_return (acc @ b))"

definition read_raw_value :: "u32 \<Rightarrow> bytes reader" where
  "read_raw_value wire =
     (if wire = PB_WT_VARINT then raw_varint 10 []
      else if wire = PB_WT_64BIT then pb_read 8
      else if wire = PB_WT_32BIT then pb_read 4
      else pb_read_error ''invalid wire_type'')"

function callback_loop :: "handler \<Rightarrow> handler" where
  "callback_loop f m s =
     (case f m s of (r, m', s') \<Rightarrow>
        if r = Done () \<and> 0 < bytes_left s' \<and> bytes_left s' < bytes_left s then callback_loop f m' s' else (r, m', s'))"
  by pat_completeness auto

termination
  by (relation "measure (\<lambda>(_, _, s). bytes_left s)") auto

declare callback_loop.simps [simp del]

definition decode_callback_field :: "decode_hooks \<Rightarrow> u32 \<Rightarrow> unit decoding" where
  "decode_callback_field h wire =
     iter_field (\<lambda>it.
       case field_callback (descriptor it) of
         None \<Rightarrow> reading (pb_skip_field wire)
       | Some c \<Rightarrow>
           if wire = PB_WT_STRING then
             pb_bind (reading pb_make_string_substream) (\<lambda>sub d.
               case callback_loop (field_decoder h c it) (dmem d) sub of
                 (Done _, m, s) \<Rightarrow> close_substream (Done ()) s (d\<lparr>dmem := m\<rparr>)
               | (Failed, m, s) \<Rightarrow>
                   decode_error (case ierrmsg s of None \<Rightarrow> ''callback failed'' | Some e \<Rightarrow> e) (d\<lparr>dmem := m\<rparr>)
               | (Fault, m, _) \<Rightarrow> (Fault, d\<lparr>dmem := m\<rparr>))
           else
             pb_bind (reading (read_raw_value wire)) (\<lambda>bs d.
               case field_decoder h c it (dmem d) (pb_istream_from_buffer bs (length bs)) of (r, m, _) \<Rightarrow> (r, d\<lparr>dmem := m\<rparr>)))"

definition decode_field :: "inner \<Rightarrow> defaulter \<Rightarrow> decode_hooks \<Rightarrow> u32 \<Rightarrow> unit decoding" where
  "decode_field inner defaults h wire =
     iter_field (\<lambda>it.
       let a = PB_ATYPE (ptype it) in
       if a = PB_ATYPE_STATIC then decode_static_field inner defaults h wire
       else if a = PB_ATYPE_POINTER then decode_pointer_field
       else if a = PB_ATYPE_CALLBACK then decode_callback_field h wire
       else decode_error ''invalid field type'')"

section \<open>Model: default values\<close>

definition init_data :: "defaulter \<Rightarrow> pb_field_iter \<Rightarrow> unit decoding" where
  "init_data defaults it =
     (if PB_LTYPE_IS_SUBMSG (ptype it)
      then case submsg_desc it of
             None \<Rightarrow> (\<lambda>d. (Fault, d))
           | Some sd \<Rightarrow> if needs_defaults sd then in_memory (submessage_defaults defaults sd (pData it))
                        else poke (pData it) (replicate (unat (data_size it)) 0)
      else poke (pData it) (replicate (unat (data_size it)) 0))"

definition pb_field_set_to_default :: "defaulter \<Rightarrow> decode_hooks \<Rightarrow> unit decoding" where
  "pb_field_set_to_default defaults h =
     iter_field (\<lambda>it.
       let counted = (PB_HTYPE (ptype it) = PB_HTYPE_REPEATED \<or> PB_HTYPE (ptype it) = PB_HTYPE_ONEOF) in
       if PB_LTYPE (ptype it) = PB_LTYPE_EXTENSION then
         pb_bind (fetch (\<lambda>m. load_pointer m (pData it))) (\<lambda>p.
           if p = 0 then pb_return () else in_memory (extension_default h p))
       else if PB_ATYPE (ptype it) = PB_ATYPE_STATIC then
         (if PB_HTYPE (ptype it) = PB_HTYPE_OPTIONAL \<and> pSize it \<noteq> NULL_SIZE
          then pb_bind (set_has False) (\<lambda>_. init_data defaults it)
          else if counted then set_count 0
          else init_data defaults it)
       else if PB_ATYPE (ptype it) = PB_ATYPE_POINTER then
         pb_bind (poke (pField it) (word_bytes 4 (0 :: u32))) (\<lambda>_. if counted then set_count 0 else pb_return ())
       else pb_return ())"

definition move_iter :: "(memory \<Rightarrow> pb_field_iter \<Rightarrow> (bool \<times> pb_field_iter) option) \<Rightarrow> bool decoding" where
  "move_iter f d = (case f (dmem d) (diter d) of None \<Rightarrow> (Fault, d) | Some (b, it) \<Rightarrow> (Done b, d\<lparr>diter := it\<rparr>))"

definition next_tag :: "(u32 \<times> u32) decoding" where
  "next_tag = reading (\<lambda>s. fst (pb_decode_tag s))"

fun defaults_loop :: "unit decoding \<Rightarrow> (u32 \<Rightarrow> unit decoding) \<Rightarrow> nat \<Rightarrow> u32 \<times> u32 \<Rightarrow> unit decoding" where
  "defaults_loop set_default field 0 next_default = (\<lambda>d. (Fault, d))"
| "defaults_loop set_default field (Suc n) (wire, tg) =
     pb_bind set_default (\<lambda>_.
     pb_bind (iter_field (\<lambda>it.
       if tg \<noteq> 0 \<and> ucast (tag it) = tg
       then pb_bind (field wire) (\<lambda>_. pb_bind next_tag (\<lambda>t. pb_bind (set_has False) (\<lambda>_. pb_return t)))
       else pb_return (wire, tg))) (\<lambda>t.
     pb_bind (move_iter pb_field_iter_next) (\<lambda>again.
       if again then defaults_loop set_default field n t else pb_return ())))"

definition pb_message_set_to_defaults :: "inner \<Rightarrow> defaulter \<Rightarrow> decode_hooks \<Rightarrow> pb_field_iter \<Rightarrow> memory \<Rightarrow> unit pb_result \<times> decoder" where
  "pb_message_set_to_defaults inner defaults h it m =
     (let run = (\<lambda>s. \<lparr>dmem = m, dstream = s, diter = it, fixed_count_size = 0\<rparr>);
          loop = defaults_loop (pb_field_set_to_default defaults h) (decode_field inner defaults h) (unat (field_count (descriptor it)))
      in case default_value (descriptor it) of
           None \<Rightarrow> loop (PB_WT_VARINT, 0) (run (pb_istream_from_buffer [] 0))
         | Some bs \<Rightarrow> pb_bind next_tag loop (run (pb_istream_from_buffer bs (2 ^ 32 - 1))))"

section \<open>Model: messages\<close>

record progress =
  extension_range_start :: u32
  extensions :: nat
  fixed_count_field :: u16
  fixed_count_total_size :: u16
  fields_seen :: "u32 list"

definition unknown_field :: "decode_hooks \<Rightarrow> u32 \<Rightarrow> u32 \<Rightarrow> progress \<Rightarrow> progress decoding" where
  "unknown_field h wire tg p =
     pb_bind (if extension_range_start p = 0
              then pb_bind (move_iter pb_field_iter_find_extension) (\<lambda>found.
                     pb_bind (iter_field (\<lambda>it.
                       if found
                       then pb_bind (fetch (\<lambda>m. load_pointer m (pData it)))
                              (\<lambda>e. pb_return (p\<lparr>extensions := e, extension_range_start := ucast (tag it)\<rparr>))
                       else pb_return p)) (\<lambda>p.
                     pb_return (if extensions p = 0 then p\<lparr>extension_range_start := - 1\<rparr> else p)))
              else pb_return p) (\<lambda>p d.
       pb_bind (if extension_range_start p \<le> tg \<and> extensions p \<noteq> 0
                then (\<lambda>d. case extension_decoder h (extensions p) tg wire (dmem d) (dstream d) of
                            (r, m, s) \<Rightarrow> (r, d\<lparr>dmem := m, dstream := s\<rparr>))
                else pb_return ()) (\<lambda>_ e.
         if bytes_left (dstream e) \<noteq> bytes_left (dstream d) then (Done p, e)
         else pb_bind (reading (pb_skip_field wire)) (\<lambda>_. pb_return p) e) d)"

text \<open>An array of fixed length has its counter in the decoder, and must be complete before another one begins.\<close>

definition incomplete :: "progress \<Rightarrow> decoder \<Rightarrow> bool" where
  "incomplete p d \<longleftrightarrow> fixed_count_field p \<noteq> 65535 \<and> fixed_count_size d \<noteq> fixed_count_total_size p"

definition fixed_count :: "progress \<Rightarrow> progress decoding" where
  "fixed_count p d =
     (let it = diter d; counter = (\<lambda>d. d\<lparr>diter := (diter d)\<lparr>pSize := FIXED_COUNT\<rparr>\<rparr>) in
      if PB_HTYPE (ptype it) = PB_HTYPE_REPEATED \<and> pSize it = ARRAY_SIZE then
        (if fixed_count_field p \<noteq> index it then
           (if incomplete p d then decode_error ''wrong size for fixed count field'' d
            else (Done (p\<lparr>fixed_count_field := index it, fixed_count_total_size := array_size it\<rparr>),
                  counter (d\<lparr>fixed_count_size := 0\<rparr>)))
         else (Done p, counter d))
      else (Done p, d))"

definition seen_required :: "pb_field_iter \<Rightarrow> progress \<Rightarrow> progress" where
  "seen_required it p =
     (if PB_HTYPE (ptype it) = PB_HTYPE_REQUIRED \<and> required_field_index it < 64
      then let i = unat (drop_bit 5 (required_field_index it))
           in p\<lparr>fields_seen := (fields_seen p)[i := fields_seen p ! i OR push_bit (unat (required_field_index it AND 31)) 1]\<rparr>
      else p)"

definition decode_tagged :: "decode_hooks \<Rightarrow> (u32 \<Rightarrow> unit decoding) \<Rightarrow> u32 \<Rightarrow> u32 \<Rightarrow> progress \<Rightarrow> progress decoding" where
  "decode_tagged h field wire tg p =
     pb_bind (move_iter (\<lambda>m. pb_field_iter_find m tg)) (\<lambda>found. iter_field (\<lambda>it.
       if \<not> found \<or> PB_LTYPE (ptype it) = PB_LTYPE_EXTENSION then unknown_field h wire tg p
       else pb_bind (fixed_count p) (\<lambda>p. pb_bind (field wire) (\<lambda>_. pb_return (seen_required it p)))))"

text \<open>Every round takes at least the tag, so one more round than the stream has bytes is enough.\<close>

fun decode_loop :: "decode_hooks \<Rightarrow> (u32 \<Rightarrow> unit decoding) \<Rightarrow> u32 \<Rightarrow> nat \<Rightarrow> progress \<Rightarrow> progress decoding" where
  "decode_loop h field flags 0 p = (\<lambda>d. (Fault, d))"
| "decode_loop h field flags (Suc n) p =
     (\<lambda>d. if bytes_left (dstream d) = 0 then (Done p, d)
          else case pb_decode_tag (dstream d) of
                 ((Done (wire, tg), s), _) \<Rightarrow>
                   if tg = 0
                   then (if flags AND PB_DECODE_NULLTERMINATED \<noteq> 0 then (Done p, d\<lparr>dstream := s\<rparr>)
                         else decode_error ''zero tag'' (d\<lparr>dstream := s\<rparr>))
                   else pb_bind (decode_tagged h field wire tg p) (decode_loop h field flags n) (d\<lparr>dstream := s\<rparr>)
               | ((Failed, s), eof) \<Rightarrow> (if eof then Done p else Failed, d\<lparr>dstream := s\<rparr>)
               | ((Fault, s), _) \<Rightarrow> (Fault, d\<lparr>dstream := s\<rparr>))"

definition all_required :: "u16 \<Rightarrow> u32 list \<Rightarrow> bool" where
  "all_required required seen \<longleftrightarrow>
     (let n = unat (min required 64) in
      list_all (\<lambda>i. seen ! i = - 1) [0..<n div 32] \<and>
      (n mod 32 \<noteq> 0 \<longrightarrow> seen ! (n div 32) = drop_bit (32 - n mod 32) (- 1)))"

definition decode_checks :: "pb_msgdesc \<Rightarrow> progress \<Rightarrow> unit decoding" where
  "decode_checks desc p d =
     (if incomplete p d then decode_error ''wrong size for fixed count field'' d
      else if \<not> all_required (required_field_count desc) (fields_seen p) then decode_error ''missing required field'' d
      else (Done (), d))"

definition decode_message :: "inner \<Rightarrow> defaulter \<Rightarrow> decode_hooks \<Rightarrow> inner" where
  "decode_message inner defaults h flags desc a m s =
     (case pb_field_iter_begin m desc a of
        None \<Rightarrow> (Fault, m, s)
      | Some (ok, it) \<Rightarrow>
          let d = \<lparr>dmem = m, dstream = s, diter = it, fixed_count_size = 0\<rparr>;
              p = \<lparr>extension_range_start = 0, extensions = 0, fixed_count_field = 65535, fixed_count_total_size = 0, fields_seen = [0, 0]\<rparr>;
              (r, e) = pb_bind
                (if ok \<and> flags AND PB_DECODE_NOINIT = 0
                 then or_error ''failed to set defaults'' (\<lambda>d.
                        case pb_message_set_to_defaults inner defaults h it m of (r, e) \<Rightarrow> (r, d\<lparr>dmem := dmem e, diter := diter e\<rparr>))
                 else pb_return ()) (\<lambda>_.
               pb_bind (decode_loop h (decode_field inner defaults h) flags (Suc (bytes_left s)) p) (decode_checks desc)) d
          in (r, dmem e, dstream e))"

text \<open>\<open>k\<close> bounds the depth of nested messages; a descriptor contains its submessages, so its depth is finite.\<close>

fun message_defaults :: "decode_hooks \<Rightarrow> nat \<Rightarrow> defaulter" and pb_decode_inner :: "decode_hooks \<Rightarrow> nat \<Rightarrow> inner" where
  "message_defaults h 0 = (\<lambda>it m. (Fault, m))"
| "message_defaults h (Suc k) = (\<lambda>it m.
     case pb_message_set_to_defaults (pb_decode_inner h k) (message_defaults h k) h it m of (r, e) \<Rightarrow> (r, dmem e))"
| "pb_decode_inner h 0 = (\<lambda>flags desc a m s. (Fault, m, s))"
| "pb_decode_inner h (Suc k) = decode_message (pb_decode_inner h k) (message_defaults h k) h"

definition pb_decode :: "decode_hooks \<Rightarrow> nat \<Rightarrow> pb_msgdesc \<Rightarrow> nat \<Rightarrow> handler" where
  "pb_decode h k = pb_decode_inner h k 0"

definition pb_decode_ex :: "decode_hooks \<Rightarrow> nat \<Rightarrow> u32 \<Rightarrow> pb_msgdesc \<Rightarrow> nat \<Rightarrow> handler" where
  "pb_decode_ex h k flags desc a m s =
     (if flags AND PB_DECODE_DELIMITED = 0 then pb_decode_inner h k flags desc a m s
      else case pb_make_string_substream s of
             (Done sub, s) \<Rightarrow>
               (case pb_decode_inner h k flags desc a m sub of (r, m, sub) \<Rightarrow>
                  if r = Fault then (Fault, m, s)
                  else (case pb_close_string_substream sub s of
                          (Done _, s) \<Rightarrow> (r, m, s)
                        | (Failed, s) \<Rightarrow> (Failed, m, s)
                        | (Fault, s) \<Rightarrow> (Fault, m, s)))
           | (Failed, s) \<Rightarrow> (Failed, m, s)
           | (Fault, s) \<Rightarrow> (Fault, m, s))"

end
