(* ===== verification/PbDecodeEntry.thy ===== *)
theory PbDecodeEntry
  imports PbDecode PbMessage
begin

text \<open>
  Memory safety of the decoder of messages: whatever the bytes of a message are, decoding it ends, reads nothing behind
  the message and writes nothing outside the structure it decodes into.
\<close>

section \<open>Layout of a structure\<close>

text \<open>
  \<open>values_laid_out sub z\<close>: a field with these values is inside a structure of \<open>z\<close> bytes, its entries have the size its type
  needs, and its counter is inside the structure and beside the entries; \<open>sub\<close> is the layout of submessages.
\<close>

definition slot_ok :: "(pb_msgdesc \<Rightarrow> nat \<Rightarrow> bool) \<Rightarrow> pb_type \<Rightarrow> nat \<Rightarrow> pb_msgdesc option \<Rightarrow> bool" where
  "slot_ok sub t sz sd \<longleftrightarrow>
     (let l = PB_LTYPE t in
      (l = PB_LTYPE_BOOL \<longrightarrow> 1 \<le> sz) \<and> (l = PB_LTYPE_FIXED32 \<longrightarrow> 4 \<le> sz) \<and> (l = PB_LTYPE_FIXED64 \<longrightarrow> 8 \<le> sz) \<and>
      (l = PB_LTYPE_SUBMESSAGE \<longrightarrow> (case sd of None \<Rightarrow> False | Some sd \<Rightarrow> sub sd sz)))"

definition entries :: "pb_type \<Rightarrow> u16 \<Rightarrow> u16 \<Rightarrow> nat" where
  "entries t sz arr = unat sz * (if PB_HTYPE t = PB_HTYPE_REPEATED then unat arr else 1)"

definition counter_width :: "pb_type \<Rightarrow> nat" where
  "counter_width t = (if PB_HTYPE t = PB_HTYPE_OPTIONAL then 1 else 2)"

definition submsg_at :: "pb_msgdesc \<Rightarrow> nat \<Rightarrow> pb_msgdesc option" where
  "submsg_at d i =
     (if PB_LTYPE_IS_SUBMSG (field_type (word0_at d i)) then elem_at (submsg_info d) (snd (snd (start_of d i))) else None)"

definition values_laid_out :: "(pb_msgdesc \<Rightarrow> nat \<Rightarrow> bool) \<Rightarrow> nat \<Rightarrow> pb_type \<Rightarrow> u16 \<times> u16 \<times> u8 \<times> u32 \<times> u16 \<Rightarrow> pb_msgdesc option \<Rightarrow> bool" where
  "values_laid_out sub z ty v sd \<longleftrightarrow>
     (case v of (arr, t, so, off, sz) \<Rightarrow>
        let lo = unat off; hi = lo + entries ty sz arr; c = int lo - sint so in
        PB_LTYPE ty \<noteq> PB_LTYPE_EXTENSION \<and> PB_LTYPE ty \<noteq> PB_LTYPE_SUBMSG_W_CB \<and>
        (PB_ATYPE ty = PB_ATYPE_STATIC \<longrightarrow> hi \<le> z \<and> slot_ok sub ty (unat sz) sd) \<and>
        (PB_ATYPE ty = PB_ATYPE_POINTER \<longrightarrow> lo + 4 \<le> z) \<and>
        (PB_ATYPE ty = PB_ATYPE_STATIC \<or> PB_ATYPE ty = PB_ATYPE_POINTER \<longrightarrow>
           (so \<noteq> 0 \<longrightarrow> 0 \<le> c \<and> c + int (counter_width ty) \<le> int z) \<and> (PB_HTYPE ty = PB_HTYPE_ONEOF \<longrightarrow> so \<noteq> 0)) \<and>
        (PB_ATYPE ty = PB_ATYPE_STATIC \<and> so \<noteq> 0 \<longrightarrow> c + int (counter_width ty) \<le> int lo \<or> int hi \<le> c))"

definition field_laid_out :: "(pb_msgdesc \<Rightarrow> nat \<Rightarrow> bool) \<Rightarrow> pb_msgdesc \<Rightarrow> nat \<Rightarrow> nat \<Rightarrow> bool" where
  "field_laid_out sub d z i \<longleftrightarrow>
     (case words_at d i of None \<Rightarrow> False | Some v \<Rightarrow> values_laid_out sub z (field_type (word0_at d i)) v (submsg_at d i))"

text \<open>\<open>k\<close> levels of messages.\<close>

fun laid_out :: "nat \<Rightarrow> pb_msgdesc \<Rightarrow> nat \<Rightarrow> bool" where
  "laid_out 0 d z \<longleftrightarrow> False"
| "laid_out (Suc k) d z \<longleftrightarrow>
     wf_desc d \<and> default_value d = None \<and> field_callback d = None \<and> (\<forall>i<n_fields d. field_laid_out (laid_out k) d z i)"

section \<open>Confinement to a part of the memory\<close>

definition same_outside :: "nat \<Rightarrow> nat \<Rightarrow> memory \<Rightarrow> memory \<Rightarrow> bool" where
  "same_outside lo hi m m' \<longleftrightarrow> 0 < lo \<and> hi \<le> length m \<and> length m' = length m \<and> (\<forall>i. i < lo \<or> hi \<le> i \<longrightarrow> m' ! i = m ! i)"

lemma same_outside_refl: "0 < lo \<Longrightarrow> hi \<le> length m \<Longrightarrow> same_outside lo hi m m"
  by (simp add: same_outside_def)

lemma same_outside_trans: "same_outside lo hi m m' \<Longrightarrow> same_outside lo hi m' m'' \<Longrightarrow> same_outside lo hi m m''"
  by (auto simp: same_outside_def)

lemma same_outside_mono: "same_outside lo hi m m' \<Longrightarrow> 0 < lo' \<Longrightarrow> lo' \<le> lo \<Longrightarrow> hi \<le> hi' \<Longrightarrow> hi' \<le> length m \<Longrightarrow> same_outside lo' hi' m m'"
  by (auto simp: same_outside_def)

lemma same_outside_load: "same_outside lo hi m m' \<Longrightarrow> b + n \<le> lo \<or> hi \<le> b \<Longrightarrow> load_bytes m' b n = load_bytes m b n"
  by (auto simp: same_outside_def load_bytes_def intro!: nth_equalityI)

lemma store_same:
  assumes "lo \<le> b" and "b + length bs \<le> hi" and "0 < lo" and "hi \<le> length m"
  shows "\<exists>m'. store_bytes m b bs = Some m' \<and> same_outside lo hi m m'"
  using assms by (auto simp: store_bytes_def same_outside_def blit_def nth_append)

text \<open>What an operation on one entry keeps: the iterator, the counter, and the memory outside the entry.\<close>

definition within :: "pb_field_iter \<Rightarrow> nat \<Rightarrow> nat \<Rightarrow> decoder \<Rightarrow> decoder \<Rightarrow> bool" where
  "within it lo hi d e \<longleftrightarrow> diter d = it \<and> diter e = it \<and> fixed_count_size e = fixed_count_size d \<and>
     in_message (dstream d) (dstream e) \<and> same_outside lo hi (dmem d) (dmem e)"

interpretation within: confinement "within it lo hi"
proof
  fix s t u
  assume "within it lo hi s t" and "within it lo hi t u"
  then show "within it lo hi s u"
    using message.R_trans same_outside_trans unfolding within_def by (metis (no_types))
next
  fix s t
  assume "within it lo hi s t"
  then show "within it lo hi t t"
    using message.R_target by (auto simp: within_def same_outside_def)
qed

lemma within_mono: "within it lo hi d e \<Longrightarrow> 0 < lo' \<Longrightarrow> lo' \<le> lo \<Longrightarrow> hi \<le> hi' \<Longrightarrow> hi' \<le> length (dmem d) \<Longrightarrow> within it lo' hi' d e"
  by (auto simp: within_def intro: same_outside_mono)

named_theorems field_safe \<open>operations that stay in their entry\<close>

lemma safe_reading [field_safe]: "confined_by in_message r \<Longrightarrow> confined_by (within it lo hi) (reading r)"
  unfolding confined_by_def
proof (intro allI impI)
  fix d
  assume r: "\<forall>s. in_message s s \<longrightarrow> fst (r s) \<noteq> Fault \<and> in_message s (snd (r s))" and d: "within it lo hi d d"
  then have "in_message (dstream d) (dstream d)" by (simp add: within_def)
  then show "fst (reading r d) \<noteq> Fault \<and> within it lo hi d (snd (reading r d))"
    using r d by (cases "r (dstream d)") (force simp: reading_def within_def)
qed

lemma safe_decode_error [field_safe]: "confined_by (within it lo hi) (decode_error msg)"
  unfolding decode_error_def by (intro safe_reading safe_error)

lemma safe_poke: "lo \<le> b \<Longrightarrow> b + length bs \<le> hi \<Longrightarrow> confined_by (within it lo hi) (poke b bs)"
  unfolding confined_by_def
proof (intro allI impI)
  fix d
  assume b: "lo \<le> b" "b + length bs \<le> hi" and d: "within it lo hi d d"
  then obtain m where "store_bytes (dmem d) b bs = Some m" "same_outside lo hi (dmem d) m"
    using store_same [OF b] by (force simp: within_def same_outside_def)
  then show "fst (poke b bs d) \<noteq> Fault \<and> within it lo hi d (snd (poke b bs d))"
    using d by (simp add: poke_def within_def)
qed

lemma length_word_bytes [simp]: "length (word_bytes n w) = n"
  by (simp add: word_bytes_def)

lemma read_length: "pb_read n s = (Done bs, t) \<Longrightarrow> length bs = n"
  by (auto simp: pb_read_def pb_bind_def buf_read_def pb_read_error_def split: if_splits)

lemma safe_read_into: "lo \<le> b \<Longrightarrow> b + n \<le> hi \<Longrightarrow> confined_by (within it lo hi) (read_into b n)"
  unfolding confined_by_def read_into_def
proof (intro allI impI within.bind_at)
  fix d bs e
  assume b: "lo \<le> b" "b + n \<le> hi" and r: "reading (pb_read n) d = (Done bs, e)" and e: "within it lo hi e e"
  have "length bs = n" using r read_length by (auto simp: reading_def split: prod.splits)
  then show "fst ((if n = 0 then pb_return () else poke b bs) e) \<noteq> Fault \<and>
      within it lo hi e (snd ((if n = 0 then pb_return () else poke b bs) e))"
    using safe_poke [of lo b bs hi it] b e by (simp add: confined_by_def pb_return_def)
next
  fix d
  assume "within it lo hi d d"
  then show "fst (reading (pb_read n) d) \<noteq> Fault \<and> within it lo hi d (snd (reading (pb_read n) d))"
    using safe_reading [OF safe_read] by (simp add: confined_by_def)
qed

section \<open>Entries\<close>

abbreviation entry_of :: "pb_field_iter \<Rightarrow> decoder \<Rightarrow> decoder \<Rightarrow> bool" where
  "entry_of it \<equiv> within it (pData it) (pData it + unat (data_size it))"

lemmas entry_safe = within.confined_bind within.confined_return field_safe

lemma safe_if: "(b \<Longrightarrow> confined_by R f) \<Longrightarrow> (\<not> b \<Longrightarrow> confined_by R g) \<Longrightarrow> confined_by R (if b then f else g)"
  by simp

lemma safe_fixed: "confined_by in_message pb_decode_fixed32" "confined_by in_message pb_decode_fixed64"
  "confined_by in_message pb_decode_bool" "confined_by in_message pb_decode_svarint"
  by (simp_all add: pb_decode_svarint_def pb_decode_bool_def pb_decode_fixed32_def pb_decode_fixed64_def pb_confined)

lemma safe_dec_bool: "1 \<le> unat (data_size it) \<Longrightarrow> confined_by (entry_of it) (pb_dec_bool it)"
  unfolding pb_dec_bool_def by (intro entry_safe safe_fixed safe_poke) simp_all

lemma safe_dec_fixed32: "4 \<le> unat (data_size it) \<Longrightarrow> confined_by (entry_of it) (dec_fixed32 it)"
  unfolding dec_fixed32_def by (intro entry_safe safe_fixed safe_poke) simp_all

lemma safe_dec_fixed64: "8 \<le> unat (data_size it) \<Longrightarrow> confined_by (entry_of it) (dec_fixed64 it)"
  unfolding dec_fixed64_def by (intro entry_safe safe_fixed safe_poke) simp_all

lemma safe_store_number: "confined_by (entry_of it) (store_number clamp it v)"
  unfolding store_number_def by (intro entry_safe safe_poke safe_if) simp_all

lemma safe_dec_varint: "confined_by (entry_of it) (pb_dec_varint it)"
  unfolding pb_dec_varint_def Let_def by (intro entry_safe safe_if safe_fixed safe_varint safe_store_number)

lemma unat_ucast_u16 [simp]: "unat (ucast (x :: u16) :: u32) = unat x"
proof -
  have "unat x < 4294967296" using unat_u16_less [of x] by linarith
  then show ?thesis by (simp add: unsigned_ucast_eq take_bit_nat_eq_self)
qed

lemma bytes_fit: "\<not> 65535 < (n :: u32) \<Longrightarrow> \<not> ucast (sz :: u16) < n + 2 \<Longrightarrow> unat n + 2 \<le> unat sz"
proof -
  assume n: "\<not> 65535 < n" and s: "\<not> ucast sz < n + 2"
  have "unat n \<le> 65535" using n by (simp add: word_less_nat_alt)
  then have "unat (n + of_nat 2) = unat n + 2" by (intro unat_add_u32) simp
  then show ?thesis using s by (simp add: word_less_nat_alt)
qed

lemma string_fits: "n \<noteq> (- 1 :: u32) \<Longrightarrow> \<not> ucast (sz :: u16) < n + 1 \<Longrightarrow> unat n + 1 \<le> unat sz"
proof -
  assume n: "n \<noteq> - 1" and s: "\<not> ucast sz < n + 1"
  have "unat (n + 1) = unat n + 1" using n unatSuc [of n] by (metis Suc_eq_plus1 add.commute eq_neg_iff_add_eq_0)
  then show ?thesis using s by (simp add: word_less_nat_alt)
qed

lemma safe_dec_bytes: "confined_by (entry_of it) (pb_dec_bytes it)"
  unfolding pb_dec_bytes_def
proof (intro entry_safe safe_varint32 safe_if)
  fix n :: u32
  assume "\<not> 65535 < n" and "\<not> ucast (data_size it) < n + 2"
  then have fit: "unat n + 2 \<le> unat (data_size it)" by (rule bytes_fit)
  then show "confined_by (entry_of it) (poke (pData it) (word_bytes 2 n))" by (intro safe_poke) simp_all
  show "confined_by (entry_of it) (read_into (pData it + 2) (unat n))" using fit by (intro safe_read_into) simp_all
qed

lemma safe_dec_string: "confined_by (entry_of it) (pb_dec_string it)"
  unfolding pb_dec_string_def
proof (intro entry_safe safe_varint32 safe_if)
  fix n :: u32
  assume "n \<noteq> - 1" and "\<not> ucast (data_size it) < n + 1"
  then have fit: "unat n + 1 \<le> unat (data_size it)" by (rule string_fits)
  then show "confined_by (entry_of it) (poke (pData it + unat n) [0])" by (intro safe_poke) simp_all
  show "confined_by (entry_of it) (read_into (pData it) (unat n))" using fit by (intro safe_read_into) simp_all
qed

lemma safe_dec_fixed_length_bytes: "confined_by (entry_of it) (pb_dec_fixed_length_bytes it)"
  unfolding pb_dec_fixed_length_bytes_def
proof (intro entry_safe safe_varint32 safe_if)
  show "confined_by (entry_of it) (poke (pData it) (replicate (unat (data_size it)) 0))" by (rule safe_poke) simp_all
  show "confined_by (entry_of it) (read_into (pData it) (unat (data_size it)))" by (rule safe_read_into) simp_all
qed

subsection \<open>Submessages\<close>

text \<open>What holds of the decoder of submessages.\<close>

definition safe_inner :: "inner \<Rightarrow> pb_msgdesc \<Rightarrow> nat \<Rightarrow> bool" where
  "safe_inner inner sd z \<longleftrightarrow>
     (\<forall>flags a m s r m' s'. in_message s s \<longrightarrow> 0 < a \<longrightarrow> a + z \<le> length m \<longrightarrow> inner flags sd a m s = (r, m', s') \<longrightarrow>
        r \<noteq> Fault \<and> same_outside a (a + z) m m' \<and> in_message s s')"

lemma safe_innerD: "safe_inner inner sd z \<Longrightarrow> in_message s s \<Longrightarrow> 0 < a \<Longrightarrow> a + z \<le> length m \<Longrightarrow> inner flags sd a m s = (r, m', s') \<Longrightarrow>
    r \<noteq> Fault \<and> same_outside a (a + z) m m' \<and> in_message s s'"
  unfolding safe_inner_def by blast

text \<open>A substream that is used up to \<open>u\<close> and closed, for a decoder that has changed an entry meanwhile.\<close>

lemma close_decoding:
  assumes "split_stream s sub (dstream e)" and "in_message sub u" and "r \<noteq> Fault"
  shows "\<exists>q v. close_substream r u e = (q, e\<lparr>dstream := v\<rparr>) \<and> q \<noteq> Fault \<and> in_message s v"
  using close_at [OF assms(1,2)] assms(3)
  by (cases "pb_close_string_substream u (dstream e)") (auto simp: close_substream_def pb_bind_def reading_def split: pb_result.splits)

lemma bind_substream_decoding:
  assumes s: "in_message (dstream d) (dstream d)" and R: "\<And>t. in_message (dstream d) t \<Longrightarrow> R d (d\<lparr>dstream := t\<rparr>)"
    and f: "\<And>sub t. split_stream (dstream d) sub t \<Longrightarrow> in_message sub sub \<Longrightarrow>
      fst (f sub (d\<lparr>dstream := t\<rparr>)) \<noteq> Fault \<and> R d (snd (f sub (d\<lparr>dstream := t\<rparr>)))"
  shows "fst (pb_bind (reading pb_make_string_substream) f d) \<noteq> Fault \<and> R d (snd (pb_bind (reading pb_make_string_substream) f d))"
proof (cases "pb_make_string_substream (dstream d)")
  case (Pair r t)
  have "r \<noteq> Fault \<and> in_message (dstream d) t" using confined_byD [OF safe_make_substream s Pair] .
  moreover have "split_stream (dstream d) sub t \<and> in_message sub sub" if "r = Done sub" for sub
    using split_at [OF s] Pair that split_sub message.R_target by blast
  ultimately show ?thesis
    using Pair f R by (cases r) (auto simp: pb_bind_def reading_def)
qed

lemma safe_dec_submessage:
  assumes "submsg_desc it = Some sd" and "PB_LTYPE (ptype it) \<noteq> PB_LTYPE_SUBMSG_W_CB" and "safe_inner inner sd (unat (data_size it))"
  shows "confined_by (entry_of it) (pb_dec_submessage inner h it)"
  unfolding confined_by_def pb_dec_submessage_def
proof (intro allI impI)
  fix d
  assume d: "entry_of it d d"
  show "fst (pb_bind (reading pb_make_string_substream) (submessage_of inner h it) d) \<noteq> Fault \<and>
    entry_of it d (snd (pb_bind (reading pb_make_string_substream) (submessage_of inner h it) d))"
  proof (rule bind_substream_decoding)
  fix sub t
  assume s: "split_stream (dstream d) sub t" "in_message sub sub"
  obtain r m u where i: "inner (submessage_flags (ptype it)) sd (pData it) (dmem d) sub = (r, m, u)" by (metis prod_cases3)
  have "r \<noteq> Fault \<and> same_outside (pData it) (pData it + unat (data_size it)) (dmem d) m \<and> in_message sub u"
    using d by (intro safe_innerD [OF assms(3) s(2) _ _ i]) (auto simp: within_def same_outside_def)
  then have i': "r \<noteq> Fault" "same_outside (pData it) (pData it + unat (data_size it)) (dmem d) m" "in_message sub u" by simp_all
  obtain q v where "close_substream r u (d\<lparr>dstream := t, dmem := m\<rparr>) = (q, d\<lparr>dmem := m, dstream := v\<rparr>)" "q \<noteq> Fault" "in_message (dstream d) v"
    using close_decoding [of "dstream d" sub "d\<lparr>dstream := t, dmem := m\<rparr>" u r] s(1) i'(1,3) by auto
  then show "fst (submessage_of inner h it sub (d\<lparr>dstream := t\<rparr>)) \<noteq> Fault \<and> entry_of it d (snd (submessage_of inner h it sub (d\<lparr>dstream := t\<rparr>)))"
    using assms(1,2) d i' by (simp add: submessage_of_def message_callback_def i within_def)
  qed (use d in \<open>simp_all add: within_def\<close>)
qed

lemma safe_iter_field: "confined_by (within it lo hi) (f it) \<Longrightarrow> confined_by (within it lo hi) (iter_field f)"
  by (auto simp: confined_by_def iter_field_def within_def)

lemma safe_wire_check: "confined_by (within it lo hi) f \<Longrightarrow> confined_by (within it lo hi) (wire_check ok wire f)"
  by (simp add: wire_check_def field_safe)

lemma safe_basic_field:
  assumes "slot_ok (safe_inner inner) (ptype it) (unat (data_size it)) (submsg_desc it)" and "PB_LTYPE (ptype it) \<noteq> PB_LTYPE_SUBMSG_W_CB"
  shows "confined_by (entry_of it) (decode_basic_field inner h wire)"
proof -
  have "confined_by (entry_of it) (pb_dec_submessage inner h it)" if "PB_LTYPE (ptype it) = PB_LTYPE_SUBMESSAGE"
    using assms that safe_dec_submessage by (auto simp: slot_ok_def Let_def split: option.splits)
  then show ?thesis
    unfolding decode_basic_field_def Let_def using assms
    by (intro safe_iter_field safe_if safe_wire_check field_safe safe_dec_bool safe_dec_varint safe_dec_fixed32 safe_dec_fixed64
        safe_dec_bytes safe_dec_string safe_dec_fixed_length_bytes) (auto simp: slot_ok_def)
qed

end
