(* ===== verification/PbDecodeSafe.thy ===== *)
theory PbDecodeSafe
  imports PbDecodeEntry
begin

text \<open>
  Memory safety of the decoder of messages, from fields to messages: whatever the bytes of a message are, decoding it
  ends, reads nothing behind the message and writes nothing outside the structure it decodes into.
\<close>

section \<open>Fields\<close>

text \<open>What an operation on a field keeps: something of the iterator, and the memory outside the structure.\<close>

definition keeps :: "(pb_field_iter \<Rightarrow> bool) \<Rightarrow> nat \<Rightarrow> nat \<Rightarrow> decoder \<Rightarrow> decoder \<Rightarrow> bool" where
  "keeps I lo hi d e \<longleftrightarrow> I (diter d) \<and> I (diter e) \<and> in_message (dstream d) (dstream e) \<and> same_outside lo hi (dmem d) (dmem e)"

interpretation keeps: confinement "keeps I lo hi"
proof
  fix s t u
  assume "keeps I lo hi s t" and "keeps I lo hi t u"
  then show "keeps I lo hi s u"
    using message.R_trans same_outside_trans unfolding keeps_def by blast
next
  fix s t
  assume "keeps I lo hi s t"
  then show "keeps I lo hi t t"
    using message.R_target by (auto simp: keeps_def same_outside_def)
qed

lemma keeps_within: "within it lo' hi' d e \<Longrightarrow> I it \<Longrightarrow> keeps I lo hi d d \<Longrightarrow> lo \<le> lo' \<Longrightarrow> hi' \<le> hi \<Longrightarrow> keeps I lo hi d e"
  by (auto simp: keeps_def within_def same_outside_def)

lemma keeps_mono: "keeps I lo hi d e \<Longrightarrow> (\<And>it. I it \<Longrightarrow> J it) \<Longrightarrow> keeps J lo hi d e"
  by (simp add: keeps_def)

lemma keeps_reading: "confined_by in_message r \<Longrightarrow> confined_by (keeps I lo hi) (reading r)"
  unfolding confined_by_def
proof (intro allI impI)
  fix d
  assume r: "\<forall>s. in_message s s \<longrightarrow> fst (r s) \<noteq> Fault \<and> in_message s (snd (r s))" and d: "keeps I lo hi d d"
  then have "in_message (dstream d) (dstream d)" by (simp add: keeps_def)
  then show "fst (reading r d) \<noteq> Fault \<and> keeps I lo hi d (snd (reading r d))"
    using r d by (cases "r (dstream d)") (force simp: reading_def keeps_def)
qed

lemma keeps_error: "confined_by (keeps I lo hi) (decode_error msg)"
  unfolding decode_error_def by (intro keeps_reading safe_error)

lemma keeps_poke: "lo \<le> b \<Longrightarrow> b + length bs \<le> hi \<Longrightarrow> confined_by (keeps I lo hi) (poke b bs)"
  unfolding confined_by_def
proof (intro allI impI)
  fix d
  assume b: "lo \<le> b" "b + length bs \<le> hi" and d: "keeps I lo hi d d"
  then obtain m where "store_bytes (dmem d) b bs = Some m" "same_outside lo hi (dmem d) m"
    using store_same [OF b] by (force simp: keeps_def same_outside_def)
  then show "fst (poke b bs d) \<noteq> Fault \<and> keeps I lo hi d (snd (poke b bs d))"
    using d by (simp add: poke_def keeps_def)
qed

text \<open>A field of which all entries and the counter are inside the structure, the counter beside the entries.\<close>

definition counter_ok :: "nat \<Rightarrow> nat \<Rightarrow> pb_field_iter \<Rightarrow> bool" where
  "counter_ok lo hi it \<longleftrightarrow>
     (case pSize it of
        NULL_SIZE \<Rightarrow> PB_HTYPE (ptype it) \<noteq> PB_HTYPE_ONEOF \<and> PB_HTYPE (ptype it) \<noteq> PB_HTYPE_REPEATED
      | SIZE_AT c \<Rightarrow> lo \<le> c \<and> c + counter_width (ptype it) \<le> hi
      | ARRAY_SIZE \<Rightarrow> True
      | FIXED_COUNT \<Rightarrow> True)"

definition all_entries :: "pb_field_iter \<Rightarrow> nat" where
  "all_entries it = pField it + entries (ptype it) (data_size it) (array_size it)"

definition ready :: "(pb_msgdesc \<Rightarrow> nat \<Rightarrow> bool) \<Rightarrow> nat \<Rightarrow> nat \<Rightarrow> pb_field_iter \<Rightarrow> bool" where
  "ready sub lo hi it \<longleftrightarrow> lo \<le> pField it \<and> all_entries it \<le> hi \<and>
     slot_ok sub (ptype it) (unat (data_size it)) (submsg_desc it) \<and> PB_LTYPE (ptype it) \<noteq> PB_LTYPE_SUBMSG_W_CB \<and>
     counter_ok lo hi it \<and> pSize it \<noteq> ARRAY_SIZE \<and>
     (\<forall>c. pSize it = SIZE_AT c \<longrightarrow> c + counter_width (ptype it) \<le> pField it \<or> all_entries it \<le> c) \<and>
     (PB_HTYPE (ptype it) \<noteq> PB_HTYPE_REPEATED \<longrightarrow> pData it = pField it)"

text \<open>The iterator stays on its field; only its data pointer moves.\<close>

definition on_same :: "pb_field_iter \<Rightarrow> pb_field_iter \<Rightarrow> bool" where
  "on_same it it' \<longleftrightarrow> it' = it\<lparr>pData := pData it'\<rparr>"

lemma on_same_refl [simp]: "on_same it it"
  by (simp add: on_same_def)

lemma on_same_pData [simp]: "on_same it (it\<lparr>pData := p\<rparr>)"
  by (simp add: on_same_def)

lemma on_same_fields:
  "on_same it it' \<Longrightarrow> ptype it' = ptype it \<and> data_size it' = data_size it \<and> array_size it' = array_size it \<and>
    pField it' = pField it \<and> pSize it' = pSize it \<and> submsg_desc it' = submsg_desc it \<and> tag it' = tag it"
  unfolding on_same_def by (metis pb_field_iter.select_convs pb_field_iter.surjective pb_field_iter.update_convs(12))

text \<open>Only the data pointer of a repeated field moves.\<close>

definition moved :: "pb_field_iter \<Rightarrow> pb_field_iter \<Rightarrow> bool" where
  "moved it it' \<longleftrightarrow> on_same it it' \<and> (PB_HTYPE (ptype it) \<noteq> PB_HTYPE_REPEATED \<longrightarrow> it' = it)"

lemma moved_refl [simp]: "moved it it"
  by (simp add: moved_def)

subsection \<open>The counter\<close>

definition counter :: "decoder \<Rightarrow> u16" where
  "counter d =
     (case pSize (diter d) of SIZE_AT a \<Rightarrow> the (load_word 2 (dmem d) a) | FIXED_COUNT \<Rightarrow> fixed_count_size d | _ \<Rightarrow> 0)"

lemma word_bytes_2: "word_bytes 2 (n :: 'a::len word) = [ucast n, ucast (drop_bit 8 n)]"
  by (simp add: word_bytes_def numeral_2_eq_2)

lemma load_stored_count: "store_bytes m b (word_bytes 2 n) = Some m' \<Longrightarrow> load_word 2 m' b = Some (n :: u16)"
proof -
  assume s: "store_bytes m b (word_bytes 2 n) = Some m'"
  have n: "ucast (ucast n :: u8) OR push_bit 8 (ucast (ucast (drop_bit 8 n) :: u8) :: u16) = n"
    by (rule bit_word_eqI) (auto simp: bit_simps)
  show ?thesis
    using s n by (auto simp: store_bytes_def load_word_def load_bytes_def word_bytes_2 blit_def split: if_splits)
qed

lemma get_counter:
  assumes "counter_ok lo hi (diter d)" and "PB_HTYPE (ptype (diter d)) = PB_HTYPE_REPEATED \<or> PB_HTYPE (ptype (diter d)) = PB_HTYPE_ONEOF"
    and "pSize (diter d) \<noteq> ARRAY_SIZE" and "0 < lo" and "hi \<le> length (dmem d)"
  shows "get_count d = (Done (counter d), d)"
  using assms
  by (auto simp: get_count_def counter_def counter_ok_def counter_width_def fetch_def load_word_def load_bytes_def split: size_pointer.splits)

lemma set_counter:
  assumes "counter_ok lo hi (diter d)" and "PB_HTYPE (ptype (diter d)) = PB_HTYPE_REPEATED \<or> PB_HTYPE (ptype (diter d)) = PB_HTYPE_ONEOF"
    and "pSize (diter d) \<noteq> ARRAY_SIZE" and "0 < lo" and "hi \<le> length (dmem d)"
  shows "\<exists>e. set_count n d = (Done (), e) \<and> counter e = n \<and> diter e = diter d \<and> dstream e = dstream d \<and> same_outside lo hi (dmem d) (dmem e)"
proof (cases "pSize (diter d)")
  case (SIZE_AT c)
  then obtain m where m: "store_bytes (dmem d) c (word_bytes 2 n) = Some m" "same_outside lo hi (dmem d) m"
    using store_same [of lo c "word_bytes 2 n" hi "dmem d"] assms by (auto simp: counter_ok_def counter_width_def)
  then show ?thesis
    using SIZE_AT load_stored_count [OF m(1)] by (simp add: set_count_def poke_def counter_def)
qed (use assms in \<open>simp_all add: counter_ok_def set_count_def counter_def same_outside_refl\<close>)

lemma counter_within:
  assumes "within it b c d e" and "\<forall>a. pSize it = SIZE_AT a \<longrightarrow> a + 2 \<le> b \<or> c \<le> a"
  shows "counter e = counter d"
proof (cases "pSize it")
  case (SIZE_AT a)
  then have "load_bytes (dmem e) a 2 = load_bytes (dmem d) a 2"
    using assms same_outside_load [of b c "dmem d" "dmem e" a 2] by (auto simp: within_def)
  then show ?thesis using assms(1) SIZE_AT by (simp add: within_def counter_def load_word_def)
qed (use assms in \<open>simp_all add: within_def counter_def\<close>)

subsection \<open>Progress\<close>

text \<open>A number takes at least one byte.\<close>

definition eats :: "'a reader \<Rightarrow> bool" where
  "eats r \<longleftrightarrow> (\<forall>s x t. r s = (Done x, t) \<longrightarrow> bytes_left t < bytes_left s)"

definition leaves :: "'a decoding \<Rightarrow> bool" where
  "leaves f \<longleftrightarrow> (\<forall>d x e. f d = (Done x, e) \<longrightarrow> dstream e = dstream d)"

definition takes :: "'a decoding \<Rightarrow> bool" where
  "takes f \<longleftrightarrow> (\<forall>d x e. f d = (Done x, e) \<longrightarrow> bytes_left (dstream e) < bytes_left (dstream d))"

lemma eats_varint_loop: "varint_loop p r s = (Done x, t) \<Longrightarrow> bytes_left t < bytes_left s"
proof (induction p r s rule: varint_loop.induct)
  case (1 p r s)
  obtain q u where q: "pb_readbyte s = (q, u)" by fastforce
  then obtain b where b: "pb_readbyte s = (Done b, u)" using 1(2) by (cases q) (auto simp: pb_bind_def varint_loop.simps [of p r s])
  have "bytes_left u < bytes_left s" by (rule readbyte_left [OF b])
  moreover have "bytes_left t \<le> bytes_left u"
    using 1 b by (auto simp: varint_loop.simps [of p r s] pb_bind_def pb_read_error_def Let_def less_imp_le split: if_splits)
  ultimately show ?case by simp
qed

lemma eats_varint32_loop: "varint32_loop p r s = (Done x, t) \<Longrightarrow> bytes_left t < bytes_left s"
proof (induction p r s rule: varint32_loop.induct)
  case (1 p r s)
  obtain q u where q: "pb_readbyte s = (q, u)" by fastforce
  then obtain b where b: "pb_readbyte s = (Done b, u)" using 1(2) by (cases q) (auto simp: pb_bind_def varint32_loop.simps [of p r s])
  have "bytes_left u < bytes_left s" by (rule readbyte_left [OF b])
  moreover have "bytes_left t \<le> bytes_left u"
    using 1 b by (auto simp: varint32_loop.simps [of p r s] pb_bind_def pb_read_error_def less_imp_le split: if_splits option.splits)
  ultimately show ?case by simp
qed

lemma eats_bind: "eats m \<Longrightarrow> (\<And>x s y t. f x s = (Done y, t) \<Longrightarrow> bytes_left t \<le> bytes_left s) \<Longrightarrow> eats (pb_bind m f)"
  unfolding eats_def pb_bind_def by (fastforce split: prod.splits pb_result.splits intro: order_le_less_trans)

lemma eats_varint: "eats pb_decode_varint"
  by (auto simp: eats_def pb_decode_varint_def dest: eats_varint_loop)

lemma eats_varint32: "eats pb_decode_varint32"
  unfolding pb_decode_varint32_eq
  by (rule eats_bind) (auto simp: eats_def dest: readbyte_left eats_varint32_loop split: if_splits)

lemma eats_read: "0 < n \<Longrightarrow> eats (pb_read n)"
  using read_left unfolding eats_def by (metis diff_less less_le_trans)

lemma eats_numbers: "eats pb_decode_svarint" "eats pb_decode_bool" "eats pb_decode_fixed32" "eats pb_decode_fixed64"
  by (auto simp: pb_decode_svarint_def pb_decode_bool_def pb_decode_fixed32_def pb_decode_fixed64_def pb_return_def
      intro!: eats_bind eats_varint eats_varint32 eats_read)

lemma takes_reading: "eats r \<Longrightarrow> takes (reading r)"
  by (auto simp: eats_def takes_def reading_def split: prod.splits)

lemma takes_bind: "takes m \<Longrightarrow> (\<And>x. leaves (f x)) \<Longrightarrow> takes (pb_bind m f)"
  unfolding takes_def leaves_def pb_bind_def by (fastforce split: prod.splits pb_result.splits)

lemma leaves_intros:
  "leaves (pb_return x)" "leaves (poke b bs)" "leaves (decode_error msg)"
  "leaves f \<Longrightarrow> leaves g \<Longrightarrow> leaves (if c then f else g)"
  by (auto simp: leaves_def pb_return_def poke_def decode_error_def reading_def pb_read_error_def split: option.splits prod.splits)

lemma leaves_bind: "leaves m \<Longrightarrow> (\<And>x. leaves (f x)) \<Longrightarrow> leaves (pb_bind m f)"
  unfolding leaves_def pb_bind_def by (fastforce split: prod.splits pb_result.splits)

lemma takes_error: "takes (decode_error msg)"
  by (simp add: takes_def decode_error_def reading_def pb_read_error_def)

lemma takes_if: "(c \<Longrightarrow> takes f) \<Longrightarrow> (\<not> c \<Longrightarrow> takes g) \<Longrightarrow> takes (if c then f else g)"
  by simp

lemma takes_varint: "takes (pb_dec_varint it)"
  unfolding pb_dec_varint_def store_number_def Let_def
  by (intro takes_if takes_bind takes_reading eats_varint eats_numbers leaves_intros leaves_bind)

lemma small_type: "l \<le> (5 :: u8) \<Longrightarrow> l = 0 \<or> l = 1 \<or> l = 2 \<or> l = 3 \<or> l = 4 \<or> l = 5"
proof -
  assume "l \<le> 5"
  then have "unat l \<le> 5" by (simp add: word_le_nat_alt)
  then have "unat l \<in> {0, 1, 2, 3, 4, 5}" by auto
  then have "of_nat (unat l) \<in> (of_nat ` {0, 1, 2, 3, 4, 5} :: u8 set)" by blast
  then show ?thesis by simp
qed

lemma takes_packable:
  assumes "PB_LTYPE (ptype (diter d)) \<le> PB_LTYPE_LAST_PACKABLE" and "decode_basic_field inner h wire d = (Done (), e)"
  shows "bytes_left (dstream e) < bytes_left (dstream d)"
proof -
  let ?it = "diter d"
  have "takes (pb_dec_bool ?it)" "takes (dec_fixed32 ?it)" "takes (dec_fixed64 ?it)"
    unfolding pb_dec_bool_def dec_fixed32_def dec_fixed64_def by (intro takes_bind takes_reading eats_numbers leaves_intros)+
  then show ?thesis
    using small_type [OF assms(1)] assms(2) takes_varint [of ?it] takes_error [of "''wrong wire type''", where 'a = unit]
    by (auto simp: decode_basic_field_def iter_field_def wire_check_def takes_def split: if_splits)
qed

subsection \<open>Arrays\<close>

lemma counter_stream [simp]: "counter (d\<lparr>dstream := s\<rparr>) = counter d"
  by (simp add: counter_def split: size_pointer.splits)

lemma counter_pData [simp]: "counter (d\<lparr>diter := (diter d)\<lparr>pData := p\<rparr>\<rparr>) = counter d"
  by (simp add: counter_def split: size_pointer.splits)

lemma counter_up: "c < (x :: u16) \<Longrightarrow> unat (c + 1) = Suc (unat c)"
proof -
  assume "c < x"
  then have "unat c + 1 < 65536" unfolding word_less_nat_alt using unat_u16_less [of x] by linarith
  then show ?thesis by (simp add: unat_word_ariths take_bit_nat_eq_self)
qed

lemma ready_on_same:
  "ready sub lo hi it \<Longrightarrow> on_same it it' \<Longrightarrow> PB_HTYPE (ptype it) = PB_HTYPE_REPEATED \<Longrightarrow> ready sub lo hi it'"
  using on_same_fields [of it it'] by (simp add: ready_def all_entries_def counter_ok_def split: size_pointer.splits)

lemma entry_inside:
  assumes "ready sub lo hi it" and "PB_HTYPE (ptype it) = PB_HTYPE_REPEATED" and "c < array_size it"
    and "it' = it\<lparr>pData := pField it + unat (data_size it) * unat c\<rparr>"
  shows "lo \<le> pData it'" and "pField it \<le> pData it'" and "pData it' + unat (data_size it') \<le> all_entries it"
proof -
  have "Suc (unat c) \<le> unat (array_size it)" using assms(3) by (simp add: word_less_nat_alt)
  then have "unat (data_size it) * Suc (unat c) \<le> unat (data_size it) * unat (array_size it)" by (rule mult_le_mono2)
  then show "pData it' + unat (data_size it') \<le> all_entries it" using assms(2,4) by (simp add: all_entries_def entries_def)
  show "lo \<le> pData it'" "pField it \<le> pData it'" using assms(1,4) by (simp_all add: ready_def)
qed

text \<open>One entry of an array.\<close>

lemma array_entry_safe:
  assumes r: "ready (safe_inner inner) lo hi it" and t: "PB_HTYPE (ptype it) = PB_HTYPE_REPEATED"
    and d: "keeps (on_same it) lo hi d d" "diter d = it\<lparr>pData := pField it + unat (data_size it) * unat c\<rparr>" "c < array_size it"
    and f: "decode_basic_field inner h wire d = (q, e)"
  shows "q \<noteq> Fault \<and> keeps (on_same it) lo hi d e \<and> diter e = diter d \<and> counter e = counter d"
proof -
  let ?it = "diter d"
  note inside = entry_inside [OF r t d(3,2)]
  have ok: "slot_ok (safe_inner inner) (ptype ?it) (unat (data_size ?it)) (submsg_desc ?it)" "PB_LTYPE (ptype ?it) \<noteq> PB_LTYPE_SUBMSG_W_CB"
    "all_entries it \<le> hi" using r d(2) by (simp_all add: ready_def)
  have "within ?it (pData ?it) (pData ?it + unat (data_size ?it)) d d"
    using d(1) inside ok(3) by (auto simp: within_def keeps_def same_outside_def)
  then have w: "q \<noteq> Fault \<and> within ?it (pData ?it) (pData ?it + unat (data_size ?it)) d e"
    by (rule confined_byD [OF safe_basic_field [OF ok(1,2)] _ f])
  have "\<forall>a. pSize ?it = SIZE_AT a \<longrightarrow> a + 2 \<le> pData ?it \<or> pData ?it + unat (data_size ?it) \<le> a"
    using r t d(2) inside by (auto simp: ready_def counter_width_def)
  then have "counter e = counter d" using w counter_within by blast
  moreover have "diter e = diter d" using w by (simp add: within_def)
  moreover have "on_same it ?it" "pData ?it + unat (data_size ?it) \<le> hi" using d(2) inside ok(3) by simp_all
  then have "keeps (on_same it) lo hi d e" using w d(1) inside(1) keeps_within by blast
  ultimately show ?thesis using w by simp
qed

lemma packed_loop_safe:
  assumes r: "ready (safe_inner inner) lo hi it" and t: "PB_HTYPE (ptype it) = PB_HTYPE_REPEATED" "PB_LTYPE (ptype it) \<le> PB_LTYPE_LAST_PACKABLE"
  shows "keeps (on_same it) lo hi d d \<Longrightarrow> diter d = it\<lparr>pData := pField it + unat (data_size it) * unat (counter d)\<rparr> \<Longrightarrow>
    bytes_left (dstream d) < n \<Longrightarrow>
    fst (packed_loop (decode_basic_field inner h PB_WT_PACKED) n d) \<noteq> Fault \<and>
    keeps (on_same it) lo hi d (snd (packed_loop (decode_basic_field inner h PB_WT_PACKED) n d))"
proof (induction n arbitrary: d)
  case (Suc n)
  note k = Suc.prems(1) and i = Suc.prems(2)
  have co: "counter_ok lo hi (diter d')" "pSize (diter d') \<noteq> ARRAY_SIZE" "PB_HTYPE (ptype (diter d')) = PB_HTYPE_REPEATED"
    if "on_same it (diter d')" for d'
    using r t on_same_fields [OF that] by (auto simp: ready_def counter_ok_def split: size_pointer.splits)
  have get: "get_count d' = (Done (counter d'), d')" if "keeps (on_same it) lo hi d' d'" for d'
    using that co [of d'] by (intro get_counter [of lo hi]) (auto simp: keeps_def same_outside_def)
  show ?case
  proof (cases "0 < bytes_left (dstream d) \<and> counter d < array_size (diter d)")
    case False
    then have "packed_loop (decode_basic_field inner h PB_WT_PACKED) (Suc n) d = (Done (), d)" by (auto simp: pb_bind_def get [OF k])
    then show ?thesis using k by simp
  next
    case True
    obtain q e where e: "decode_basic_field inner h PB_WT_PACKED d = (q, e)" by fastforce
    have c: "counter d < array_size it" using True i by simp
    note step = array_entry_safe [OF r t(1) k i c e]
    show ?thesis
    proof (cases "q = Done ()")
      case False
      then have "packed_loop (decode_basic_field inner h PB_WT_PACKED) (Suc n) d = (q, e)"
        using True by (simp add: pb_bind_def get [OF k] e split: pb_result.splits)
      then show ?thesis using step by simp
    next
      case q: True
      have kee: "keeps (on_same it) lo hi e e" using step keeps.R_target by blast
      have left: "bytes_left (dstream e) < bytes_left (dstream d)"
        using takes_packable [of d inner h PB_WT_PACKED e] e q t(2) i by simp
      have "on_same it (diter e)" using kee by (simp add: keeps_def)
      then obtain e' where s: "set_count (counter e + 1) e = (Done (), e')" "counter e' = counter e + 1" "diter e' = diter e"
        "dstream e' = dstream e" "same_outside lo hi (dmem e) (dmem e')"
        using set_counter [of lo hi e "counter e + 1"] co [of e] kee by (auto simp: keeps_def same_outside_def)
      let ?d = "e'\<lparr>diter := (diter e')\<lparr>pData := pData (diter e') + unat (data_size (diter e'))\<rparr>\<rparr>"
      have "unat (counter d + 1) = Suc (unat (counter d))" using c by (rule counter_up)
      moreover have "counter ?d = counter d + 1" using s(2) step by (simp only: counter_pData)
      ultimately have i': "diter ?d = it\<lparr>pData := pField it + unat (data_size it) * unat (counter ?d)\<rparr>"
        using s(3) step i by (simp only:) (simp add: algebra_simps)
      have same: "on_same it (diter ?d)" unfolding i' by simp
      have ke': "keeps (on_same it) lo hi e ?d"
        using kee s(4,5) same by (simp add: keeps_def)
      have "packed_loop (decode_basic_field inner h PB_WT_PACKED) (Suc n) d = packed_loop (decode_basic_field inner h PB_WT_PACKED) n ?d"
        using True q e by (simp add: pb_bind_def get [OF k] get [OF kee] s iter_field_def set_pData_def)
      moreover have "bytes_left (dstream ?d) < n" using left Suc.prems(3) s by simp
      ultimately show ?thesis
        using Suc.IH [OF keeps.R_target [OF ke'] i'] step ke' keeps.R_trans by metis
    qed
  qed
qed simp

lemma array_position_ready:
  assumes "ready sub lo hi it" and "PB_HTYPE (ptype it) = PB_HTYPE_REPEATED" and "keeps I lo hi d d" and "diter d = it"
  shows "array_position d = (Done (counter d), d\<lparr>diter := it\<lparr>pData := pField it + unat (data_size it) * unat (counter d)\<rparr>\<rparr>)"
proof -
  have "get_count d = (Done (counter d), d)"
    using assms by (intro get_counter [of lo hi]) (auto simp: ready_def keeps_def same_outside_def)
  then show ?thesis using assms(4) by (simp add: array_position_def pb_bind_def iter_field_def set_pData_def pb_return_def)
qed

lemma keeps_packed:
  assumes r: "ready (safe_inner inner) lo hi it" and t: "PB_HTYPE (ptype it) = PB_HTYPE_REPEATED" "PB_LTYPE (ptype it) \<le> PB_LTYPE_LAST_PACKABLE"
    and k: "keeps (on_same it) lo hi d d" and i: "diter d = it"
  shows "fst (decode_packed inner h d) \<noteq> Fault \<and> keeps (on_same it) lo hi d (snd (decode_packed inner h d))"
proof -
  let ?d = "d\<lparr>diter := it\<lparr>pData := pField it + unat (data_size it) * unat (counter d)\<rparr>\<rparr>"
  have cd: "counter ?d = counter d" using counter_pData [where d = d] i by simp
  have kd: "keeps (on_same it) lo hi ?d ?d" "keeps (on_same it) lo hi d ?d" using k i by (auto simp: keeps_def)
  have "fst (pb_bind (reading pb_make_string_substream) (packed_of inner h) ?d) \<noteq> Fault \<and>
    keeps (on_same it) lo hi ?d (snd (pb_bind (reading pb_make_string_substream) (packed_of inner h) ?d))"
  proof (rule bind_substream_decoding)
    fix sub u
    assume s: "split_stream (dstream ?d) sub u" "in_message sub sub"
    let ?e = "?d\<lparr>dstream := sub\<rparr>"
    have ke: "keeps (on_same it) lo hi ?e ?e" using kd(1) s(2) by (simp add: keeps_def)
    have "counter ?e = counter d" by (simp only: counter_stream cd)
    then have ie: "diter ?e = it\<lparr>pData := pField it + unat (data_size it) * unat (counter ?e)\<rparr>" by (simp only:) simp
    obtain q e where e: "packed_loop (decode_basic_field inner h PB_WT_PACKED) (Suc (bytes_left sub)) ?e = (q, e)" by fastforce
    have "q \<noteq> Fault \<and> keeps (on_same it) lo hi ?e e"
      using packed_loop_safe [OF r t ke, of "Suc (bytes_left sub)" h] ie unfolding e by simp
    then have q: "q \<noteq> Fault" "on_same it (diter e)" "in_message sub (dstream e)" "same_outside lo hi (dmem ?d) (dmem e)"
      by (simp_all add: keeps_def)
    let ?f = "e\<lparr>dstream := u\<rparr>"
    have kf: "keeps (on_same it) lo hi ?d ?f" using q kd(1) split_rest [OF s(1)] by (simp add: keeps_def)
    obtain p v where p: "close_substream q (dstream e) ?f = (p, ?f\<lparr>dstream := v\<rparr>)" "p \<noteq> Fault" "in_message (dstream ?d) v"
      using close_decoding [of "dstream ?d" sub ?f "dstream e" q] s q by auto
    have "fst (decode_error msg ?f :: unit pb_result \<times> decoder) \<noteq> Fault \<and>
      keeps (on_same it) lo hi ?d (snd (decode_error msg ?f :: unit pb_result \<times> decoder))" for msg
    proof (cases "decode_error msg ?f :: unit pb_result \<times> decoder")
      case (Pair x y)
      then show ?thesis
        using confined_byD [OF keeps_error keeps.R_target [OF kf] Pair] keeps.R_trans [OF kf] by simp
    qed
    moreover have "keeps (on_same it) lo hi ?d (?f\<lparr>dstream := v\<rparr>)" using kf p(3) by (simp add: keeps_def)
    ultimately show "fst (packed_of inner h sub (?d\<lparr>dstream := u\<rparr>)) \<noteq> Fault \<and>
        keeps (on_same it) lo hi ?d (snd (packed_of inner h sub (?d\<lparr>dstream := u\<rparr>)))"
      using e p q(1) by (simp add: packed_of_def Let_def del: packed_loop.simps)
  qed (use kd(1) in \<open>simp_all add: keeps_def\<close>)
  then show ?thesis
    using array_position_ready [OF r t(1) k i] kd(2) keeps.R_trans by (auto simp: decode_packed_def pb_bind_def)
qed

lemma keeps_repeated:
  assumes r: "ready (safe_inner inner) lo hi it" and t: "PB_HTYPE (ptype it) = PB_HTYPE_REPEATED"
    and k: "keeps (on_same it) lo hi d d" and i: "diter d = it"
  shows "fst (decode_repeated inner h wire d) \<noteq> Fault \<and> keeps (on_same it) lo hi d (snd (decode_repeated inner h wire d))"
proof -
  let ?it = "it\<lparr>pData := pField it + unat (data_size it) * unat (counter d)\<rparr>"
  let ?d = "d\<lparr>diter := ?it\<rparr>"
  have "counter_ok lo hi (diter ?d)" "pSize (diter ?d) \<noteq> ARRAY_SIZE" "PB_HTYPE (ptype (diter ?d)) = PB_HTYPE_REPEATED"
    using ready_on_same [OF r _ t, of ?it] t by (simp_all add: ready_def)
  then obtain e where e: "set_count (counter d + 1) ?d = (Done (), e)" "diter e = ?it" "dstream e = dstream d"
    "same_outside lo hi (dmem d) (dmem e)"
    using set_counter [of lo hi ?d "counter d + 1"] k by (auto simp: keeps_def same_outside_def)
  have ke: "keeps (on_same it) lo hi d e" using k e by (simp add: keeps_def)
  have run: "decode_repeated inner h wire d =
      (if array_size it \<le> counter d then decode_error ''array overflow'' else decode_basic_field inner h wire) e"
    using e(1,2) by (simp add: decode_repeated_def pb_bind_def array_position_ready [OF r t k i] iter_field_def)
  show ?thesis
  proof (cases "array_size it \<le> counter d")
    case True
    obtain x y where x: "decode_error ''array overflow'' e = (x :: unit pb_result, y)" by fastforce
    then show ?thesis
      using True run confined_byD [OF keeps_error keeps.R_target [OF ke] x] keeps.R_trans [OF ke] by simp
  next
    case False
    obtain q f where f: "decode_basic_field inner h wire e = (q, f)" by fastforce
    have "q \<noteq> Fault \<and> keeps (on_same it) lo hi e f"
      using array_entry_safe [OF r t keeps.R_target [OF ke] e(2) _ f] False by simp
    then show ?thesis using False run f keeps.R_trans [OF ke] by simp
  qed
qed

subsection \<open>Single entries\<close>

text \<open>What holds of the default values of submessages.\<close>

definition safe_defaults :: "defaulter \<Rightarrow> pb_msgdesc \<Rightarrow> nat \<Rightarrow> bool" where
  "safe_defaults defaults sd z \<longleftrightarrow>
     (\<forall>a m r m'. 0 < a \<longrightarrow> a + z \<le> length m \<longrightarrow> submessage_defaults defaults sd a m = (r, m') \<longrightarrow>
        r \<noteq> Fault \<and> same_outside a (a + z) m m')"

definition safe_sub :: "inner \<Rightarrow> defaulter \<Rightarrow> pb_msgdesc \<Rightarrow> nat \<Rightarrow> bool" where
  "safe_sub inner defaults sd z \<longleftrightarrow> safe_inner inner sd z \<and> safe_defaults defaults sd z"

lemma slot_ok_mono: "slot_ok sub t z sd \<Longrightarrow> (\<And>sd z. sub sd z \<Longrightarrow> sub' sd z) \<Longrightarrow> slot_ok sub' t z sd"
  by (auto simp: slot_ok_def Let_def split: option.splits)

lemma ready_inner: "ready (safe_sub inner defaults) lo hi it \<Longrightarrow> ready (safe_inner inner) lo hi it"
  by (auto simp: ready_def safe_sub_def intro: slot_ok_mono)

lemma single_inside: "ready sub lo hi it \<Longrightarrow> PB_HTYPE (ptype it) \<noteq> PB_HTYPE_REPEATED \<Longrightarrow>
    lo \<le> pData it \<and> pData it + unat (data_size it) \<le> hi"
  by (simp add: ready_def all_entries_def entries_def)

abbreviation single :: "pb_field_iter \<Rightarrow> nat \<Rightarrow> nat \<Rightarrow> decoder \<Rightarrow> decoder \<Rightarrow> bool" where
  "single it \<equiv> keeps (\<lambda>x. x = it)"

lemma single_basic:
  assumes r: "ready (safe_inner inner) lo hi it" and t: "PB_HTYPE (ptype it) \<noteq> PB_HTYPE_REPEATED"
  shows "confined_by (single it lo hi) (decode_basic_field inner h wire)"
  unfolding confined_by_def
proof (intro allI impI)
  fix d
  assume d: "single it lo hi d d"
  note inside = single_inside [OF r t]
  have w: "within it (pData it) (pData it + unat (data_size it)) d d"
    using d inside by (auto simp: keeps_def within_def same_outside_def)
  obtain q e where e: "decode_basic_field inner h wire d = (q, e)" by fastforce
  have "q \<noteq> Fault \<and> within it (pData it) (pData it + unat (data_size it)) d e"
    using r by (intro confined_byD [OF safe_basic_field w e]) (auto simp: ready_def)
  then show "fst (decode_basic_field inner h wire d) \<noteq> Fault \<and> single it lo hi d (snd (decode_basic_field inner h wire d))"
    using d inside e keeps_within [of it _ _ d e "\<lambda>x. x = it"] by auto
qed

lemma single_has:
  assumes "ready sub lo hi it" and "PB_HTYPE (ptype it) = PB_HTYPE_OPTIONAL"
  shows "confined_by (single it lo hi) (set_has b)"
  unfolding confined_by_def
proof (intro allI impI)
  fix d
  assume d: "single it lo hi d d"
  show "fst (set_has b d) \<noteq> Fault \<and> single it lo hi d (snd (set_has b d))"
  proof (cases "pSize it")
    case (SIZE_AT c)
    then have "lo \<le> c" "c + length [of_bool b :: u8] \<le> hi" using assms by (simp_all add: ready_def counter_ok_def counter_width_def)
    then have "confined_by (single it lo hi) (poke c [of_bool b])" by (rule keeps_poke)
    then show ?thesis using d SIZE_AT by (auto simp: confined_by_def set_has_def keeps_def)
  qed (use assms d in \<open>auto simp: set_has_def keeps_def ready_def\<close>)
qed

lemma single_count:
  assumes "ready sub lo hi it" and "PB_HTYPE (ptype it) = PB_HTYPE_ONEOF"
  shows "confined_by (single it lo hi) (set_count n)" and "confined_by (single it lo hi) get_count"
proof -
  have *: "counter_ok lo hi (diter d)" "pSize (diter d) \<noteq> ARRAY_SIZE" "PB_HTYPE (ptype (diter d)) = PB_HTYPE_ONEOF" "0 < lo" "hi \<le> length (dmem d)"
    if "single it lo hi d d" for d
    using that assms by (auto simp: keeps_def ready_def same_outside_def)
  show "confined_by (single it lo hi) (set_count n)"
    unfolding confined_by_def
  proof (intro allI impI)
    fix d
    assume d: "single it lo hi d d"
    obtain e where "set_count n d = (Done (), e)" "diter e = diter d" "dstream e = dstream d" "same_outside lo hi (dmem d) (dmem e)"
      using set_counter [of lo hi d n] * [OF d] by auto
    then show "fst (set_count n d) \<noteq> Fault \<and> single it lo hi d (snd (set_count n d))" using d by (simp add: keeps_def)
  qed
  show "confined_by (single it lo hi) get_count"
    unfolding confined_by_def using get_counter * by fastforce
qed

lemma single_defaults:
  assumes "safe_defaults defaults sd z" and "lo \<le> a" and "a + z \<le> hi"
  shows "confined_by (single it lo hi) (in_memory (submessage_defaults defaults sd a))"
  unfolding confined_by_def
proof (intro allI impI)
  fix d
  assume d: "single it lo hi d d"
  obtain r m where m: "submessage_defaults defaults sd a (dmem d) = (r, m)" by fastforce
  have "0 < a" "a + z \<le> length (dmem d)" using d assms by (auto simp: keeps_def same_outside_def)
  then have "r \<noteq> Fault \<and> same_outside a (a + z) (dmem d) m" using assms(1) m unfolding safe_defaults_def by blast
  then show "fst (in_memory (submessage_defaults defaults sd a) d) \<noteq> Fault \<and>
      single it lo hi d (snd (in_memory (submessage_defaults defaults sd a) d))"
    using d m assms(2,3) same_outside_mono [of a "a + z" "dmem d" m lo hi] by (auto simp: in_memory_def keeps_def same_outside_def)
qed

lemma slot_submessage:
  "slot_ok sub t z sd \<Longrightarrow> PB_LTYPE t \<noteq> PB_LTYPE_SUBMSG_W_CB \<Longrightarrow> PB_LTYPE_IS_SUBMSG t \<Longrightarrow> \<exists>d. sd = Some d \<and> sub d z"
  by (auto simp: slot_ok_def PB_LTYPE_IS_SUBMSG_def Let_def split: option.splits)

lemma keeps_or_error: "confined_by (keeps I lo hi) f \<Longrightarrow> confined_by (keeps I lo hi) (or_error msg f)"
  unfolding confined_by_def
proof (intro allI impI)
  fix d
  assume f: "\<forall>s. keeps I lo hi s s \<longrightarrow> fst (f s) \<noteq> Fault \<and> keeps I lo hi s (snd (f s))" and d: "keeps I lo hi d d"
  obtain r e where e: "f d = (r, e)" by fastforce
  then have r: "r \<noteq> Fault" "keeps I lo hi d e" using f d by force+
  obtain x y where x: "decode_error msg e = (x :: unit pb_result, y)" by fastforce
  then have "x \<noteq> Fault \<and> keeps I lo hi d y"
    using confined_byD [OF keeps_error keeps.R_target [OF r(2)] x] keeps.R_trans [OF r(2)] by simp
  then show "fst (or_error msg f d) \<noteq> Fault \<and> keeps I lo hi d (snd (or_error msg f d))"
    using r e x by (cases r) (simp_all add: or_error_def)
qed

lemma single_iter_field: "confined_by (single it lo hi) (f it) \<Longrightarrow> confined_by (single it lo hi) (iter_field f)"
  by (auto simp: confined_by_def iter_field_def keeps_def)

lemmas single_rules = keeps.confined_bind keeps.confined_return keeps_error keeps_or_error safe_if

lemma single_oneof:
  assumes r: "ready (safe_sub inner defaults) lo hi it" and t: "PB_HTYPE (ptype it) = PB_HTYPE_ONEOF"
  shows "confined_by (single it lo hi) (decode_oneof inner defaults h wire)"
proof -
  have inside: "lo \<le> pData it" "pData it + unat (data_size it) \<le> hi" using single_inside [OF r] t by simp_all
  have sub: "confined_by (single it lo hi) (case submsg_desc it of None \<Rightarrow> (\<lambda>d. (Fault, d))
      | Some sd \<Rightarrow> if needs_defaults sd then or_error msg (in_memory (submessage_defaults defaults sd (pData it))) else pb_return ())"
    if sm: "PB_LTYPE_IS_SUBMSG (ptype it)" for msg
  proof -
    obtain sd where "submsg_desc it = Some sd" "safe_sub inner defaults sd (unat (data_size it))"
      using slot_submessage [of "safe_sub inner defaults" "ptype it" "unat (data_size it)" "submsg_desc it"] r sm
      unfolding ready_def by blast
    moreover from this have "confined_by (single it lo hi) (or_error msg (in_memory (submessage_defaults defaults sd (pData it))))"
      using inside by (intro keeps_or_error single_defaults [of _ _ "unat (data_size it)"]) (simp_all add: safe_sub_def)
    ultimately show ?thesis by (simp add: keeps.confined_return)
  qed
  show ?thesis
    unfolding decode_oneof_def
    by (intro single_iter_field single_rules single_count [OF r t] single_basic [OF ready_inner [OF r]] keeps_poke sub)
      (use inside t in simp_all)
qed

lemma htype_cases:
  "PB_HTYPE t = PB_HTYPE_REQUIRED \<or> PB_HTYPE t = PB_HTYPE_OPTIONAL \<or> PB_HTYPE t = PB_HTYPE_REPEATED \<or> PB_HTYPE t = PB_HTYPE_ONEOF"
proof -
  have "(t AND 0x30) = 0 \<or> (t AND 0x30) = 0x10 \<or> (t AND 0x30) = 0x20 \<or> (t AND 0x30) = 0x30" for t :: u8
  proof -
    have "t AND 0x30 = (if bit t 4 then 0x10 else 0) OR (if bit t 5 then 0x20 else 0)"
      unfolding byte_eq all_8 by (auto simp: bit_simps)
    then show ?thesis by (simp split: if_splits)
  qed
  then show ?thesis by (simp add: PB_HTYPE_def)
qed

lemma keeps_static_field:
  assumes r: "ready (safe_sub inner defaults) lo hi it" and k: "keeps (moved it) lo hi d d" and i: "diter d = it"
  shows "fst (decode_static_field inner defaults h wire d) \<noteq> Fault \<and>
    keeps (moved it) lo hi d (snd (decode_static_field inner defaults h wire d))"
proof (cases "PB_HTYPE (ptype it) = PB_HTYPE_REPEATED")
  case True
  have k': "keeps (on_same it) lo hi d d" using k i by (simp add: keeps_def)
  have "fst (decode_static_field inner defaults h wire d) \<noteq> Fault \<and>
      keeps (on_same it) lo hi d (snd (decode_static_field inner defaults h wire d))"
    using True keeps_packed [OF ready_inner [OF r] True _ k' i] keeps_repeated [OF ready_inner [OF r] True k' i] i
    by (simp add: decode_static_field_def iter_field_def)
  then show ?thesis using True by (auto simp: moved_def intro: keeps_mono)
next
  case False
  have "confined_by (single it lo hi) (decode_static_field inner defaults h wire)"
    unfolding decode_static_field_def Let_def
  proof (intro single_iter_field single_rules single_basic [OF ready_inner [OF r] False])
    assume "PB_HTYPE (ptype it) = PB_HTYPE_OPTIONAL"
    then show "confined_by (single it lo hi) (set_has True)" by (rule single_has [OF r])
  next
    assume "PB_HTYPE (ptype it) \<noteq> PB_HTYPE_REQUIRED" and "PB_HTYPE (ptype it) \<noteq> PB_HTYPE_OPTIONAL" and "PB_HTYPE (ptype it) \<noteq> PB_HTYPE_REPEATED"
    then have "PB_HTYPE (ptype it) = PB_HTYPE_ONEOF" using htype_cases [of "ptype it"] by blast
    then show "confined_by (single it lo hi) (decode_oneof inner defaults h wire)" by (rule single_oneof [OF r])
  qed (use False in simp_all)
  moreover have "single it lo hi d d" using k i by (simp add: keeps_def)
  ultimately have "fst (decode_static_field inner defaults h wire d) \<noteq> Fault \<and>
      single it lo hi d (snd (decode_static_field inner defaults h wire d))" by (simp add: confined_by_def)
  then show ?thesis by (auto intro: keeps_mono)
qed

text \<open>A field that can be decoded: static ones have to be ready, and there is no callback.\<close>

definition decodable :: "(pb_msgdesc \<Rightarrow> nat \<Rightarrow> bool) \<Rightarrow> nat \<Rightarrow> nat \<Rightarrow> pb_field_iter \<Rightarrow> bool" where
  "decodable sub lo hi it \<longleftrightarrow> (PB_ATYPE (ptype it) = PB_ATYPE_STATIC \<longrightarrow> ready sub lo hi it) \<and> field_callback (descriptor it) = None"

lemma keeps_field:
  assumes r: "decodable (safe_sub inner defaults) lo hi it" and k: "keeps (moved it) lo hi d d" and i: "diter d = it"
  shows "fst (decode_field inner defaults h wire d) \<noteq> Fault \<and> keeps (moved it) lo hi d (snd (decode_field inner defaults h wire d))"
proof (cases "PB_ATYPE (ptype it) = PB_ATYPE_STATIC")
  case True
  then show ?thesis
    using keeps_static_field [OF _ k i] r i by (simp add: decode_field_def iter_field_def decodable_def)
next
  case False
  have "fst (decode_error msg d :: unit pb_result \<times> decoder) \<noteq> Fault \<and> keeps (moved it) lo hi d (snd (decode_error msg d :: unit pb_result \<times> decoder))" for msg
    using keeps_error [where 'a = unit, of "moved it" lo hi msg] k unfolding confined_by_def by blast
  moreover have "fst (reading (pb_skip_field wire) d) \<noteq> Fault \<and> keeps (moved it) lo hi d (snd (reading (pb_skip_field wire) d))"
    using keeps_reading [OF safe_skip_field, of "moved it" lo hi wire] k unfolding confined_by_def by blast
  ultimately show ?thesis
    using False r i by (simp add: Let_def decode_field_def iter_field_def decodable_def decode_pointer_field_def decode_callback_field_def)
qed

end
