(* ===== verification/PbDecodeMessage.thy ===== *)
theory PbDecodeMessage
  imports PbDecodeSafe
begin

text \<open>
  Memory safety of the decoder, for whole messages: the iterator stands on fields of the layout all the time, the loop
  over the message ends, and nothing outside the structure is written.
\<close>

section \<open>Runs\<close>

text \<open>\<open>runs I lo hi f e Q\<close>: from \<open>e\<close>, \<open>f\<close> does not fault, keeps what \<open>keeps\<close> says, and ends in \<open>Q\<close> if it succeeds.\<close>

definition runs :: "(pb_field_iter \<Rightarrow> bool) \<Rightarrow> nat \<Rightarrow> nat \<Rightarrow> 'a decoding \<Rightarrow> decoder \<Rightarrow> ('a \<Rightarrow> decoder \<Rightarrow> bool) \<Rightarrow> bool" where
  "runs I lo hi f e Q \<longleftrightarrow> (case f e of (r, e') \<Rightarrow> r \<noteq> Fault \<and> keeps I lo hi e e' \<and> (\<forall>x. r = Done x \<longrightarrow> Q x e'))"

lemma runs_bind:
  assumes f: "runs I lo hi f e P" and g: "\<And>x e'. P x e' \<Longrightarrow> keeps I lo hi e e' \<Longrightarrow> keeps I lo hi e' e' \<Longrightarrow> runs I lo hi (g x) e' Q"
  shows "runs I lo hi (pb_bind f g) e Q"
proof (cases "f e")
  case (Pair r e')
  then have e': "r \<noteq> Fault" "keeps I lo hi e e'" "\<And>x. r = Done x \<Longrightarrow> P x e'" using f by (auto simp: runs_def)
  show ?thesis
  proof (cases r)
    case (Done x)
    have "runs I lo hi (g x) e' Q" using g [OF e'(3) [OF Done] e'(2) keeps.R_target [OF e'(2)]] .
    then show ?thesis using Pair Done keeps.R_trans [OF e'(2)] by (auto simp: runs_def pb_bind_def split: prod.splits)
  qed (use Pair e' in \<open>simp_all add: runs_def pb_bind_def\<close>)
qed

lemma runs_return: "keeps I lo hi e e \<Longrightarrow> Q x e \<Longrightarrow> runs I lo hi (pb_return x) e Q"
  by (simp add: runs_def pb_return_def)

lemma runs_confined: "confined_by (keeps I lo hi) f \<Longrightarrow> keeps I lo hi e e \<Longrightarrow> (\<And>x e'. keeps I lo hi e e' \<Longrightarrow> Q x e') \<Longrightarrow> runs I lo hi f e Q"
  unfolding confined_by_def runs_def by (auto split: prod.splits)

lemma runs_safe: "fst (f e) \<noteq> Fault \<and> keeps I lo hi e (snd (f e)) \<Longrightarrow> (\<And>x e'. keeps I lo hi e e' \<Longrightarrow> Q x e') \<Longrightarrow> runs I lo hi f e Q"
  unfolding runs_def by (auto split: prod.splits)

lemma runs_conseq: "runs I lo hi f e P \<Longrightarrow> (\<And>it. I it \<Longrightarrow> J it) \<Longrightarrow> (\<And>x e'. P x e' \<Longrightarrow> keeps I lo hi e e' \<Longrightarrow> Q x e') \<Longrightarrow> runs J lo hi f e Q"
  unfolding runs_def by (auto intro: keeps_mono split: prod.splits)

lemma runs_cong: "f e = g e \<Longrightarrow> runs I lo hi g e Q \<Longrightarrow> runs I lo hi f e Q"
  by (simp add: runs_def)

lemma runs_error: "keeps I lo hi e e \<Longrightarrow> runs I lo hi (decode_error msg) e Q"
  by (auto simp: runs_def decode_error_def reading_def pb_read_error_def keeps_def
      dest!: confined_byD [OF safe_error [of msg]] split: prod.splits)

lemma runs_iter_field: "runs I lo hi (f (diter e)) e Q \<Longrightarrow> runs I lo hi (iter_field f) e Q"
  by (simp add: runs_def iter_field_def)

section \<open>The iterator on a laid out message\<close>

definition seat :: "pb_msgdesc \<Rightarrow> nat \<Rightarrow> nat \<Rightarrow> pb_field_iter \<Rightarrow> bool" where
  "seat d a i it \<longleftrightarrow> placed d a i it \<and>
     (case words_at d i of
        None \<Rightarrow> False
      | Some (arr, t, so, off, sz) \<Rightarrow>
          tag it = t \<and> ptype it = field_type (word0_at d i) \<and> array_size it = arr \<and> data_size it = sz \<and>
          pField it = a + unat off \<and> submsg_desc it = submsg_at d i \<and>
          (PB_ATYPE (ptype it) = PB_ATYPE_STATIC \<and> PB_HTYPE (ptype it) \<noteq> PB_HTYPE_REPEATED \<longrightarrow> pData it = pField it) \<and>
          (if so \<noteq> 0 then pSize it = SIZE_AT (nat (int (pField it) - sint so))
           else if PB_HTYPE (ptype it) = PB_HTYPE_REPEATED \<and>
             (PB_ATYPE (ptype it) = PB_ATYPE_STATIC \<or> PB_ATYPE (ptype it) = PB_ATYPE_POINTER)
           then pSize it = ARRAY_SIZE \<or> pSize it = FIXED_COUNT else pSize it = NULL_SIZE))"

definition seated :: "pb_msgdesc \<Rightarrow> nat \<Rightarrow> pb_field_iter \<Rightarrow> bool" where
  "seated d a it \<longleftrightarrow> (\<exists>i. seat d a i it)"

lemma seat_tag: "seat d a i it \<Longrightarrow> tag it = tag_at d i"
  by (auto simp: seat_def tag_at_def split: option.splits)

lemma seat_words:
  assumes "seat d a i it"
  obtains arr t so off sz where "words_at d i = Some (arr, t, so, off, sz)"
  using assms by (auto simp: seat_def split: option.splits)

lemma seat_moved: "seat d a i it \<Longrightarrow> 0 < a \<Longrightarrow> moved it it' \<Longrightarrow> seat d a i it'"
proof -
  assume s: "seat d a i it" and a: "0 < a" and m: "moved it it'"
  obtain p where e: "it' = it\<lparr>pData := p\<rparr>" using m by (auto simp: moved_def on_same_def)
  show ?thesis
    using s a m unfolding e by (auto simp: seat_def placed_def moved_def split: option.splits prod.splits)
qed

lemma seat_fixed_count:
  "seat d a i it \<Longrightarrow> PB_HTYPE (ptype it) = PB_HTYPE_REPEATED \<Longrightarrow> pSize it = ARRAY_SIZE \<Longrightarrow> seat d a i (it\<lparr>pSize := FIXED_COUNT\<rparr>)"
  by (auto simp: seat_def placed_def split: option.splits prod.splits if_splits)

lemma field_pointers_values: "field_pointers m so off it = Some it' \<Longrightarrow> msg_base it \<noteq> 0 \<Longrightarrow>
    array_size it' = array_size it \<and> data_size it' = data_size it \<and> pField it' = msg_base it + unat off \<and>
    (PB_ATYPE (ptype it) \<noteq> PB_ATYPE_POINTER \<longrightarrow> pData it' = pField it') \<and>
    pSize it' = (if so \<noteq> 0 then SIZE_AT (nat (int (pField it') - sint so))
       else if PB_HTYPE (ptype it) = PB_HTYPE_REPEATED \<and>
         (PB_ATYPE (ptype it) = PB_ATYPE_STATIC \<or> PB_ATYPE (ptype it) = PB_ATYPE_POINTER) then ARRAY_SIZE else NULL_SIZE)"
  unfolding field_pointers_def Let_def by (cases "load_pointer m (msg_base it + unat off)") (auto split: if_splits)

lemma field_submsg_values: "field_submsg it = Some it' \<Longrightarrow>
    array_size it' = array_size it \<and> data_size it' = data_size it \<and> pField it' = pField it \<and> pSize it' = pSize it \<and>
    submsg_desc it' = (if PB_LTYPE_IS_SUBMSG (ptype it) then elem_at (submsg_info (descriptor it)) (unat (submessage_index it)) else None)"
  by (auto simp: field_submsg_def split: if_splits)

lemma on_field_seat:
  assumes "wf_desc d" and "readable m d a" and i: "i < n_fields d" and a: "0 < a"
  shows "seat d a i (on_field m d a i)"
proof -
  obtain f r s where e: "start_of d i = (f, r, s)" and s: "s < 65536" using wf_desc_field [OF assms(1) i] by metis
  have "words_at d i \<noteq> None" using assms(1) i by (auto simp: wf_desc_def)
  then obtain arr t so off sz where w: "words_at d i = Some (arr, t, so, off, sz)" by (metis option.exhaust prod_cases5)
  define it0 where "it0 = (blank d a i)\<lparr>ptype := field_type (word0_at d i), array_size := arr, tag := t, data_size := sz\<rparr>"
  have "field_pointers m so off it0 \<bind> (\<lambda>it. field_submsg it \<bind> (\<lambda>it. Some (True, it))) = Some (True, on_field m d a i)"
    using load_blank_eq [OF assms(1) i w, of m a] load_blank(1) [OF assms(1-3)] by (simp add: it0_def)
  then obtain it1 where 1: "field_pointers m so off it0 = Some it1" and 2: "field_submsg it1 = Some (on_field m d a i)"
    by (auto simp: bind_eq_Some_conv)
  have b: "msg_base it0 = a" "descriptor it0 = d" "submessage_index it0 = of_nat s" "ptype it0 = field_type (word0_at d i)"
    "array_size it0 = arr" "data_size it0 = sz" "tag it0 = t" by (simp_all add: it0_def blank_def e)
  have "msg_base it0 \<noteq> 0" using a b(1) by simp
  note v1 = field_pointers_values [OF 1 this] field_pointers_keeps [OF 1]
  note v2 = field_submsg_values [OF 2] field_submsg_keeps [OF 2]
  have "submsg_desc (on_field m d a i) = submsg_at d i"
    using v1 v2 b s by (simp add: submsg_at_def e unat_of_nat_u16)
  then show ?thesis
    unfolding seat_def using load_blank(2) [OF assms(1-3)] v1 v2 b w by (simp, blast)
qed

text \<open>The layout with safe operations on submessages.\<close>

definition message_ok :: "inner \<Rightarrow> defaulter \<Rightarrow> pb_msgdesc \<Rightarrow> nat \<Rightarrow> bool" where
  "message_ok inner defaults d z \<longleftrightarrow> wf_desc d \<and> default_value d = None \<and> field_callback d = None \<and>
     (\<forall>i<n_fields d. field_laid_out (safe_sub inner defaults) d z i)"

lemma message_readable:
  assumes "message_ok inner defaults d z" and "a + z \<le> length m"
  shows "readable m d a"
proof (rule readableI)
  fix i arr t so off sz
  assume "i < n_fields d" and "words_at d i = Some (arr, t, so, off, sz)" and "PB_ATYPE (field_type (word0_at d i)) = PB_ATYPE_POINTER"
  then have "unat off + 4 \<le> z" using assms(1) by (auto simp: message_ok_def field_laid_out_def values_laid_out_def Let_def)
  then show "a + unat off + 4 \<le> length m" using assms(2) by simp
qed (use assms(1) in \<open>simp add: message_ok_def\<close>)

text \<open>What the layout says of the iterator.\<close>

lemma seat_type:
  assumes "message_ok inner defaults d z" and "seat d a i it"
  shows "i < n_fields d" and "descriptor it = d" and "field_laid_out (safe_sub inner defaults) d z i"
    and "PB_LTYPE (ptype it) \<noteq> PB_LTYPE_EXTENSION"
  using assms by (auto simp: message_ok_def seat_def placed_def field_laid_out_def values_laid_out_def Let_def split: option.splits)

lemma seat_counter:
  assumes ok: "message_ok inner defaults d z" and s: "seat d a i it" and t: "PB_ATYPE (ptype it) = PB_ATYPE_STATIC \<or> PB_ATYPE (ptype it) = PB_ATYPE_POINTER"
  shows "counter_ok a (a + z) it"
proof -
  obtain arr tg so off sz where w: "words_at d i = Some (arr, tg, so, off, sz)" using seat_words [OF s] .
  have ty: "ptype it = field_type (word0_at d i)" "pField it = a + unat off" using s w by (simp_all add: seat_def)
  have l: "so \<noteq> 0 \<Longrightarrow> 0 \<le> int (unat off) - sint so \<and> int (unat off) - sint so + int (counter_width (ptype it)) \<le> int z"
    "PB_HTYPE (ptype it) = PB_HTYPE_ONEOF \<Longrightarrow> so \<noteq> 0"
    using seat_type(3) [OF ok s] w t ty(1) unfolding field_laid_out_def values_laid_out_def Let_def by auto
  show ?thesis
  proof (cases "so = 0")
    case True
    then show ?thesis using s w t l(2) by (auto simp: seat_def counter_ok_def split: if_splits)
  next
    case False
    then have "pSize it = SIZE_AT (nat (int (pField it) - sint so))" using s w by (simp add: seat_def)
    then show ?thesis using l(1) [OF False] ty(2) by (simp add: counter_ok_def) linarith
  qed
qed

lemma counter_beside:
  "0 \<le> int u - s \<Longrightarrow> int u - s + int w \<le> int u \<or> int (u + n) \<le> int u - s \<Longrightarrow> c = nat (int (a + u) - s) \<Longrightarrow>
    c + w \<le> a + u \<or> a + u + n \<le> c"
  by linarith

lemma seat_ready:
  assumes ok: "message_ok inner defaults d z" and s: "seat d a i it" and t: "PB_ATYPE (ptype it) = PB_ATYPE_STATIC" and p: "pSize it \<noteq> ARRAY_SIZE"
  shows "ready (safe_sub inner defaults) a (a + z) it"
proof -
  obtain arr tg so off sz where w: "words_at d i = Some (arr, tg, so, off, sz)" using seat_words [OF s] .
  have v: "ptype it = field_type (word0_at d i)" "pField it = a + unat off" "data_size it = sz" "array_size it = arr"
    "submsg_desc it = submsg_at d i" "PB_HTYPE (ptype it) \<noteq> PB_HTYPE_REPEATED \<longrightarrow> pData it = pField it"
    using s w t by (simp_all add: seat_def)
  have l: "unat off + entries (ptype it) sz arr \<le> z" "slot_ok (safe_sub inner defaults) (ptype it) (unat sz) (submsg_at d i)"
    "PB_LTYPE (ptype it) \<noteq> PB_LTYPE_SUBMSG_W_CB"
    "so \<noteq> 0 \<Longrightarrow> 0 \<le> int (unat off) - sint so" 
    "so \<noteq> 0 \<Longrightarrow> int (unat off) - sint so + int (counter_width (ptype it)) \<le> int (unat off) \<or>
      int (unat off + entries (ptype it) sz arr) \<le> int (unat off) - sint so"
    using seat_type(3) [OF ok s] w t v(1) unfolding field_laid_out_def values_laid_out_def Let_def by auto
  have "c + counter_width (ptype it) \<le> pField it \<or> all_entries it \<le> c" if "pSize it = SIZE_AT c" for c
  proof -
    have so: "so \<noteq> 0" "c = nat (int (pField it) - sint so)" using s w that by (auto simp: seat_def split: if_splits)
    show ?thesis using counter_beside [OF l(4,5) [OF so(1)], of c a] so(2) v by (simp add: all_entries_def)
  qed
  then show ?thesis using seat_counter [OF ok s] t p l(1-3) v by (simp add: ready_def all_entries_def)
qed

lemma seat_decodable:
  assumes ok: "message_ok inner defaults d z" and s: "seat d a i it" and p: "pSize it \<noteq> ARRAY_SIZE"
  shows "decodable (safe_sub inner defaults) a (a + z) it"
  using seat_ready [OF ok s _ p] seat_type(2) [OF ok s] ok by (simp add: decodable_def message_ok_def)

section \<open>Moving the iterator\<close>

lemma message_memory:
  assumes "message_ok inner defaults d z" and "keeps I a (a + z) e e'"
  shows "0 < a" and "wf_desc d" and "readable (dmem e) d a"
  using assms message_readable [OF assms(1), of a "dmem e"] by (simp_all add: keeps_def same_outside_def message_ok_def)

lemma find_runs:
  assumes ok: "message_ok inner defaults d z" and k: "keeps (seated d a) a (a + z) e e"
  shows "runs (seated d a) a (a + z) (move_iter (\<lambda>m. pb_field_iter_find m tg)) e (\<lambda>_ _. True)"
proof -
  note mem = message_memory [OF ok k]
  obtain i where s: "seat d a i (diter e)" using k by (auto simp: keeps_def seated_def)
  have on: "seated d a (on_field (dmem e) d a j)" if "j < n_fields d" for j
    using on_field_seat [OF mem(2,3) that mem(1)] by (auto simp: seated_def)
  have p: "placed d a i (diter e)" "i < n_fields d" using s by (auto simp: seat_def placed_def)
  have here: "seated d a (diter e)" using s by (auto simp: seated_def)
  obtain b it where "pb_field_iter_find (dmem e) tg (diter e) = Some (b, it)" "seated d a it"
    using find_placed [OF mem(2,3) p(1) seat_tag [OF s], of tg] p(2) on here
    by (auto simp: find_result_def find_Some_iff split: if_splits option.splits)
  then show ?thesis using k by (simp add: runs_def move_iter_def keeps_def)
qed

lemma no_extension_runs:
  assumes ok: "message_ok inner defaults d z" and k: "keeps (seated d a) a (a + z) e e"
  shows "runs (seated d a) a (a + z) (move_iter pb_field_iter_find_extension) e (\<lambda>found _. \<not> found)"
proof -
  note mem = message_memory [OF ok k]
  obtain i where s: "seat d a i (diter e)" using k by (auto simp: keeps_def seated_def)
  have p: "placed d a i (diter e)" "i < n_fields d" using s by (auto simp: seat_def placed_def)
  have "PB_LTYPE (field_type (word0_at d j)) \<noteq> PB_LTYPE_EXTENSION" if "j < n_fields d" for j
    using ok that by (auto simp: message_ok_def field_laid_out_def values_laid_out_def Let_def split: option.splits)
  then have "pb_field_iter_find_extension (dmem e) (diter e) = Some (False, on_field (dmem e) d a i)"
    using seat_type(4) [OF ok s] by (intro find_no_extension [OF mem(2,3) p(1)])
  moreover have "seated d a (on_field (dmem e) d a i)"
    using on_field_seat [OF mem(2,3) p(2) mem(1)] by (auto simp: seated_def)
  ultimately show ?thesis using k by (simp add: runs_def move_iter_def keeps_def)
qed

section \<open>One field of a message\<close>

lemma unknown_runs:
  assumes ok: "message_ok inner defaults d z" and k: "keeps (seated d a) a (a + z) e e" and p: "extensions p = 0"
  shows "runs (seated d a) a (a + z) (unknown_field h wire tg p) e (\<lambda>p' _. extensions p' = 0)"
  unfolding unknown_field_def
proof (rule runs_bind)
  let ?f = "\<lambda>p. if extensions p = 0 then p\<lparr>extension_range_start := - 1\<rparr> else p"
  show "runs (seated d a) a (a + z)
     (if extension_range_start p = 0
      then pb_bind (move_iter pb_field_iter_find_extension) (\<lambda>found.
             pb_bind (iter_field (\<lambda>it.
               if found
               then pb_bind (fetch (\<lambda>m. load_pointer m (pData it)))
                      (\<lambda>e. pb_return (p\<lparr>extensions := e, extension_range_start := ucast (tag it)\<rparr>))
               else pb_return p)) (\<lambda>p. pb_return (?f p)))
      else pb_return p) e (\<lambda>p' _. extensions p' = 0)"
  proof (cases "extension_range_start p = 0")
    case True
    have "runs (seated d a) a (a + z) (pb_bind (iter_field (\<lambda>it. if found then f it else pb_return p)) (\<lambda>p. pb_return (?f p))) e'
        (\<lambda>p' _. extensions p' = 0)" if "\<not> found" "keeps (seated d a) a (a + z) e' e'" for f found e'
      using that p by (intro runs_bind [where P = "\<lambda>p' _. extensions p' = 0"] runs_iter_field) (simp_all add: runs_return)
    then show ?thesis using True by (simp add: runs_bind [OF no_extension_runs [OF ok k]])
  qed (use k p in \<open>simp add: runs_return\<close>)
next
  fix p' e'
  assume p': "extensions p' = 0" and k': "keeps (seated d a) a (a + z) e' e'"
  have "runs (seated d a) a (a + z) (pb_bind (reading (pb_skip_field wire)) (\<lambda>_. pb_return p')) e' (\<lambda>p' _. extensions p' = 0)"
    using p' keeps.R_target by (intro runs_bind [OF runs_confined [OF keeps_reading [OF safe_skip_field] k', where Q = "\<lambda>_ _. True"]] runs_return) auto
  then show "runs (seated d a) a (a + z)
     (\<lambda>d. pb_bind (if extension_range_start p' \<le> tg \<and> extensions p' \<noteq> 0
                then (\<lambda>d. case extension_decoder h (extensions p') tg wire (dmem d) (dstream d) of
                            (r, m, s) \<Rightarrow> (r, d\<lparr>dmem := m, dstream := s\<rparr>))
                else pb_return ()) (\<lambda>_ e.
         if bytes_left (dstream e) \<noteq> bytes_left (dstream d) then (Done p', e)
         else pb_bind (reading (pb_skip_field wire)) (\<lambda>_. pb_return p') e) d) e' (\<lambda>p' _. extensions p' = 0)"
    using p' by (simp add: runs_def pb_bind_def [of "pb_return ()"] pb_return_def [of "()"])
qed

lemma fixed_count_runs:
  assumes k: "keeps (seated d a) a (a + z) e e"
  shows "runs (seated d a) a (a + z) (fixed_count p) e (\<lambda>p' e'. extensions p' = extensions p \<and> pSize (diter e') \<noteq> ARRAY_SIZE)"
proof -
  obtain i where s: "seat d a i (diter e)" using k by (auto simp: keeps_def seated_def)
  show ?thesis
  proof (cases "PB_HTYPE (ptype (diter e)) = PB_HTYPE_REPEATED \<and> pSize (diter e) = ARRAY_SIZE")
    case True
    have *: "seated d a ((diter e)\<lparr>pSize := FIXED_COUNT\<rparr>)" using seat_fixed_count [OF s] True by (auto simp: seated_def)
    show ?thesis
    proof (cases "fixed_count_field p \<noteq> index (diter e) \<and> incomplete p e")
      case stop: True
      then show ?thesis using True by (intro runs_cong [OF _ runs_error [OF k]]) (simp add: fixed_count_def)
    next
      case False
      then show ?thesis using * True k by (auto simp: fixed_count_def Let_def runs_def keeps_def)
    qed
  next
    case False
    then have "pSize (diter e) \<noteq> ARRAY_SIZE" using s by (auto simp: seat_def split: option.splits if_splits)
    then show ?thesis using False k by (auto simp: fixed_count_def Let_def runs_def)
  qed
qed

lemma field_runs:
  assumes ok: "message_ok inner defaults d z" and k: "keeps (seated d a) a (a + z) e e" and p: "pSize (diter e) \<noteq> ARRAY_SIZE"
  shows "runs (seated d a) a (a + z) (decode_field inner defaults h wire) e (\<lambda>_ _. True)"
proof -
  obtain i where s: "seat d a i (diter e)" using k by (auto simp: keeps_def seated_def)
  have a: "0 < a" by (rule message_memory(1) [OF ok k])
  have "keeps (moved (diter e)) a (a + z) e e" using k by (simp add: keeps_def)
  then have "runs (moved (diter e)) a (a + z) (decode_field inner defaults h wire) e (\<lambda>_ _. True)"
    by (intro runs_safe keeps_field [OF seat_decodable [OF ok s p] _ refl]) simp_all
  then show ?thesis by (rule runs_conseq) (use seat_moved [OF s a] in \<open>auto simp: seated_def\<close>)
qed

lemma tagged_runs:
  assumes ok: "message_ok inner defaults d z" and k: "keeps (seated d a) a (a + z) e e" and p: "extensions p = 0"
  shows "runs (seated d a) a (a + z) (decode_tagged h (decode_field inner defaults h) wire tg p) e (\<lambda>p' _. extensions p' = 0)"
  unfolding decode_tagged_def
proof (intro runs_bind [OF find_runs [OF ok k]] runs_iter_field)
  fix found e'
  assume k': "keeps (seated d a) a (a + z) e' e'"
  have "runs (seated d a) a (a + z) (pb_bind (fixed_count p) (\<lambda>p. pb_bind (decode_field inner defaults h wire) (\<lambda>_. pb_return (seen_required it p)))) e'
      (\<lambda>p' _. extensions p' = 0)" for it
    using p by (intro runs_bind [OF fixed_count_runs [OF k']] runs_bind [OF field_runs [OF ok]] runs_return)
      (auto simp: seen_required_def Let_def)
  then show "runs (seated d a) a (a + z) (if \<not> found \<or> PB_LTYPE (ptype (diter e')) = PB_LTYPE_EXTENSION then unknown_field h wire tg p
      else pb_bind (fixed_count p) (\<lambda>p. pb_bind (decode_field inner defaults h wire) (\<lambda>_. pb_return (seen_required (diter e') p)))) e'
      (\<lambda>p' _. extensions p' = 0)"
    using unknown_runs [OF ok k' p] by simp
qed

section \<open>The loop over a message\<close>

lemma in_message_left: "in_message s t \<Longrightarrow> bytes_left t \<le> bytes_left s"
  by (auto simp: in_message_def)

lemma eats_tag: "eats read_tag"
  unfolding read_tag_eq by (rule eats_bind [OF eats_varint32]) (simp add: pb_return_def)

lemma tag_step:
  assumes "in_message s s" and "pb_decode_tag s = ((r, t), eof)"
  shows "r \<noteq> Fault \<and> in_message s t \<and> (\<forall>x. r = Done x \<longrightarrow> bytes_left t < bytes_left s)"
proof -
  have "read_tag s = (r, t)" using assms(2) by (simp add: read_tag_def)
  then show ?thesis using confined_byD [OF safe_tag assms(1)] eats_tag unfolding eats_def by blast
qed

lemma loop_runs:
  assumes ok: "message_ok inner defaults d z"
  shows "keeps (seated d a) a (a + z) e e \<Longrightarrow> extensions p = 0 \<Longrightarrow> bytes_left (dstream e) < n \<Longrightarrow>
    runs (seated d a) a (a + z) (decode_loop h (decode_field inner defaults h) flags n p) e (\<lambda>_ _. True)"
proof (induction n arbitrary: e p)
  case (Suc n)
  obtain r s eof where tag: "pb_decode_tag (dstream e) = ((r, s), eof)" by (metis surj_pair)
  have "in_message (dstream e) (dstream e)" using Suc.prems(1) by (simp add: keeps_def)
  note step = tag_step [OF this tag]
  let ?e = "e\<lparr>dstream := s\<rparr>"
  have ke: "keeps (seated d a) a (a + z) e ?e" using Suc.prems(1) step by (simp add: keeps_def)
  note kee = keeps.R_target [OF ke]
  have rest: "runs (seated d a) a (a + z) (pb_bind (decode_tagged h (decode_field inner defaults h) wire tg p)
      (decode_loop h (decode_field inner defaults h) flags n)) ?e (\<lambda>_ _. True)" if "bytes_left s < n" for wire tg
  proof (rule runs_bind [OF tagged_runs [OF ok kee Suc.prems(2)]])
    fix p' :: progress and e'
    assume "extensions p' = 0" and k: "keeps (seated d a) a (a + z) ?e e'" and k': "keeps (seated d a) a (a + z) e' e'"
    moreover have "bytes_left (dstream e') < n" using that k in_message_left by (fastforce simp: keeps_def)
    ultimately show "runs (seated d a) a (a + z) (decode_loop h (decode_field inner defaults h) flags n p') e' (\<lambda>_ _. True)"
      by (intro Suc.IH)
  qed
  have trans: "runs (seated d a) a (a + z) f ?e (\<lambda>_ _. True) \<Longrightarrow>
      runs (seated d a) a (a + z) (\<lambda>_. f ?e) e (\<lambda>_ _. True)" for f :: "progress decoding"
    using keeps.R_trans [OF ke] by (auto simp: runs_def split: prod.splits)
  show ?case
  proof (cases "bytes_left (dstream e) = 0")
    case True
    then show ?thesis using Suc.prems(1) by (simp add: runs_def)
  next
    case False
    note run = runs_cong [of "decode_loop h (decode_field inner defaults h) flags (Suc n) p" e, OF _ trans]
    show ?thesis
    proof (cases r)
      case Failed
      then show ?thesis using False tag ke by (simp add: runs_def)
    next
      case Fault
      then show ?thesis using step by simp
    next
      case (Done x)
      then obtain wire tg where x: "r = Done (wire, tg)" by (cases x) simp
      have left: "bytes_left s < n" using step Done Suc.prems(3) by simp
      show ?thesis
      proof (cases "tg = 0")
        case True
        then show ?thesis
          using False tag x run [OF _ runs_error [OF kee], of "''zero tag''"] ke by (auto simp: runs_def)
      next
        case tg: False
        then show ?thesis using False tag x by (intro run [OF _ rest [OF left, of wire tg]]) simp
      qed
    qed
  qed
qed simp

section \<open>Default values\<close>

lemma set_count_keeps:
  assumes "counter_ok lo hi (diter e)" and "PB_HTYPE (ptype (diter e)) = PB_HTYPE_REPEATED \<or> PB_HTYPE (ptype (diter e)) = PB_HTYPE_ONEOF"
    and k: "keeps I lo hi e e" and "\<And>n. I ((diter e)\<lparr>array_size := n\<rparr>)"
  shows "fst (set_count n e) \<noteq> Fault \<and> keeps I lo hi e (snd (set_count n e))"
proof (cases "pSize (diter e) = ARRAY_SIZE")
  case True
  then show ?thesis using assms by (simp add: set_count_def keeps_def)
next
  case False
  obtain e' where "set_count n e = (Done (), e')" "diter e' = diter e" "dstream e' = dstream e" "same_outside lo hi (dmem e) (dmem e')"
    using set_counter [OF assms(1,2) False, of n] k by (auto simp: keeps_def same_outside_def)
  then show ?thesis using k by (simp add: keeps_def)
qed

lemma init_safe:
  assumes r: "ready (safe_sub inner defaults) lo hi it" and t: "PB_HTYPE (ptype it) \<noteq> PB_HTYPE_REPEATED"
  shows "confined_by (single it lo hi) (init_data defaults it)"
proof -
  have inside: "lo \<le> pData it" "pData it + unat (data_size it) \<le> hi" using single_inside [OF r t] by simp_all
  have zero: "confined_by (single it lo hi) (poke (pData it) (replicate (unat (data_size it)) 0))"
    using inside by (intro keeps_poke) simp_all
  show ?thesis
  proof (cases "PB_LTYPE_IS_SUBMSG (ptype it)")
    case True
    then obtain sd where sd: "submsg_desc it = Some sd" "safe_sub inner defaults sd (unat (data_size it))"
      using slot_submessage [of "safe_sub inner defaults" "ptype it" "unat (data_size it)" "submsg_desc it"] r
      unfolding ready_def by blast
    then have "confined_by (single it lo hi) (in_memory (submessage_defaults defaults sd (pData it)))"
      using inside by (intro single_defaults [of _ _ "unat (data_size it)"]) (simp_all add: safe_sub_def)
    then show ?thesis using True zero sd(1) by (simp add: init_data_def)
  qed (use zero in \<open>simp add: init_data_def\<close>)
qed

lemma single_runs:
  assumes "confined_by (single (diter e) lo hi) f" and "keeps I lo hi e e"
  shows "runs I lo hi f e (\<lambda>_ e'. diter e' = diter e)"
proof (rule runs_conseq [where P = "\<lambda>_ _. True"])
  show "runs (\<lambda>x. x = diter e) lo hi f e (\<lambda>_ _. True)"
    using assms by (intro runs_confined) (simp_all add: keeps_def)
qed (use assms(2) in \<open>simp_all add: keeps_def\<close>)

lemma set_default_runs:
  assumes ok: "message_ok inner defaults d z" and s: "seat d a i (diter e)" and k: "keeps (placed d a i) a (a + z) e e"
  shows "runs (placed d a i) a (a + z) (pb_field_set_to_default defaults h) e (\<lambda>_ _. True)"
  unfolding pb_field_set_to_default_def
proof (rule runs_iter_field)
  let ?it = "diter e"
  let ?counted = "PB_HTYPE (ptype ?it) = PB_HTYPE_REPEATED \<or> PB_HTYPE (ptype ?it) = PB_HTYPE_ONEOF"
  have arr: "placed d a i (it\<lparr>array_size := n\<rparr>)" if "placed d a i it" for it n using that by (simp add: placed_def)
  have count: "runs (placed d a i) a (a + z) (set_count 0) e' (\<lambda>_ _. True)"
    if "PB_ATYPE (ptype ?it) = PB_ATYPE_STATIC \<or> PB_ATYPE (ptype ?it) = PB_ATYPE_POINTER" "?counted"
      "diter e' = ?it" "keeps (placed d a i) a (a + z) e' e'" for e'
    using seat_counter [OF ok s] that arr by (intro runs_safe set_count_keeps) (simp_all add: keeps_def)
  have weak: "runs (placed d a i) a (a + z) f e (\<lambda>_ _. True)" if "confined_by (single ?it a (a + z)) f" for f :: "unit decoding"
    by (rule runs_conseq [OF single_runs [OF that k]]) simp_all
  have type: "PB_LTYPE (ptype ?it) \<noteq> PB_LTYPE_EXTENSION" by (rule seat_type(4) [OF ok s])
  consider "PB_ATYPE (ptype ?it) = PB_ATYPE_STATIC" | "PB_ATYPE (ptype ?it) = PB_ATYPE_POINTER"
    | "PB_ATYPE (ptype ?it) \<noteq> PB_ATYPE_STATIC" "PB_ATYPE (ptype ?it) \<noteq> PB_ATYPE_POINTER" by blast
  then show "runs (placed d a i) a (a + z) (let counted = ?counted in
      if PB_LTYPE (ptype ?it) = PB_LTYPE_EXTENSION then
        pb_bind (fetch (\<lambda>m. load_pointer m (pData ?it))) (\<lambda>p. if p = 0 then pb_return () else in_memory (extension_default h p))
      else if PB_ATYPE (ptype ?it) = PB_ATYPE_STATIC then
        (if PB_HTYPE (ptype ?it) = PB_HTYPE_OPTIONAL \<and> pSize ?it \<noteq> NULL_SIZE
         then pb_bind (set_has False) (\<lambda>_. init_data defaults ?it)
         else if counted then set_count 0 else init_data defaults ?it)
      else if PB_ATYPE (ptype ?it) = PB_ATYPE_POINTER then
        pb_bind (poke (pField ?it) (word_bytes 4 (0 :: u32))) (\<lambda>_. if counted then set_count 0 else pb_return ())
      else pb_return ()) e (\<lambda>_ _. True)"
  proof cases
    case 1
    have "ready (safe_sub inner defaults) a (a + z) ?it" if "\<not> ?counted"
      using that s by (intro seat_ready [OF ok s 1]) (auto simp: seat_def split: option.splits if_splits)
    note ready = this init_safe [OF this] single_has [OF this]
    then have "confined_by (single ?it a (a + z)) (pb_bind (set_has False) (\<lambda>_. init_data defaults ?it))"
      if "PB_HTYPE (ptype ?it) = PB_HTYPE_OPTIONAL" using that by (intro keeps.confined_bind) simp_all
    then show ?thesis using 1 type count [OF _ _ refl k] ready(2) weak by simp
  next
    case 2
    obtain arr t so off sz where "words_at d i = Some (arr, t, so, off, sz)" using seat_words [OF s] .
    then have "a \<le> pField ?it" "pField ?it + 4 \<le> a + z"
      using seat_type(3) [OF ok s] s 2 by (auto simp: field_laid_out_def values_laid_out_def seat_def Let_def)
    then have "confined_by (single ?it a (a + z)) (poke (pField ?it) (word_bytes 4 (0 :: u32)))" by (intro keeps_poke) simp_all
    then have "runs (placed d a i) a (a + z) (pb_bind (poke (pField ?it) (word_bytes 4 (0 :: u32)))
        (\<lambda>_. if ?counted then set_count 0 else pb_return ())) e (\<lambda>_ _. True)"
      using count 2 by (intro runs_bind [OF single_runs [OF _ k]]) (auto intro: runs_return)
    then show ?thesis using 2 type by simp
  next
    case 3
    then show ?thesis using type k by (simp add: runs_return)
  qed
qed

text \<open>The loop over the fields, with no default value left to decode.\<close>

definition somewhere :: "pb_msgdesc \<Rightarrow> nat \<Rightarrow> pb_field_iter \<Rightarrow> bool" where
  "somewhere d a it \<longleftrightarrow> (\<exists>i. placed d a i it)"

lemma next_runs:
  assumes ok: "message_ok inner defaults d z" and k: "keeps (somewhere d a) a (a + z) e e" and p: "placed d a i (diter e)"
  shows "runs (somewhere d a) a (a + z) (move_iter pb_field_iter_next) e
    (\<lambda>again e'. again = (Suc i < n_fields d) \<and> seat d a (Suc i mod n_fields d) (diter e'))"
proof -
  note mem = message_memory [OF ok k]
  have "Suc i mod n_fields d < n_fields d" using p by (simp add: placed_def)
  note seat = on_field_seat [OF mem(2,3) this mem(1)]
  then have "somewhere d a (on_field (dmem e) d a (Suc i mod n_fields d))" by (auto simp: seat_def somewhere_def)
  then show ?thesis using next_placed [OF mem(2,3) p] seat k by (simp add: runs_def move_iter_def keeps_def)
qed

lemma defaults_runs:
  assumes ok: "message_ok inner defaults d z"
  shows "keeps (somewhere d a) a (a + z) e e \<Longrightarrow> seat d a i (diter e) \<Longrightarrow> i < n_fields d \<Longrightarrow> n_fields d - i \<le> n \<Longrightarrow>
    runs (somewhere d a) a (a + z) (defaults_loop (pb_field_set_to_default defaults h) field n (w, 0)) e (\<lambda>_ e'. seated d a (diter e'))"
proof (induction n arbitrary: e i)
  case (Suc n)
  have "placed d a i (diter e)" using Suc.prems(2) by (simp add: seat_def)
  then have k: "keeps (placed d a i) a (a + z) e e" using Suc.prems(1) by (simp add: keeps_def)
  have one: "runs (somewhere d a) a (a + z) (pb_field_set_to_default defaults h) e (\<lambda>_ e'. placed d a i (diter e'))"
    by (rule runs_conseq [OF set_default_runs [OF ok Suc.prems(2) k]]) (auto simp: somewhere_def keeps_def)
  have two: "runs (somewhere d a) a (a + z) (iter_field (\<lambda>it. if (0 :: u32) \<noteq> 0 \<and> ucast (tag it) = (0 :: u32)
      then pb_bind (field w) (\<lambda>_. pb_bind next_tag (\<lambda>t. pb_bind (set_has False) (\<lambda>_. pb_return t))) else pb_return (w, 0))) e'
      (\<lambda>t e'. t = (w, 0) \<and> placed d a i (diter e'))"
    if "keeps (somewhere d a) a (a + z) e' e'" "placed d a i (diter e')" for e'
    using that by (intro runs_iter_field) (simp add: runs_return)
  have "runs (somewhere d a) a (a + z) (if again then defaults_loop (pb_field_set_to_default defaults h) field n (w, 0) else pb_return ()) e'
      (\<lambda>_ e'. seated d a (diter e'))"
    if "again = (Suc i < n_fields d) \<and> seat d a (Suc i mod n_fields d) (diter e')" "keeps (somewhere d a) a (a + z) e' e'" for again e'
  proof (cases again)
    case True
    then show ?thesis using that Suc.IH [of e' "Suc i"] Suc.prems(4) by simp
  next
    case False
    then show ?thesis using that by (auto simp: seated_def intro: runs_return)
  qed
  then show ?case
    unfolding defaults_loop.simps by (intro runs_bind [OF one] runs_bind [OF two] runs_bind [OF next_runs [OF ok]]) auto
qed simp

lemma set_to_defaults_safe:
  assumes ok: "message_ok inner defaults d z" and a: "0 < a" "a + z \<le> length m" and s: "seat d a 0 it"
    and r: "pb_message_set_to_defaults inner defaults h it m = (r, e)"
  shows "r \<noteq> Fault \<and> same_outside a (a + z) m (dmem e) \<and> (r = Done () \<longrightarrow> seated d a (diter e))"
proof -
  let ?e = "\<lparr>dmem = m, dstream = pb_istream_from_buffer [] 0, diter = it, fixed_count_size = 0\<rparr>"
  have n: "0 < n_fields d" "descriptor it = d" and p: "somewhere d a it" using s by (auto simp: seat_def placed_def somewhere_def)
  have "in_message (dstream ?e) (dstream ?e)" by (simp add: in_message_def pb_istream_from_buffer_def)
  then have "keeps (somewhere d a) a (a + z) ?e ?e" using a p by (simp add: keeps_def same_outside_refl)
  then have "runs (somewhere d a) a (a + z) (defaults_loop (pb_field_set_to_default defaults h) (decode_field inner defaults h) (n_fields d) (PB_WT_VARINT, 0)) ?e
      (\<lambda>_ e'. seated d a (diter e'))"
    using s n(1) by (intro defaults_runs [OF ok, of _ _ 0]) simp_all
  then show ?thesis
    using r ok n(2) by (auto simp: pb_message_set_to_defaults_def message_ok_def runs_def keeps_def split: prod.splits)
qed

section \<open>Whole messages\<close>

lemma begin_seat:
  assumes ok: "message_ok inner defaults d z" and a: "0 < a" "a + z \<le> length m"
  shows "pb_field_iter_begin m d a = Some (True, on_field m d a 0) \<and> seat d a 0 (on_field m d a 0)"
proof -
  have wf: "wf_desc d" "0 < n_fields d" using ok by (simp_all add: message_ok_def wf_desc_def)
  note rd = message_readable [OF ok a(2)]
  show ?thesis
    using on_field_seat [OF wf(1) rd wf(2) a(1)] load_blank(1) [OF wf(1) rd wf(2)] by (simp add: pb_field_iter_begin_def blank_def)
qed

lemma defaults_safe:
  assumes ok: "message_ok (pb_decode_inner h k) (message_defaults h k) d z"
  shows "safe_defaults (message_defaults h (Suc k)) d z"
  unfolding safe_defaults_def
proof (intro allI impI)
  fix a m r m'
  assume a: "0 < a" "a + z \<le> length m" and r: "submessage_defaults (message_defaults h (Suc k)) d a m = (r, m')"
  obtain q e where q: "pb_message_set_to_defaults (pb_decode_inner h k) (message_defaults h k) h (on_field m d a 0) m = (q, e)" by fastforce
  then show "r \<noteq> Fault \<and> same_outside a (a + z) m m'"
    using r begin_seat [OF ok a] set_to_defaults_safe [OF ok a _ q] by (simp add: submessage_defaults_def)
qed

lemma runs_or_error: "runs I lo hi f e Q \<Longrightarrow> runs I lo hi (or_error msg f) e Q"
proof -
  assume f: "runs I lo hi f e Q"
  obtain r e' where e': "f e = (r, e')" by fastforce
  have "r \<noteq> Fault" "keeps I lo hi e e'" using f e' by (simp_all add: runs_def)
  moreover have "runs I lo hi (decode_error msg :: unit decoding) e' (\<lambda>_ _. False)" using calculation(2) keeps.R_target by (intro runs_error) blast
  ultimately show ?thesis
    using f e' keeps.R_trans by (cases r) (auto simp: runs_def or_error_def split: prod.splits)
qed

lemma checks_runs:
  assumes k: "keeps I lo hi e e"
  shows "runs I lo hi (decode_checks d p) e (\<lambda>_ _. True)"
proof -
  consider "decode_checks d p e = pb_return () e" | msg where "decode_checks d p e = decode_error msg e"
    unfolding decode_checks_def pb_return_def by (metis (full_types))
  then show ?thesis
    by cases (auto intro: runs_cong runs_return [OF k] runs_error [OF k])
qed

lemma message_safe:
  assumes ok: "message_ok inner defaults d z"
  shows "safe_inner (decode_message inner defaults h) d z"
  unfolding safe_inner_def
proof (intro allI impI)
  fix flags a m s r m' s'
  assume st: "in_message s s" and a: "0 < a" "a + z \<le> length m" and r: "decode_message inner defaults h flags d a m s = (r, m', s')"
  let ?it = "on_field m d a 0"
  let ?d = "\<lparr>dmem = m, dstream = s, diter = ?it, fixed_count_size = 0\<rparr>"
  let ?p = "\<lparr>extension_range_start = 0, extensions = 0, fixed_count_field = 65535, fixed_count_total_size = 0, fields_seen = [0, 0]\<rparr>"
  let ?top = "runs (\<lambda>_. True) a (a + z)"
  note start = begin_seat [OF ok a]
  have k: "keeps (\<lambda>_. True) a (a + z) ?d ?d" using st a by (simp add: keeps_def same_outside_refl)
  have reset: "?top (\<lambda>d. case pb_message_set_to_defaults inner defaults h ?it m of (r, e) \<Rightarrow> (r, d\<lparr>dmem := dmem e, diter := diter e\<rparr>)) ?d
      (\<lambda>_ e. seated d a (diter e) \<and> bytes_left (dstream e) \<le> bytes_left s)"
    using st start set_to_defaults_safe [OF ok a, of ?it h] by (auto simp: runs_def keeps_def split: prod.splits)
  have first: "?top (if flags AND PB_DECODE_NOINIT = 0 then or_error ''failed to set defaults''
      (\<lambda>d. case pb_message_set_to_defaults inner defaults h ?it m of (r, e) \<Rightarrow> (r, d\<lparr>dmem := dmem e, diter := diter e\<rparr>))
      else pb_return ()) ?d (\<lambda>_ e. seated d a (diter e) \<and> bytes_left (dstream e) \<le> bytes_left s)"
  proof (cases "flags AND PB_DECODE_NOINIT = 0")
    case False
    have "seated d a ?it" using start by (auto simp: seated_def)
    then show ?thesis using False k by (simp add: runs_return)
  qed (use runs_or_error [OF reset] in simp)
  have "?top (pb_bind (decode_loop h (decode_field inner defaults h) flags (Suc (bytes_left s)) ?p) (decode_checks d)) e (\<lambda>_ _. True)"
    if "seated d a (diter e) \<and> bytes_left (dstream e) \<le> bytes_left s" "keeps (\<lambda>_. True) a (a + z) e e" for e
  proof (rule runs_bind)
    have "keeps (seated d a) a (a + z) e e" using that by (simp add: keeps_def)
    then show "?top (decode_loop h (decode_field inner defaults h) flags (Suc (bytes_left s)) ?p) e (\<lambda>_ _. True)"
      using that by (intro runs_conseq [OF loop_runs [OF ok]]) simp_all
  qed (rule checks_runs)
  then have "?top (pb_bind (if flags AND PB_DECODE_NOINIT = 0 then or_error ''failed to set defaults''
      (\<lambda>d. case pb_message_set_to_defaults inner defaults h ?it m of (r, e) \<Rightarrow> (r, d\<lparr>dmem := dmem e, diter := diter e\<rparr>))
      else pb_return ())
      (\<lambda>_. pb_bind (decode_loop h (decode_field inner defaults h) flags (Suc (bytes_left s)) ?p) (decode_checks d))) ?d (\<lambda>_ _. True)"
    by (rule runs_bind [OF first])
  then show "r \<noteq> Fault \<and> same_outside a (a + z) m m' \<and> in_message s s'"
    using r start by (auto simp: decode_message_def runs_def keeps_def Let_def split: prod.splits)
qed

lemma field_laid_out_mono: "field_laid_out sub d z i \<Longrightarrow> (\<And>d z. sub d z \<Longrightarrow> sub' d z) \<Longrightarrow> field_laid_out sub' d z i"
  by (auto simp: field_laid_out_def values_laid_out_def Let_def intro: slot_ok_mono split: option.splits)

text \<open>By induction on the depth.\<close>

lemma laid_out_safe: "laid_out k d z \<Longrightarrow> safe_sub (pb_decode_inner h k) (message_defaults h k) d z"
proof (induction k arbitrary: d z)
  case (Suc k)
  have "message_ok (pb_decode_inner h k) (message_defaults h k) d z"
    using Suc by (auto simp: message_ok_def intro: field_laid_out_mono)
  then show ?case using message_safe defaults_safe by (simp add: safe_sub_def)
qed simp

section \<open>Properties\<close>

text \<open>C4.  Whatever bytes a message consists of, decoding it into a structure that is laid out as its descriptor says ends
without a fault: nothing behind the message is read, at most the message is consumed, and no byte of the memory outside
the structure is changed.  Descriptors have no default values, callbacks and extensions, as the generated ones; the layout has \<open>k\<close> levels of messages, which the decoder is given too.\<close>

theorem decode_is_memory_safe:
  assumes "laid_out k d z" and "bytes_left s \<le> length (istate s)" and "0 < a" and "a + z \<le> length m"
  shows "case pb_decode h k d a m s of (r, m', s') \<Rightarrow>
    r \<noteq> Fault \<and> in_message s s' \<and> length m' = length m \<and> (\<forall>i. i < a \<or> a + z \<le> i \<longrightarrow> m' ! i = m ! i)"
proof -
  have "in_message s s" using assms(2) by (auto simp: in_message_def intro: exI [of _ 0])
  moreover have "safe_inner (pb_decode_inner h k) d z" using laid_out_safe [OF assms(1)] by (simp add: safe_sub_def)
  ultimately show ?thesis
    using assms(3,4) by (auto simp: pb_decode_def same_outside_def dest!: safe_innerD split: prod.splits)
qed

end
