(* ===== verification/PbRoute.thy ===== *)
theory PbRoute
  imports PbDecodeMessage PbDesc
begin

text \<open>
  The layout of a message from its field list, and the answer to the activation request of
  \<^verbatim>\<open>src/ql_application/App_XD/nanopb/route_pb.h\<close>, a message with a submessage.
\<close>

section \<open>Layout from a field list\<close>

lemma submsg_bind:
  assumes "specs_ok fs" and i: "i < length fs"
  shows "submsg_at (PB_BIND fs) i = fs_submsg (fs ! i)"
proof -
  have ok: "\<forall>f\<in>set fs. spec_ok f" using assms(1) by (simp add: specs_ok_def)
  have f: "spec_ok (fs ! i)" using ok i by simp
  have ty: "field_type (word0_at (PB_BIND fs) i) = fs_type (fs ! i)" by (rule words_bind(2) [OF ok i])
  show ?thesis
  proof (cases "fs_submsg (fs ! i)")
    case None
    then show ?thesis using f ty by (simp add: submsg_at_def spec_ok_def)
  next
    case (Some sd)
    have "snd (snd (start_of (PB_BIND fs) i)) = submsgs_before fs i" using start_of_bind [OF ok, of i] i by auto
    moreover have "submsg_info (PB_BIND fs) = concat (map PB_GEN_SUBMSG_INFO (take i fs)) @ PB_GEN_SUBMSG_INFO (fs ! i) @
        concat (map PB_GEN_SUBMSG_INFO (drop (Suc i) fs))"
      unfolding PB_BIND_def pb_msgdesc.sel by (subst (1) id_take_nth_drop [OF i]) simp
    ultimately show ?thesis
      using f ty Some by (simp add: submsg_at_def spec_ok_def elem_at_def submsgs_before_def PB_GEN_SUBMSG_INFO_def nth_append)
  qed
qed

lemma laid_out_bind:
  assumes "specs_ok fs" and "\<And>f. f \<in> set fs \<Longrightarrow> values_laid_out (laid_out k) z (fs_type f) (spec_values f) (fs_submsg f)"
  shows "laid_out (Suc k) (PB_BIND fs) z"
proof -
  have ok: "\<forall>f\<in>set fs. spec_ok f" using assms(1) by (simp add: specs_ok_def)
  have "field_laid_out (laid_out k) (PB_BIND fs) z i" if i: "i < length fs" for i
    using words_bind(1,2) [OF ok i] submsg_bind [OF assms(1) i] assms(2) i by (simp add: field_laid_out_def)
  then show ?thesis using wf_bind [OF assms(1)] by (simp add: PB_BIND_def)
qed

section \<open>Model: the answer to the activation\<close>

definition activeRspData_FIELDLIST :: "field_spec list" where
  "activeRspData_FIELDLIST =
     [PB_GEN_FIELD_INFO_AUTO PB_ATYPE_POINTER PB_HTYPE_OPTIONAL PT_STRING 1 0 1 0 1 None,
      PB_GEN_FIELD_INFO_AUTO PB_ATYPE_POINTER PB_HTYPE_OPTIONAL PT_STRING 2 4 1 0 1 None,
      PB_GEN_FIELD_INFO_AUTO PB_ATYPE_STATIC PB_HTYPE_OPTIONAL PT_INT64 3 8 8 0 1 None,
      PB_GEN_FIELD_INFO_AUTO PB_ATYPE_POINTER PB_HTYPE_OPTIONAL PT_STRING 4 16 1 0 1 None,
      PB_GEN_FIELD_INFO_AUTO PB_ATYPE_POINTER PB_HTYPE_OPTIONAL PT_STRING 5 20 1 0 1 None]"

definition activeRspData_msg :: pb_msgdesc where
  "activeRspData_msg = PB_BIND activeRspData_FIELDLIST"

text \<open>\<open>has_data\<close> is eight bytes in front of \<open>data\<close>.\<close>

definition activeRsp_FIELDLIST :: "field_spec list" where
  "activeRsp_FIELDLIST =
     [PB_GEN_FIELD_INFO_AUTO PB_ATYPE_STATIC PB_HTYPE_OPTIONAL PT_BOOL 1 0 1 0 1 None,
      PB_GEN_FIELD_INFO_AUTO PB_ATYPE_STATIC PB_HTYPE_OPTIONAL PT_INT32 2 2 2 0 1 None,
      PB_GEN_FIELD_INFO_AUTO PB_ATYPE_POINTER PB_HTYPE_OPTIONAL PT_STRING 3 4 1 0 1 None,
      PB_GEN_FIELD_INFO_AUTO PB_ATYPE_STATIC PB_HTYPE_OPTIONAL PT_MESSAGE 4 16 24 8 1 (Some activeRspData_msg)]"

definition activeRsp_msg :: pb_msgdesc where
  "activeRsp_msg = PB_BIND activeRsp_FIELDLIST"

lemma active_specs_ok: "specs_ok activeRspData_FIELDLIST" "specs_ok activeRsp_FIELDLIST"
  by (simp_all add: activeRspData_FIELDLIST_def activeRsp_FIELDLIST_def auto_field specs_ok_def spec_ok_def PB_FIELDINFO_ASSERT_def
      PB_FITS_def PB_LTYPE_IS_SUBMSG_def PB_LTYPE_def push_bit_eq_mult)

lemmas layout_defs = values_laid_out_def spec_values_def slot_ok_def entries_def counter_width_def PB_LTYPE_def PB_HTYPE_def PB_ATYPE_def auto_field

lemma activeRspData_laid_out: "laid_out (Suc k) activeRspData_msg 24"
  unfolding activeRspData_msg_def
proof (rule laid_out_bind [OF active_specs_ok(1)])
  fix f
  assume "f \<in> set activeRspData_FIELDLIST"
  then show "values_laid_out (laid_out k) 24 (fs_type f) (spec_values f) (fs_submsg f)"
    by (auto simp: activeRspData_FIELDLIST_def layout_defs)
qed

lemma activeRsp_laid_out: "laid_out (Suc (Suc k)) activeRsp_msg 40"
  unfolding activeRsp_msg_def
proof (rule laid_out_bind [OF active_specs_ok(2)])
  fix f
  assume "f \<in> set activeRsp_FIELDLIST"
  then show "values_laid_out (laid_out (Suc k)) 40 (fs_type f) (spec_values f) (fs_submsg f)"
    using activeRspData_laid_out [of k] by (auto simp: activeRsp_FIELDLIST_def layout_defs simp del: laid_out.simps)
qed

section \<open>An answer\<close>

definition no_hooks :: decode_hooks where
  "no_hooks = \<lparr>field_decoder = (\<lambda>_ _ m s. (Failed, m, s)), message_decoder = (\<lambda>_. None),
     extension_decoder = (\<lambda>_ _ _ m s. (Failed, m, s)), extension_default = (\<lambda>_ m. (Failed, m))\<rparr>"

text \<open>\<open>success\<close>, a \<open>code\<close> of 200, data with \<open>t = 7\<close>, and a field that is not known.\<close>

definition active_answer :: pb_istream where
  "active_answer = pb_istream_from_buffer [8, 1, 16, 200, 1, 34, 2, 24, 7, 50, 1, 65] 12"

definition active_memory :: memory where
  "active_memory = replicate 52 9"

lemma decode_is_memory_safe_witness:
  "case pb_decode no_hooks 2 activeRsp_msg 8 active_memory active_answer of (r, m', s') \<Rightarrow>
     r \<noteq> Fault \<and> in_message active_answer s' \<and> length m' = 52 \<and> m' ! 7 = 9 \<and> m' ! 48 = 9"
proof -
  have "laid_out 2 activeRsp_msg 40" using activeRsp_laid_out [of 0] by (simp only: numeral_2_eq_2)
  moreover have "bytes_left active_answer \<le> length (istate active_answer)"
    by (simp add: active_answer_def pb_istream_from_buffer_def)
  moreover have "8 + 40 \<le> length active_memory" "length active_memory = 52" "active_memory ! 7 = 9" "active_memory ! 48 = 9"
    by (simp_all add: active_memory_def)
  ultimately show ?thesis
    using decode_is_memory_safe [of 2 activeRsp_msg 40 active_answer 8 active_memory no_hooks] by (auto split: prod.splits)
qed

end
