(* ===== verification/Spec2Isabelle.thy ===== *)
theory Spec2Isabelle
  imports Crc Base64 Md5 AesModes SimUart ConnectCorrect NetCorrect PbMessage PbRoute
begin

text \<open>
  The verification of the application layer \<^verbatim>\<open>src/ql_application/App_XD\<close> of the BK7238 SDK: the firmware of a
  charging controller that talks to its server through a 4G module on a serial line.

  \<^bold>\<open>The program and its parts.\<close>  The work process (\<^verbatim>\<open>net4G_work_process\<close> of \<^verbatim>\<open>netlink/app_net4g.c\<close>) is called again and
  again.  It switches the module on, configures it by AT commands, activates the device and asks for its broker by HTTP
  requests through the module, logs in to the broker, and then keeps the connection: a round reads the serial line into
  a ring, takes commands and reports of the module out of it, queues the messages of the cloud, decrypts them (AES-128)
  and hands them to \<^verbatim>\<open>RspAnalyze\<close> for slots, cubbies, configuration, device, update and low power; messages of the device
  are queued and published in a dialogue of prompt and acknowledgement.  Requests are signed with MD5, payloads are
  protocol buffers (\<^verbatim>\<open>nanopb/\<close>), firmware images and frames carry CRCs (\<^verbatim>\<open>secrypto/\<close>), and a UART simulated by timer
  interrupts (\<^verbatim>\<open>system/xd_simulate_485_uart.c\<close>) connects the slave boards.

  \<^bold>\<open>Theories.\<close>
  \<^item> \<open>Prelude\<close>: C integers as words, buffers as lists, \<open>blit\<close>, shared lemmas; \<open>CString\<close>: the string functions of the C
    library on buffers that need a terminator; \<open>Ring\<close>: the ring buffers used three times, as a locale interpreted by the
    receive ring, the queue of received messages and the queue of messages to publish.
  \<^item> \<open>Crc\<close> (\<^verbatim>\<open>app_crc.c\<close>), \<open>HexTool\<close> (\<^verbatim>\<open>app_security_string_tool.c\<close>), \<open>Base64\<close> (\<^verbatim>\<open>app_security_base64.c\<close>), \<open>Md5\<close>
    (\<^verbatim>\<open>app_security_md5.c\<close>), \<open>Aes\<close> and \<open>AesModes\<close> (\<^verbatim>\<open>app_security_aes.c\<close>): round trips, error detection, incremental
    use.  \<open>SimUart\<close>: the interrupt handlers of the simulated UART as a machine and its loop-back.
  \<^item> \<open>PbStream\<close>, \<open>PbWire\<close>: streams and wire format of nanopb (\<^verbatim>\<open>pb_encode.c\<close>, \<^verbatim>\<open>pb_decode.c\<close>); \<open>PbCodec\<close>, \<open>PbCodec32\<close>,
    \<open>PbCorrect\<close>: every encoder with its decoder is a codec (a locale), numbers and strings are read back;  \<open>PbSafe\<close>: readers
    stay in the message and writers in the buffer (the locale \<open>confinement\<close>).  \<open>PbIter\<close>, \<open>PbFind\<close>: descriptors and the
    field iterator (\<^verbatim>\<open>pb_common.c\<close>), whose search is a linear search.  \<open>PbDesc\<close>: the macros of \<^verbatim>\<open>pb.h\<close> that pack a
    descriptor, and that the iterator unpacks it.  \<open>PbEncode\<close>: the encoder of messages; \<open>PbMessage\<close>: it implements
    \<open>message_bytes\<close>, the wire format as a function of the message.  \<open>PbDecode\<close>: the decoder of messages,
    with \<open>PbDecodeEntry\<close> (entries), \<open>PbDecodeSafe\<close> (fields) and \<open>PbDecodeMessage\<close> (messages): on a structure that is \<open>laid_out\<close>
    it does not fault, whatever the bytes are.  \<open>PbRoute\<close>: a field list gives the layout; the answer to the activation.
  \<^item> \<open>AtTables\<close>: command and step tables and the texts of the commands; \<open>AtParse\<close>, \<open>AtKeywords\<close>: values out of responses;
    \<open>AtSteps\<close>: the step machines all processes share; \<open>AtDevice\<close>: the state of the device and the exchange of one command
    with the module; \<open>AtCallbacks\<close>, \<open>AtCell\<close>: the callbacks that store what the module answers; \<open>AtConfig\<close>: the
    configuration process; \<open>AtConnect\<close>, \<open>ConnectCorrect\<close>: activation, routing, login and cell requests.
  \<^item> \<open>RecvFifo\<close>, \<open>RecvCmd\<close>, \<open>RecvRound\<close>: received bytes, the commands found in them, and what a round of the receiver
    promises; \<open>PubQueue\<close>, \<open>PubDialogue\<close>: the queue of messages to publish and its dialogue with the module.
  \<^item> \<open>CloudState\<close>, \<open>CloudSlot\<close>, \<open>CloudConfig\<close>, \<open>CloudRsp\<close>: the commands of the cloud; \<open>NetComm\<close>, \<open>CommCorrect\<close>: the
    connected device; \<open>NetWork\<close>, \<open>NetCorrect\<close>: the work process and the abstract machine of seven steps it refines.

  \<^bold>\<open>How the model stands for the code.\<close>  A C array is the list of its elements, a structure is a record with its members,
  an enumeration is a datatype, an integer is a word of its width where it can wrap.  A function takes the state and
  gives the new one.  An access outside an array, an undefined result or a loop that does not end is \<open>None\<close> (in the
  nanopb runtime \<open>Fault\<close>, beside \<open>Failed\<close> for the return of \<^verbatim>\<open>false\<close>); a theorem that gives \<open>Some\<close> or \<open>Done\<close> therefore says
  that none of this happens.  What arrives from outside is an argument: the answers of the module in \<open>AtDevice\<close> and
  \<open>RecvCmd\<close>, and the operations of code that is not in the sources (flash, HTTP answers and decoded messages, the
  download of an image, power switches) as the fields of \<open>cloud_env\<close>, \<open>cloud_msgs\<close> and \<open>work_env\<close>.  The callbacks an
  application may give to nanopb are the fields of \<open>pb_hooks\<close> and \<open>decode_hooks\<close>.

  \<^bold>\<open>Bounds and fuel.\<close>  The searches in received bytes take as much fuel as there are bytes and one more, and every round
  takes a byte.  The number of rounds within which a process ends is proved and not chosen: the lengths of the step
  tables, 1602 calls for a publish dialogue, 11003 calls for an update, 2000, 10000 or 300000 calls with the module off.
  The loops of number decoders and of the iterator are recursions whose end is proved.  \<open>k\<close> in \<open>pb_encode\<close> and
  \<open>pb_decode_inner\<close> bounds the depth of nested messages, which a descriptor fixes; the loop over the fields has the
  number of fields as fuel, and the loops over the bytes of a message the number of bytes and one.

  \<^bold>\<open>Hypotheses about code that is not in the sources.\<close>  \<open>downloads_only\<close>: a download changes nothing but what belongs to it.
  The order of the work steps is that of the cases of the \<^verbatim>\<open>switch\<close>, since their enumeration is missing.  Payloads are
  decrypted in software (\<^verbatim>\<open>AES128_ECB_HARD\<close> is 0).  The message that nanopb encodes does not overlap the output buffer;
  memory is little-endian, pointers have 32 bits, and streams are smaller than \<open>2 ^ 31\<close> bytes where this is stated.

  \<^bold>\<open>Not modelled.\<close>  Printing, delays and the switching of pins.  The message lists of nanopb other than in \<open>PbDesc\<close> and \<open>PbRoute\<close>, which use the
  macros modelled here; extensions and allocation of nanopb, which the configuration and the messages do not use;
  conversions of \<^verbatim>\<open>double\<close> and UTF-8 validation, which are switched off.  The demos of the SDK, the vendored libraries
  (curl, littlefs, lwIP, mbedtls, \<^verbatim>\<open>wpa_supplicant\<close>, FreeRTOS) and the register definitions and drivers of the chip, which are
  other people's code or closed libraries.
\<close>

end
